(* ===== verification/Tnt_Prelude.thy ===== *)
theory Tnt_Prelude
  imports Main "HOL-Library.Word"
begin

text \<open>
  Shared vocabulary of the development: the machine integers of the C sources, byte strings,
  C pointers to heap blocks, big-endian numbers, and the generic facts on lists, options and
  words that the component theories use.

  Conventions.  A \<open>const char *\<close> that points into an immutable buffer is the list of bytes from
  there to the end of the buffer; \<open>q - p\<close> is then a difference of lengths.  A (pointer, length)
  pair that is only read is a list of bytes.  \<open>size_t\<close> values that are sizes of objects in
  memory are \<open>nat\<close>; \<open>uint32_t\<close> and \<open>uint64_t\<close> fields keep their width as words; \<open>ssize_t\<close> and
  \<open>int\<close> results are \<open>int\<close>, with \<open>-1\<close> for failure as in the sources.
\<close>

named_theorems tnt_defs \<open>unfolding rules of small model operations\<close>
named_theorems wf_intros \<open>preservation rules of the well-formedness invariants\<close>

type_synonym byte = "8 word"
type_synonym u8 = "8 word"
type_synonym u32 = "32 word"
type_synonym u64 = "64 word"
type_synonym bytes = "byte list"

text \<open>A C pointer to a heap block: null, a live block with its contents, or dangling.\<close>

datatype cptr = NULLP | Blk bytes | Freed

section \<open>Big-endian numbers\<close>

primrec be_acc :: "nat \<Rightarrow> bytes \<Rightarrow> nat" where
  "be_acc a [] = a"
| "be_acc a (b # bs) = be_acc (a * 256 + unat b) bs"

definition be_nat :: "bytes \<Rightarrow> nat" where
  "be_nat bs = be_acc 0 bs"

primrec be_bytes :: "nat \<Rightarrow> nat \<Rightarrow> bytes" where
  "be_bytes 0 n = []"
| "be_bytes (Suc k) n = be_bytes k (n div 256) @ [of_nat n]"

lemma be_acc_append: "be_acc a (xs @ ys) = be_acc (be_acc a xs) ys"
  by (induction xs arbitrary: a) auto

lemma length_be_bytes [simp]: "length (be_bytes k n) = k"
  by (induction k arbitrary: n) auto

lemma be_nat_be_bytes: "be_nat (be_bytes k n) = n mod 256 ^ k"
proof (induction k arbitrary: n)
  case 0
  then show ?case by (simp add: be_nat_def)
next
  case (Suc k)
  have "be_nat (be_bytes (Suc k) n) = be_nat (be_bytes k (n div 256)) * 256 + n mod 256"
    by (simp add: be_nat_def be_acc_append unat_of_nat take_bit_eq_mod)
  also have "\<dots> = (n div 256) mod 256 ^ k * 256 + n mod 256"
    by (simp add: Suc)
  also have "\<dots> = n mod 256 ^ Suc k"
    by (simp add: mod_mult2_eq [of n 256 "256 ^ k"] mult.commute)
  finally show ?case .
qed

lemma be_nat_be_bytes_id [simp]: "n < 256 ^ k \<Longrightarrow> be_nat (be_bytes k n) = n"
  by (simp add: be_nat_be_bytes)

lemma be_bytes_4: "be_bytes 4 n = [of_nat (n div 256 div 256 div 256), of_nat (n div 256 div 256),
    of_nat (n div 256), of_nat n]"
proof -
  have "(4 :: nat) = Suc (Suc (Suc (Suc 0)))" by simp
  then show ?thesis by (simp only: be_bytes.simps append.simps)
qed

section \<open>Words\<close>

lemma unat_u8_lt [simp]: "unat (w :: 8 word) < 256"
  using unsigned_less [of w] by simp

lemma unat_u32_lt [simp]: "unat (w :: 32 word) < 4294967296"
  using unsigned_less [of w] by simp

lemma unat_u64_lt [simp]: "unat (w :: 64 word) < 18446744073709551616"
  using unsigned_less [of w] by simp

lemma unat_of_nat_u8: "n < 256 \<Longrightarrow> unat (of_nat n :: 8 word) = n"
  by (simp add: unat_of_nat take_bit_eq_mod)

lemma unat_of_nat_u32: "n < 4294967296 \<Longrightarrow> unat (of_nat n :: 32 word) = n"
  by (simp add: unat_of_nat take_bit_eq_mod)

lemma unat_of_nat_u64: "n < 18446744073709551616 \<Longrightarrow> unat (of_nat n :: 64 word) = n"
  by (simp add: unat_of_nat take_bit_eq_mod)

lemmas unat_of_nat_small = unat_of_nat_u8 unat_of_nat_u32 unat_of_nat_u64

section \<open>Lists\<close>

text \<open>\<open>blit d off bs\<close> is the block \<open>d\<close> after \<open>memcpy(d + off, bs, length bs)\<close>, in range.\<close>

definition blit :: "bytes \<Rightarrow> nat \<Rightarrow> bytes \<Rightarrow> bytes" where
  "blit d off bs = take off d @ bs @ drop (off + length bs) d"

lemma length_blit [simp]: "off + length bs \<le> length d \<Longrightarrow> length (blit d off bs) = length d"
  by (simp add: blit_def)

lemma take_blit_end: "off + length bs \<le> length d \<Longrightarrow>
   take (off + length bs) (blit d off bs) = take off d @ bs"
  by (simp add: blit_def)

text \<open>The prefix between two pointers into one buffer.\<close>

definition between :: "bytes \<Rightarrow> bytes \<Rightarrow> bytes" where
  "between p q = take (length p - length q) p"

lemma between_append [simp]: "between (xs @ ys) ys = xs"
  by (simp add: between_def)

end
