(* ===== verification/Tnt_Mem.thy ===== *)
theory Tnt_Mem
  imports Tnt_Prelude "HOL-Library.Monad_Syntax"
begin

text \<open>
  The allocation layer, \<^verbatim>\<open>tnt/tnt_mem.c\<close>.  The library allocates through one function pointer,
  \<open>_tnt_realloc\<close>, initially \<open>custom_realloc\<close>; it is an argument (\<open>ra\<close>) of every operation that
  allocates.  An allocator maps a pointer and a size to the pointer it returns and to what has
  become of the block it was given; \<open>None\<close> is undefined behaviour (a dangling pointer was
  passed).  Which requests libc grants, and the bytes \<open>realloc\<close> leaves in the grown part of a
  block, are the environment \<open>libc\<close>.  \<open>grants_below lim ra\<close> says that \<open>ra\<close> grants what is
  smaller than \<open>lim\<close>.
\<close>

record libc =
  grants :: "nat \<Rightarrow> bool"
  fill :: "nat \<Rightarrow> byte"

type_synonym realloc_fn = "cptr \<Rightarrow> nat \<Rightarrow> (cptr \<times> cptr) option"

definition custom_realloc :: "libc \<Rightarrow> realloc_fn" where
  "custom_realloc os ptr sz = (case ptr of
      NULLP \<Rightarrow>
        if sz = 0 then Some (NULLP, NULLP)
        else if grants os sz then Some (Blk (replicate sz 0), NULLP)
        else Some (NULLP, NULLP)
    | Blk d \<Rightarrow>
        if sz \<noteq> 0 then
          if grants os sz
          then Some (Blk (take sz d @ map (fill os) [length d..<sz]), Freed)
          else Some (NULLP, Blk d)
        else Some (NULLP, Freed)
    | Freed \<Rightarrow> None)"

text \<open>\<open>tnt_mem_init\<close> returns the previous allocator and installs the new one unless it is null.\<close>

definition tnt_mem_init :: "realloc_fn \<Rightarrow> realloc_fn option \<Rightarrow> realloc_fn \<times> realloc_fn" where
  "tnt_mem_init cur alloc = (cur, case alloc of None \<Rightarrow> cur | Some a \<Rightarrow> a)"

definition tnt_mem_alloc :: "realloc_fn \<Rightarrow> nat \<Rightarrow> cptr option" where
  "tnt_mem_alloc ra sz = map_option fst (ra NULLP sz)"

definition tnt_mem_realloc :: "realloc_fn \<Rightarrow> cptr \<Rightarrow> nat \<Rightarrow> (cptr \<times> cptr) option" where
  "tnt_mem_realloc ra ptr sz = ra ptr sz"

definition tnt_mem_free :: "realloc_fn \<Rightarrow> cptr \<Rightarrow> cptr option" where
  "tnt_mem_free ra ptr = map_option snd (ra ptr 0)"

text \<open>\<open>strlen\<close> on the bytes at a pointer; without a terminator in the object it is undefined.\<close>

definition c_strlen :: "bytes \<Rightarrow> nat option" where
  "c_strlen p = (if 0 \<in> set p then Some (length (takeWhile (\<lambda>b. b \<noteq> 0) p)) else None)"

definition tnt_mem_dup :: "realloc_fn \<Rightarrow> bytes \<Rightarrow> cptr option" where
  "tnt_mem_dup ra sz = do {
     len \<leftarrow> c_strlen sz;
     szp \<leftarrow> tnt_mem_alloc ra (len + 1);
     (case szp of
        NULLP \<Rightarrow> Some NULLP
      | Blk d \<Rightarrow> if len + 1 \<le> length d then Some (Blk (blit d 0 (take (len + 1) sz))) else None
      | Freed \<Rightarrow> None)
   }"

text \<open>An allocator that grants every request.\<close>

definition grants_all :: "realloc_fn \<Rightarrow> bool" where
  "grants_all ra \<longleftrightarrow> (\<forall>p n q old. 0 < n \<longrightarrow> ra p n = Some (q, old) \<longrightarrow> q \<noteq> NULLP)"

text \<open>An allocator that grants every request below \<open>lim\<close> bytes.\<close>

definition grants_below :: "nat \<Rightarrow> realloc_fn \<Rightarrow> bool" where
  "grants_below lim ra \<longleftrightarrow> (\<forall>p n q old. 0 < n \<longrightarrow> n < lim \<longrightarrow> ra p n = Some (q, old) \<longrightarrow> q \<noteq> NULLP)"

lemma grants_belowD: "grants_below lim ra \<Longrightarrow> 0 < n \<Longrightarrow> n < lim \<Longrightarrow> ra p n \<noteq> Some (NULLP, old)"
  by (auto simp: grants_below_def)

lemma grants_all_below: "grants_all ra \<Longrightarrow> grants_below lim ra"
  by (auto simp: grants_all_def grants_below_def)

text \<open>The contract of an allocator.\<close>

locale allocator =
  fixes ra :: realloc_fn
  assumes alloc_ok: "0 < n \<Longrightarrow> \<exists>p. ra NULLP n = Some (p, NULLP) \<and>
       (p = NULLP \<or> (\<exists>d. p = Blk d \<and> length d = n))"
    and alloc_0: "ra NULLP 0 = Some (NULLP, NULLP)"
    and realloc_ok: "0 < n \<Longrightarrow> ra (Blk d) n = Some (NULLP, Blk d) \<or>
       (\<exists>d'. ra (Blk d) n = Some (Blk d', Freed) \<and> length d' = n
          \<and> take (min n (length d)) d' = take (min n (length d)) d)"
    and free_ok: "ra (Blk d) 0 = Some (NULLP, Freed)"
begin

lemma mem_alloc_cases:
  assumes "0 < n"
  obtains "tnt_mem_alloc ra n = Some NULLP" "\<not> grants_all ra"
    | d where "tnt_mem_alloc ra n = Some (Blk d)" "length d = n"
  using alloc_ok [OF assms] assms by (auto simp: tnt_mem_alloc_def grants_all_def)

lemma mem_realloc_cases:
  assumes "0 < n" and "p = NULLP \<and> d = [] \<or> p = Blk d"
  obtains "tnt_mem_realloc ra p n = Some (NULLP, p)" "\<not> grants_all ra"
    | d' old where "tnt_mem_realloc ra p n = Some (Blk d', old)" "length d' = n"
        "take (min n (length d)) d' = take (min n (length d)) d"
  using alloc_ok [OF assms(1)] realloc_ok [OF assms(1), of d] assms
  by (auto simp: tnt_mem_realloc_def grants_all_def)

lemma mem_alloc_below:
  assumes "grants_below lim ra" and "0 < n" and "n < lim"
  obtains d where "tnt_mem_alloc ra n = Some (Blk d)" "length d = n"
  using that alloc_ok [OF assms(2)] grants_belowD [OF assms(1-3)] by (auto simp: tnt_mem_alloc_def)

lemma mem_realloc_below:
  assumes "grants_below lim ra" and "0 < n" and "n < lim" and "p = NULLP \<and> d = [] \<or> p = Blk d"
  obtains d' old where "tnt_mem_realloc ra p n = Some (Blk d', old)" "length d' = n"
    "take (min n (length d)) d' = take (min n (length d)) d"
  using that alloc_ok [OF assms(2)] realloc_ok [OF assms(2), of d] grants_belowD [OF assms(1-3)] assms(4)
  by (auto simp: tnt_mem_realloc_def)

lemma mem_free_live [simp]:
  "tnt_mem_free ra NULLP = Some NULLP" "tnt_mem_free ra (Blk d) = Some Freed"
  by (simp_all add: tnt_mem_free_def alloc_0 free_ok)

end

interpretation libc_alloc: allocator "custom_realloc os" for os
proof (unfold_locales, goal_cases)
  case (1 n) then show ?case by (auto simp: custom_realloc_def)
next
  case 2 show ?case by (simp add: custom_realloc_def)
next
  case (3 n d) then show ?case by (auto simp: custom_realloc_def min_def)
next
  case (4 d) show ?case by (simp add: custom_realloc_def)
qed

lemma custom_realloc_grants_all: "(\<And>n. grants os n) \<Longrightarrow> grants_all (custom_realloc os)"
  by (auto simp: grants_all_def custom_realloc_def split: cptr.splits if_splits)

lemma custom_realloc_grants_below: "(\<And>n. n < lim \<Longrightarrow> grants os n) \<Longrightarrow> grants_below lim (custom_realloc os)"
  by (auto simp: grants_below_def custom_realloc_def split: cptr.splits if_splits)

text \<open>A duplicated string has the same characters and its terminator, whenever memory was granted.\<close>

lemma tnt_mem_dup_copies:
  assumes "0 \<notin> set s" and "grants os (length s + 1)"
  shows "tnt_mem_dup (custom_realloc os) (s @ 0 # rest) = Some (Blk (s @ [0]))"
proof -
  have "takeWhile (\<lambda>b. b \<noteq> 0) (s @ 0 # rest) = s" using assms(1) by (induction s) auto
  then show ?thesis using assms(2)
    by (simp add: tnt_mem_dup_def c_strlen_def tnt_mem_alloc_def custom_realloc_def blit_def)
qed

end
