(* ===== verification/Tnt_Buf.thy ===== *)
theory Tnt_Buf
  imports Tnt_Mem
begin

text \<open>
  Streams and in-memory stream buffers: \<^verbatim>\<open>tnt/tnt_stream.c\<close>, \<^verbatim>\<open>tnt/tnt_buf.c\<close> and the structures of
  \<^verbatim>\<open>tnt_stream.h\<close>, \<^verbatim>\<open>tnt_buf.h\<close>, \<^verbatim>\<open>tnt_object.h\<close>.  The virtual functions of a stream are named by a
  \<open>vtable\<close> value; the subclass structure behind \<open>s->data\<close> is the type parameter of the stream
  record.  Results are options: \<open>None\<close> is undefined behaviour.
\<close>

section \<open>Structures\<close>

datatype vtable = VT_NULL | VT_BUF | VT_NET

record 'd tnt_stream =
  s_alloc :: bool
  s_ops :: vtable
  s_data :: "'d option"
  s_wrcnt :: u32
  s_reqid :: u64

definition sizeof_tnt_stream :: nat where "sizeof_tnt_stream = 80"
definition sizeof_tnt_stream_buf :: nat where "sizeof_tnt_stream_buf = 64"
definition sizeof_tnt_sbuf_object :: nat where "sizeof_tnt_sbuf_object = 16"
definition sizeof_tnt_sbo_stack :: nat where "sizeof_tnt_sbo_stack = 16"

lemmas sizeof_defs [simp] = sizeof_tnt_stream_def sizeof_tnt_stream_buf_def
  sizeof_tnt_sbuf_object_def sizeof_tnt_sbo_stack_def

text \<open>The container stack of an object builder; \<open>'t\<close> is the type of its type tags.\<close>

record 't tnt_sbo_stack =
  ss_offset :: nat
  ss_size :: u32
  ss_type :: 't

datatype tnt_sbo_type = TNT_SBO_SIMPLE | TNT_SBO_SPARSE | TNT_SBO_PACKED

record 't tnt_sbuf_object =
  sbo_stack :: "'t tnt_sbo_stack list"
  sbo_stack_size :: nat
  sbo_stack_alloc :: nat
  sbo_type :: tnt_sbo_type

datatype resize_ptr = Tnt_buf_resize | Tnt_sbuf_object_resize

record 't tnt_stream_buf =
  sb_data :: cptr
  sb_size :: nat
  sb_alloc :: nat
  sb_rdoff :: nat
  sb_resize :: resize_ptr
  sb_free :: bool
  sb_subdata :: "'t tnt_sbuf_object option"
  sb_as :: bool

type_synonym 't buf_stream = "'t tnt_stream_buf tnt_stream"

section \<open>Streams\<close>

text \<open>The parameter and the result of \<open>tnt_stream_reqid\<close> are \<open>uint32_t\<close>, the field is \<open>uint64_t\<close>.\<close>

definition tnt_stream_reqid :: "'d tnt_stream \<Rightarrow> u32 \<Rightarrow> u32 \<times> 'd tnt_stream" where
  "tnt_stream_reqid s reqid = (ucast (s_reqid s), s\<lparr>s_reqid := ucast reqid\<rparr>)"

definition zero_stream :: "bool \<Rightarrow> 'd tnt_stream" where
  "zero_stream a = \<lparr>s_alloc = a, s_ops = VT_NULL, s_data = None, s_wrcnt = 0, s_reqid = 0\<rparr>"

text \<open>\<open>tnt_stream_init\<close>: \<open>None\<close> for a null argument; the result is null when allocation fails.\<close>

definition tnt_stream_init :: "realloc_fn \<Rightarrow> 'd tnt_stream option \<Rightarrow> 'd tnt_stream option option" where
  "tnt_stream_init ra s = (case s of
      Some _ \<Rightarrow> Some (Some (zero_stream False))
    | None \<Rightarrow> do {
        p \<leftarrow> tnt_mem_alloc ra sizeof_tnt_stream;
        Some (if p = NULLP then None else Some (zero_stream True)) })"

text \<open>
  \<open>tnt_stream_free\<close> runs the stream's destructor \<open>fr\<close> (null: \<open>None\<close>) and frees the structure if it
  was allocated; what is left is the caller's own structure, or nothing.
\<close>

definition tnt_stream_free ::
  "('d tnt_stream \<Rightarrow> 'd tnt_stream option) option \<Rightarrow> 'd tnt_stream option \<Rightarrow> 'd tnt_stream option option" where
  "tnt_stream_free fr s = (case s of
      None \<Rightarrow> Some None
    | Some st \<Rightarrow> do {
        st' \<leftarrow> (case fr of None \<Rightarrow> Some st | Some f \<Rightarrow> f st);
        Some (if s_alloc st' then None else Some st') })"

section \<open>Stream buffers\<close>

text \<open>\<open>tnt_sbuf_object_free\<close>, the destructor of the object builder's structure.\<close>

definition tnt_sbuf_object_free :: "'t buf_stream \<Rightarrow> 't buf_stream option" where
  "tnt_sbuf_object_free s = do {
     sb \<leftarrow> s_data s;
     sbo \<leftarrow> sb_subdata sb;
     Some (s\<lparr>s_data := Some (sb\<lparr>sb_subdata := None\<rparr>)\<rparr>)
   }"

definition tnt_buf_free :: "realloc_fn \<Rightarrow> 't buf_stream \<Rightarrow> 't buf_stream option" where
  "tnt_buf_free ra s = do {
     sb \<leftarrow> s_data s;
     d \<leftarrow> (if \<not> sb_as sb \<and> sb_data sb \<noteq> NULLP then tnt_mem_free ra (sb_data sb)
          else Some (sb_data sb));
     s1 \<leftarrow> (if sb_free sb then tnt_sbuf_object_free (s\<lparr>s_data := Some (sb\<lparr>sb_data := d\<rparr>)\<rparr>)
           else Some (s\<lparr>s_data := Some (sb\<lparr>sb_data := d\<rparr>)\<rparr>));
     Some (s1\<lparr>s_data := None\<rparr>)
   }"

text \<open>\<open>memcpy(sb->data + off, bs, n)\<close>: undefined unless the block is live and large enough.\<close>

definition sbuf_memcpy :: "'t tnt_stream_buf \<Rightarrow> nat \<Rightarrow> bytes \<Rightarrow> 't tnt_stream_buf option" where
  "sbuf_memcpy sb off bs = (case sb_data sb of
      Blk d \<Rightarrow> if off + length bs \<le> length d then Some (sb\<lparr>sb_data := Blk (blit d off bs)\<rparr>) else None
    | _ \<Rightarrow> None)"

text \<open>
  \<open>tnt_buf_read\<close>.  The source copies \<^emph>\<open>from\<close> the caller's buffer \<^emph>\<open>into\<close> the stream's data; the
  caller's buffer, the third component of the result, is what it was.
\<close>

definition tnt_buf_read :: "'t buf_stream \<Rightarrow> bytes \<Rightarrow> nat \<Rightarrow> (int \<times> 't buf_stream \<times> bytes) option" where
  "tnt_buf_read s buf sz = do {
     sb \<leftarrow> s_data s;
     if sb_data sb = NULLP then Some (0, s, buf)
     else if sb_size sb = sb_rdoff sb then Some (0, s, buf)
     else do {
       let avail = sb_size sb - sb_rdoff sb;
       let sz = (if sz > avail then avail else sz);
       sb1 \<leftarrow> (if sz \<le> length buf then sbuf_memcpy sb (sb_rdoff sb) (take sz buf) else None);
       Some (int sz, s\<lparr>s_data := Some (sb1\<lparr>sb_rdoff := sb_rdoff sb1 + sz\<rparr>)\<rparr>, buf)
     }
   }"

text \<open>
  The resize functions return an offset into the (new) block, or null.  \<open>tnt_buf_resize\<close> grows the
  block to exactly the requested size; \<open>tnt_sbuf_object_resize\<close> doubles it.  When no memory is
  granted both free the old block and leave \<open>sb->data\<close> pointing to it.
\<close>

definition tnt_buf_resize ::
  "realloc_fn \<Rightarrow> 't tnt_stream_buf \<Rightarrow> nat \<Rightarrow> (nat option \<times> 't tnt_stream_buf) option" where
  "tnt_buf_resize ra sb sz = do {
     let off = sb_size sb;
     let nsize = off + sz;
     (nd, old) \<leftarrow> tnt_mem_realloc ra (sb_data sb) nsize;
     if nd = NULLP then do {
       d \<leftarrow> tnt_mem_free ra old;
       Some (None, sb\<lparr>sb_data := d\<rparr>)
     } else Some (Some off, sb\<lparr>sb_data := nd, sb_alloc := nsize\<rparr>)
   }"

definition tnt_sbuf_object_resize ::
  "realloc_fn \<Rightarrow> 't tnt_stream_buf \<Rightarrow> nat \<Rightarrow> (nat option \<times> 't tnt_stream_buf) option" where
  "tnt_sbuf_object_resize ra sb sz =
     (if sb_size sb + sz > sb_alloc sb then do {
        let newsize = 2 * sb_alloc sb;
        let newsize = (if newsize < sb_size sb + sz then sb_size sb + sz else newsize);
        (nd, old) \<leftarrow> tnt_mem_realloc ra (sb_data sb) newsize;
        if nd = NULLP then do {
          d \<leftarrow> tnt_mem_free ra old;
          Some (None, sb\<lparr>sb_data := d\<rparr>)
        } else Some (Some (sb_size sb), sb\<lparr>sb_data := nd, sb_alloc := newsize\<rparr>)
      } else Some (Some (sb_size sb), sb))"

definition call_resize ::
  "realloc_fn \<Rightarrow> 't tnt_stream_buf \<Rightarrow> nat \<Rightarrow> (nat option \<times> 't tnt_stream_buf) option" where
  "call_resize ra sb sz = (case sb_resize sb of
      Tnt_buf_resize \<Rightarrow> tnt_buf_resize ra sb sz
    | Tnt_sbuf_object_resize \<Rightarrow> tnt_sbuf_object_resize ra sb sz)"

definition tnt_buf_write :: "realloc_fn \<Rightarrow> 't buf_stream \<Rightarrow> bytes \<Rightarrow> (int \<times> 't buf_stream) option" where
  "tnt_buf_write ra s buf = do {
     sb \<leftarrow> s_data s;
     if sb_as sb then Some (-1, s)
     else do {
       (p, sb1) \<leftarrow> call_resize ra sb (length buf);
       (case p of
          None \<Rightarrow> Some (-1, s\<lparr>s_data := Some sb1\<rparr>)
        | Some off \<Rightarrow> do {
            sb2 \<leftarrow> sbuf_memcpy sb1 off buf;
            Some (int (length buf),
              s\<lparr>s_data := Some (sb2\<lparr>sb_size := sb_size sb2 + length buf\<rparr>), s_wrcnt := s_wrcnt s + 1\<rparr>)
          })
     }
   }"

text \<open>The copy loop of \<open>tnt_buf_writev\<close>: \<open>p\<close> moves on by each vector's length.\<close>

fun writev_copy :: "'t tnt_stream_buf \<Rightarrow> nat \<Rightarrow> bytes list \<Rightarrow> 't tnt_stream_buf option" where
  "writev_copy sb p [] = Some sb"
| "writev_copy sb p (v # iov) = do { sb1 \<leftarrow> sbuf_memcpy sb p v; writev_copy sb1 (p + length v) iov }"

definition tnt_buf_writev :: "realloc_fn \<Rightarrow> 't buf_stream \<Rightarrow> bytes list \<Rightarrow> (int \<times> 't buf_stream) option" where
  "tnt_buf_writev ra s iov = do {
     sb \<leftarrow> s_data s;
     if sb_as sb then Some (-1, s)
     else do {
       let sz = sum_list (map length iov);
       (p, sb1) \<leftarrow> call_resize ra sb sz;
       (case p of
          None \<Rightarrow> Some (-1, s\<lparr>s_data := Some sb1\<rparr>)
        | Some off \<Rightarrow> do {
            sb2 \<leftarrow> writev_copy sb1 off iov;
            Some (int sz,
              s\<lparr>s_data := Some (sb2\<lparr>sb_size := sb_size sb2 + sz\<rparr>), s_wrcnt := s_wrcnt s + 1\<rparr>)
          })
     }
   }"

text \<open>\<open>tnt_buf\<close> and \<open>tnt_buf_as\<close>; the inner \<open>None\<close> is the null result.\<close>

definition tnt_buf :: "realloc_fn \<Rightarrow> 't buf_stream option \<Rightarrow> 't buf_stream option option" where
  "tnt_buf ra s0 = do {
     s \<leftarrow> tnt_stream_init ra s0;
     (case s of
        None \<Rightarrow> Some None
      | Some st \<Rightarrow> do {
          p \<leftarrow> tnt_mem_alloc ra sizeof_tnt_stream_buf;
          if p = NULLP then Some None
          else Some (Some (st\<lparr>s_ops := VT_BUF,
             s_data := Some \<lparr>sb_data = NULLP, sb_size = 0, sb_alloc = 0, sb_rdoff = 0,
               sb_resize = Tnt_buf_resize, sb_free = False, sb_subdata = None, sb_as = False\<rparr>\<rparr>))
        })
   }"

definition tnt_buf_as ::
  "realloc_fn \<Rightarrow> 't buf_stream option \<Rightarrow> bytes \<Rightarrow> 't buf_stream option option" where
  "tnt_buf_as ra s0 buf = do {
     s \<leftarrow> (case s0 of None \<Rightarrow> tnt_buf ra None | Some st \<Rightarrow> Some (Some st));
     (case s of
        None \<Rightarrow> Some None
      | Some st \<Rightarrow> do {
          sb \<leftarrow> s_data st;
          Some (Some (st\<lparr>s_data := Some (sb\<lparr>sb_data := Blk buf, sb_size := length buf,
            sb_alloc := length buf, sb_as := True\<rparr>)\<rparr>))
        })
   }"

section \<open>Invariant and contents\<close>

definition sbuf_wf :: "'t tnt_stream_buf \<Rightarrow> bool" where
  "sbuf_wf sb \<longleftrightarrow> sb_rdoff sb \<le> sb_size sb \<and> sb_size sb \<le> sb_alloc sb \<and>
     (case sb_data sb of NULLP \<Rightarrow> sb_alloc sb = 0 | Blk d \<Rightarrow> length d = sb_alloc sb | Freed \<Rightarrow> False)"

definition sbuf_contents :: "'t tnt_stream_buf \<Rightarrow> bytes" where
  "sbuf_contents sb = (case sb_data sb of Blk d \<Rightarrow> take (sb_size sb) d | _ \<Rightarrow> [])"

definition buf_wf :: "'t buf_stream \<Rightarrow> bool" where
  "buf_wf s \<longleftrightarrow> (case s_data s of None \<Rightarrow> False | Some sb \<Rightarrow> sbuf_wf sb \<and> \<not> sb_as sb)"

definition buf_contents :: "'t buf_stream \<Rightarrow> bytes" where
  "buf_contents s = (case s_data s of None \<Rightarrow> [] | Some sb \<Rightarrow> sbuf_contents sb)"

lemma length_sbuf_contents: "sbuf_wf sb \<Longrightarrow> length (sbuf_contents sb) = sb_size sb"
  by (auto simp: sbuf_wf_def sbuf_contents_def split: cptr.splits)

text \<open>What a successful resize gives: room for \<open>n\<close> bytes after the contents, which are kept.\<close>

definition room :: "'t tnt_stream_buf \<Rightarrow> nat \<Rightarrow> 't tnt_stream_buf \<Rightarrow> bool" where
  "room sb n sb' \<longleftrightarrow> (\<exists>d. sb' = sb\<lparr>sb_data := Blk d, sb_alloc := length d\<rparr>
      \<and> sb_size sb + n \<le> length d \<and> take (sb_size sb) d = sbuf_contents sb)"

lemma roomI:
  "length d = m \<Longrightarrow> sb_size sb + n \<le> m \<Longrightarrow> take (sb_size sb) d = sbuf_contents sb \<Longrightarrow>
   room sb n (sb\<lparr>sb_data := Blk d, sb_alloc := m\<rparr>)"
  by (auto simp: room_def)

context allocator
begin

lemma sbuf_realloc_cases:
  assumes "sbuf_wf sb" and "0 < m"
  obtains d where "tnt_mem_realloc ra (sb_data sb) m = Some (NULLP, sb_data sb)"
      "tnt_mem_free ra (sb_data sb) = Some d" "\<not> grants_all ra"
    | d' old where "tnt_mem_realloc ra (sb_data sb) m = Some (Blk d', old)" "length d' = m"
        "sb_size sb \<le> m \<longrightarrow> take (sb_size sb) d' = sbuf_contents sb"
proof -
  define d where "d = (case sb_data sb of Blk d \<Rightarrow> d | _ \<Rightarrow> [])"
  have p: "sb_data sb = NULLP \<and> d = [] \<or> sb_data sb = Blk d" and l: "sb_size sb \<le> length d"
    using assms(1) by (auto simp: sbuf_wf_def d_def split: cptr.splits)
  have fr: "\<exists>d. tnt_mem_free ra (sb_data sb) = Some d" using p by auto
  from mem_realloc_cases [OF assms(2) p] show thesis
  proof cases
    case 1
    then show thesis using fr that(1) by blast
  next
    case (2 d' old)
    have "take (sb_size sb) d' = sbuf_contents sb" if "sb_size sb \<le> m"
    proof -
      have "take (sb_size sb) d' = take (sb_size sb) (take (min m (length d)) d')"
        using l that by (simp add: min_def)
      also have "\<dots> = take (sb_size sb) d" using l that by (simp add: 2(3))
      also have "\<dots> = sbuf_contents sb" using p by (auto simp: sbuf_contents_def)
      finally show ?thesis .
    qed
    with 2 show thesis using that(2) by blast
  qed
qed

lemma call_resize_cases:
  assumes "sbuf_wf sb" and "0 < n"
  obtains sb' where "call_resize ra sb n = Some (None, sb')" "\<not> grants_all ra"
    | sb' where "call_resize ra sb n = Some (Some (sb_size sb), sb')" "room sb n sb'"
proof (cases "sb_resize sb")
  case Tnt_buf_resize
  let ?m = "sb_size sb + n"
  have "0 < ?m" using assms(2) by simp
  from sbuf_realloc_cases [OF assms(1) this] show ?thesis
  proof cases
    case (1 d)
    then show ?thesis
      using that(1) by (simp add: call_resize_def Tnt_buf_resize tnt_buf_resize_def Let_def)
  next
    case (2 d' old)
    then have "room sb n (sb\<lparr>sb_data := Blk d', sb_alloc := ?m\<rparr>)" by (intro roomI) auto
    with 2 show ?thesis
      using that(2) by (simp add: call_resize_def Tnt_buf_resize tnt_buf_resize_def Let_def)
  qed
next
  case Tnt_sbuf_object_resize
  note defs = call_resize_def Tnt_sbuf_object_resize tnt_sbuf_object_resize_def Let_def
  show ?thesis
  proof (cases "sb_size sb + n > sb_alloc sb")
    case True
    define m where "m = (if 2 * sb_alloc sb < sb_size sb + n then sb_size sb + n else 2 * sb_alloc sb)"
    have m: "0 < m" "sb_size sb + n \<le> m" using assms(2) by (auto simp: m_def)
    from sbuf_realloc_cases [OF assms(1) m(1)] show ?thesis
    proof cases
      case (1 d)
      then show ?thesis using that(1) True by (simp add: defs m_def [symmetric])
    next
      case (2 d' old)
      then have "room sb n (sb\<lparr>sb_data := Blk d', sb_alloc := m\<rparr>)" using m(2) by (intro roomI) auto
      with 2 show ?thesis using that(2) True by (simp add: defs m_def [symmetric])
    qed
  next
    case False
    with assms obtain d where d: "sb_data sb = Blk d" "length d = sb_alloc sb"
      by (auto simp: sbuf_wf_def split: cptr.splits)
    then have "sb\<lparr>sb_data := Blk d, sb_alloc := sb_alloc sb\<rparr> = sb" by simp
    with roomI [of d "sb_alloc sb" sb n] d False have "room sb n sb" by (simp add: sbuf_contents_def)
    then show ?thesis using that(2) [of sb] False by (simp add: defs)
  qed
qed

end

lemma writev_copy_blit:
  assumes "sb_data sb = Blk d" and "p + length (concat iov) \<le> length d"
  shows "writev_copy sb p iov = Some (sb\<lparr>sb_data := Blk (blit d p (concat iov))\<rparr>)"
  using assms
proof (induction iov arbitrary: sb d p)
  case (Cons v iov)
  have "blit (blit d p v) (p + length v) (concat iov) = blit d p (v @ concat iov)"
    using Cons.prems(2) by (simp add: blit_def ac_simps)
  then show ?case
    using Cons.prems Cons.IH [of "sb\<lparr>sb_data := Blk (blit d p v)\<rparr>" "blit d p v" "p + length v"]
    by (simp add: sbuf_memcpy_def)
qed (simp add: blit_def)

text \<open>The state after \<open>bs\<close> has been appended in a block with room for it.\<close>

lemma room_append:
  assumes "sbuf_wf sb" and "room sb (length bs) sb1" and "sb_data sb1 = Blk d"
  defines "sb2 \<equiv> sb1\<lparr>sb_data := Blk (blit d (sb_size sb) bs), sb_size := sb_size sb + length bs\<rparr>"
  shows "sbuf_wf sb2" and "sbuf_contents sb2 = sbuf_contents sb @ bs"
  using assms by (auto simp: room_def sbuf_wf_def sbuf_contents_def take_blit_end)

section \<open>The writer interface\<close>

text \<open>
  What the request encoders and the object builder rely on when they call \<open>s->write\<close> or
  \<open>s->writev\<close>: on a well-formed stream the call is defined; it either fails with \<open>-1\<close> or appends
  exactly the given bytes to the stream's output, counts one write and touches nothing else.
\<close>

locale stream_writer =
  fixes wf :: "'d tnt_stream \<Rightarrow> bool"
    and out :: "'d tnt_stream \<Rightarrow> bytes"
    and writev :: "'d tnt_stream \<Rightarrow> bytes list \<Rightarrow> (int \<times> 'd tnt_stream) option"
  assumes writev_defined: "wf s \<Longrightarrow> concat iov \<noteq> [] \<Longrightarrow> \<exists>r s'. writev s iov = Some (r, s')"
    and writev_ok: "wf s \<Longrightarrow> concat iov \<noteq> [] \<Longrightarrow> writev s iov = Some (r, s') \<Longrightarrow> r \<noteq> -1 \<Longrightarrow>
        r = int (length (concat iov)) \<and> wf s' \<and> out s' = out s @ concat iov
        \<and> s_wrcnt s' = s_wrcnt s + 1 \<and> s_reqid s' = s_reqid s"
    and wf_reqid: "wf (s\<lparr>s_reqid := q\<rparr>) = wf s"
    and out_reqid: "out (s\<lparr>s_reqid := q\<rparr>) = out s"
begin

text \<open>Writing a stream of messages one after the other concatenates them.\<close>

fun write_all :: "'d tnt_stream \<Rightarrow> bytes list list \<Rightarrow> 'd tnt_stream option" where
  "write_all s [] = Some s"
| "write_all s (m # ms) = (case writev s m of
     Some (r, s') \<Rightarrow> if r = -1 then None else write_all s' ms | None \<Rightarrow> None)"

lemma write_all_out:
  "wf s \<Longrightarrow> \<forall>m \<in> set ms. concat m \<noteq> [] \<Longrightarrow> write_all s ms = Some s' \<Longrightarrow>
   wf s' \<and> out s' = out s @ concat (map concat ms) \<and> s_wrcnt s' = s_wrcnt s + of_nat (length ms)"
proof (induction ms arbitrary: s)
  case (Cons m ms)
  then obtain r t where t: "writev s m = Some (r, t)" "r \<noteq> -1" "write_all t ms = Some s'"
    by (auto split: option.splits if_splits)
  from writev_ok [OF Cons.prems(1) _ t(1,2)] Cons.prems(2) have
    "wf t" "out t = out s @ concat m" "s_wrcnt t = s_wrcnt s + 1" by auto
  with Cons.IH [of t] t(3) Cons.prems(2) show ?case by auto
qed simp

end

context allocator
begin

lemma buf_writev_cases:
  assumes "s_data s = Some sb" and "sbuf_wf sb" and "\<not> sb_as sb" and "concat iov \<noteq> []"
  obtains s' where "tnt_buf_writev ra s iov = Some (-1, s')" "\<not> grants_all ra"
    | sb' where "tnt_buf_writev ra s iov = Some (int (length (concat iov)),
          s\<lparr>s_data := Some sb', s_wrcnt := s_wrcnt s + 1\<rparr>)"
        "sbuf_wf sb'" "sbuf_contents sb' = sbuf_contents sb @ concat iov"
        "\<exists>d a. sb' = sb\<lparr>sb_data := d, sb_alloc := a, sb_size := sb_size sb + length (concat iov)\<rparr>"
proof -
  have sz: "sum_list (map length iov) = length (concat iov)" by (simp add: length_concat)
  have pos: "0 < length (concat iov)" using assms(4) by simp
  from call_resize_cases [OF assms(2) pos] show thesis
  proof cases
    case (1 sb1)
    then show thesis using that(1) assms(1,3) by (simp add: tnt_buf_writev_def sz Let_def)
  next
    case (2 sb1)
    then obtain d where d: "sb_data sb1 = Blk d" "sb_size sb1 = sb_size sb"
      "sb_size sb + length (concat iov) \<le> length d" "sb1 = sb\<lparr>sb_data := Blk d, sb_alloc := length d\<rparr>"
      by (auto simp: room_def)
    let ?sb2 = "sb1\<lparr>sb_data := Blk (blit d (sb_size sb) (concat iov)),
        sb_size := sb_size sb + length (concat iov)\<rparr>"
    have "tnt_buf_writev ra s iov = Some (int (length (concat iov)),
        s\<lparr>s_data := Some ?sb2, s_wrcnt := s_wrcnt s + 1\<rparr>)"
      using assms(1,3) 2 writev_copy_blit [OF d(1,3)] d(2)
      by (simp add: tnt_buf_writev_def sz Let_def)
    moreover have "\<exists>e a. ?sb2 = sb\<lparr>sb_data := e, sb_alloc := a, sb_size := sb_size sb + length (concat iov)\<rparr>"
      by (intro exI [of _ "Blk (blit d (sb_size sb) (concat iov))"] exI [of _ "length d"]) (simp add: d(4))
    ultimately show thesis by (rule that(2) [OF _ room_append [OF assms(2) 2(2) d(1)]])
  qed
qed

end

text \<open>With an allocator that grants every request, a write to a buffer succeeds.\<close>

lemma buf_writev_granted:
  assumes "allocator ra" and "grants_all ra" and "buf_wf s" and "concat iov \<noteq> []"
  shows "map_option fst (tnt_buf_writev ra s iov) = Some (int (length (concat iov)))"
proof -
  from assms(3) obtain sb where "s_data s = Some sb" "sbuf_wf sb" "\<not> sb_as sb"
    by (auto simp: buf_wf_def split: option.splits)
  from allocator.buf_writev_cases [OF assms(1) this assms(4)] assms(2) show ?thesis by auto
qed

text \<open>\<open>write\<close> is \<open>writev\<close> with one vector.\<close>

lemma writev_copy_one: "writev_copy sb p [v] = sbuf_memcpy sb p v"
  by (cases "sbuf_memcpy sb p v") auto

lemma sum_list_length_one: "sum_list (map length [v]) = length v"
  by simp

lemma tnt_buf_write_writev: "tnt_buf_write ra s buf = tnt_buf_writev ra s [buf]"
  unfolding tnt_buf_write_def tnt_buf_writev_def writev_copy_one sum_list_length_one Let_def ..

sublocale allocator \<subseteq> bufw: stream_writer buf_wf buf_contents "tnt_buf_writev ra"
proof (unfold_locales, goal_cases)
  case (1 s iov)
  then obtain sb where "s_data s = Some sb" "sbuf_wf sb" "\<not> sb_as sb"
    by (auto simp: buf_wf_def split: option.splits)
  then show ?case by (rule buf_writev_cases [OF _ _ _ 1(2)]) auto
next
  case (2 s iov r s')
  then obtain sb where sb: "s_data s = Some sb" "sbuf_wf sb" "\<not> sb_as sb"
    by (auto simp: buf_wf_def split: option.splits)
  from buf_writev_cases [OF sb 2(2)] show ?case
  proof cases
    case 1
    then show ?thesis using 2 by simp
  next
    case (2 sb')
    then show ?thesis using sb \<open>tnt_buf_writev ra s iov = Some (r, s')\<close>
      by (auto simp: buf_wf_def buf_contents_def)
  qed
qed (auto simp: buf_wf_def buf_contents_def)

section \<open>Properties\<close>

text \<open>C25. Gathered writes to a stream buffer.  On a well-formed buffer and a non-empty vector
  \<open>tnt_buf_writev\<close> is always defined; it returns -1 only if the allocator refused memory, and
  otherwise returns the number of bytes, appends exactly the concatenated vectors to the contents,
  keeps the buffer well formed, and changes nothing else but the write counter.\<close>

theorem buf_writev_appends:
  assumes "allocator ra" and "buf_wf s" and "concat iov \<noteq> []"
  shows "\<exists>r s'. tnt_buf_writev ra s iov = Some (r, s') \<and>
     (if r = -1 then \<not> grants_all ra
      else r = int (length (concat iov)) \<and> buf_wf s' \<and> buf_contents s' = buf_contents s @ concat iov
        \<and> s_wrcnt s' = s_wrcnt s + 1 \<and> s_reqid s' = s_reqid s)"
proof -
  from assms(2) obtain sb where sb: "s_data s = Some sb" "sbuf_wf sb" "\<not> sb_as sb"
    by (auto simp: buf_wf_def split: option.splits)
  show ?thesis
    by (rule allocator.buf_writev_cases [OF assms(1) sb assms(3)])
      (use sb in \<open>auto simp: buf_wf_def buf_contents_def\<close>)
qed

definition demo_buf :: "unit buf_stream" where
  "demo_buf = \<lparr>s_alloc = False, s_ops = VT_BUF, s_data = Some \<lparr>sb_data = Blk [1, 2], sb_size = 2, sb_alloc = 2,
     sb_rdoff = 0, sb_resize = Tnt_buf_resize, sb_free = False, sb_subdata = None, sb_as = False\<rparr>,
     s_wrcnt = 1, s_reqid = 0\<rparr>"

theorem buf_writev_appends_witness:
  "\<exists>s'. tnt_buf_writev (custom_realloc \<lparr>grants = \<lambda>_. True, fill = \<lambda>_. 0\<rparr>) demo_buf [[3], [], [4, 5]] = Some (3, s')
     \<and> buf_contents s' = [1, 2, 3, 4, 5]"
proof -
  let ?ra = "custom_realloc \<lparr>grants = \<lambda>_. True, fill = \<lambda>_. 0\<rparr>"
  have "buf_wf demo_buf" "buf_contents demo_buf = [1, 2]" "grants_all ?ra"
    by (auto simp: buf_wf_def sbuf_wf_def buf_contents_def sbuf_contents_def demo_buf_def
        intro: custom_realloc_grants_all)
  with buf_writev_appends [OF libc_alloc.allocator_axioms, of demo_buf "[[3], [], [4, 5]]"]
  show ?thesis by (fastforce split: if_splits)
qed

text \<open>C31. A failed write leaves a dangling pointer.  When libc refuses to grow a buffer that holds
  data, \<open>tnt_buf_writev\<close> reports -1, but the resize function has freed the block and kept its address
  in \<open>sb->data\<close>: freeing the stream afterwards frees the block a second time.\<close>

theorem buf_failed_write_then_free_undefined:
  assumes "s_data s = Some sb" and "sb_data sb = Blk d" and "\<not> sb_as sb" and "sb_resize sb = Tnt_buf_resize"
    and "\<not> grants os (sb_size sb + length (concat iov))" and "concat iov \<noteq> []"
  shows "\<exists>s'. tnt_buf_writev (custom_realloc os) s iov = Some (-1, s')
     \<and> tnt_buf_free (custom_realloc os) s' = None"
proof -
  have "sum_list (map length iov) = length (concat iov)" by (simp add: length_concat)
  with assms show ?thesis
    by (auto simp: tnt_buf_writev_def call_resize_def tnt_buf_resize_def tnt_mem_realloc_def tnt_mem_free_def
        custom_realloc_def Let_def tnt_buf_free_def)
qed

theorem buf_failed_write_then_free_undefined_witness:
  "\<exists>s'. tnt_buf_writev (custom_realloc \<lparr>grants = \<lambda>n. n \<le> 4, fill = \<lambda>_. 0\<rparr>) demo_buf [[3, 4, 5]] = Some (-1, s')
     \<and> tnt_buf_free (custom_realloc \<lparr>grants = \<lambda>n. n \<le> 4, fill = \<lambda>_. 0\<rparr>) s' = None"
  by (rule buf_failed_write_then_free_undefined [of demo_buf "the (s_data demo_buf)" "[1, 2]"])
    (simp_all add: demo_buf_def)

text \<open>C32. \<open>tnt_buf_read\<close> copies in the wrong direction: on a well-formed buffer with unread data it
  reports the number of bytes read, but the caller's buffer is what it was, and the stream's own
  unread bytes have been overwritten with it.\<close>

theorem buf_read_overwrites_stream:
  assumes "s_data s = Some sb" and "sbuf_wf sb" and "sb_rdoff sb < sb_size sb"
    and "n \<le> sb_size sb - sb_rdoff sb" and "length buf = n"
  shows "\<exists>s'. tnt_buf_read s buf n = Some (int n, s', buf) \<and>
     buf_contents s' = blit (buf_contents s) (sb_rdoff sb) buf"
proof -
  from assms(2,3) obtain d where d: "sb_data sb = Blk d" "sb_size sb \<le> length d"
    by (auto simp: sbuf_wf_def split: cptr.splits)
  have "take (sb_size sb) (blit d (sb_rdoff sb) buf) = blit (take (sb_size sb) d) (sb_rdoff sb) buf"
    using assms(3-5) d(2) by (auto simp: blit_def drop_take min_def)
  then show ?thesis using assms d
    by (auto simp: tnt_buf_read_def sbuf_memcpy_def Let_def buf_contents_def sbuf_contents_def)
qed

theorem buf_read_overwrites_stream_witness:
  "\<exists>s'. tnt_buf_read demo_buf [9, 9] 2 = Some (2, s', [9, 9]) \<and> buf_contents s' = [9, 9]"
proof -
  have "sbuf_wf (the (s_data demo_buf))" "buf_contents demo_buf = [1, 2]"
    by (auto simp: sbuf_wf_def buf_contents_def sbuf_contents_def demo_buf_def)
  then show ?thesis
    using buf_read_overwrites_stream [of demo_buf "the (s_data demo_buf)" 2 "[9, 9]"]
    by (simp add: demo_buf_def blit_def)
qed

end
