(* ===== verification/Tnt_Msgpack.thy ===== *)
theory Tnt_Msgpack
  imports Tnt_Prelude
begin

text \<open>
  The MessagePack wire format and the interface of the msgpuck library.

  msgpuck is a git submodule of the repository: its code is not part of the sources, so the
  functions the client calls are the fields of a record \<open>msgpuck\<close> that every definition using
  them takes as an argument.  What the client relies on is stated by the locale
  \<open>msgpuck_laws\<close> in terms of the public MessagePack format, which \<open>mp_tok\<close> describes: it reads
  one token (a scalar, a string with its payload, or an array/map header with its count) off
  the front of a byte string.  \<open>None\<close> as the result of a decoder means that the call is outside
  its documented precondition (reading it would be undefined behaviour in C).

  \<open>mp_ref\<close> is a complete instance of the interface written from the format description; it
  discharges the laws and makes concrete runs computable.
\<close>

section \<open>The MessagePack format\<close>

datatype mp_type = MP_NIL | MP_UINT | MP_INT | MP_STR | MP_BIN | MP_ARRAY | MP_MAP
  | MP_BOOL | MP_FLOAT | MP_DOUBLE | MP_EXT

datatype tok = TNil | TUint u64 | TInt u64 | TStr bytes | TBin bytes | TArr u32 | TMap u32
  | TBool bool | TFlt u32 | TDbl u64 | TExt byte bytes

fun tok_type :: "tok \<Rightarrow> mp_type" where
  "tok_type TNil = MP_NIL"
| "tok_type (TUint _) = MP_UINT"
| "tok_type (TInt _) = MP_INT"
| "tok_type (TStr _) = MP_STR"
| "tok_type (TBin _) = MP_BIN"
| "tok_type (TArr _) = MP_ARRAY"
| "tok_type (TMap _) = MP_MAP"
| "tok_type (TBool _) = MP_BOOL"
| "tok_type (TFlt _) = MP_FLOAT"
| "tok_type (TDbl _) = MP_DOUBLE"
| "tok_type (TExt _ _) = MP_EXT"

text \<open>How many values follow an array or map header and belong to it.\<close>

fun tok_kids :: "tok \<Rightarrow> nat" where
  "tok_kids (TArr n) = unat n"
| "tok_kids (TMap n) = 2 * unat n"
| "tok_kids _ = 0"

definition tk_num :: "(nat \<Rightarrow> tok) \<Rightarrow> nat \<Rightarrow> bytes \<Rightarrow> (tok \<times> bytes) option" where
  "tk_num C k bs = (if k \<le> length bs then Some (C (be_nat (take k bs)), drop k bs) else None)"

definition tk_raw :: "(bytes \<Rightarrow> tok) \<Rightarrow> nat \<Rightarrow> bytes \<Rightarrow> (tok \<times> bytes) option" where
  "tk_raw C n bs = (if n \<le> length bs then Some (C (take n bs), drop n bs) else None)"

definition tk_var :: "(bytes \<Rightarrow> tok) \<Rightarrow> nat \<Rightarrow> bytes \<Rightarrow> (tok \<times> bytes) option" where
  "tk_var C k bs =
     (if k \<le> length bs then tk_raw C (be_nat (take k bs)) (drop k bs) else None)"

definition tk_ext :: "nat \<Rightarrow> bytes \<Rightarrow> (tok \<times> bytes) option" where
  "tk_ext n bs = (case bs of [] \<Rightarrow> None | ty # r \<Rightarrow> tk_raw (TExt ty) n r)"

definition tk_extv :: "nat \<Rightarrow> bytes \<Rightarrow> (tok \<times> bytes) option" where
  "tk_extv k bs = (if k \<le> length bs then tk_ext (be_nat (take k bs)) (drop k bs) else None)"

definition sgn_word :: "'a::len word \<Rightarrow> u64" where
  "sgn_word w = of_int (sint w)"

fun mp_tok :: "bytes \<Rightarrow> (tok \<times> bytes) option" where
  "mp_tok [] = None"
| "mp_tok (b # bs) = (let h = unat b in
     if h < 0x80 then Some (TUint (of_nat h), bs)
     else if h < 0x90 then Some (TMap (of_nat (h - 0x80)), bs)
     else if h < 0xa0 then Some (TArr (of_nat (h - 0x90)), bs)
     else if h < 0xc0 then tk_raw TStr (h - 0xa0) bs
     else if h = 0xc0 then Some (TNil, bs)
     else if h = 0xc1 then None
     else if h = 0xc2 then Some (TBool False, bs)
     else if h = 0xc3 then Some (TBool True, bs)
     else if h = 0xc4 then tk_var TBin 1 bs
     else if h = 0xc5 then tk_var TBin 2 bs
     else if h = 0xc6 then tk_var TBin 4 bs
     else if h = 0xc7 then tk_extv 1 bs
     else if h = 0xc8 then tk_extv 2 bs
     else if h = 0xc9 then tk_extv 4 bs
     else if h = 0xca then tk_num (\<lambda>n. TFlt (of_nat n)) 4 bs
     else if h = 0xcb then tk_num (\<lambda>n. TDbl (of_nat n)) 8 bs
     else if h = 0xcc then tk_num (\<lambda>n. TUint (of_nat n)) 1 bs
     else if h = 0xcd then tk_num (\<lambda>n. TUint (of_nat n)) 2 bs
     else if h = 0xce then tk_num (\<lambda>n. TUint (of_nat n)) 4 bs
     else if h = 0xcf then tk_num (\<lambda>n. TUint (of_nat n)) 8 bs
     else if h = 0xd0 then tk_num (\<lambda>n. TInt (sgn_word (of_nat n :: 8 word))) 1 bs
     else if h = 0xd1 then tk_num (\<lambda>n. TInt (sgn_word (of_nat n :: 16 word))) 2 bs
     else if h = 0xd2 then tk_num (\<lambda>n. TInt (sgn_word (of_nat n :: 32 word))) 4 bs
     else if h = 0xd3 then tk_num (\<lambda>n. TInt (of_nat n)) 8 bs
     else if h = 0xd4 then tk_ext 1 bs
     else if h = 0xd5 then tk_ext 2 bs
     else if h = 0xd6 then tk_ext 4 bs
     else if h = 0xd7 then tk_ext 8 bs
     else if h = 0xd8 then tk_ext 16 bs
     else if h = 0xd9 then tk_var TStr 1 bs
     else if h = 0xda then tk_var TStr 2 bs
     else if h = 0xdb then tk_var TStr 4 bs
     else if h = 0xdc then tk_num (\<lambda>n. TArr (of_nat n)) 2 bs
     else if h = 0xdd then tk_num (\<lambda>n. TArr (of_nat n)) 4 bs
     else if h = 0xde then tk_num (\<lambda>n. TMap (of_nat n)) 2 bs
     else if h = 0xdf then tk_num (\<lambda>n. TMap (of_nat n)) 4 bs
     else Some (TInt (sgn_word b), bs))"

declare mp_tok.simps(2) [simp del]

lemmas tk_defs = tk_num_def tk_raw_def tk_var_def tk_ext_def tk_extv_def

text \<open>A token is a non-empty prefix of the input, and reading it does not look past its end.\<close>

lemma tk_prefix:
  "tk_num C k bs = Some (t, r) \<Longrightarrow> \<exists>pre. bs = pre @ r \<and> (\<forall>r'. tk_num C k (pre @ r') = Some (t, r'))"
  "tk_raw D n bs = Some (t, r) \<Longrightarrow> \<exists>pre. bs = pre @ r \<and> (\<forall>r'. tk_raw D n (pre @ r') = Some (t, r'))"
proof -
  show "\<exists>pre. bs = pre @ r \<and> (\<forall>r'. tk_num C k (pre @ r') = Some (t, r'))"
    if "tk_num C k bs = Some (t, r)"
    using that by (intro exI [of _ "take k bs"]) (auto simp: tk_defs min_def split: if_splits)
  show "\<exists>pre. bs = pre @ r \<and> (\<forall>r'. tk_raw D n (pre @ r') = Some (t, r'))"
    if "tk_raw D n bs = Some (t, r)"
    using that by (intro exI [of _ "take n bs"]) (auto simp: tk_defs min_def split: if_splits)
qed

lemma tk_var_prefix:
  assumes "tk_var D k bs = Some (t, r)"
  shows "\<exists>pre. bs = pre @ r \<and> (\<forall>r'. tk_var D k (pre @ r') = Some (t, r'))"
proof -
  let ?n = "be_nat (take k bs)"
  from assms have k: "k \<le> length bs" and raw: "tk_raw D ?n (drop k bs) = Some (t, r)"
    by (auto simp: tk_var_def split: if_splits)
  from tk_prefix(2) [OF raw] obtain pre where
    pre: "drop k bs = pre @ r" "\<forall>r'. tk_raw D ?n (pre @ r') = Some (t, r')" by blast
  have "bs = (take k bs @ pre) @ r" using pre(1) by (metis append_assoc append_take_drop_id)
  moreover have "\<forall>r'. tk_var D k ((take k bs @ pre) @ r') = Some (t, r')"
    using pre(2) k by (auto simp: tk_var_def min_def)
  ultimately show ?thesis by blast
qed

lemma tk_ext_prefix:
  assumes "tk_ext n bs = Some (t, r)"
  shows "\<exists>pre. bs = pre @ r \<and> (\<forall>r'. tk_ext n (pre @ r') = Some (t, r'))"
proof -
  from assms obtain ty u where bs: "bs = ty # u" and raw: "tk_raw (TExt ty) n u = Some (t, r)"
    by (auto simp: tk_ext_def split: list.splits)
  from tk_prefix(2) [OF raw] obtain pre where
    "u = pre @ r" "\<forall>r'. tk_raw (TExt ty) n (pre @ r') = Some (t, r')" by blast
  then have "bs = (ty # pre) @ r \<and> (\<forall>r'. tk_ext n ((ty # pre) @ r') = Some (t, r'))"
    by (simp add: bs tk_ext_def)
  then show ?thesis by blast
qed

lemma tk_extv_prefix:
  assumes "tk_extv k bs = Some (t, r)"
  shows "\<exists>pre. bs = pre @ r \<and> (\<forall>r'. tk_extv k (pre @ r') = Some (t, r'))"
proof -
  let ?n = "be_nat (take k bs)"
  from assms have k: "k \<le> length bs" and ext: "tk_ext ?n (drop k bs) = Some (t, r)"
    by (auto simp: tk_extv_def split: if_splits)
  from tk_ext_prefix [OF ext] obtain pre where
    pre: "drop k bs = pre @ r" "\<forall>r'. tk_ext ?n (pre @ r') = Some (t, r')" by blast
  have "bs = (take k bs @ pre) @ r" using pre(1) by (metis append_assoc append_take_drop_id)
  moreover have "\<forall>r'. tk_extv k ((take k bs @ pre) @ r') = Some (t, r')"
    using pre(2) k by (auto simp: tk_extv_def min_def)
  ultimately show ?thesis by blast
qed

lemmas tk_prefixes = tk_prefix tk_var_prefix tk_ext_prefix tk_extv_prefix

lemma mp_tok_prefix:
  assumes "mp_tok bs = Some (t, r)"
  shows "\<exists>b pre. bs = b # pre @ r \<and> (\<forall>r'. mp_tok (b # pre @ r') = Some (t, r'))"
proof -
  from assms obtain b u where bs: "bs = b # u" by (cases bs) auto
  have "\<exists>pre. u = pre @ r \<and> (\<forall>r'. mp_tok (b # pre @ r') = Some (t, r'))"
    using assms unfolding bs mp_tok.simps(2) Let_def
    by (auto split: if_splits dest!: tk_prefixes)
  then show ?thesis using bs by blast
qed

lemma mp_tok_shorter: "mp_tok bs = Some (t, r) \<Longrightarrow> length r < length bs"
  by (auto dest: mp_tok_prefix)

lemma mp_tok_append: "mp_tok bs = Some (t, r) \<Longrightarrow> mp_tok (bs @ xs) = Some (t, r @ xs)"
  by (auto dest: mp_tok_prefix)


section \<open>Token sequences and values\<close>

text \<open>\<open>reads ts bs = Some r\<close>: the tokens \<open>ts\<close> stand at the front of \<open>bs\<close>, and \<open>r\<close> is what follows.\<close>

fun reads :: "tok list \<Rightarrow> bytes \<Rightarrow> bytes option" where
  "reads [] bs = Some bs"
| "reads (t # ts) bs = (case mp_tok bs of None \<Rightarrow> None
     | Some (t', r) \<Rightarrow> (if t' = t then reads ts r else None))"

text \<open>\<open>bs\<close> is exactly an encoding of the token sequence \<open>ts\<close>.\<close>

definition encodes :: "tok list \<Rightarrow> bytes \<Rightarrow> bool" where
  "encodes ts bs \<longleftrightarrow> reads ts bs = Some []"

lemma reads_append: "reads (ts @ us) bs = (case reads ts bs of None \<Rightarrow> None | Some r \<Rightarrow> reads us r)"
  by (induction ts bs rule: reads.induct) (auto split: option.splits prod.splits)

lemma reads_extend: "reads ts bs = Some r \<Longrightarrow> reads ts (bs @ xs) = Some (r @ xs)"
  by (induction ts bs rule: reads.induct)
    (auto split: option.splits prod.splits if_splits dest: mp_tok_append [where xs = xs])

lemma encodes_reads: "encodes ts bs \<Longrightarrow> reads ts (bs @ r) = Some r"
  using reads_extend [of ts bs "[]" r] by (simp add: encodes_def)

lemma encodes_Nil [simp]: "encodes [] []"
  by (simp add: encodes_def)

lemma encodes_append [intro]:
  assumes "encodes ts bs" and "encodes us cs"
  shows "encodes (ts @ us) (bs @ cs)"
  using encodes_reads [OF assms(1)] assms(2) by (simp add: encodes_def reads_append)

lemma encodes_one: "encodes [t] bs \<longleftrightarrow> mp_tok bs = Some (t, [])"
  by (auto simp: encodes_def split: option.splits if_splits)

lemma encodes_Cons: "encodes [t] bs \<Longrightarrow> encodes us cs \<Longrightarrow> encodes (t # us) (bs @ cs)"
  using encodes_append [of "[t]" bs us cs] by simp

lemma encodes_mp_tok: "encodes [t] bs \<Longrightarrow> mp_tok (bs @ r) = Some (t, r)"
  using mp_tok_append [of bs t "[]" r] by (simp add: encodes_one)

lemma reads_split:
  assumes "reads ts bs = Some r"
  shows "\<exists>pre. bs = pre @ r \<and> encodes ts pre"
  using assms
proof (induction ts bs rule: reads.induct)
  case (1 bs)
  then show ?case by simp
next
  case (2 t ts bs)
  then obtain u where u: "mp_tok bs = Some (t, u)" "reads ts u = Some r"
    by (auto split: option.splits if_splits prod.splits)
  from mp_tok_prefix [OF u(1)] obtain b pre1 where
    p: "bs = b # pre1 @ u" "mp_tok (b # pre1 @ []) = Some (t, [])" by blast
  from "2.IH" [OF u(1)] u(2) obtain pre2 where "u = pre2 @ r" "encodes ts pre2" by auto
  then show ?case using p encodes_Cons [of t "b # pre1" ts pre2] by (auto simp: encodes_one)
qed

lemma encodes_nonempty: "encodes (t # ts) bs \<Longrightarrow> bs \<noteq> []"
  by (auto simp: encodes_def)

text \<open>MessagePack values, and the token sequence of a value.\<close>

datatype mval = VNil | VUint u64 | VInt u64 | VStr bytes | VBin bytes | VBool bool
  | VFlt u32 | VDbl u64 | VExt byte bytes | VArr "mval list" | VMap "(mval \<times> mval) list"

fun toks :: "mval \<Rightarrow> tok list" where
  "toks VNil = [TNil]"
| "toks (VUint n) = [TUint n]"
| "toks (VInt n) = [TInt n]"
| "toks (VStr s) = [TStr s]"
| "toks (VBin s) = [TBin s]"
| "toks (VBool b) = [TBool b]"
| "toks (VFlt f) = [TFlt f]"
| "toks (VDbl d) = [TDbl d]"
| "toks (VExt ty s) = [TExt ty s]"
| "toks (VArr vs) = TArr (of_nat (length vs)) # concat (map toks vs)"
| "toks (VMap kvs) = TMap (of_nat (length kvs)) # concat (map (\<lambda>(k, v). toks k @ toks v) kvs)"

text \<open>Counts fit the 32-bit counters of the format, map counts doubled included.\<close>

fun vwf :: "mval \<Rightarrow> bool" where
  "vwf (VArr vs) \<longleftrightarrow> length vs < 2 ^ 32 \<and> (\<forall>v \<in> set vs. vwf v)"
| "vwf (VMap kvs) \<longleftrightarrow> length kvs < 2 ^ 31 \<and> (\<forall>(k, v) \<in> set kvs. vwf k \<and> vwf v)"
| "vwf _ \<longleftrightarrow> True"

lemma toks_nonempty [simp]: "toks v \<noteq> []"
  by (cases v) auto

text \<open>Skipping \<open>k\<close> values, as a loop with a counter of values still due.\<close>

function mp_skip :: "nat \<Rightarrow> bytes \<Rightarrow> bytes option" where
  "mp_skip 0 bs = Some bs"
| "mp_skip (Suc k) bs = (case mp_tok bs of None \<Rightarrow> None
     | Some (t, r) \<Rightarrow> mp_skip (k + tok_kids t) r)"
  by pat_completeness auto
termination
  by (relation "measure (\<lambda>(k, bs). length bs)") (auto dest: mp_tok_shorter)

lemma mp_skip_add: "mp_skip (k + m) bs = (case mp_skip k bs of None \<Rightarrow> None | Some r \<Rightarrow> mp_skip m r)"
proof (induction k bs rule: mp_skip.induct)
  case (2 k bs)
  then show ?case
    by (auto split: option.splits prod.splits simp: add.assoc add.commute [of m] add.left_commute)
qed simp

lemma mp_skip_concat:
  assumes "\<And>x r r'. x \<in> set xs \<Longrightarrow> reads (f x) r = Some r' \<Longrightarrow> mp_skip n r = Some r'"
    and "reads (concat (map f xs)) bs = Some r"
  shows "mp_skip (n * length xs) bs = Some r"
  using assms
proof (induction xs arbitrary: bs)
  case (Cons x xs)
  from Cons.prems(2) obtain u where u: "reads (f x) bs = Some u" "reads (concat (map f xs)) u = Some r"
    by (auto simp: reads_append split: option.splits)
  have "mp_skip n bs = Some u" using Cons.prems(1) [of x bs u] u(1) by simp
  moreover have "mp_skip (n * length xs) u = Some r"
    using Cons.IH [of u] Cons.prems(1) u(2) by auto
  ultimately show ?case by (simp add: mp_skip_add)
qed simp

lemma mp_skip_value: "vwf v \<Longrightarrow> reads (toks v) bs = Some r \<Longrightarrow> mp_skip 1 bs = Some r"
proof (induction v arbitrary: bs r)
  case (VArr vs)
  then obtain u where u: "mp_tok bs = Some (TArr (of_nat (length vs)), u)"
    "reads (concat (map toks vs)) u = Some r"
    by (auto split: option.splits if_splits)
  have "mp_skip (1 * length vs) u = Some r"
    by (rule mp_skip_concat [OF _ u(2)]) (use VArr in auto)
  then show ?case using u VArr.prems(1) by (simp add: unat_of_nat_small)
next
  case (VMap kvs)
  then obtain u where u: "mp_tok bs = Some (TMap (of_nat (length kvs)), u)"
    "reads (concat (map (\<lambda>(k, v). toks k @ toks v) kvs)) u = Some r"
    by (auto split: option.splits if_splits)
  have step: "mp_skip 2 q = Some q'" if "x \<in> set kvs"
    and "reads (case x of (k, v) \<Rightarrow> toks k @ toks v) q = Some q'" for x q q'
  proof -
    obtain k v where x: "x = (k, v)" by (cases x)
    with that obtain w where w: "reads (toks k) q = Some w" "reads (toks v) w = Some q'"
      by (auto simp: reads_append split: option.splits)
    have "mp_skip 1 q = Some w" "mp_skip 1 w = Some q'"
      using VMap.IH [of x k q w] VMap.IH [of x v w q'] that(1) VMap.prems(1) w
      by (auto simp: x)
    then show ?thesis using mp_skip_add [of 1 1 q] by (simp add: numeral_2_eq_2)
  qed
  have "mp_skip (2 * length kvs) u = Some r"
    using mp_skip_concat [OF step u(2)] by simp
  then show ?case using u VMap.prems(1) by (simp add: unat_of_nat_small)
qed (auto split: option.splits if_splits)

section \<open>The msgpuck interface\<close>

text \<open>
  One field per msgpuck function the client calls.  An encoder is the list of bytes it writes at
  \<open>data\<close>; the floating-point encoders take the IEEE bit pattern of their argument.  A decoder
  takes the bytes at \<open>*data\<close> and returns the value and the bytes at the advanced \<open>*data\<close>.
  \<open>mp_check\<close> is \<open>Some\<close> of the advanced pointer for the C result 0 and \<open>None\<close> for a non-zero one.
\<close>

record msgpuck =
  mp_encode_nil :: bytes
  mp_encode_uint :: "u64 \<Rightarrow> bytes"
  mp_encode_int :: "u64 \<Rightarrow> bytes"
  mp_encode_strl :: "u32 \<Rightarrow> bytes"
  mp_encode_str :: "bytes \<Rightarrow> bytes"
  mp_encode_binl :: "u32 \<Rightarrow> bytes"
  mp_encode_bool :: "bool \<Rightarrow> bytes"
  mp_encode_float :: "u32 \<Rightarrow> bytes"
  mp_encode_double :: "u64 \<Rightarrow> bytes"
  mp_encode_array :: "u32 \<Rightarrow> bytes"
  mp_encode_map :: "u32 \<Rightarrow> bytes"
  mp_store_u8 :: "u8 \<Rightarrow> bytes"
  mp_store_u32 :: "u32 \<Rightarrow> bytes"
  mp_store_u64 :: "u64 \<Rightarrow> bytes"
  mp_sizeof_uint :: "u64 \<Rightarrow> nat"
  mp_sizeof_str :: "u32 \<Rightarrow> nat"
  mp_sizeof_array :: "u32 \<Rightarrow> nat"
  mp_sizeof_map :: "u32 \<Rightarrow> nat"
  mp_typeof :: "byte \<Rightarrow> mp_type"
  mp_decode_uint :: "bytes \<Rightarrow> (u64 \<times> bytes) option"
  mp_decode_str :: "bytes \<Rightarrow> ((bytes \<times> u32) \<times> bytes) option"
  mp_decode_array :: "bytes \<Rightarrow> (u32 \<times> bytes) option"
  mp_decode_map :: "bytes \<Rightarrow> (u32 \<times> bytes) option"
  mp_next :: "bytes \<Rightarrow> bytes option"
  mp_check :: "bytes \<Rightarrow> bytes option"

locale msgpuck_laws =
  fixes mp :: msgpuck
  assumes enc_nil: "encodes [TNil] (mp_encode_nil mp)"
    and enc_uint: "encodes [TUint n] (mp_encode_uint mp n)"
    and enc_int: "sint n < 0 \<Longrightarrow> encodes [TInt n] (mp_encode_int mp n)"
    and enc_strl: "length s = unat l \<Longrightarrow> encodes [TStr s] (mp_encode_strl mp l @ s)"
    and enc_str: "mp_encode_str mp s = mp_encode_strl mp (of_nat (length s)) @ s"
    and enc_binl: "length s = unat l \<Longrightarrow> encodes [TBin s] (mp_encode_binl mp l @ s)"
    and enc_bool: "encodes [TBool b] (mp_encode_bool mp b)"
    and enc_float: "encodes [TFlt f] (mp_encode_float mp f)"
    and enc_double: "encodes [TDbl d] (mp_encode_double mp d)"
    and enc_array: "encodes [TArr c] (mp_encode_array mp c)"
    and enc_map: "encodes [TMap c] (mp_encode_map mp c)"
    and store_u8: "mp_store_u8 mp b8 = [b8]"
    and store_u32: "mp_store_u32 mp b32 = be_bytes 4 (unat b32)"
    and store_u64: "mp_store_u64 mp b64 = be_bytes 8 (unat b64)"
    and size_uint: "length (mp_encode_uint mp n) = mp_sizeof_uint mp n"
    and size_str: "length (mp_encode_strl mp l) + unat l = mp_sizeof_str mp l"
    and size_array: "length (mp_encode_array mp c) = mp_sizeof_array mp c"
    and size_map: "length (mp_encode_map mp c) = mp_sizeof_map mp c"
    and sizeof_uint: "mp_sizeof_uint mp n =
       (if unat n < 0x80 then 1 else if unat n < 0x100 then 2 else if unat n < 0x10000 then 3
        else if unat n < 0x100000000 then 5 else 9)"
    and sizeof_strl: "length (mp_encode_strl mp l) \<le> 5"
    and sizeof_array: "mp_sizeof_array mp c =
       (if unat c < 16 then 1 else if unat c < 0x10000 then 3 else 5)"
    and sizeof_map: "mp_sizeof_map mp c =
       (if unat c < 16 then 1 else if unat c < 0x10000 then 3 else 5)"
    and type_of: "mp_tok (h # bs) = Some (t, r) \<Longrightarrow> mp_typeof mp h = tok_type t"
    and dec_uint: "mp_decode_uint mp bs =
       (case mp_tok bs of Some (TUint n', r') \<Rightarrow> Some (n', r') | _ \<Rightarrow> None)"
    and dec_str: "mp_decode_str mp bs =
       (case mp_tok bs of Some (TStr s', r') \<Rightarrow> Some ((s' @ r', of_nat (length s')), r') | _ \<Rightarrow> None)"
    and dec_array: "mp_decode_array mp bs =
       (case mp_tok bs of Some (TArr n', r') \<Rightarrow> Some (n', r') | _ \<Rightarrow> None)"
    and dec_map: "mp_decode_map mp bs =
       (case mp_tok bs of Some (TMap n', r') \<Rightarrow> Some (n', r') | _ \<Rightarrow> None)"
    and next_val: "mp_next mp bs = mp_skip 1 bs"
    and check: "mp_check mp bs = mp_skip 1 bs"
begin

lemmas enc_toks = enc_nil enc_uint enc_int enc_strl enc_binl enc_bool enc_float enc_double
  enc_array enc_map

lemma enc_uint_nonempty [simp]: "mp_encode_uint mp n \<noteq> []"
  using encodes_nonempty [OF enc_uint] .

lemma enc_map_one: "unat c < 16 \<Longrightarrow> length (mp_encode_map mp c) = 1"
  by (simp add: size_map sizeof_map)

lemma enc_array_one: "unat c < 16 \<Longrightarrow> length (mp_encode_array mp c) = 1"
  by (simp add: size_array sizeof_array)

lemma enc_str_toks: "length s < 2 ^ 32 \<Longrightarrow> encodes [TStr s] (mp_encode_str mp s)"
  unfolding enc_str by (rule enc_strl) (simp add: unat_of_nat_small)

lemma tok_uint: "mp_tok (mp_encode_uint mp n @ r) = Some (TUint n, r)"
  by (rule encodes_mp_tok [OF enc_uint])

end

section \<open>The reference instance\<close>

definition ref_uint :: "u64 \<Rightarrow> bytes" where
  "ref_uint w = (let n = unat w in
     if n < 0x80 then be_bytes 1 n
     else if n < 0x100 then 0xcc # be_bytes 1 n
     else if n < 0x10000 then 0xcd # be_bytes 2 n
     else if n < 0x100000000 then 0xce # be_bytes 4 n
     else 0xcf # be_bytes 8 n)"

definition ref_int :: "u64 \<Rightarrow> bytes" where
  "ref_int w = (let i = sint w in
     if -32 \<le> i then [of_int i]
     else if -128 \<le> i then 0xd0 # be_bytes 1 (unat (of_int i :: 8 word))
     else if -32768 \<le> i then 0xd1 # be_bytes 2 (unat (of_int i :: 16 word))
     else if -2147483648 \<le> i then 0xd2 # be_bytes 4 (unat (of_int i :: 32 word))
     else 0xd3 # be_bytes 8 (unat w))"

definition ref_strl :: "u32 \<Rightarrow> bytes" where
  "ref_strl w = (let n = unat w in
     if n < 32 then [of_nat (0xa0 + n)]
     else if n < 0x100 then 0xd9 # be_bytes 1 n
     else if n < 0x10000 then 0xda # be_bytes 2 n
     else 0xdb # be_bytes 4 n)"

definition ref_binl :: "u32 \<Rightarrow> bytes" where
  "ref_binl w = (let n = unat w in
     if n < 0x100 then 0xc4 # be_bytes 1 n
     else if n < 0x10000 then 0xc5 # be_bytes 2 n
     else 0xc6 # be_bytes 4 n)"

definition ref_cnt :: "nat \<Rightarrow> byte \<Rightarrow> byte \<Rightarrow> u32 \<Rightarrow> bytes" where
  "ref_cnt fix m16 m32 w = (let n = unat w in
     if n < 16 then [of_nat (fix + n)]
     else if n < 0x10000 then m16 # be_bytes 2 n
     else m32 # be_bytes 4 n)"

definition ref_typeof :: "byte \<Rightarrow> mp_type" where
  "ref_typeof b = (let h = unat b in
     if h < 0x80 \<or> h \<in> {0xcc, 0xcd, 0xce, 0xcf} then MP_UINT
     else if h < 0x90 \<or> h \<in> {0xde, 0xdf} then MP_MAP
     else if h < 0xa0 \<or> h \<in> {0xdc, 0xdd} then MP_ARRAY
     else if h < 0xc0 \<or> h \<in> {0xd9, 0xda, 0xdb} then MP_STR
     else if h = 0xc0 then MP_NIL
     else if h \<in> {0xc2, 0xc3} then MP_BOOL
     else if h \<in> {0xc4, 0xc5, 0xc6} then MP_BIN
     else if h \<in> {0xc1, 0xc7, 0xc8, 0xc9, 0xd4, 0xd5, 0xd6, 0xd7, 0xd8} then MP_EXT
     else if h = 0xca then MP_FLOAT else if h = 0xcb then MP_DOUBLE else MP_INT)"

definition mp_ref :: msgpuck where
  "mp_ref = \<lparr>
     mp_encode_nil = [0xc0],
     mp_encode_uint = ref_uint,
     mp_encode_int = ref_int,
     mp_encode_strl = ref_strl,
     mp_encode_str = (\<lambda>s. ref_strl (of_nat (length s)) @ s),
     mp_encode_binl = ref_binl,
     mp_encode_bool = (\<lambda>b. [if b then 0xc3 else 0xc2]),
     mp_encode_float = (\<lambda>f. 0xca # be_bytes 4 (unat f)),
     mp_encode_double = (\<lambda>d. 0xcb # be_bytes 8 (unat d)),
     mp_encode_array = ref_cnt 0x90 0xdc 0xdd,
     mp_encode_map = ref_cnt 0x80 0xde 0xdf,
     mp_store_u8 = (\<lambda>b. [b]),
     mp_store_u32 = (\<lambda>w. be_bytes 4 (unat w)),
     mp_store_u64 = (\<lambda>w. be_bytes 8 (unat w)),
     mp_sizeof_uint = (\<lambda>n. length (ref_uint n)),
     mp_sizeof_str = (\<lambda>l. length (ref_strl l) + unat l),
     mp_sizeof_array = (\<lambda>c. length (ref_cnt 0x90 0xdc 0xdd c)),
     mp_sizeof_map = (\<lambda>c. length (ref_cnt 0x80 0xde 0xdf c)),
     mp_typeof = ref_typeof,
     mp_decode_uint = (\<lambda>bs. case mp_tok bs of Some (TUint n, r) \<Rightarrow> Some (n, r) | _ \<Rightarrow> None),
     mp_decode_str = (\<lambda>bs. case mp_tok bs of
        Some (TStr s, r) \<Rightarrow> Some ((s @ r, of_nat (length s)), r) | _ \<Rightarrow> None),
     mp_decode_array = (\<lambda>bs. case mp_tok bs of Some (TArr n, r) \<Rightarrow> Some (n, r) | _ \<Rightarrow> None),
     mp_decode_map = (\<lambda>bs. case mp_tok bs of Some (TMap n, r) \<Rightarrow> Some (n, r) | _ \<Rightarrow> None),
     mp_next = mp_skip 1,
     mp_check = mp_skip 1\<rparr>"

lemma mp_tok_marks:
  "mp_tok (0xc0 # bs) = Some (TNil, bs)"
  "mp_tok (0xc2 # bs) = Some (TBool False, bs)"
  "mp_tok (0xc3 # bs) = Some (TBool True, bs)"
  "mp_tok (0xc4 # bs) = tk_var TBin 1 bs"
  "mp_tok (0xc5 # bs) = tk_var TBin 2 bs"
  "mp_tok (0xc6 # bs) = tk_var TBin 4 bs"
  "mp_tok (0xca # bs) = tk_num (\<lambda>n. TFlt (of_nat n)) 4 bs"
  "mp_tok (0xcb # bs) = tk_num (\<lambda>n. TDbl (of_nat n)) 8 bs"
  "mp_tok (0xcc # bs) = tk_num (\<lambda>n. TUint (of_nat n)) 1 bs"
  "mp_tok (0xcd # bs) = tk_num (\<lambda>n. TUint (of_nat n)) 2 bs"
  "mp_tok (0xce # bs) = tk_num (\<lambda>n. TUint (of_nat n)) 4 bs"
  "mp_tok (0xcf # bs) = tk_num (\<lambda>n. TUint (of_nat n)) 8 bs"
  "mp_tok (0xd0 # bs) = tk_num (\<lambda>n. TInt (sgn_word (of_nat n :: 8 word))) 1 bs"
  "mp_tok (0xd1 # bs) = tk_num (\<lambda>n. TInt (sgn_word (of_nat n :: 16 word))) 2 bs"
  "mp_tok (0xd2 # bs) = tk_num (\<lambda>n. TInt (sgn_word (of_nat n :: 32 word))) 4 bs"
  "mp_tok (0xd3 # bs) = tk_num (\<lambda>n. TInt (of_nat n)) 8 bs"
  "mp_tok (0xd9 # bs) = tk_var TStr 1 bs"
  "mp_tok (0xda # bs) = tk_var TStr 2 bs"
  "mp_tok (0xdb # bs) = tk_var TStr 4 bs"
  "mp_tok (0xdc # bs) = tk_num (\<lambda>n. TArr (of_nat n)) 2 bs"
  "mp_tok (0xdd # bs) = tk_num (\<lambda>n. TArr (of_nat n)) 4 bs"
  "mp_tok (0xde # bs) = tk_num (\<lambda>n. TMap (of_nat n)) 2 bs"
  "mp_tok (0xdf # bs) = tk_num (\<lambda>n. TMap (of_nat n)) 4 bs"
  by (simp_all add: mp_tok.simps(2))

lemma mp_tok_fix:
  "unat h < 0x80 \<Longrightarrow> mp_tok (h # bs) = Some (TUint (of_nat (unat h)), bs)"
  "unat h = 0x80 + n \<Longrightarrow> n < 16 \<Longrightarrow> mp_tok (h # bs) = Some (TMap (of_nat n), bs)"
  "unat h = 0x90 + n \<Longrightarrow> n < 16 \<Longrightarrow> mp_tok (h # bs) = Some (TArr (of_nat n), bs)"
  "unat h = 0xa0 + n \<Longrightarrow> n < 32 \<Longrightarrow> mp_tok (h # bs) = tk_raw TStr n bs"
  "0xe0 \<le> unat h \<Longrightarrow> mp_tok (h # bs) = Some (TInt (sgn_word h), bs)"
  by (simp_all add: mp_tok.simps(2))

lemma tk_num_be: "n < 256 ^ k \<Longrightarrow> tk_num C k (be_bytes k n @ r) = Some (C n, r)"
  by (simp add: tk_num_def)

lemma tk_var_be: "n < 256 ^ k \<Longrightarrow> length s = n \<Longrightarrow> tk_var C k (be_bytes k n @ s @ r) = Some (C s, r)"
  by (simp add: tk_var_def tk_raw_def)

lemma be_bytes_1: "be_bytes 1 n = [of_nat n]"
  by simp

lemmas tk_be = tk_num_be [where r = "[]", simplified] tk_var_be [where r = "[]", simplified]

lemma encodes_ref_uint: "encodes [TUint w] (ref_uint w)"
proof (cases "unat w < 0x80")
  case True
  then have "unat (of_nat (unat w) :: 8 word) = unat w" by (intro unat_of_nat_u8) simp
  with True show ?thesis
    by (simp only: encodes_one ref_uint_def Let_def if_True mp_tok_fix(1) be_bytes_1) simp
next
  case False
  then show ?thesis
    by (simp add: encodes_one ref_uint_def Let_def mp_tok_marks tk_be del: be_bytes.simps One_nat_def)
qed

lemma encodes_ref_strl: "length s = unat l \<Longrightarrow> encodes [TStr s] (ref_strl l @ s)"
proof (cases "unat l < 32")
  case True
  moreover assume "length s = unat l"
  moreover from True have "unat (of_nat (0xa0 + unat l) :: 8 word) = 0xa0 + unat l"
    by (intro unat_of_nat_u8) simp
  ultimately show ?thesis
    by (simp add: encodes_one ref_strl_def mp_tok_fix(4) [of _ "unat l"] tk_raw_def del: of_nat_add)
next
  case False
  moreover assume "length s = unat l"
  ultimately show ?thesis
    by (simp add: encodes_one ref_strl_def Let_def mp_tok_marks tk_be del: be_bytes.simps One_nat_def)
qed

lemma encodes_ref_binl: "length s = unat l \<Longrightarrow> encodes [TBin s] (ref_binl l @ s)"
  by (simp add: encodes_one ref_binl_def Let_def mp_tok_marks tk_be del: be_bytes.simps One_nat_def)

lemma encodes_ref_arr: "encodes [TArr c] (ref_cnt 0x90 0xdc 0xdd c)"
proof (cases "unat c < 16")
  case True
  moreover from True have "unat (of_nat (0x90 + unat c) :: 8 word) = 0x90 + unat c"
    by (intro unat_of_nat_u8) simp
  ultimately show ?thesis
    by (simp add: encodes_one ref_cnt_def mp_tok_fix(3) [of _ "unat c"] del: of_nat_add)
next
  case False
  then show ?thesis
    by (simp add: encodes_one ref_cnt_def Let_def mp_tok_marks tk_be del: be_bytes.simps)
qed

lemma encodes_ref_map: "encodes [TMap c] (ref_cnt 0x80 0xde 0xdf c)"
proof (cases "unat c < 16")
  case True
  moreover from True have "unat (of_nat (0x80 + unat c) :: 8 word) = 0x80 + unat c"
    by (intro unat_of_nat_u8) simp
  ultimately show ?thesis
    by (simp add: encodes_one ref_cnt_def mp_tok_fix(2) [of _ "unat c"] del: of_nat_add)
next
  case False
  then show ?thesis
    by (simp add: encodes_one ref_cnt_def Let_def mp_tok_marks tk_be del: be_bytes.simps)
qed

lemma sint_of_int_fits:
  assumes "- (2 ^ (LENGTH('a) - 1)) \<le> i" and "i < 2 ^ (LENGTH('a) - 1)"
  shows "sint (of_int i :: 'a::len word) = i"
proof -
  have "sint (of_int i :: 'a word) = signed_take_bit (LENGTH('a) - 1) i"
    by (simp add: signed_of_int)
  also have "\<dots> = i" using assms by (intro signed_take_bit_int_eq_self)
  finally show ?thesis .
qed

lemma sgn_word_fits:
  fixes w :: u64
  assumes "- (2 ^ (LENGTH('a) - 1)) \<le> sint w" and "sint w < 2 ^ (LENGTH('a) - 1)"
  shows "sgn_word (of_int (sint w) :: 'a::len word) = w"
  using assms by (simp only: sgn_word_def sint_of_int_fits) simp

lemma unat_fixneg: "-32 \<le> i \<Longrightarrow> i < 0 \<Longrightarrow> 0xe0 \<le> unat (of_int i :: 8 word)"
proof -
  assume i: "-32 \<le> i" "i < 0"
  have "uint (of_int i :: 8 word) = i mod 256" by (simp add: uint_word_of_int)
  also have "\<dots> = i + 256" using i by (simp add: mod_pos_pos_trivial mod_add_self2 [of i 256, symmetric] del: mod_add_self2)
  finally have "uint (of_int i :: 8 word) = i + 256" .
  then show ?thesis using i unsigned_greater_eq [of "of_int i :: 8 word"] by (simp add: unat_eq_nat_uint nat_le_iff)
qed

lemma encodes_ref_int:
  assumes "sint w < 0"
  shows "encodes [TInt w] (ref_int w)"
proof -
  let ?i = "sint w"
  note d = encodes_one ref_int_def Let_def mp_tok_marks tk_be
  consider "-32 \<le> ?i" | "\<not> -32 \<le> ?i" "-128 \<le> ?i" | "\<not> -128 \<le> ?i" "-32768 \<le> ?i"
    | "\<not> -32768 \<le> ?i" "-2147483648 \<le> ?i" | "\<not> -2147483648 \<le> ?i" by blast
  then show ?thesis
  proof cases
    case 1
    with assms have "sgn_word (of_int ?i :: 8 word) = w" by (intro sgn_word_fits) auto
    with 1 assms show ?thesis by (simp add: d mp_tok_fix(5) unat_fixneg del: of_int_sint)
  next
    case 2
    with assms have "sgn_word (of_int ?i :: 8 word) = w" by (intro sgn_word_fits) auto
    with 2 show ?thesis by (simp add: d del: of_int_sint be_bytes.simps One_nat_def)
  next
    case 3
    with assms have "sgn_word (of_int ?i :: 16 word) = w" by (intro sgn_word_fits) auto
    moreover have "unat (of_int ?i :: 16 word) < 65536"
      using unsigned_less [of "of_int ?i :: 16 word", where 'a = nat] by simp
    ultimately show ?thesis using 3
      by (simp add: d del: of_int_sint be_bytes.simps)
  next
    case 4
    with assms have "sgn_word (of_int ?i :: 32 word) = w" by (intro sgn_word_fits) auto
    with 4 show ?thesis by (simp add: d del: of_int_sint be_bytes.simps)
  next
    case 5
    then show ?thesis by (simp add: d del: be_bytes.simps)
  qed
qed

lemma tk_types:
  "tk_num C k bs = Some (t, r) \<Longrightarrow> \<exists>n. t = C n"
  "tk_raw D n bs = Some (t, r) \<Longrightarrow> \<exists>s. t = D s"
  "tk_var D k bs = Some (t, r) \<Longrightarrow> \<exists>s. t = D s"
  "tk_ext n bs = Some (t, r) \<Longrightarrow> \<exists>ty s. t = TExt ty s"
  "tk_extv k bs = Some (t, r) \<Longrightarrow> \<exists>ty s. t = TExt ty s"
  by (auto simp: tk_defs split: if_splits list.splits)

lemma ref_typeof_ok: "mp_tok (h # bs) = Some (t, r) \<Longrightarrow> ref_typeof h = tok_type t"
  unfolding mp_tok.simps(2) Let_def
  by (simp add: ref_typeof_def Let_def split: if_split_asm) (auto dest!: tk_types)

interpretation ref: msgpuck_laws mp_ref
proof (unfold_locales, goal_cases)
  case 1 show ?case by (simp add: mp_ref_def encodes_one mp_tok_marks)
next
  case (2 n) show ?case by (simp add: mp_ref_def encodes_ref_uint)
next
  case (3 n) then show ?case by (simp add: mp_ref_def encodes_ref_int)
next
  case (4 s l) then show ?case by (simp add: mp_ref_def encodes_ref_strl)
next
  case (6 s l) then show ?case by (simp add: mp_ref_def encodes_ref_binl)
next
  case (7 b) then show ?case by (simp add: mp_ref_def encodes_one mp_tok_marks)
next
  case (8 f) show ?case
    by (simp add: mp_ref_def encodes_one mp_tok_marks tk_be del: be_bytes.simps)
next
  case (9 d) show ?case
    by (simp add: mp_ref_def encodes_one mp_tok_marks tk_be del: be_bytes.simps)
next
  case (10 c) show ?case by (simp add: mp_ref_def encodes_ref_arr)
next
  case (11 c) show ?case by (simp add: mp_ref_def encodes_ref_map)
next
  case (23 h bs t r) then show ?case by (simp add: mp_ref_def ref_typeof_ok)
qed (simp_all add: mp_ref_def ref_uint_def ref_strl_def ref_cnt_def Let_def)

end
