(* ===== verification/Tnt_Object.thy ===== *)
theory Tnt_Object
  imports Tnt_Buf Tnt_Msgpack
begin

text \<open>
  The MessagePack object builder, \<^verbatim>\<open>tnt/tnt_object.c\<close>: a stream buffer with a stack of the
  containers that are still open.  Containers are written in one of three modes
  (\<open>tnt_sbo_type\<close>); closing one fixes its header.  \<open>d2f\<close>, the conversion of a \<open>double\<close> argument to
  \<open>float\<close>, is a parameter on bit patterns.
\<close>

type_synonym sbo_frame = "mp_type tnt_sbo_stack"
type_synonym sbo = "mp_type tnt_sbuf_object"
type_synonym obj = "mp_type buf_stream"

section \<open>Memory layout of the container stack\<close>

text \<open>
  Fresh stack memory is whatever the allocator returns, read with the layout of
  \<open>struct tnt_sbo_stack\<close> (little-endian \<open>size_t\<close>, \<open>uint32_t\<close>, \<open>int8_t\<close>, three bytes of padding).
\<close>

definition le_nat :: "bytes \<Rightarrow> nat" where
  "le_nat bs = be_nat (rev bs)"

definition mp_type_of_nat :: "nat \<Rightarrow> mp_type" where
  "mp_type_of_nat n =
     (if n = 0 then MP_NIL else if n = 1 then MP_UINT else if n = 2 then MP_INT
      else if n = 3 then MP_STR else if n = 4 then MP_BIN else if n = 5 then MP_ARRAY
      else if n = 6 then MP_MAP else if n = 7 then MP_BOOL else if n = 8 then MP_FLOAT
      else if n = 9 then MP_DOUBLE else MP_EXT)"

definition frame_of_bytes :: "bytes \<Rightarrow> sbo_frame" where
  "frame_of_bytes b = \<lparr>ss_offset = le_nat (take 8 b), ss_size = of_nat (le_nat (take 4 (drop 8 b))),
     ss_type = mp_type_of_nat (le_nat (take 1 (drop 12 b)))\<rparr>"

fun stack_of_bytes :: "nat \<Rightarrow> bytes \<Rightarrow> sbo_frame list" where
  "stack_of_bytes 0 b = []"
| "stack_of_bytes (Suc k) b = frame_of_bytes (take 16 b) # stack_of_bytes k (drop 16 b)"

lemma length_stack_of_bytes [simp]: "length (stack_of_bytes k b) = k"
  by (induction k arbitrary: b) auto

section \<open>Operations\<close>

definition get_sbo :: "obj \<Rightarrow> sbo option" where
  "get_sbo s = do { sb \<leftarrow> s_data s; sb_subdata sb }"

definition set_sbo :: "obj \<Rightarrow> sbo \<Rightarrow> obj" where
  "set_sbo s o' = s\<lparr>s_data := map_option (\<lambda>sb. sb\<lparr>sb_subdata := Some o'\<rparr>) (s_data s)\<rparr>"

definition tnt_object_type :: "obj \<Rightarrow> tnt_sbo_type \<Rightarrow> (int \<times> obj) option" where
  "tnt_object_type s ty =
     (if s_wrcnt s > 0 then Some (-1, s)
      else do { sbo \<leftarrow> get_sbo s; Some (0, set_sbo s (sbo\<lparr>sbo_type := ty\<rparr>)) })"

text \<open>
  \<open>tnt_sbuf_object_grow_stack\<close> allocates a stack of twice the size and frees the old one; the
  entries of the old stack are not copied.
\<close>

definition tnt_sbuf_object_grow_stack :: "realloc_fn \<Rightarrow> sbo \<Rightarrow> (int \<times> sbo) option" where
  "tnt_sbuf_object_grow_stack ra sbo =
     (if sbo_stack_alloc sbo = 128 then Some (-1, sbo)
      else do {
        let new_stack_alloc = (2 * sbo_stack_alloc sbo) mod 256;
        p \<leftarrow> tnt_mem_alloc ra (new_stack_alloc * sizeof_tnt_sbo_stack);
        (case p of
           NULLP \<Rightarrow> Some (-1, sbo)
         | Blk d \<Rightarrow> Some (0, sbo\<lparr>sbo_stack_alloc := new_stack_alloc,
                                sbo_stack := stack_of_bytes new_stack_alloc d\<rparr>)
         | Freed \<Rightarrow> None)
      })"

definition tnt_object :: "realloc_fn \<Rightarrow> obj option \<Rightarrow> obj option option" where
  "tnt_object ra s0 = do {
     s \<leftarrow> tnt_buf ra s0;
     (case s of
        None \<Rightarrow> Some None
      | Some st \<Rightarrow> do {
          p \<leftarrow> tnt_mem_alloc ra sizeof_tnt_sbuf_object;
          if p = NULLP then Some None
          else do {
            sb \<leftarrow> s_data st;
            q \<leftarrow> tnt_mem_alloc ra (8 * sizeof_tnt_sbo_stack);
            (case q of
               Blk d \<Rightarrow> do {
                 (rc, st') \<leftarrow> tnt_object_type (st\<lparr>s_data := Some (sb\<lparr>sb_resize := Tnt_sbuf_object_resize,
                     sb_free := True,
                     sb_subdata := Some \<lparr>sbo_stack = stack_of_bytes 8 d, sbo_stack_size = 0,
                        sbo_stack_alloc = 8, sbo_type = TNT_SBO_SIMPLE\<rparr>\<rparr>)\<rparr>) TNT_SBO_SIMPLE;
                 Some (Some st') }
             | NULLP \<Rightarrow> Some None
             | Freed \<Rightarrow> None)
          }
        })
   }"

text \<open>The first lines of every \<open>tnt_object_add_*\<close>: the enclosing container gets one more element.\<close>

definition count_in_parent :: "obj \<Rightarrow> obj option" where
  "count_in_parent s = do {
     sbo \<leftarrow> get_sbo s;
     if sbo_stack_size sbo > 0 then
       (let i = sbo_stack_size sbo - 1 in
        if i < length (sbo_stack sbo)
        then Some (set_sbo s (sbo\<lparr>sbo_stack :=
                (sbo_stack sbo)[i := (sbo_stack sbo ! i)\<lparr>ss_size := ss_size (sbo_stack sbo ! i) + 1\<rparr>]\<rparr>))
        else None)
     else Some s
   }"

definition tnt_object_add_nil :: "msgpuck \<Rightarrow> realloc_fn \<Rightarrow> obj \<Rightarrow> (int \<times> obj) option" where
  "tnt_object_add_nil mp ra s = do { s \<leftarrow> count_in_parent s; tnt_buf_write ra s (mp_encode_nil mp) }"

definition tnt_object_add_uint :: "msgpuck \<Rightarrow> realloc_fn \<Rightarrow> obj \<Rightarrow> u64 \<Rightarrow> (int \<times> obj) option" where
  "tnt_object_add_uint mp ra s v = do {
     s \<leftarrow> count_in_parent s; tnt_buf_write ra s (mp_encode_uint mp v) }"

definition tnt_object_add_int :: "msgpuck \<Rightarrow> realloc_fn \<Rightarrow> obj \<Rightarrow> u64 \<Rightarrow> (int \<times> obj) option" where
  "tnt_object_add_int mp ra s v = do {
     s \<leftarrow> count_in_parent s;
     tnt_buf_write ra s (if sint v < 0 then mp_encode_int mp v else mp_encode_uint mp v) }"

text \<open>The string argument is the \<open>len\<close> bytes at \<open>str\<close>; fewer readable bytes are undefined.\<close>

definition tnt_object_add_str :: "msgpuck \<Rightarrow> realloc_fn \<Rightarrow> obj \<Rightarrow> bytes \<Rightarrow> u32 \<Rightarrow> (int \<times> obj) option" where
  "tnt_object_add_str mp ra s str len = do {
     s \<leftarrow> count_in_parent s;
     if unat len \<le> length str
     then tnt_buf_writev ra s [mp_encode_strl mp len, take (unat len) str] else None }"

definition tnt_object_add_strz :: "msgpuck \<Rightarrow> realloc_fn \<Rightarrow> obj \<Rightarrow> bytes \<Rightarrow> (int \<times> obj) option" where
  "tnt_object_add_strz mp ra s strz = do {
     len \<leftarrow> c_strlen strz; tnt_object_add_str mp ra s strz (of_nat len) }"

definition tnt_object_add_bin :: "msgpuck \<Rightarrow> realloc_fn \<Rightarrow> obj \<Rightarrow> bytes \<Rightarrow> u32 \<Rightarrow> (int \<times> obj) option" where
  "tnt_object_add_bin mp ra s bin len = do {
     s \<leftarrow> count_in_parent s;
     if unat len \<le> length bin
     then tnt_buf_writev ra s [mp_encode_binl mp len, take (unat len) bin] else None }"

definition tnt_object_add_bool :: "msgpuck \<Rightarrow> realloc_fn \<Rightarrow> obj \<Rightarrow> byte \<Rightarrow> (int \<times> obj) option" where
  "tnt_object_add_bool mp ra s v = do {
     s \<leftarrow> count_in_parent s; tnt_buf_write ra s (mp_encode_bool mp (v \<noteq> 0)) }"

definition tnt_object_add_float :: "msgpuck \<Rightarrow> realloc_fn \<Rightarrow> obj \<Rightarrow> u32 \<Rightarrow> (int \<times> obj) option" where
  "tnt_object_add_float mp ra s v = do {
     s \<leftarrow> count_in_parent s; tnt_buf_write ra s (mp_encode_float mp v) }"

definition tnt_object_add_double :: "msgpuck \<Rightarrow> realloc_fn \<Rightarrow> obj \<Rightarrow> u64 \<Rightarrow> (int \<times> obj) option" where
  "tnt_object_add_double mp ra s v = do {
     s \<leftarrow> count_in_parent s; tnt_buf_write ra s (mp_encode_double mp v) }"

definition mp_encode_array32 :: "msgpuck \<Rightarrow> u32 \<Rightarrow> bytes" where
  "mp_encode_array32 mp n = mp_store_u8 mp 0xdd @ mp_store_u32 mp n"

definition mp_encode_map32 :: "msgpuck \<Rightarrow> u32 \<Rightarrow> bytes" where
  "mp_encode_map32 mp n = mp_store_u8 mp 0xdf @ mp_store_u32 mp n"

text \<open>
  The common shape of \<open>tnt_object_add_array\<close> and \<open>tnt_object_add_map\<close> after the header bytes have
  been chosen: make room on the stack, push a frame, write the header.
\<close>

definition push_container ::
  "realloc_fn \<Rightarrow> obj \<Rightarrow> mp_type \<Rightarrow> (tnt_sbo_type \<Rightarrow> bytes) \<Rightarrow> (int \<times> obj) option" where
  "push_container ra s ty hdr = do {
     s \<leftarrow> count_in_parent s;
     sb \<leftarrow> s_data s;
     sbo \<leftarrow> get_sbo s;
     (rc, sbo1) \<leftarrow> (if sbo_stack_size sbo = sbo_stack_alloc sbo then tnt_sbuf_object_grow_stack ra sbo
                   else Some (0, sbo));
     if rc = -1 then Some (-1, s)
     else if sbo_stack_size sbo1 < length (sbo_stack sbo1)
     then tnt_buf_write ra (set_sbo s (sbo1\<lparr>
            sbo_stack := (sbo_stack sbo1)[sbo_stack_size sbo1 :=
               \<lparr>ss_offset = sb_size sb, ss_size = 0, ss_type = ty\<rparr>],
            sbo_stack_size := sbo_stack_size sbo1 + 1\<rparr>)) (hdr (sbo_type sbo1))
     else None
   }"

definition tnt_object_add_array :: "msgpuck \<Rightarrow> realloc_fn \<Rightarrow> obj \<Rightarrow> u32 \<Rightarrow> (int \<times> obj) option" where
  "tnt_object_add_array mp ra s n = push_container ra s MP_ARRAY (\<lambda>m. case m of
      TNT_SBO_SIMPLE \<Rightarrow> mp_encode_array mp n
    | TNT_SBO_SPARSE \<Rightarrow> mp_encode_array32 mp 0
    | TNT_SBO_PACKED \<Rightarrow> mp_encode_array mp 0)"

definition tnt_object_add_map :: "msgpuck \<Rightarrow> realloc_fn \<Rightarrow> obj \<Rightarrow> u32 \<Rightarrow> (int \<times> obj) option" where
  "tnt_object_add_map mp ra s n = push_container ra s MP_MAP (\<lambda>m. case m of
      TNT_SBO_SIMPLE \<Rightarrow> mp_encode_map mp n
    | TNT_SBO_SPARSE \<Rightarrow> mp_encode_map32 mp 0
    | TNT_SBO_PACKED \<Rightarrow> mp_encode_map mp 0)"

definition sbuf_memmove :: "'t tnt_stream_buf \<Rightarrow> nat \<Rightarrow> nat \<Rightarrow> nat \<Rightarrow> 't tnt_stream_buf option" where
  "sbuf_memmove sb dst src n = (case sb_data sb of
      Blk d \<Rightarrow> if src + n \<le> length d then sbuf_memcpy sb dst (take n (drop src d)) else None
    | _ \<Rightarrow> None)"

definition upd_sb :: "obj \<Rightarrow> mp_type tnt_stream_buf \<Rightarrow> obj" where
  "upd_sb s sb = s\<lparr>s_data := Some sb\<rparr>"

definition tnt_object_container_close :: "msgpuck \<Rightarrow> realloc_fn \<Rightarrow> obj \<Rightarrow> (int \<times> obj) option" where
  "tnt_object_container_close mp ra s = do {
     sbo \<leftarrow> get_sbo s;
     if sbo_stack_size sbo = 0 then Some (-1, s)
     else if length (sbo_stack sbo) < sbo_stack_size sbo then None
     else do {
       let fr = sbo_stack sbo ! (sbo_stack_size sbo - 1);
       let n = ss_size fr;
       let ty = ss_type fr;
       let offset = ss_offset fr;
       if ty = MP_MAP \<and> unat n mod 2 \<noteq> 0 then Some (-1, s)
       else do {
         let s = set_sbo s (sbo\<lparr>sbo_stack_size := sbo_stack_size sbo - 1\<rparr>);
         sb \<leftarrow> s_data s;
         (case sbo_type sbo of
            TNT_SBO_SIMPLE \<Rightarrow> Some (0, s)
          | TNT_SBO_SPARSE \<Rightarrow> do {
              sb1 \<leftarrow> sbuf_memcpy sb offset
                (if ty = MP_MAP then mp_encode_map32 mp (n div 2) else mp_encode_array32 mp n);
              Some (0, upd_sb s sb1) }
          | TNT_SBO_PACKED \<Rightarrow> do {
              let sz = (if ty = MP_MAP then mp_sizeof_map mp (n div 2) else mp_sizeof_array mp n);
              r \<leftarrow> (if sz > 1 then do {
                     (p, sb1) \<leftarrow> call_resize ra sb (sz - 1);
                     (case p of
                        None \<Rightarrow> Some (Inl sb1)
                      | Some _ \<Rightarrow> do {
                          sb2 \<leftarrow> sbuf_memmove sb1 (offset + sz) (offset + 1) (sb_size sb1 - offset - 1);
                          Some (Inr sb2) })
                   } else Some (Inr sb));
              (case r of
                 Inl sb1 \<Rightarrow> Some (-1, upd_sb s sb1)
               | Inr sb2 \<Rightarrow> do {
                   sb3 \<leftarrow> sbuf_memcpy sb2 offset
                     (if ty = MP_MAP then mp_encode_map mp (n div 2) else mp_encode_array mp n);
                   Some (0, upd_sb s (sb3\<lparr>sb_size := sb_size sb3 + (sz - 1)\<rparr>)) }) })
       }
     }
   }"

definition tnt_object_verify :: "msgpuck \<Rightarrow> obj \<Rightarrow> mp_type option \<Rightarrow> int option" where
  "tnt_object_verify mp ob ty = do {
     sb \<leftarrow> s_data ob;
     same \<leftarrow> (case ty of
         None \<Rightarrow> Some True
       | Some t \<Rightarrow> (case sb_data sb of Blk (b # _) \<Rightarrow> Some (mp_typeof mp b = t) | _ \<Rightarrow> None));
     if \<not> same then Some (-1)
     else (case mp_check mp (sbuf_contents sb) of
         None \<Rightarrow> Some (-1)
       | Some pos \<Rightarrow> if pos \<noteq> [] then Some (-1) else Some 0)
   }"

definition tnt_object_as :: "realloc_fn \<Rightarrow> obj option \<Rightarrow> bytes \<Rightarrow> obj option option" where
  "tnt_object_as ra s0 buf = do {
     s \<leftarrow> (case s0 of None \<Rightarrow> tnt_object ra None | Some st \<Rightarrow> Some (Some st));
     (case s of
        None \<Rightarrow> Some None
      | Some st \<Rightarrow> do {
          sb \<leftarrow> s_data st;
          Some (Some (upd_sb st (sb\<lparr>sb_data := Blk buf, sb_size := length buf,
            sb_alloc := length buf, sb_as := True\<rparr>)))
        })
   }"

definition tnt_object_reset :: "obj \<Rightarrow> (int \<times> obj) option" where
  "tnt_object_reset s = do {
     sb \<leftarrow> s_data s;
     sbo \<leftarrow> sb_subdata sb;
     Some (0, s\<lparr>s_reqid := 0, s_wrcnt := 0,
       s_data := Some (sb\<lparr>sb_size := 0, sb_rdoff := 0,
         sb_subdata := Some (sbo\<lparr>sbo_stack_size := 0, sbo_type := TNT_SBO_SIMPLE\<rparr>)\<rparr>)\<rparr>)
   }"

section \<open>Format strings\<close>

text \<open>
  A variadic argument: a 32-bit or a 64-bit integer, a pointer to characters, or a \<open>double\<close>.
  Fetching an argument of another class, or past the end of the list, is undefined.
\<close>

datatype va = VaInt u32 | VaLong u64 | VaPtr bytes | VaDbl u64

text \<open>
  The conversions after \<open>%\<close>, in the order the code tests them, with the number of extra format
  characters each consumes.  \<open>CBad\<close> is the \<open>assert(false)\<close> branch.
\<close>

datatype conv = CvInt | CvUint | CvStr | CvStrN | CvFloat | CvDouble | CvBool
  | CvLong | CvUlong | CvPercent | CvBad

definition at :: "string \<Rightarrow> nat \<Rightarrow> char" where
  "at f i = (if i < length f then f ! i else CHR 0x00)"

definition fmt_conv :: "string \<Rightarrow> conv \<times> nat" where
  "fmt_conv f =
    (if at f 0 = CHR ''d'' \<or> at f 0 = CHR ''i'' then (CvInt, 0)
     else if at f 0 = CHR ''u'' then (CvUint, 0)
     else if at f 0 = CHR ''s'' then (CvStr, 0)
     else if at f 0 = CHR ''.'' \<and> at f 1 = CHR ''*'' \<and> at f 2 = CHR ''s'' then (CvStrN, 2)
     else if at f 0 = CHR ''f'' then (CvFloat, 0)
     else if at f 0 = CHR ''l'' \<and> at f 1 = CHR ''f'' then (CvDouble, 1)
     else if at f 0 = CHR ''b'' then (CvBool, 0)
     else if at f 0 = CHR ''l'' \<and> (at f 1 = CHR ''d'' \<or> at f 1 = CHR ''i'') then (CvLong, 1)
     else if at f 0 = CHR ''l'' \<and> at f 1 = CHR ''u'' then (CvUlong, 1)
     else if at f 0 = CHR ''l'' \<and> at f 1 = CHR ''l'' \<and> (at f 2 = CHR ''d'' \<or> at f 2 = CHR ''i'')
       then (CvLong, 2)
     else if at f 0 = CHR ''l'' \<and> at f 1 = CHR ''l'' \<and> at f 2 = CHR ''u'' then (CvUlong, 2)
     else if at f 0 = CHR ''h'' \<and> (at f 1 = CHR ''d'' \<or> at f 1 = CHR ''i'') then (CvInt, 1)
     else if at f 0 = CHR ''h'' \<and> at f 1 = CHR ''u'' then (CvUint, 1)
     else if at f 0 = CHR ''h'' \<and> at f 1 = CHR ''h'' \<and> (at f 2 = CHR ''d'' \<or> at f 2 = CHR ''i'')
       then (CvInt, 2)
     else if at f 0 = CHR ''h'' \<and> at f 1 = CHR ''h'' \<and> at f 2 = CHR ''u'' then (CvUint, 2)
     else if at f 0 \<noteq> CHR ''%'' then (CvBad, 0)
     else (CvPercent, 0))"

text \<open>Carrying out one conversion: the result of the add (0 for \<open>%%\<close>) and the arguments left.\<close>

fun fmt_apply :: "msgpuck \<Rightarrow> realloc_fn \<Rightarrow> (u64 \<Rightarrow> u32) \<Rightarrow> obj \<Rightarrow> conv \<Rightarrow> va list
    \<Rightarrow> ((int \<times> obj) \<times> va list) option" where
  "fmt_apply mp ra d2f s CvInt (VaInt n # vl) =
     map_option (\<lambda>r. (r, vl)) (tnt_object_add_int mp ra s (scast n))"
| "fmt_apply mp ra d2f s CvUint (VaInt n # vl) =
     map_option (\<lambda>r. (r, vl)) (tnt_object_add_uint mp ra s (ucast n))"
| "fmt_apply mp ra d2f s CvStr (VaPtr p # vl) = do {
     len \<leftarrow> c_strlen p;
     map_option (\<lambda>r. (r, vl)) (tnt_object_add_str mp ra s p (of_nat len)) }"
| "fmt_apply mp ra d2f s CvStrN (VaInt len # VaPtr p # vl) =
     map_option (\<lambda>r. (r, vl)) (tnt_object_add_str mp ra s p len)"
| "fmt_apply mp ra d2f s CvFloat (VaDbl d # vl) =
     map_option (\<lambda>r. (r, vl)) (tnt_object_add_float mp ra s (d2f d))"
| "fmt_apply mp ra d2f s CvDouble (VaDbl d # vl) =
     map_option (\<lambda>r. (r, vl)) (tnt_object_add_double mp ra s d)"
| "fmt_apply mp ra d2f s CvBool (VaInt n # vl) =
     map_option (\<lambda>r. (r, vl)) (tnt_object_add_bool mp ra s (if n \<noteq> 0 then 1 else 0))"
| "fmt_apply mp ra d2f s CvLong (VaLong n # vl) =
     map_option (\<lambda>r. (r, vl)) (tnt_object_add_int mp ra s n)"
| "fmt_apply mp ra d2f s CvUlong (VaLong n # vl) =
     map_option (\<lambda>r. (r, vl)) (tnt_object_add_uint mp ra s n)"
| "fmt_apply mp ra d2f s CvPercent vl = Some ((0, s), vl)"
| "fmt_apply mp ra d2f s _ _ = None"

text \<open>The loop over the format string; \<open>acc\<close> is \<open>result\<close>.\<close>

function vformat_loop :: "msgpuck \<Rightarrow> realloc_fn \<Rightarrow> (u64 \<Rightarrow> u32) \<Rightarrow> obj \<Rightarrow> string \<Rightarrow> va list \<Rightarrow> int
    \<Rightarrow> (int \<times> obj) option" where
  "vformat_loop mp ra d2f s [] vl acc = Some (acc, s)"
| "vformat_loop mp ra d2f s (c # f) vl acc =
    (if c = CHR ''['' then do {
       (rv, s1) \<leftarrow> tnt_object_add_array mp ra s 0;
       if rv = -1 then Some (-1, s1) else vformat_loop mp ra d2f s1 f vl (acc + rv) }
     else if c = CHR ''{'' then do {
       (rv, s1) \<leftarrow> tnt_object_add_map mp ra s 0;
       if rv = -1 then Some (-1, s1) else vformat_loop mp ra d2f s1 f vl (acc + rv) }
     else if c = CHR '']'' \<or> c = CHR ''}'' then do {
       (rv, s1) \<leftarrow> tnt_object_container_close mp ra s;
       if rv = -1 then Some (-1, s1) else vformat_loop mp ra d2f s1 f vl (acc + rv) }
     else if c = CHR ''%'' then
       (if f = [] then None
        else (case fmt_conv f of (cv, k) \<Rightarrow> do {
          ((rv, s1), vl1) \<leftarrow> fmt_apply mp ra d2f s cv vl;
          if rv = -1 then Some (-1, s1)
          else vformat_loop mp ra d2f s1 (drop (k + 1) f) vl1 (acc + rv) }))
     else if c = CHR ''N'' \<and> at f 0 = CHR ''I'' \<and> at f 1 = CHR ''L'' then do {
       (rv, s1) \<leftarrow> tnt_object_add_nil mp ra s;
       if rv = -1 then Some (-1, s1) else vformat_loop mp ra d2f s1 (drop 2 f) vl (acc + rv) }
     else vformat_loop mp ra d2f s f vl acc)"
  by pat_completeness auto
termination
  by (relation "measure (\<lambda>(mp, ra, d2f, s, f, vl, acc). length f)") auto

definition tnt_object_vformat :: "msgpuck \<Rightarrow> realloc_fn \<Rightarrow> (u64 \<Rightarrow> u32) \<Rightarrow> obj \<Rightarrow> string \<Rightarrow> va list
    \<Rightarrow> (int \<times> obj) option" where
  "tnt_object_vformat mp ra d2f s fmt vl = do {
     (rc, s1) \<leftarrow> tnt_object_type s TNT_SBO_PACKED;
     if rc = -1 then Some (-1, s1) else vformat_loop mp ra d2f s1 fmt vl 0 }"

definition tnt_object_format :: "msgpuck \<Rightarrow> realloc_fn \<Rightarrow> (u64 \<Rightarrow> u32) \<Rightarrow> obj \<Rightarrow> string \<Rightarrow> va list
    \<Rightarrow> (int \<times> obj) option" where
  "tnt_object_format mp ra d2f s fmt args = tnt_object_vformat mp ra d2f s fmt args"

end
