(* ===== verification/Tnt_Object_Spec.thy ===== *)
theory Tnt_Object_Spec
  imports Tnt_Object
begin

text \<open>
  What the object builder promises.  An abstract builder keeps the mode, the frames of the open
  containers and the bytes written so far; every \<open>tnt_object_add_*\<close> and
  \<open>tnt_object_container_close\<close> refines one abstract step (\<open>obj_exec_refines\<close>).  On the abstract
  builder the calls that build a value append exactly an encoding of it, in each of the three
  modes, so the concrete calls do.
\<close>

section \<open>The abstract builder\<close>

datatype obj_op = ONil | OUint u64 | OInt u64 | OStr bytes | OBin bytes | OBool bool
  | OFlt u32 | ODbl u64 | OArr u32 | OMap u32 | OClose

type_synonym builder = "tnt_sbo_type \<times> sbo_frame list \<times> bytes"

definition bump :: "sbo_frame list \<Rightarrow> sbo_frame list" where
  "bump fs = (if fs = [] then [] else butlast fs @ [(last fs)\<lparr>ss_size := ss_size (last fs) + 1\<rparr>])"

lemma bump_snoc [simp]: "bump (fs @ [f]) = fs @ [f\<lparr>ss_size := ss_size f + 1\<rparr>]"
  by (simp add: bump_def)

lemma bump_Nil [simp]: "bump [] = []"
  by (simp add: bump_def)

lemma length_bump [simp]: "length (bump fs) = length fs"
  by (simp add: bump_def)

fun op_bytes :: "msgpuck \<Rightarrow> obj_op \<Rightarrow> bytes" where
  "op_bytes mp ONil = mp_encode_nil mp"
| "op_bytes mp (OUint n) = mp_encode_uint mp n"
| "op_bytes mp (OInt n) = (if sint n < 0 then mp_encode_int mp n else mp_encode_uint mp n)"
| "op_bytes mp (OStr s) = mp_encode_strl mp (of_nat (length s)) @ s"
| "op_bytes mp (OBin s) = mp_encode_binl mp (of_nat (length s)) @ s"
| "op_bytes mp (OBool b) = mp_encode_bool mp b"
| "op_bytes mp (OFlt f) = mp_encode_float mp f"
| "op_bytes mp (ODbl d) = mp_encode_double mp d"
| "op_bytes mp _ = []"

fun hdr_open :: "msgpuck \<Rightarrow> tnt_sbo_type \<Rightarrow> mp_type \<Rightarrow> u32 \<Rightarrow> bytes" where
  "hdr_open mp TNT_SBO_SIMPLE ty n = (if ty = MP_MAP then mp_encode_map mp n else mp_encode_array mp n)"
| "hdr_open mp TNT_SBO_SPARSE ty n = (if ty = MP_MAP then mp_encode_map32 mp 0 else mp_encode_array32 mp 0)"
| "hdr_open mp TNT_SBO_PACKED ty n = (if ty = MP_MAP then mp_encode_map mp 0 else mp_encode_array mp 0)"

fun hdr_close :: "msgpuck \<Rightarrow> tnt_sbo_type \<Rightarrow> sbo_frame \<Rightarrow> bytes \<Rightarrow> bytes" where
  "hdr_close mp TNT_SBO_SIMPLE f c = c"
| "hdr_close mp TNT_SBO_SPARSE f c = blit c (ss_offset f)
     (if ss_type f = MP_MAP then mp_encode_map32 mp (ss_size f div 2) else mp_encode_array32 mp (ss_size f))"
| "hdr_close mp TNT_SBO_PACKED f c = take (ss_offset f) c
     @ (if ss_type f = MP_MAP then mp_encode_map mp (ss_size f div 2) else mp_encode_array mp (ss_size f))
     @ drop (ss_offset f + 1) c"

fun abs_exec :: "msgpuck \<Rightarrow> obj_op \<Rightarrow> builder \<Rightarrow> builder option" where
  "abs_exec mp (OArr n) (m, fs, c) =
     Some (m, bump fs @ [\<lparr>ss_offset = length c, ss_size = 0, ss_type = MP_ARRAY\<rparr>], c @ hdr_open mp m MP_ARRAY n)"
| "abs_exec mp (OMap n) (m, fs, c) =
     Some (m, bump fs @ [\<lparr>ss_offset = length c, ss_size = 0, ss_type = MP_MAP\<rparr>], c @ hdr_open mp m MP_MAP n)"
| "abs_exec mp OClose (m, fs, c) =
     (if fs = [] \<or> ss_type (last fs) = MP_MAP \<and> unat (ss_size (last fs)) mod 2 \<noteq> 0 then None
      else Some (m, butlast fs, hdr_close mp m (last fs) c))"
| "abs_exec mp sc (m, fs, c) = Some (m, bump fs, c @ op_bytes mp sc)"

fun abs_run :: "msgpuck \<Rightarrow> obj_op list \<Rightarrow> builder \<Rightarrow> builder option" where
  "abs_run mp [] st = Some st"
| "abs_run mp (x # xs) st = (case abs_exec mp x st of None \<Rightarrow> None | Some st' \<Rightarrow> abs_run mp xs st')"

lemma abs_run_append:
  "abs_run mp (xs @ ys) st = (case abs_run mp xs st of None \<Rightarrow> None | Some st' \<Rightarrow> abs_run mp ys st')"
  by (induction mp xs st rule: abs_run.induct) (auto split: option.splits)

section \<open>Building a value\<close>

text \<open>The values the builder can write: no extension types, negative \<open>VInt\<close>, lengths in range.\<close>

fun buildable :: "mval \<Rightarrow> bool" where
  "buildable (VExt _ _) \<longleftrightarrow> False"
| "buildable (VInt n) \<longleftrightarrow> sint n < 0"
| "buildable (VStr s) \<longleftrightarrow> length s < 2 ^ 32"
| "buildable (VBin s) \<longleftrightarrow> length s < 2 ^ 32"
| "buildable (VArr vs) \<longleftrightarrow> length vs < 2 ^ 32 \<and> (\<forall>v \<in> set vs. buildable v)"
| "buildable (VMap kvs) \<longleftrightarrow> length kvs < 2 ^ 31 \<and> (\<forall>(k, v) \<in> set kvs. buildable k \<and> buildable v)"
| "buildable _ \<longleftrightarrow> True"

fun mdepth :: "mval \<Rightarrow> nat" where
  "mdepth (VArr vs) = Suc (foldr max (map mdepth vs) 0)"
| "mdepth (VMap kvs) = Suc (foldr max (map (\<lambda>(k, v). max (mdepth k) (mdepth v)) kvs) 0)"
| "mdepth _ = 0"

text \<open>The calls that build a value; \<open>cnt\<close> is the count passed to \<open>tnt_object_add_array/map\<close>.\<close>

fun ops_of :: "(nat \<Rightarrow> u32) \<Rightarrow> mval \<Rightarrow> obj_op list" where
  "ops_of cnt VNil = [ONil]"
| "ops_of cnt (VUint n) = [OUint n]"
| "ops_of cnt (VInt n) = [OInt n]"
| "ops_of cnt (VStr s) = [OStr s]"
| "ops_of cnt (VBin s) = [OBin s]"
| "ops_of cnt (VBool b) = [OBool b]"
| "ops_of cnt (VFlt f) = [OFlt f]"
| "ops_of cnt (VDbl d) = [ODbl d]"
| "ops_of cnt (VExt _ _) = []"
| "ops_of cnt (VArr vs) = OArr (cnt (length vs)) # concat (map (ops_of cnt) vs) @ [OClose]"
| "ops_of cnt (VMap kvs) =
     OMap (cnt (length kvs)) # concat (map (\<lambda>(k, v). ops_of cnt k @ ops_of cnt v) kvs) @ [OClose]"

definition bumps :: "nat \<Rightarrow> sbo_frame \<Rightarrow> sbo_frame" where
  "bumps k f = f\<lparr>ss_size := ss_size f + of_nat k\<rparr>"

lemma bumps_simps [simp]:
  "ss_offset (bumps k f) = ss_offset f" "ss_type (bumps k f) = ss_type f"
  "ss_size (bumps k f) = ss_size f + of_nat k"
  "bumps k (bumps l f) = bumps (l + k) f" "bumps 0 f = f"
  by (simp_all add: bumps_def ac_simps)

lemma bump_snoc_bumps: "bump (fs @ [f]) = fs @ [bumps 1 f]"
  by (simp add: bumps_def)

declare bump_snoc [simp del] bump_snoc_bumps [simp]

text \<open>A sequence of calls that appends an encoding of \<open>ts\<close> and counts as \<open>k\<close> elements of the parent.\<close>

definition builds :: "msgpuck \<Rightarrow> tnt_sbo_type \<Rightarrow> nat \<Rightarrow> obj_op list \<Rightarrow> tok list \<Rightarrow> bool" where
  "builds mp m k ops ts \<longleftrightarrow> (\<forall>fs f c. \<exists>bs. encodes ts bs \<and>
     abs_run mp ops (m, fs @ [f], c) = Some (m, fs @ [bumps k f], c @ bs))"

lemma buildsD:
  assumes "builds mp m k ops ts"
  obtains bs where "encodes ts bs"
    "abs_run mp ops (m, fs @ [f], c) = Some (m, fs @ [bumps k f], c @ bs)"
  using assms unfolding builds_def by blast

lemma builds_Nil [intro]: "builds mp m 0 [] []"
  by (auto simp: builds_def)

lemma builds_append [intro]:
  assumes "builds mp m k xs ts" and "builds mp m l ys us"
  shows "builds mp m (k + l) (xs @ ys) (ts @ us)"
  unfolding builds_def
proof (intro allI)
  fix fs f c
  obtain bs where 1: "encodes ts bs" "abs_run mp xs (m, fs @ [f], c) = Some (m, fs @ [bumps k f], c @ bs)"
    using assms(1) by (rule buildsD)
  obtain cs where 2: "encodes us cs"
    "abs_run mp ys (m, fs @ [bumps k f], c @ bs) = Some (m, fs @ [bumps l (bumps k f)], (c @ bs) @ cs)"
    using assms(2) by (rule buildsD)
  from 1 2 show "\<exists>bs. encodes (ts @ us) bs \<and>
      abs_run mp (xs @ ys) (m, fs @ [f], c) = Some (m, fs @ [bumps (k + l) f], c @ bs)"
    by (intro exI [of _ "bs @ cs"]) (auto simp: abs_run_append)
qed

lemma builds_concat:
  assumes "\<And>x. x \<in> set xs \<Longrightarrow> builds mp m k (g x) (h x)"
  shows "builds mp m (k * length xs) (concat (map g xs)) (concat (map h xs))"
  using assms by (induction xs) auto

text \<open>The stand-alone form: the bytes appended do not depend on what is open around the value.\<close>

definition builds_one :: "msgpuck \<Rightarrow> tnt_sbo_type \<Rightarrow> obj_op list \<Rightarrow> tok list \<Rightarrow> bool" where
  "builds_one mp m ops ts \<longleftrightarrow> (\<forall>fs c. \<exists>bs. encodes ts bs \<and>
     abs_run mp ops (m, fs, c) = Some (m, bump fs, c @ bs))"

lemma builds_one_builds: "builds_one mp m ops ts \<Longrightarrow> builds mp m (Suc 0) ops ts"
  unfolding builds_one_def builds_def by (metis bump_snoc_bumps One_nat_def)

lemma builds_one_scalar:
  assumes "encodes [t] (op_bytes mp x)"
    and "\<And>m fs c. abs_exec mp x (m, fs, c) = Some (m, bump fs, c @ op_bytes mp x)"
  shows "builds_one mp m [x] [t]"
  using assms by (auto simp: builds_one_def)

text \<open>A container: the header written on opening is replaced by the right one on closing.\<close>

lemma builds_one_container:
  assumes body: "builds mp m k ops ts"
    and push: "\<And>fs c. abs_exec mp x (m, fs, c) =
       Some (m, bump fs @ [\<lparr>ss_offset = length c, ss_size = 0, ss_type = ty\<rparr>], c @ hdr_open mp m ty n)"
    and even: "ty = MP_MAP \<longrightarrow> unat (of_nat k :: u32) mod 2 = 0"
    and hdr: "\<And>c bs. hdr_close mp m \<lparr>ss_offset = length c, ss_size = of_nat k, ss_type = ty\<rparr>
        (c @ hdr_open mp m ty n @ bs) = c @ h @ bs"
    and h: "encodes [t] h"
  shows "builds_one mp m (x # ops @ [OClose]) (t # ts)"
  unfolding builds_one_def
proof (intro allI)
  fix fs and c :: bytes
  let ?f = "\<lparr>ss_offset = length c, ss_size = 0, ss_type = ty\<rparr>"
  have f: "bumps k ?f = \<lparr>ss_offset = length c, ss_size = of_nat k, ss_type = ty\<rparr>"
    by (simp add: bumps_def)
  obtain bs where bs: "encodes ts bs" "abs_run mp ops (m, bump fs @ [?f], c @ hdr_open mp m ty n) =
      Some (m, bump fs @ [bumps k ?f], (c @ hdr_open mp m ty n) @ bs)"
    using body by (rule buildsD)
  then have "abs_run mp (x # ops @ [OClose]) (m, fs, c) = Some (m, bump fs, c @ h @ bs)"
    using even hdr [of c bs] by (simp add: push abs_run_append f)
  then show "\<exists>bs. encodes (t # ts) bs \<and>
      abs_run mp (x # ops @ [OClose]) (m, fs, c) = Some (m, bump fs, c @ bs)"
    using encodes_Cons [OF h bs(1)] by blast
qed

context msgpuck_laws
begin

lemma enc_array32: "encodes [TArr n] (mp_encode_array32 mp n)"
  by (simp add: mp_encode_array32_def store_u8 store_u32 encodes_one mp_tok_marks tk_be del: be_bytes.simps)

lemma enc_map32: "encodes [TMap n] (mp_encode_map32 mp n)"
  by (simp add: mp_encode_map32_def store_u8 store_u32 encodes_one mp_tok_marks tk_be del: be_bytes.simps)

lemma length_hdr32 [simp]:
  "length (mp_encode_array32 mp n) = 5" "length (mp_encode_map32 mp n) = 5"
  by (simp_all add: mp_encode_array32_def mp_encode_map32_def store_u8 store_u32 del: be_bytes.simps)

lemma length_hdr0 [simp]:
  "length (mp_encode_array mp 0) = Suc 0" "length (mp_encode_map mp 0) = Suc 0"
  by (simp_all add: enc_array_one enc_map_one)

lemma half_of_nat: "n < 2 ^ 31 \<Longrightarrow> (of_nat (2 * n) :: u32) div 2 = of_nat n"
  by (simp add: word_arith_nat_div unat_of_nat_small del: of_nat_mult)

lemma even_of_nat: "n < 2 ^ 31 \<Longrightarrow> unat (of_nat (2 * n) :: u32) mod 2 = 0"
  by (simp add: unat_of_nat_small del: of_nat_mult)

lemma builds_arr:
  assumes "builds mp m n ops ts" and "m = TNT_SBO_SIMPLE \<longrightarrow> k = of_nat n"
  shows "builds_one mp m (OArr k # ops @ [OClose]) (TArr (of_nat n) # ts)"
  by (rule builds_one_container [OF assms(1), where ty = MP_ARRAY and n = k and
        h = "if m = TNT_SBO_SPARSE then mp_encode_array32 mp (of_nat n) else mp_encode_array mp (of_nat n)"])
    (use assms(2) in \<open>cases m; simp add: blit_def enc_array enc_array32\<close>)+

lemma builds_map:
  assumes "builds mp m (2 * n) ops ts" and "m = TNT_SBO_SIMPLE \<longrightarrow> k = of_nat n" and "n < 2 ^ 31"
  shows "builds_one mp m (OMap k # ops @ [OClose]) (TMap (of_nat n) # ts)"
  by (rule builds_one_container [OF assms(1), where ty = MP_MAP and n = k and
        h = "if m = TNT_SBO_SPARSE then mp_encode_map32 mp (of_nat n) else mp_encode_map mp (of_nat n)"])
    (use assms(2,3) even_of_nat in
      \<open>cases m; simp add: blit_def enc_map enc_map32 half_of_nat del: of_nat_mult\<close>)+

theorem builds_value:
  assumes "buildable v" and "m = TNT_SBO_SIMPLE \<longrightarrow> (\<forall>n. cnt n = of_nat n)"
  shows "builds_one mp m (ops_of cnt v) (toks v)"
  using assms(1)
proof (induction v)
  case (VArr vs)
  have "builds mp m (1 * length vs) (concat (map (ops_of cnt) vs)) (concat (map toks vs))"
    by (rule builds_concat) (use VArr in \<open>auto intro!: builds_one_builds\<close>)
  then show ?case using assms(2) by (auto intro!: builds_arr)
next
  case (VMap kvs)
  have kv: "builds mp m 2 (case x of (k, v) \<Rightarrow> ops_of cnt k @ ops_of cnt v)
      (case x of (k, v) \<Rightarrow> toks k @ toks v)" if "x \<in> set kvs" for x
  proof -
    obtain k v where x: "x = (k, v)" by (cases x)
    have "builds mp m (Suc 0) (ops_of cnt k) (toks k)" "builds mp m (Suc 0) (ops_of cnt v) (toks v)"
      using VMap.IH [of x k] VMap.IH [of x v] VMap.prems that by (auto simp: x intro!: builds_one_builds)
    from builds_append [OF this] show ?thesis by (simp add: x numeral_2_eq_2)
  qed
  have "builds mp m (2 * length kvs) (concat (map (\<lambda>(k, v). ops_of cnt k @ ops_of cnt v) kvs))
      (concat (map (\<lambda>(k, v). toks k @ toks v) kvs))"
    by (rule builds_concat) (rule kv)
  then show ?case using assms(2) VMap.prems by (auto intro!: builds_map)
qed (use enc_toks in \<open>auto intro!: builds_one_scalar simp: unat_of_nat_small\<close>)

end

section \<open>The calls on the concrete object\<close>

fun obj_exec :: "msgpuck \<Rightarrow> realloc_fn \<Rightarrow> obj_op \<Rightarrow> obj \<Rightarrow> (int \<times> obj) option" where
  "obj_exec mp ra ONil s = tnt_object_add_nil mp ra s"
| "obj_exec mp ra (OUint n) s = tnt_object_add_uint mp ra s n"
| "obj_exec mp ra (OInt n) s = tnt_object_add_int mp ra s n"
| "obj_exec mp ra (OStr b) s = tnt_object_add_str mp ra s b (of_nat (length b))"
| "obj_exec mp ra (OBin b) s = tnt_object_add_bin mp ra s b (of_nat (length b))"
| "obj_exec mp ra (OBool b) s = tnt_object_add_bool mp ra s (if b then 1 else 0)"
| "obj_exec mp ra (OFlt f) s = tnt_object_add_float mp ra s f"
| "obj_exec mp ra (ODbl d) s = tnt_object_add_double mp ra s d"
| "obj_exec mp ra (OArr n) s = tnt_object_add_array mp ra s n"
| "obj_exec mp ra (OMap n) s = tnt_object_add_map mp ra s n"
| "obj_exec mp ra OClose s = tnt_object_container_close mp ra s"

text \<open>A caller that adds up the results and stops at the first failure.\<close>

fun obj_run :: "msgpuck \<Rightarrow> realloc_fn \<Rightarrow> obj_op list \<Rightarrow> obj \<Rightarrow> int \<Rightarrow> (int \<times> obj) option" where
  "obj_run mp ra [] s acc = Some (acc, s)"
| "obj_run mp ra (x # xs) s acc = do {
     (r, s1) \<leftarrow> obj_exec mp ra x s;
     if r = -1 then Some (-1, s1) else obj_run mp ra xs s1 (acc + r) }"

definition frames :: "sbo \<Rightarrow> sbo_frame list" where
  "frames sbo = take (sbo_stack_size sbo) (sbo_stack sbo)"

fun hdr_len :: "tnt_sbo_type \<Rightarrow> nat" where
  "hdr_len TNT_SBO_SIMPLE = 0"
| "hdr_len TNT_SBO_SPARSE = 5"
| "hdr_len TNT_SBO_PACKED = 1"

text \<open>The header of every open container lies inside the written bytes.\<close>

definition builder_ok :: "builder \<Rightarrow> bool" where
  "builder_ok = (\<lambda>(m, fs, c). \<forall>f \<in> set fs. ss_offset f + hdr_len m \<le> length c)"

text \<open>The refinement relation; \<open>cap\<close> is the capacity of the container stack.\<close>

definition obj_rep :: "obj \<Rightarrow> builder \<Rightarrow> nat \<Rightarrow> bool" where
  "obj_rep s st cap = (case s_data s of None \<Rightarrow> False | Some sb \<Rightarrow>
     (case sb_subdata sb of None \<Rightarrow> False | Some sbo \<Rightarrow>
        sbuf_wf sb \<and> \<not> sb_as sb \<and> length (sbo_stack sbo) = cap \<and> sbo_stack_alloc sbo = cap
        \<and> sbo_stack_size sbo \<le> cap \<and> st = (sbo_type sbo, frames sbo, sbuf_contents sb)))"

lemma obj_repE:
  assumes "obj_rep s (m, fs, c) cap"
  obtains sb sbo where "s_data s = Some sb" "sb_subdata sb = Some sbo" "sbuf_wf sb" "\<not> sb_as sb"
    "length (sbo_stack sbo) = cap" "sbo_stack_alloc sbo = cap" "sbo_stack_size sbo = length fs"
    "length fs \<le> cap" "sbo_type sbo = m" "fs = frames sbo" "c = sbuf_contents sb"
    "sb_size sb = length c"
  using assms
  by (auto simp: obj_rep_def frames_def length_sbuf_contents split: option.splits)

lemma obj_repI:
  assumes "s_data s = Some sb" "sb_subdata sb = Some sbo" "sbuf_wf sb" "\<not> sb_as sb"
    "length (sbo_stack sbo) = cap" "sbo_stack_alloc sbo = cap" "sbo_stack_size sbo \<le> cap"
  shows "obj_rep s (sbo_type sbo, frames sbo, sbuf_contents sb) cap"
  using assms by (simp add: obj_rep_def)

lemma sbuf_subdata [simp]:
  "sbuf_wf (sb\<lparr>sb_subdata := x\<rparr>) = sbuf_wf sb"
  "sbuf_contents (sb\<lparr>sb_subdata := x\<rparr>) = sbuf_contents sb"
  by (simp_all add: sbuf_wf_def sbuf_contents_def split: cptr.splits)

text \<open>Storing a changed container stack.\<close>

lemma obj_rep_set_sbo:
  assumes "obj_rep s (m, fs, c) cap" and "length (sbo_stack sbo') = cap" "sbo_stack_alloc sbo' = cap"
    and "sbo_stack_size sbo' \<le> cap"
  shows "obj_rep (set_sbo s sbo') (sbo_type sbo', frames sbo', c) cap"
proof -
  from assms(1) obtain sb sbo where "s_data s = Some sb" "sb_subdata sb = Some sbo" "sbuf_wf sb"
    "\<not> sb_as sb" "c = sbuf_contents sb" by (rule obj_repE)
  with assms(2-) show ?thesis
    by (simp add: obj_rep_def set_sbo_def)
qed

lemma list_update_last: "fs \<noteq> [] \<Longrightarrow> fs[length fs - 1 := x] = butlast fs @ [x]"
  by (cases fs rule: rev_cases) simp_all

lemma count_in_parent_bump:
  assumes "obj_rep s (m, fs, c) cap"
  obtains s' where "count_in_parent s = Some s'" "obj_rep s' (m, bump fs, c) cap"
proof -
  from assms obtain sb sbo where sb: "s_data s = Some sb" "sb_subdata sb = Some sbo"
    "length (sbo_stack sbo) = cap" "sbo_stack_alloc sbo = cap" "sbo_stack_size sbo = length fs"
    "length fs \<le> cap" "sbo_type sbo = m" "fs = frames sbo" by (rule obj_repE)
  show thesis
  proof (cases "fs = []")
    case True
    then show thesis using that [of s] assms sb by (simp add: count_in_parent_def get_sbo_def)
  next
    case False
    let ?i = "length fs - 1" and ?st = "sbo_stack sbo"
    let ?sbo = "sbo\<lparr>sbo_stack := ?st[?i := (?st ! ?i)\<lparr>ss_size := ss_size (?st ! ?i) + 1\<rparr>]\<rparr>"
    have i: "?i < cap" "0 < length fs" using False sb(6) by (cases fs; simp)+
    have t: "take (length fs) ?st = fs" using sb(5,8) by (simp add: frames_def)
    have l: "last fs = ?st ! ?i"
      using nth_take [of ?i "length fs" ?st] i(2) False by (simp add: t last_conv_nth)
    have "frames ?sbo = fs[?i := (?st ! ?i)\<lparr>ss_size := ss_size (?st ! ?i) + 1\<rparr>]"
      by (simp add: frames_def take_update_swap sb(5) t)
    also have "\<dots> = bump fs"
      using False by (simp only: bump_def l list_update_last [OF False] if_False)
    finally have fr: "frames ?sbo = bump fs" .
    have "count_in_parent s = Some (set_sbo s ?sbo)"
      using i sb(1-5) by (simp add: count_in_parent_def get_sbo_def Let_def)
    moreover have "obj_rep (set_sbo s ?sbo) (sbo_type ?sbo, frames ?sbo, c) cap"
      by (rule obj_rep_set_sbo [OF assms]) (use sb in auto)
    ultimately show thesis using that sb(7) fr by simp
  qed
qed

context allocator
begin

lemma obj_writev_cases:
  assumes "obj_rep s (m, fs, c) cap" and "concat iov \<noteq> []"
  obtains s' where "tnt_buf_writev ra s iov = Some (-1, s')" "\<not> grants_all ra"
    | s' where "tnt_buf_writev ra s iov = Some (int (length (concat iov)), s')"
        "obj_rep s' (m, fs, c @ concat iov) cap"
proof -
  from assms(1) obtain sb sbo where sb: "s_data s = Some sb" "sb_subdata sb = Some sbo" "sbuf_wf sb"
    "\<not> sb_as sb" "length (sbo_stack sbo) = cap" "sbo_stack_alloc sbo = cap"
    "sbo_stack_size sbo = length fs" "length fs \<le> cap" "sbo_type sbo = m" "fs = frames sbo"
    "c = sbuf_contents sb" by (rule obj_repE)
  from buf_writev_cases [OF sb(1,3,4) assms(2)] show thesis
  proof cases
    case (1 s')
    then show thesis by (rule that(1))
  next
    case (2 sb')
    then have "sb_subdata sb' = Some sbo" "\<not> sb_as sb'" using sb(2,4) by auto
    with 2 sb show thesis by (intro that(2)) (auto simp: obj_rep_def)
  qed
qed

lemmas obj_write_cases = obj_writev_cases [where iov = "[bs]" for bs, folded tnt_buf_write_writev, simplified]

end

section \<open>Refinement\<close>

text \<open>
  Strings have 32-bit lengths, and an opened container must find room on the stack, of which \<open>h\<close>
  entries are in use.
\<close>

fun fits :: "nat \<Rightarrow> nat \<Rightarrow> obj_op list \<Rightarrow> bool" where
  "fits cap h [] \<longleftrightarrow> True"
| "fits cap h (OStr b # xs) \<longleftrightarrow> length b < 2 ^ 32 \<and> fits cap h xs"
| "fits cap h (OBin b # xs) \<longleftrightarrow> length b < 2 ^ 32 \<and> fits cap h xs"
| "fits cap h (OArr n # xs) \<longleftrightarrow> h < cap \<and> fits cap (Suc h) xs"
| "fits cap h (OMap n # xs) \<longleftrightarrow> h < cap \<and> fits cap (Suc h) xs"
| "fits cap h (OClose # xs) \<longleftrightarrow> fits cap (h - 1) xs"
| "fits cap h (_ # xs) \<longleftrightarrow> fits cap h xs"

text \<open>
  What a call may do on an object that represents \<open>st\<close>: it is defined; it fails only when memory
  is refused or the abstract step does; otherwise it makes the abstract step.
\<close>

definition refines_step :: "realloc_fn \<Rightarrow> nat \<Rightarrow> builder option \<Rightarrow> (int \<times> obj) option \<Rightarrow> bool" where
  "refines_step ra cap st' res \<longleftrightarrow> (\<exists>r s'. res = Some (r, s') \<and>
     (if r = -1 then st' = None \<or> \<not> grants_all ra
      else 0 \<le> r \<and> (\<exists>x. st' = Some x \<and> obj_rep s' x cap)))"

lemma refines_stepI:
  "res = Some (-1, s') \<Longrightarrow> \<not> grants_all ra \<Longrightarrow> refines_step ra cap st' res"
  "res = Some (r, s') \<Longrightarrow> 0 \<le> r \<Longrightarrow> st' = Some x \<Longrightarrow> obj_rep s' x cap \<Longrightarrow> refines_step ra cap st' res"
  "res = Some (-1, s') \<Longrightarrow> st' = None \<Longrightarrow> refines_step ra cap st' res"
  unfolding refines_step_def by fastforce+

context allocator
begin

lemma obj_add_refines:
  assumes "obj_rep s (m, fs, c) cap" and "concat iov \<noteq> []"
  shows "refines_step ra cap (Some (m, bump fs, c @ concat iov))
     (do { s1 \<leftarrow> count_in_parent s; tnt_buf_writev ra s1 iov })"
proof -
  from assms(1) obtain s1 where s1: "count_in_parent s = Some s1" "obj_rep s1 (m, bump fs, c) cap"
    by (rule count_in_parent_bump)
  from obj_writev_cases [OF s1(2) assms(2)] show ?thesis
    by cases (use s1 in \<open>auto intro: refines_stepI\<close>)
qed

lemmas obj_add_one_refines =
  obj_add_refines [where iov = "[bs]" for bs, folded tnt_buf_write_writev, simplified]

lemma push_container_refines:
  assumes "obj_rep s (m, fs, c) cap" and "length fs < cap" and "hdr m \<noteq> []"
  shows "refines_step ra cap
     (Some (m, bump fs @ [\<lparr>ss_offset = length c, ss_size = 0, ss_type = ty\<rparr>], c @ hdr m))
     (push_container ra s ty hdr)"
proof -
  let ?f = "\<lparr>ss_offset = length c, ss_size = 0, ss_type = ty\<rparr>"
  from assms(1) obtain s1 where s1: "count_in_parent s = Some s1" "obj_rep s1 (m, bump fs, c) cap"
    by (rule count_in_parent_bump)
  from s1(2) obtain sb sbo where sb: "s_data s1 = Some sb" "sb_subdata sb = Some sbo"
    "length (sbo_stack sbo) = cap" "sbo_stack_alloc sbo = cap" "sbo_stack_size sbo = length (bump fs)"
    "sbo_type sbo = m" "bump fs = frames sbo" "sb_size sb = length c" by (rule obj_repE)
  let ?sbo = "sbo\<lparr>sbo_stack := (sbo_stack sbo)[sbo_stack_size sbo := ?f],
      sbo_stack_size := sbo_stack_size sbo + 1\<rparr>"
  have "frames ?sbo = frames sbo @ [?f]"
    using sb(3,5) assms(2) by (simp add: frames_def take_Suc_conv_app_nth)
  moreover have lt: "length (frames sbo) < cap" using assms(2) by (simp add: sb(7) [symmetric])
  ultimately have rep: "obj_rep (set_sbo s1 ?sbo) (m, bump fs @ [?f], c) cap"
    using obj_rep_set_sbo [OF s1(2), of ?sbo] sb assms(2) by simp
  have push: "push_container ra s ty hdr = tnt_buf_write ra (set_sbo s1 ?sbo) (hdr m)"
    using s1(1) sb lt by (simp add: push_container_def get_sbo_def)
  from obj_write_cases [OF rep assms(3)] show ?thesis
    by cases (auto simp: push intro: refines_stepI)
qed

end

text \<open>Overwriting the header of an open container in place.\<close>

lemma sbuf_overwrite:
  assumes "sbuf_wf sb" and "off + length h \<le> sb_size sb" and "0 < length h"
  obtains sb' where "sbuf_memcpy sb off h = Some sb'" "sbuf_wf sb'"
    "sbuf_contents sb' = blit (sbuf_contents sb) off h" "\<exists>d. sb' = sb\<lparr>sb_data := Blk d\<rparr>"
proof -
  from assms obtain d where d: "sb_data sb = Blk d" "length d = sb_alloc sb" "sb_size sb \<le> length d"
    by (auto simp: sbuf_wf_def split: cptr.splits)
  have l: "off + length h \<le> length d" using assms(2) d(3) by simp
  have "off < sb_size sb" using assms(2,3) by linarith
  then have "take (sb_size sb) (blit d off h) = blit (take (sb_size sb) d) off h"
    using assms(2) d(3) by (auto simp: blit_def drop_take min_def)
  with l d assms(1) show thesis
    by (intro that [of "sb\<lparr>sb_data := Blk (blit d off h)\<rparr>"])
      (auto simp: sbuf_memcpy_def sbuf_wf_def sbuf_contents_def)
qed

text \<open>The packed header replaces one byte: the rest moves up and the size grows.\<close>

lemma blit_shift:
  assumes "off < n" and "n + k \<le> length d" and "length h = k + 1"
  shows "take (n + k) (blit (blit d (off + (k + 1)) (take (n - off - 1) (drop (off + 1) d))) off h)
     = take off d @ h @ drop (off + 1) (take n d)"
proof -
  have e: "n + k = off + (k + 1) + (n - off - 1)" using assms(1) by simp
  let ?t = "take (n - off - 1) (drop (off + 1) d)"
  have l: "length ?t = n - off - 1" using assms by simp
  have "take (n + k) (blit (blit d (off + (k + 1)) ?t) off h) = take off d @ h @ ?t"
    unfolding e using assms l by (simp add: blit_def min_def)
  then show ?thesis by (simp add: drop_take)
qed

context allocator
begin

lemma sbuf_widen:
  assumes "sbuf_wf sb" and "off < sb_size sb" and "1 < length h" and "k = length h - 1"
  obtains sb' where "call_resize ra sb k = Some (None, sb')" "\<not> grants_all ra"
    | p sb1 sb2 sb3 where "call_resize ra sb k = Some (Some p, sb1)"
        "sbuf_memmove sb1 (off + length h) (off + 1) (sb_size sb1 - off - 1) = Some sb2"
        "sbuf_memcpy sb2 off h = Some sb3" "sbuf_wf (sb3\<lparr>sb_size := sb_size sb3 + k\<rparr>)"
        "sbuf_contents (sb3\<lparr>sb_size := sb_size sb3 + k\<rparr>)
           = take off (sbuf_contents sb) @ h @ drop (off + 1) (sbuf_contents sb)"
        "\<exists>d a. sb3 = sb\<lparr>sb_data := d, sb_alloc := a\<rparr>"
proof -
  have "0 < k" using assms(3,4) by simp
  from call_resize_cases [OF assms(1) this] show thesis
  proof cases
    case (1 sb')
    then show thesis by (rule that(1))
  next
    case (2 sb1)
    let ?n = "sb_size sb"
    from 2(2) obtain d where d: "sb1 = sb\<lparr>sb_data := Blk d, sb_alloc := length d\<rparr>"
      "?n + k \<le> length d" "take ?n d = sbuf_contents sb" by (auto simp: room_def)
    have h: "length h = k + 1" using assms(3,4) by simp
    define e where "e = blit d (off + (k + 1)) (take (?n - off - 1) (drop (off + 1) d))"
    define g where "g = blit e off h"
    have le: "length e = length d" using d(2) assms(2) by (simp add: e_def)
    have lg: "length g = length d" using d(2) assms(2) h by (simp add: g_def le)
    have c: "take (?n + k) g = take off (sbuf_contents sb) @ h @ drop (off + 1) (sbuf_contents sb)"
      unfolding g_def e_def blit_shift [OF assms(2) d(2) h] using assms(2) by (simp add: d(3) [symmetric] min_def)
    show thesis
    proof (rule that(2) [OF 2(1)])
      show "sbuf_memmove sb1 (off + length h) (off + 1) (sb_size sb1 - off - 1)
          = Some (sb1\<lparr>sb_data := Blk e\<rparr>)"
        using d(2) assms(2) by (simp add: d(1) sbuf_memmove_def sbuf_memcpy_def h e_def)
      show "sbuf_memcpy (sb1\<lparr>sb_data := Blk e\<rparr>) off h = Some (sb1\<lparr>sb_data := Blk g\<rparr>)"
        using d(2) assms(2) h by (simp add: d(1) sbuf_memcpy_def g_def le)
      show "\<exists>d' a. sb1\<lparr>sb_data := Blk g\<rparr> = sb\<lparr>sb_data := d', sb_alloc := a\<rparr>"
        by (intro exI [of _ "Blk g"] exI [of _ "length d"]) (simp add: d(1))
    qed (use assms(1) d(2) lg c in \<open>auto simp: d(1) sbuf_wf_def sbuf_contents_def\<close>)
  qed
qed

end

text \<open>The environment of the object builder: a msgpuck and an allocator that keep their contracts.\<close>

locale builder_env = msgpuck_laws mp + allocator ra for mp :: msgpuck and ra :: realloc_fn
begin

definition new_hdr :: "sbo_frame \<Rightarrow> bytes" where
  "new_hdr f = (if ss_type f = MP_MAP then mp_encode_map mp (ss_size f div 2) else mp_encode_array mp (ss_size f))"

lemma new_hdr_size: "(if ss_type f = MP_MAP then mp_sizeof_map mp (ss_size f div 2)
    else mp_sizeof_array mp (ss_size f)) = length (new_hdr f)"
  by (simp add: new_hdr_def size_map size_array)

lemma new_hdr_nonempty: "0 < length (new_hdr f)"
  using encodes_nonempty [OF enc_map] encodes_nonempty [OF enc_array] by (simp add: new_hdr_def)

text \<open>Taking the last frame off.\<close>

lemma pop_frame:
  assumes "obj_rep s (m, fs @ [f], c) cap"
  obtains sbo sb where "get_sbo s = Some sbo" "sbo_type sbo = m" "sbo_stack_size sbo = Suc (length fs)"
    "sbo_stack_size sbo \<le> length (sbo_stack sbo)" "sbo_stack sbo ! length fs = f"
    "s_data (set_sbo s (sbo\<lparr>sbo_stack_size := length fs\<rparr>)) = Some sb"
    "sbuf_wf sb" "sbuf_contents sb = c" "sb_size sb = length c"
    "\<forall>sb'. sbuf_wf sb' \<longrightarrow> \<not> sb_as sb' \<longrightarrow> sb_subdata sb' = sb_subdata sb \<longrightarrow>
       obj_rep (upd_sb (set_sbo s (sbo\<lparr>sbo_stack_size := length fs\<rparr>)) sb') (m, fs, sbuf_contents sb') cap"
    "\<not> sb_as sb"
proof -
  from assms obtain sb sbo where sb: "s_data s = Some sb" "sb_subdata sb = Some sbo" "sbuf_wf sb"
    "\<not> sb_as sb" "length (sbo_stack sbo) = cap" "sbo_stack_alloc sbo = cap"
    "sbo_stack_size sbo = length (fs @ [f])" "length (fs @ [f]) \<le> cap" "sbo_type sbo = m"
    "fs @ [f] = frames sbo" "c = sbuf_contents sb" "sb_size sb = length c" by (rule obj_repE)
  have "sbo_stack_size sbo = Suc (length fs)" using sb(7) by simp
  then have t: "take (Suc (length fs)) (sbo_stack sbo) = fs @ [f]" by (simp add: sb(10) frames_def)
  then have t': "take (length fs) (sbo_stack sbo) = fs"
    by (metis append_eq_conv_conj butlast_snoc butlast_take diff_Suc_1 length_append_singleton
        length_take min.cobounded1)
  have n: "sbo_stack sbo ! length fs = f"
    using nth_take [of "length fs" "Suc (length fs)" "sbo_stack sbo"] by (simp add: t)
  let ?sb = "sb\<lparr>sb_subdata := Some (sbo\<lparr>sbo_stack_size := length fs\<rparr>)\<rparr>"
  show thesis
    by (rule that [of sbo ?sb])
      (use sb(1-9,11,12) n t' in \<open>auto simp: get_sbo_def set_sbo_def upd_sb_def obj_rep_def frames_def\<close>)
qed

text \<open>In sparse mode closing rewrites the header in place and cannot fail.\<close>

lemma close_sparse:
  assumes rep: "obj_rep s (TNT_SBO_SPARSE, fs @ [f], c) cap" and off: "ss_offset f + 5 \<le> length c"
    and even: "\<not> (ss_type f = MP_MAP \<and> unat (ss_size f) mod 2 \<noteq> 0)"
  obtains s' where "tnt_object_container_close mp ra s = Some (0, s')"
    "obj_rep s' (TNT_SBO_SPARSE, fs, hdr_close mp TNT_SBO_SPARSE f c) cap"
proof -
  from rep obtain sbo sb where sb: "get_sbo s = Some sbo" "sbo_type sbo = TNT_SBO_SPARSE"
    "sbo_stack_size sbo = Suc (length fs)" "sbo_stack_size sbo \<le> length (sbo_stack sbo)"
    "sbo_stack sbo ! length fs = f" "s_data (set_sbo s (sbo\<lparr>sbo_stack_size := length fs\<rparr>)) = Some sb"
    "sbuf_wf sb" "sbuf_contents sb = c" "sb_size sb = length c"
    and upd: "\<forall>sb'. sbuf_wf sb' \<longrightarrow> \<not> sb_as sb' \<longrightarrow> sb_subdata sb' = sb_subdata sb \<longrightarrow>
       obj_rep (upd_sb (set_sbo s (sbo\<lparr>sbo_stack_size := length fs\<rparr>)) sb') (TNT_SBO_SPARSE, fs, sbuf_contents sb') cap"
    and as: "\<not> sb_as sb"
    by (rule pop_frame)
  let ?s = "set_sbo s (sbo\<lparr>sbo_stack_size := length fs\<rparr>)" and ?o = "ss_offset f"
  define h where "h = (if ss_type f = MP_MAP then mp_encode_map32 mp (ss_size f div 2)
    else mp_encode_array32 mp (ss_size f))"
  have "length h = 5" by (simp add: h_def)
  then have "?o + length h \<le> sb_size sb" "0 < length h" using off by (simp_all add: sb(9))
  from sbuf_overwrite [OF sb(7) this] obtain sb' where w: "sbuf_memcpy sb ?o h = Some sb'"
    "sbuf_wf sb'" "sbuf_contents sb' = blit c ?o h" "\<exists>d. sb' = sb\<lparr>sb_data := Blk d\<rparr>"
    by (auto simp: sb(8))
  have "obj_rep (upd_sb ?s sb') (TNT_SBO_SPARSE, fs, blit c ?o h) cap" using upd w as by auto
  moreover have "tnt_object_container_close mp ra s = Some (0, upd_sb ?s sb')"
    using even sb(4) w(1) by (auto simp: tnt_object_container_close_def sb(1-6) Let_def h_def)
  ultimately show thesis by (intro that) (simp_all add: h_def)
qed

lemma close_refines:
  assumes rep: "obj_rep s (m, fs @ [f], c) cap" and off: "ss_offset f + hdr_len m \<le> length c"
    and even: "\<not> (ss_type f = MP_MAP \<and> unat (ss_size f) mod 2 \<noteq> 0)"
  shows "refines_step ra cap (Some (m, fs, hdr_close mp m f c)) (tnt_object_container_close mp ra s)"
proof -
  from rep obtain sbo sb where sb: "get_sbo s = Some sbo" "sbo_type sbo = m"
    "sbo_stack_size sbo = Suc (length fs)" "sbo_stack_size sbo \<le> length (sbo_stack sbo)"
    "sbo_stack sbo ! length fs = f" "s_data (set_sbo s (sbo\<lparr>sbo_stack_size := length fs\<rparr>)) = Some sb"
    "sbuf_wf sb" "sbuf_contents sb = c" "sb_size sb = length c"
    and upd': "\<forall>sb'. sbuf_wf sb' \<longrightarrow> \<not> sb_as sb' \<longrightarrow> sb_subdata sb' = sb_subdata sb \<longrightarrow>
       obj_rep (upd_sb (set_sbo s (sbo\<lparr>sbo_stack_size := length fs\<rparr>)) sb') (m, fs, sbuf_contents sb') cap"
    and as: "\<not> sb_as sb"
    by (rule pop_frame)
  note upd = upd' [rule_format]
  let ?s = "set_sbo s (sbo\<lparr>sbo_stack_size := length fs\<rparr>)" and ?o = "ss_offset f"
  note close = tnt_object_container_close_def sb(1-6) Let_def
  note nev = even [unfolded not_not]
  show ?thesis
  proof (cases m)
    case TNT_SBO_SIMPLE
    have "upd_sb ?s sb = ?s" using sb(6) by (simp add: upd_sb_def)
    with upd [OF sb(7) as refl] have "obj_rep ?s (m, fs, c) cap" by (simp add: sb(8))
    then show ?thesis using even sb(4) TNT_SBO_SIMPLE
      by (intro refines_stepI(2) [where r = 0]) (auto simp: close)
  next
    case TNT_SBO_SPARSE
    then obtain s' where "tnt_object_container_close mp ra s = Some (0, s')"
      "obj_rep s' (m, fs, hdr_close mp m f c) cap"
      using close_sparse [of s fs f c cap] rep off even by auto
    then show ?thesis by (intro refines_stepI(2) [where r = 0]) simp_all
  next
    case TNT_SBO_PACKED
    let ?h = "new_hdr f"
    have o: "?o + 1 \<le> sb_size sb" using off by (simp add: TNT_SBO_PACKED sb(9))
    have goal: ?thesis if "tnt_object_container_close mp ra s = Some (0, upd_sb ?s sb')"
      "sbuf_wf sb'" "sbuf_contents sb' = take ?o c @ ?h @ drop (?o + 1) c" "\<not> sb_as sb'"
      "sb_subdata sb' = sb_subdata sb" for sb'
      using upd [of sb'] that TNT_SBO_PACKED
      by (intro refines_stepI(2) [where r = 0]) (auto simp: new_hdr_def)
    show ?thesis
    proof (cases "length ?h = 1")
      case True
      from sbuf_overwrite [OF sb(7), of ?o ?h] o True obtain sb' where w:
        "sbuf_memcpy sb ?o ?h = Some sb'" "sbuf_wf sb'" "sbuf_contents sb' = blit c ?o ?h"
        "\<exists>d. sb' = sb\<lparr>sb_data := Blk d\<rparr>" by (auto simp: sb(8))
      have "tnt_object_container_close mp ra s = Some (0, upd_sb ?s sb')"
        using even sb(4) TNT_SBO_PACKED w(1) True by (auto simp: close new_hdr_size new_hdr_def [symmetric])
      then show ?thesis by (rule goal) (use w as True in \<open>auto simp: blit_def\<close>)
    next
      case False
      then have "1 < length ?h" using new_hdr_nonempty [of f] by linarith
      have "?o < sb_size sb" using o by simp
      from sbuf_widen [OF sb(7) this \<open>1 < length ?h\<close> refl] show ?thesis
      proof cases
        case (1 sb')
        then have "tnt_object_container_close mp ra s = Some (-1, upd_sb ?s sb')"
          using even sb(4) TNT_SBO_PACKED \<open>1 < length ?h\<close>
          by (auto simp: close new_hdr_size new_hdr_def [symmetric])
        then show ?thesis using 1(2) by (rule refines_stepI(1))
      next
        case (2 p sb1 sb2 sb3)
        have "tnt_object_container_close mp ra s
            = Some (0, upd_sb ?s (sb3\<lparr>sb_size := sb_size sb3 + (length ?h - 1)\<rparr>))"
          using even sb(4) TNT_SBO_PACKED \<open>1 < length ?h\<close> 2(1-3)
          by (auto simp: close new_hdr_size new_hdr_def [symmetric])
        then show ?thesis by (rule goal) (use 2(4-6) as in \<open>auto simp: sb(8)\<close>)
      qed
    qed
  qed
qed

lemma hdr_open_length: "hdr_len m \<le> length (hdr_open mp m ty n)"
  by (cases m) auto

lemma hdr_open_nonempty: "hdr_open mp m ty n \<noteq> []"
proof (cases m)
  case TNT_SBO_SIMPLE
  then show ?thesis using encodes_nonempty [OF enc_map] encodes_nonempty [OF enc_array] by simp
qed (metis hdr_open_length hdr_len.simps le_zero_eq list.size(3) one_neq_zero zero_neq_numeral)+

lemma hdr_close_length:
  "ss_offset f + hdr_len m \<le> length c \<Longrightarrow> length c \<le> length (hdr_close mp m f c)"
proof (cases m)
  case TNT_SBO_PACKED
  moreover assume "ss_offset f + hdr_len m \<le> length c"
  ultimately show ?thesis using new_hdr_nonempty [of f]
    by (cases "new_hdr f") (auto simp: new_hdr_def [symmetric])
qed auto

lemma bump_offsets: "\<forall>f \<in> set fs. P (ss_offset f) \<Longrightarrow> \<forall>f \<in> set (bump fs). P (ss_offset f)"
  by (cases fs rule: rev_cases) (auto simp: bump_def)

lemma abs_exec_ok:
  assumes "builder_ok st" and "abs_exec mp x st = Some st'"
  shows "builder_ok st'"
proof -
  obtain m fs c where st: "st = (m, fs, c)" by (cases st) auto
  have up: "\<forall>f \<in> set (bump fs). ss_offset f + hdr_len m \<le> length c" "\<forall>f \<in> set fs. ss_offset f + hdr_len m \<le> length c"
    using assms(1) bump_offsets [of fs "\<lambda>z. z + hdr_len m \<le> length c"] by (auto simp: st builder_ok_def)
  have up3: "ss_offset f + hdr_len m \<le> length c + d" if "f \<in> set (bump fs)" for f d
    using up(1) that by (auto intro: trans_le_add1)
  show ?thesis
  proof (cases "x = OClose")
    case True
    then show ?thesis using assms(2) up(2) hdr_close_length [of "last fs" m c]
      by (force simp: st builder_ok_def split: if_splits dest: in_set_butlastD last_in_set)
  next
    case False
    then show ?thesis using assms(2) hdr_open_length [of m]
      by (cases x) (auto simp: st builder_ok_def intro: up3)
  qed
qed

lemma op_bytes_nonempty:
  assumes "\<And>n. x \<noteq> OArr n" "\<And>n. x \<noteq> OMap n" "x \<noteq> OClose" "fits cap h [x]"
  shows "op_bytes mp x \<noteq> []"
proof -
  have "mp_encode_strl mp (of_nat (length b)) @ b \<noteq> []" "mp_encode_binl mp (of_nat (length b)) @ b \<noteq> []"
    if "length b < 2 ^ 32" for b
    using encodes_nonempty [OF enc_strl, of b "of_nat (length b)"]
      encodes_nonempty [OF enc_binl, of b "of_nat (length b)"] that by (simp_all add: unat_of_nat_small)
  then show ?thesis using assms enc_toks [THEN encodes_nonempty] by (cases x) auto
qed

theorem obj_exec_refines:
  assumes "obj_rep s (m, fs, c) cap" and "builder_ok (m, fs, c)" and "fits cap (length fs) [x]"
  shows "refines_step ra cap (abs_exec mp x (m, fs, c)) (obj_exec mp ra x s)"
proof (cases x)
  case (OArr n)
  then have "obj_exec mp ra x s = push_container ra s MP_ARRAY (\<lambda>m. hdr_open mp m MP_ARRAY n)"
    by (auto simp: tnt_object_add_array_def intro!: arg_cong [of _ _ "push_container ra s MP_ARRAY"]
        split: tnt_sbo_type.splits)
  then show ?thesis using assms(3) OArr hdr_open_nonempty
      push_container_refines [OF assms(1), of "\<lambda>m. hdr_open mp m MP_ARRAY n" MP_ARRAY] by simp
next
  case (OMap n)
  then have "obj_exec mp ra x s = push_container ra s MP_MAP (\<lambda>m. hdr_open mp m MP_MAP n)"
    by (auto simp: tnt_object_add_map_def intro!: arg_cong [of _ _ "push_container ra s MP_MAP"]
        split: tnt_sbo_type.splits)
  then show ?thesis using assms(3) OMap hdr_open_nonempty
      push_container_refines [OF assms(1), of "\<lambda>m. hdr_open mp m MP_MAP n" MP_MAP] by simp
next
  case OClose
  show ?thesis
  proof (cases fs rule: rev_cases)
    case Nil
    from assms(1) obtain sbo where "get_sbo s = Some sbo" "sbo_stack_size sbo = 0"
      by (rule obj_repE) (simp add: Nil get_sbo_def)
    then show ?thesis
      by (intro refines_stepI(3)) (simp_all add: OClose Nil tnt_object_container_close_def)
  next
    case (snoc gs f)
    show ?thesis
    proof (cases "ss_type f = MP_MAP \<and> unat (ss_size f) mod 2 \<noteq> 0")
      case True
      from assms(1) [unfolded snoc] obtain sbo sb where "get_sbo s = Some sbo"
        "sbo_stack_size sbo = Suc (length gs)" "sbo_stack_size sbo \<le> length (sbo_stack sbo)"
        "sbo_stack sbo ! length gs = f" by (rule pop_frame)
      with True show ?thesis
        by (intro refines_stepI(3)) (simp_all add: OClose snoc tnt_object_container_close_def Let_def)
    next
      case False
      then show ?thesis
        using close_refines [of s m gs f c cap] assms(1,2) by (auto simp: OClose snoc builder_ok_def)
    qed
  qed
qed (use obj_add_one_refines [OF assms(1)] obj_add_refines [OF assms(1), where iov = "[h, b]" for h b]
       op_bytes_nonempty [of x cap "length fs"] assms(3) in
     \<open>auto simp: tnt_object_add_nil_def tnt_object_add_uint_def tnt_object_add_int_def tnt_object_add_str_def
        tnt_object_add_bin_def tnt_object_add_bool_def tnt_object_add_float_def tnt_object_add_double_def
        unat_of_nat_small\<close>)

lemma fits_head: "fits cap h (x # xs) \<Longrightarrow> fits cap h [x]"
  by (cases x) auto

lemma fits_tail:
  "fits cap (length fs) (x # xs) \<Longrightarrow> abs_exec mp x (m, fs, c) = Some (m', fs', c') \<Longrightarrow>
   fits cap (length fs') xs"
  by (cases x) (auto split: if_splits)

lemma obj_run_refines:
  assumes "obj_rep s (m, fs, c) cap" and "builder_ok (m, fs, c)" and "fits cap (length fs) xs" and "0 \<le> acc"
  shows "refines_step ra cap (abs_run mp xs (m, fs, c)) (obj_run mp ra xs s acc)"
  using assms
proof (induction xs arbitrary: s m fs c acc)
  case Nil
  then show ?case by (intro refines_stepI(2) [where r = acc]) auto
next
  case (Cons x xs)
  from obj_exec_refines [OF Cons.prems(1,2) fits_head [OF Cons.prems(3)]] obtain r s1 where
    r: "obj_exec mp ra x s = Some (r, s1)"
    "if r = -1 then abs_exec mp x (m, fs, c) = None \<or> \<not> grants_all ra
     else 0 \<le> r \<and> (\<exists>y. abs_exec mp x (m, fs, c) = Some y \<and> obj_rep s1 y cap)" by (auto simp: refines_step_def)
  show ?case
  proof (cases "r = -1")
    case True
    then show ?thesis using r by (auto simp: refines_step_def)
  next
    case False
    with r(2) obtain m' fs' c' where y: "abs_exec mp x (m, fs, c) = Some (m', fs', c')"
      "obj_rep s1 (m', fs', c') cap" "0 \<le> acc + r" using Cons.prems(4) by auto
    have "refines_step ra cap (abs_run mp xs (m', fs', c')) (obj_run mp ra xs s1 (acc + r))"
      by (rule Cons.IH [OF y(2) abs_exec_ok [OF Cons.prems(2) y(1)] fits_tail [OF Cons.prems(3) y(1)] y(3)])
    then show ?thesis using r(1) False y(1) by simp
  qed
qed

end

lemma foldr_max_le: "foldr max xs 0 \<le> n \<longleftrightarrow> (\<forall>x \<in> set xs. x \<le> (n :: nat))"
  by (induction xs) auto

lemma fits_concat:
  assumes "\<And>x ys. x \<in> set xs \<Longrightarrow> fits cap h (g x @ ys) = fits cap h ys"
  shows "fits cap h (concat (map g xs) @ ys) = fits cap h ys"
  using assms by (induction xs) auto

lemma fits_ops_of:
  "buildable v \<Longrightarrow> h + mdepth v \<le> cap \<Longrightarrow> fits cap h (ops_of cnt v @ ys) = fits cap h ys"
proof (induction v arbitrary: h ys)
  case (VArr vs)
  have "\<forall>v \<in> set vs. Suc h + mdepth v \<le> cap"
    using VArr.prems(2) foldr_max_le [of "map mdepth vs" "cap - Suc h"] by auto
  then have "fits cap (Suc h) (concat (map (ops_of cnt) vs) @ OClose # ys) = fits cap (Suc h) (OClose # ys)"
    using VArr by (intro fits_concat) auto
  then show ?case using VArr.prems(2) by simp
next
  case (VMap kvs)
  have *: "\<forall>(k, v) \<in> set kvs. Suc h + mdepth k \<le> cap \<and> Suc h + mdepth v \<le> cap"
    using VMap.prems(2) foldr_max_le [of "map (\<lambda>(k, v). max (mdepth k) (mdepth v)) kvs" "cap - Suc h"]
    by fastforce
  have "fits cap (Suc h) ((case x of (k, v) \<Rightarrow> ops_of cnt k @ ops_of cnt v) @ zs) = fits cap (Suc h) zs"
    if "x \<in> set kvs" for x zs
  proof -
    obtain k v where x: "x = (k, v)" by (cases x)
    then have "buildable k \<and> buildable v" "Suc h + mdepth k \<le> cap \<and> Suc h + mdepth v \<le> cap"
      using that VMap.prems(1) * by auto
    with VMap.IH [of x k "Suc h"] VMap.IH [of x v "Suc h"] that show ?thesis by (simp add: x)
  qed
  then have "fits cap (Suc h) (concat (map (\<lambda>(k, v). ops_of cnt k @ ops_of cnt v) kvs) @ OClose # ys)
      = fits cap (Suc h) (OClose # ys)"
    by (rule fits_concat)
  then show ?case using VMap.prems(2) by simp
qed auto

lemma buildable_vwf: "buildable v \<Longrightarrow> vwf v"
proof (induction v)
  case (VMap kvs)
  have "vwf k \<and> vwf v" if "(k, v) \<in> set kvs" for k v
    using VMap.IH [OF that] VMap.prems that by auto
  then show ?case using VMap.prems by auto
qed auto

section \<open>Values and format strings\<close>

context builder_env
begin

text \<open>The outcome of the calls that build one value, with or without memory.\<close>

lemma obj_build_value:
  assumes "obj_rep s (m, fs, c) cap" and "builder_ok (m, fs, c)" and "buildable v"
    and "length fs + mdepth v \<le> cap" and "m = TNT_SBO_SIMPLE \<longrightarrow> (\<forall>n. cnt n = of_nat n)" and "0 \<le> acc"
  obtains s' where "obj_run mp ra (ops_of cnt v) s acc = Some (-1, s')" "\<not> grants_all ra"
    | r s' bs where "obj_run mp ra (ops_of cnt v) s acc = Some (r, s')" "0 \<le> r"
        "encodes (toks v) bs" "obj_rep s' (m, bump fs, c @ bs) cap"
proof -
  obtain bs where bs: "encodes (toks v) bs" "abs_run mp (ops_of cnt v) (m, fs, c) = Some (m, bump fs, c @ bs)"
    using builds_value [OF assms(3,5)] by (auto simp: builds_one_def)
  have "fits cap (length fs) (ops_of cnt v)"
    using fits_ops_of [OF assms(3,4), of cnt "[]"] by simp
  from obj_run_refines [OF assms(1,2) this assms(6)] bs show thesis
    by (auto simp: refines_step_def split: if_splits intro: that)
qed

end

interpretation ref_env: builder_env mp_ref "custom_realloc os" for os
  by unfold_locales

text \<open>
  The format string and the variadic arguments of a value.  \<open>f2d\<close> is the promotion of a \<open>float\<close> to
  the \<open>double\<close> that is passed for \<open>%f\<close>; binary strings have no conversion.
\<close>

fun fmt_of :: "mval \<Rightarrow> string" where
  "fmt_of VNil = ''NIL''"
| "fmt_of (VUint n) = ''%llu''"
| "fmt_of (VInt n) = ''%lld''"
| "fmt_of (VStr s) = ''%.*s''"
| "fmt_of (VBool b) = ''%b''"
| "fmt_of (VFlt f) = ''%f''"
| "fmt_of (VDbl d) = ''%lf''"
| "fmt_of (VArr vs) = ''['' @ concat (map fmt_of vs) @ '']''"
| "fmt_of (VMap kvs) = ''{'' @ concat (map (\<lambda>(k, v). fmt_of k @ fmt_of v) kvs) @ ''}''"
| "fmt_of _ = []"

fun args_of :: "(u32 \<Rightarrow> u64) \<Rightarrow> mval \<Rightarrow> va list" where
  "args_of f2d (VUint n) = [VaLong n]"
| "args_of f2d (VInt n) = [VaLong n]"
| "args_of f2d (VStr s) = [VaInt (of_nat (length s)), VaPtr s]"
| "args_of f2d (VBool b) = [VaInt (if b then 1 else 0)]"
| "args_of f2d (VFlt f) = [VaDbl (f2d f)]"
| "args_of f2d (VDbl d) = [VaDbl d]"
| "args_of f2d (VArr vs) = concat (map (args_of f2d) vs)"
| "args_of f2d (VMap kvs) = concat (map (\<lambda>(k, v). args_of f2d k @ args_of f2d v) kvs)"
| "args_of f2d _ = []"

fun formattable :: "mval \<Rightarrow> bool" where
  "formattable (VBin _) \<longleftrightarrow> False"
| "formattable (VExt _ _) \<longleftrightarrow> False"
| "formattable (VArr vs) \<longleftrightarrow> (\<forall>v \<in> set vs. formattable v)"
| "formattable (VMap kvs) \<longleftrightarrow> (\<forall>(k, v) \<in> set kvs. formattable k \<and> formattable v)"
| "formattable _ \<longleftrightarrow> True"

text \<open>Running calls and then going on with the rest of the format string.\<close>

fun then_format :: "msgpuck \<Rightarrow> realloc_fn \<Rightarrow> (u64 \<Rightarrow> u32) \<Rightarrow> obj_op list \<Rightarrow> string \<Rightarrow> va list \<Rightarrow> obj \<Rightarrow> int
    \<Rightarrow> (int \<times> obj) option" where
  "then_format mp ra d2f [] f vl s acc = vformat_loop mp ra d2f s f vl acc"
| "then_format mp ra d2f (x # xs) f vl s acc = do {
     (r, s1) \<leftarrow> obj_exec mp ra x s;
     if r = -1 then Some (-1, s1) else then_format mp ra d2f xs f vl s1 (acc + r) }"

definition formats :: "msgpuck \<Rightarrow> realloc_fn \<Rightarrow> (u64 \<Rightarrow> u32) \<Rightarrow> string \<Rightarrow> va list \<Rightarrow> obj_op list \<Rightarrow> bool" where
  "formats mp ra d2f f vl xs \<longleftrightarrow> (\<forall>f' vl' s acc.
     vformat_loop mp ra d2f s (f @ f') (vl @ vl') acc = then_format mp ra d2f xs f' vl' s acc)"

lemma then_format_cong:
  assumes "\<And>s acc. then_format mp ra d2f ys f vl s acc = vformat_loop mp ra d2f s f' vl' acc"
  shows "then_format mp ra d2f (xs @ ys) f vl s acc = then_format mp ra d2f xs f' vl' s acc"
  by (induction xs arbitrary: s acc)
    (auto simp: assms split: Option.bind_splits prod.splits cong: Option.bind_cong)

lemma formats_append:
  assumes "formats mp ra d2f f vl xs" and "formats mp ra d2f g wl ys"
  shows "formats mp ra d2f (f @ g) (vl @ wl) (xs @ ys)"
  using assms unfolding formats_def by (auto intro!: then_format_cong [symmetric])

lemma formats_Nil: "formats mp ra d2f [] [] []"
  by (simp add: formats_def)

lemma formats_concat:
  assumes "\<And>x. x \<in> set xs \<Longrightarrow> formats mp ra d2f (F x) (A x) (G x)"
  shows "formats mp ra d2f (concat (map F xs)) (concat (map A xs)) (concat (map G xs))"
  using assms by (induction xs) (auto intro: formats_append formats_Nil)

lemma then_format_run: "then_format mp ra d2f xs [] [] s acc = obj_run mp ra xs s acc"
  by (induction xs arbitrary: s acc) (auto split: Option.bind_splits)

lemma formats_scalars:
  "formats mp ra d2f ''NIL'' [] [ONil]"
  "formats mp ra d2f ''%llu'' [VaLong n] [OUint n]"
  "formats mp ra d2f ''%lld'' [VaLong n] [OInt n]"
  "formats mp ra d2f ''%.*s'' [VaInt (of_nat (length b)), VaPtr b] [OStr b]"
  "formats mp ra d2f ''%b'' [VaInt (if t then 1 else 0)] [OBool t]"
  "formats mp ra d2f ''%f'' [VaDbl d] [OFlt (d2f d)]"
  "formats mp ra d2f ''%lf'' [VaDbl d] [ODbl d]"
  "formats mp ra d2f ''['' [] [OArr 0]"
  "formats mp ra d2f ''{'' [] [OMap 0]"
  "formats mp ra d2f '']'' [] [OClose]"
  "formats mp ra d2f ''}'' [] [OClose]"
  by (auto simp: formats_def fmt_conv_def at_def split: Option.bind_splits)

lemma formats_value:
  assumes "\<And>x. d2f (f2d x) = x" and "formattable v"
  shows "formats mp ra d2f (fmt_of v) (args_of f2d v) (ops_of (\<lambda>_. 0) v)"
  using assms(2)
proof (induction v)
  case (VArr vs)
  have "formats mp ra d2f (concat (map fmt_of vs)) (concat (map (args_of f2d) vs))
      (concat (map (ops_of (\<lambda>_. 0)) vs))"
    by (rule formats_concat) (use VArr in auto)
  from formats_append [OF formats_scalars(8) formats_append [OF this formats_scalars(10)]]
  show ?case by simp
next
  case (VMap kvs)
  have "formats mp ra d2f (case x of (k, v) \<Rightarrow> fmt_of k @ fmt_of v)
      (case x of (k, v) \<Rightarrow> args_of f2d k @ args_of f2d v)
      (case x of (k, v) \<Rightarrow> ops_of (\<lambda>_. 0) k @ ops_of (\<lambda>_. 0) v)" if "x \<in> set kvs" for x
  proof -
    obtain k v where x: "x = (k, v)" by (cases x)
    then show ?thesis
      using VMap.IH [of x k] VMap.IH [of x v] VMap.prems that by (auto intro!: formats_append)
  qed
  then have "formats mp ra d2f (concat (map (\<lambda>(k, v). fmt_of k @ fmt_of v) kvs))
      (concat (map (\<lambda>(k, v). args_of f2d k @ args_of f2d v) kvs))
      (concat (map (\<lambda>(k, v). ops_of (\<lambda>_. 0) k @ ops_of (\<lambda>_. 0) v) kvs))"
    by (rule formats_concat)
  from formats_append [OF formats_scalars(9) formats_append [OF this formats_scalars(11)]]
  show ?case by simp
next
  case (VFlt f)
  show ?case using formats_scalars(6) [of mp ra d2f "f2d f"] by (simp add: assms(1))
qed (use formats_scalars in \<open>auto simp del: append.simps\<close>)

section \<open>Construction, mode and reset\<close>

text \<open>The states the object operations are used in.\<close>

definition fresh_obj :: "obj \<Rightarrow> nat \<Rightarrow> bool" where
  "fresh_obj s cap \<longleftrightarrow> obj_rep s (TNT_SBO_SIMPLE, [], []) cap \<and> s_wrcnt s = 0"

lemma tnt_object_type_rep:
  assumes "obj_rep s (m, [], c) cap" and "s_wrcnt s = 0"
  obtains s' where "tnt_object_type s ty = Some (0, s')" "obj_rep s' (ty, [], c) cap"
proof -
  from assms(1) obtain sb sbo where sb: "s_data s = Some sb" "sb_subdata sb = Some sbo"
    "length (sbo_stack sbo) = cap" "sbo_stack_alloc sbo = cap" "sbo_stack_size sbo = 0"
    by (rule obj_repE) auto
  have "obj_rep (set_sbo s (sbo\<lparr>sbo_type := ty\<rparr>)) (ty, [], c) cap"
    using obj_rep_set_sbo [OF assms(1), of "sbo\<lparr>sbo_type := ty\<rparr>"] sb by (simp add: frames_def)
  then show thesis using that assms(2) sb by (simp add: tnt_object_type_def get_sbo_def)
qed

lemma tnt_object_reset_fresh:
  assumes "obj_rep s (m, fs, c) cap"
  obtains s' where "tnt_object_reset s = Some (0, s')" "fresh_obj s' cap"
proof -
  from assms obtain sb sbo where sb: "s_data s = Some sb" "sb_subdata sb = Some sbo" "sbuf_wf sb"
    "\<not> sb_as sb" "length (sbo_stack sbo) = cap" "sbo_stack_alloc sbo = cap" by (rule obj_repE)
  then show thesis
    using that by (auto simp: tnt_object_reset_def fresh_obj_def obj_rep_def frames_def sbuf_wf_def
        sbuf_contents_def split: cptr.splits)
qed

context allocator
begin

lemma tnt_object_fresh:
  obtains "tnt_object ra None = Some None" "\<not> grants_all ra"
    | s where "tnt_object ra None = Some (Some s)" "fresh_obj s 8" "s_alloc s"
proof -
  note defs = tnt_object_def tnt_buf_def tnt_stream_init_def
  have pos: "0 < sizeof_tnt_stream" "0 < sizeof_tnt_stream_buf" "0 < sizeof_tnt_sbuf_object"
    "0 < 8 * sizeof_tnt_sbo_stack" by simp_all
  show thesis
    by (rule mem_alloc_cases [OF pos(1)]; rule mem_alloc_cases [OF pos(2)];
        rule mem_alloc_cases [OF pos(3)]; rule mem_alloc_cases [OF pos(4)])
      (use that in \<open>auto simp: defs zero_stream_def tnt_object_type_def get_sbo_def set_sbo_def fresh_obj_def
         obj_rep_def sbuf_wf_def sbuf_contents_def frames_def\<close>)
qed

end

context builder_env
begin

text \<open>Formatting a value into a fresh object.\<close>

lemma vformat_fresh:
  assumes "fresh_obj s cap" and "buildable v" and "formattable v" and "mdepth v \<le> cap" and "\<And>x. d2f (f2d x) = x"
  obtains s' where "tnt_object_vformat mp ra d2f s (fmt_of v) (args_of f2d v) = Some (-1, s')" "\<not> grants_all ra"
    | r s' bs where "tnt_object_vformat mp ra d2f s (fmt_of v) (args_of f2d v) = Some (r, s')" "0 \<le> r"
        "encodes (toks v) bs" "obj_rep s' (TNT_SBO_PACKED, [], bs) cap"
proof -
  from assms(1) obtain s1 where s1: "tnt_object_type s TNT_SBO_PACKED = Some (0, s1)"
    "obj_rep s1 (TNT_SBO_PACKED, [], []) cap"
    using tnt_object_type_rep [of s TNT_SBO_SIMPLE "[]" cap TNT_SBO_PACKED] by (auto simp: fresh_obj_def)
  have fmt: "tnt_object_vformat mp ra d2f s (fmt_of v) (args_of f2d v) = obj_run mp ra (ops_of (\<lambda>_. 0) v) s1 0"
    using formats_value [of d2f f2d v mp ra, unfolded formats_def, rule_format, of s1 "[]" "[]" 0]
      assms(3,5) s1(1)
    by (simp add: tnt_object_vformat_def then_format_run)
  have ok: "builder_ok (TNT_SBO_PACKED, [], [])" by (simp add: builder_ok_def)
  show thesis
    by (rule obj_build_value [OF s1(2) ok assms(2), of "\<lambda>_. 0" 0])
      (use assms(4) that in \<open>simp_all add: fmt\<close>)
qed

end

section \<open>Properties\<close>

text \<open>A concrete environment, object and value for the witnesses.\<close>

definition os_ok :: libc where
  "os_ok = \<lparr>grants = (\<lambda>_. True), fill = (\<lambda>_. 0)\<rparr>"

lemma os_ok_grants: "grants_all (custom_realloc os_ok)"
  by (rule custom_realloc_grants_all) (simp add: os_ok_def)

definition demo_obj :: obj where
  "demo_obj = (case tnt_object (custom_realloc os_ok) None of Some (Some s) \<Rightarrow> s | _ \<Rightarrow> zero_stream False)"

definition demo_val :: mval where
  "demo_val = VArr [VUint 1, VMap [(VStr [0x61], VBool True)], VInt (- 5)]"

lemma demo_obj_fresh: "fresh_obj demo_obj 8"
  by (rule libc_alloc.tnt_object_fresh [of os_ok]) (simp_all add: os_ok_grants demo_obj_def)

lemma demo_val_ok: "buildable demo_val" "formattable demo_val" "mdepth demo_val \<le> 8"
  by (simp_all add: demo_val_def)

text \<open>C4. Building a MessagePack value call by call - one \<open>tnt_object_add_*\<close> per scalar, an
  \<open>add_array\<close>/\<open>add_map\<close> and a \<open>tnt_object_container_close\<close> around the elements of a container - in
  any of the three modes, inside any open containers, is never undefined while the nesting fits the
  container stack.  It fails only if memory was refused; otherwise exactly one encoding of the value
  has been appended, the enclosing container counts one more element, and the object is consistent
  again.\<close>

theorem object_builds_value:
  assumes "msgpuck_laws mp" and "allocator ra" and "obj_rep s (m, fs, c) cap"
    and "builder_ok (m, fs, c)" and "buildable v" and "length fs + mdepth v \<le> cap"
  shows "\<exists>r s'. obj_run mp ra (ops_of of_nat v) s 0 = Some (r, s') \<and>
     (if r = -1 then \<not> grants_all ra
      else 0 \<le> r \<and> (\<exists>bs. encodes (toks v) bs \<and> obj_rep s' (m, bump fs, c @ bs) cap))"
proof -
  from assms(1,2) have "builder_env mp ra" by (rule builder_env.intro)
  then show ?thesis
    by (rule builder_env.obj_build_value [OF _ assms(3-6), of mp ra of_nat 0]) (simp_all, blast)
qed

theorem object_builds_value_witness:
  "\<exists>r s'. obj_run mp_ref (custom_realloc os_ok) (ops_of of_nat demo_val) demo_obj 0 = Some (r, s') \<and> 0 \<le> r
     \<and> (\<exists>bs. encodes (toks demo_val) bs \<and> obj_rep s' (TNT_SBO_SIMPLE, [], bs) 8)"
  using object_builds_value [OF ref.msgpuck_laws_axioms libc_alloc.allocator_axioms [of os_ok],
      of demo_obj TNT_SBO_SIMPLE "[]" "[]" 8 demo_val] demo_obj_fresh demo_val_ok os_ok_grants
  by (fastforce simp: fresh_obj_def builder_ok_def split: if_splits)

text \<open>C13. \<open>tnt_object_format\<close> round trip: the format string that spells out a value, with its
  arguments, writes an encoding of that value into a fresh object, and \<open>tnt_object_verify\<close> accepts
  the result; the only failure is refused memory.  \<open>d2f\<close> undoes the promotion \<open>f2d\<close> of \<open>float\<close>
  arguments.\<close>

theorem object_format_roundtrip:
  assumes "msgpuck_laws mp" and "allocator ra" and "fresh_obj s cap" and "buildable v" and "formattable v"
    and "mdepth v \<le> cap" and "\<And>x. d2f (f2d x) = x"
  shows "\<exists>r s'. tnt_object_format mp ra d2f s (fmt_of v) (args_of f2d v) = Some (r, s') \<and>
     (if r = -1 then \<not> grants_all ra
      else encodes (toks v) (buf_contents s') \<and> tnt_object_verify mp s' None = Some 0)"
proof -
  have fin: "encodes (toks v) (buf_contents s') \<and> tnt_object_verify mp s' None = Some 0"
    if rep: "obj_rep s' (TNT_SBO_PACKED, [], bs) cap" and bs: "encodes (toks v) bs" for s' bs
  proof -
    have "mp_check mp bs = Some []"
      using msgpuck_laws.check [OF assms(1)] mp_skip_value [OF buildable_vwf [OF assms(4)], of bs "[]"] bs
      by (simp add: encodes_def)
    with rep bs show ?thesis
      by (auto elim!: obj_repE simp: buf_contents_def tnt_object_verify_def)
  qed
  have "builder_env mp ra" using assms(1,2) by (rule builder_env.intro)
  then show ?thesis unfolding tnt_object_format_def
    by (rule builder_env.vformat_fresh [OF _ assms(3-6), of mp ra d2f f2d]) (use assms(7) fin in simp_all)
qed

theorem object_format_roundtrip_witness:
  "\<exists>r s'. tnt_object_format mp_ref (custom_realloc os_ok) ucast demo_obj ''[%llu{%.*s%b}%lld]''
       [VaLong 1, VaInt 1, VaPtr [0x61], VaInt 1, VaLong (- 5)] = Some (r, s')
     \<and> encodes (toks demo_val) (buf_contents s') \<and> tnt_object_verify mp_ref s' None = Some 0"
proof -
  have "fmt_of demo_val = ''[%llu{%.*s%b}%lld]''"
    "args_of ucast demo_val = [VaLong 1, VaInt 1, VaPtr [0x61], VaInt 1, VaLong (- 5)]"
    by (simp_all add: demo_val_def)
  moreover have "ucast (ucast x :: u64) = (x :: u32)" for x
    by (rule ucast_up_ucast_id) (simp add: is_up)
  ultimately show ?thesis
    using object_format_roundtrip [OF ref.msgpuck_laws_axioms libc_alloc.allocator_axioms [of os_ok]
        demo_obj_fresh demo_val_ok(1-3), of ucast ucast] os_ok_grants by (fastforce split: if_splits)
qed

text \<open>C33. Growing the container stack loses it: \<open>tnt_sbuf_object_grow_stack\<close> replaces a full
  stack by a fresh zeroed one of twice the size without copying, so every container that was open
  is forgotten (each becomes an empty entry of type nil at offset 0).\<close>

definition zero_frame :: sbo_frame where
  "zero_frame = \<lparr>ss_offset = 0, ss_size = 0, ss_type = MP_NIL\<rparr>"

theorem grow_stack_forgets_frames:
  assumes "sbo_stack_alloc sbo < 128" and "0 < sbo_stack_alloc sbo"
  shows "\<exists>sbo'. tnt_sbuf_object_grow_stack (custom_realloc os_ok) sbo = Some (0, sbo')
     \<and> sbo_stack_size sbo' = sbo_stack_size sbo
     \<and> sbo_stack sbo' = replicate (2 * sbo_stack_alloc sbo) zero_frame"
proof -
  have be0: "be_acc 0 (replicate k 0) = 0" for k by (induction k) auto
  have fr: "frame_of_bytes (replicate k 0) = zero_frame" for k
    by (simp add: frame_of_bytes_def zero_frame_def le_nat_def be_nat_def be0 mp_type_of_nat_def)
  have st: "stack_of_bytes k (replicate n 0) = replicate k zero_frame" for k n
    by (induction k arbitrary: n) (simp_all add: fr)
  from assms show ?thesis
    by (simp add: tnt_sbuf_object_grow_stack_def tnt_mem_alloc_def custom_realloc_def os_ok_def Let_def st)
qed

theorem grow_stack_forgets_frames_witness:
  "\<exists>sbo'. tnt_sbuf_object_grow_stack (custom_realloc os_ok)
       \<lparr>sbo_stack = replicate 8 \<lparr>ss_offset = 3, ss_size = 1, ss_type = MP_ARRAY\<rparr>, sbo_stack_size = 8,
        sbo_stack_alloc = 8, sbo_type = TNT_SBO_PACKED\<rparr> = Some (0, sbo') \<and>
     sbo_stack sbo' = replicate 16 zero_frame"
  using grow_stack_forgets_frames [of "\<lparr>sbo_stack = replicate 8 \<lparr>ss_offset = 3, ss_size = 1, ss_type = MP_ARRAY\<rparr>,
      sbo_stack_size = 8, sbo_stack_alloc = 8, sbo_type = TNT_SBO_PACKED\<rparr>"] by auto

end
