(* ===== verification/Tnt_Proto.thy ===== *)
theory Tnt_Proto
  imports Tnt_Object_Spec
begin

text \<open>
  Requests with fixed layout: \<^verbatim>\<open>tnt/tnt_proto_internal.h\<close> and \<^verbatim>\<open>tnt_ping.c\<close>, \<^verbatim>\<open>tnt_select.c\<close>,
  \<^verbatim>\<open>tnt_insert.c\<close>, \<^verbatim>\<open>tnt_delete.c\<close>, \<^verbatim>\<open>tnt_call.c\<close>, \<^verbatim>\<open>tnt_execute.c\<close>, \<^verbatim>\<open>tnt_update.c\<close> (update and upsert).
  Each builds a vector of pieces (length prefix, header, body pieces, encoded objects) and hands
  it to the stream's \<open>writev\<close>, an argument here (\<open>wv\<close>).  A piece built in a stack array is
  undefined if it does not fit the array.
\<close>

lemma unat_ucast_u32 [simp]: "unat (ucast (n :: u32) :: u64) = unat n"
proof -
  have "unat n < 2 ^ 64" by (rule less_trans [OF unat_u32_lt]) simp
  then show ?thesis by (simp only: unsigned_ucast_eq) (simp add: take_bit_nat_eq_self)
qed

section \<open>Protocol constants\<close>

definition TNT_CODE :: u64 where "TNT_CODE = 0x0"
definition TNT_SYNC :: u64 where "TNT_SYNC = 0x1"
definition TNT_SERVER_ID :: u64 where "TNT_SERVER_ID = 0x2"
definition TNT_LSN :: u64 where "TNT_LSN = 0x3"
definition TNT_TIMESTAMP :: u64 where "TNT_TIMESTAMP = 0x4"
definition TNT_SCHEMA_ID :: u64 where "TNT_SCHEMA_ID = 0x5"

definition TNT_SPACE :: u64 where "TNT_SPACE = 0x10"
definition TNT_INDEX :: u64 where "TNT_INDEX = 0x11"
definition TNT_LIMIT :: u64 where "TNT_LIMIT = 0x12"
definition TNT_OFFSET :: u64 where "TNT_OFFSET = 0x13"
definition TNT_ITERATOR :: u64 where "TNT_ITERATOR = 0x14"
definition TNT_INDEX_BASE :: u64 where "TNT_INDEX_BASE = 0x15"
definition TNT_KEY :: u64 where "TNT_KEY = 0x20"
definition TNT_TUPLE :: u64 where "TNT_TUPLE = 0x21"
definition TNT_FUNCTION :: u64 where "TNT_FUNCTION = 0x22"
definition TNT_USERNAME :: u64 where "TNT_USERNAME = 0x23"
definition TNT_EXPRESSION :: u64 where "TNT_EXPRESSION = 0x27"
definition TNT_OPS :: u64 where "TNT_OPS = 0x28"
definition TNT_SQL_TEXT :: u64 where "TNT_SQL_TEXT = 0x40"
definition TNT_SQL_BIND :: u64 where "TNT_SQL_BIND = 0x41"

definition TNT_DATA :: u64 where "TNT_DATA = 0x30"
definition TNT_ERROR :: u64 where "TNT_ERROR = 0x31"
definition TNT_METADATA :: u64 where "TNT_METADATA = 0x32"
definition TNT_SQL_INFO :: u64 where "TNT_SQL_INFO = 0x42"

definition TNT_OP_SELECT :: u32 where "TNT_OP_SELECT = 1"
definition TNT_OP_INSERT :: u32 where "TNT_OP_INSERT = 2"
definition TNT_OP_REPLACE :: u32 where "TNT_OP_REPLACE = 3"
definition TNT_OP_UPDATE :: u32 where "TNT_OP_UPDATE = 4"
definition TNT_OP_DELETE :: u32 where "TNT_OP_DELETE = 5"
definition TNT_OP_CALL_16 :: u32 where "TNT_OP_CALL_16 = 6"
definition TNT_OP_AUTH :: u32 where "TNT_OP_AUTH = 7"
definition TNT_OP_EVAL :: u32 where "TNT_OP_EVAL = 8"
definition TNT_OP_UPSERT :: u32 where "TNT_OP_UPSERT = 9"
definition TNT_OP_CALL :: u32 where "TNT_OP_CALL = 10"
definition TNT_OP_EXECUTE :: u32 where "TNT_OP_EXECUTE = 11"
definition TNT_OP_PING :: u32 where "TNT_OP_PING = 64"

lemmas proto_consts =
  TNT_CODE_def TNT_SYNC_def TNT_SERVER_ID_def TNT_LSN_def TNT_TIMESTAMP_def TNT_SCHEMA_ID_def
  TNT_SPACE_def TNT_INDEX_def TNT_LIMIT_def TNT_OFFSET_def TNT_ITERATOR_def TNT_INDEX_BASE_def
  TNT_KEY_def TNT_TUPLE_def TNT_FUNCTION_def TNT_USERNAME_def TNT_EXPRESSION_def TNT_OPS_def
  TNT_SQL_TEXT_def TNT_SQL_BIND_def TNT_DATA_def TNT_ERROR_def TNT_METADATA_def TNT_SQL_INFO_def
  TNT_OP_SELECT_def TNT_OP_INSERT_def TNT_OP_REPLACE_def TNT_OP_UPDATE_def TNT_OP_DELETE_def
  TNT_OP_CALL_16_def TNT_OP_AUTH_def TNT_OP_EVAL_def TNT_OP_UPSERT_def TNT_OP_CALL_def
  TNT_OP_EXECUTE_def TNT_OP_PING_def

section \<open>Header and length prefix\<close>

definition in_array :: "nat \<Rightarrow> bytes \<Rightarrow> bytes option" where
  "in_array n bs = (if length bs \<le> n then Some bs else None)"

definition is_call :: "u32 \<Rightarrow> bool" where
  "is_call op \<longleftrightarrow> op = TNT_OP_CALL \<or> op = TNT_OP_CALL_16"

lemma is_call_ops: "is_call TNT_OP_CALL" "is_call TNT_OP_CALL_16" "\<not> is_call TNT_OP_EVAL"
  by (simp_all add: is_call_def proto_consts)

definition encode_header :: "msgpuck \<Rightarrow> u32 \<Rightarrow> u64 \<Rightarrow> bytes option" where
  "encode_header mp code sync = in_array 25
     (mp_encode_map mp 2 @ mp_encode_uint mp TNT_CODE @ mp_encode_uint mp (ucast code)
      @ mp_encode_uint mp TNT_SYNC @ mp_encode_uint mp sync)"

definition mp_sizeof_luint32 :: "u64 \<Rightarrow> nat" where
  "mp_sizeof_luint32 num = (if unat num \<le> 0xffffffff then 1 + 4 else 1 + 8)"

definition mp_encode_luint32 :: "msgpuck \<Rightarrow> u64 \<Rightarrow> bytes" where
  "mp_encode_luint32 mp num =
     (if unat num \<le> 0xffffffff then mp_store_u8 mp 0xce @ mp_store_u32 mp (ucast num)
      else mp_store_u8 mp 0xcf @ mp_store_u64 mp num)"

text \<open>The common end of the request functions: \<open>v[0]\<close> is the length of the other pieces.\<close>

definition with_len :: "msgpuck \<Rightarrow> bytes list \<Rightarrow> bytes list option" where
  "with_len mp v = do {
     len_prefix \<leftarrow> in_array 9 (mp_encode_luint32 mp (of_nat (sum_list (map length v))));
     Some (len_prefix # v) }"

definition next_reqid :: "'d tnt_stream \<Rightarrow> 'd tnt_stream" where
  "next_reqid s = s\<lparr>s_reqid := s_reqid s + 1\<rparr>"

type_synonym 'd writev_fn = "'d tnt_stream \<Rightarrow> bytes list \<Rightarrow> (int \<times> 'd tnt_stream) option"

section \<open>Requests\<close>

definition tnt_ping :: "msgpuck \<Rightarrow> 'd writev_fn \<Rightarrow> 'd tnt_stream \<Rightarrow> (int \<times> 'd tnt_stream) option" where
  "tnt_ping mp wv s = do {
     hdr \<leftarrow> encode_header mp TNT_OP_PING (s_reqid s);
     body \<leftarrow> in_array 2 (mp_encode_map mp 0);
     v \<leftarrow> with_len mp [hdr, body];
     wv (next_reqid s) v }"

definition tnt_select :: "msgpuck \<Rightarrow> 'd writev_fn \<Rightarrow> 'd tnt_stream \<Rightarrow> u32 \<Rightarrow> u32 \<Rightarrow> u32 \<Rightarrow> u32 \<Rightarrow> u8 \<Rightarrow> obj
    \<Rightarrow> (int \<times> 'd tnt_stream) option" where
  "tnt_select mp wv s space index limit offset iterator key = do {
     rc \<leftarrow> tnt_object_verify mp key (Some MP_ARRAY);
     if rc \<noteq> 0 then Some (-1, s)
     else do {
       hdr \<leftarrow> encode_header mp TNT_OP_SELECT (s_reqid s);
       body \<leftarrow> in_array 64 (mp_encode_map mp 6
         @ mp_encode_uint mp TNT_SPACE @ mp_encode_uint mp (ucast space)
         @ mp_encode_uint mp TNT_INDEX @ mp_encode_uint mp (ucast index)
         @ mp_encode_uint mp TNT_LIMIT @ mp_encode_uint mp (ucast limit)
         @ mp_encode_uint mp TNT_OFFSET @ mp_encode_uint mp (ucast offset)
         @ mp_encode_uint mp TNT_ITERATOR @ mp_encode_uint mp (ucast iterator)
         @ mp_encode_uint mp TNT_KEY);
       v \<leftarrow> with_len mp [hdr, body, buf_contents key];
       wv (next_reqid s) v } }"

definition tnt_store_base :: "msgpuck \<Rightarrow> 'd writev_fn \<Rightarrow> 'd tnt_stream \<Rightarrow> u32 \<Rightarrow> obj \<Rightarrow> u32
    \<Rightarrow> (int \<times> 'd tnt_stream) option" where
  "tnt_store_base mp wv s space tuple op = do {
     rc \<leftarrow> tnt_object_verify mp tuple (Some MP_ARRAY);
     if rc \<noteq> 0 then Some (-1, s)
     else do {
       hdr \<leftarrow> encode_header mp op (s_reqid s);
       body \<leftarrow> in_array 64 (mp_encode_map mp 2
         @ mp_encode_uint mp TNT_SPACE @ mp_encode_uint mp (ucast space)
         @ mp_encode_uint mp TNT_TUPLE);
       v \<leftarrow> with_len mp [hdr, body, buf_contents tuple];
       wv (next_reqid s) v } }"

definition tnt_insert :: "msgpuck \<Rightarrow> 'd writev_fn \<Rightarrow> 'd tnt_stream \<Rightarrow> u32 \<Rightarrow> obj \<Rightarrow> (int \<times> 'd tnt_stream) option" where
  "tnt_insert mp wv s space tuple = tnt_store_base mp wv s space tuple TNT_OP_INSERT"

definition tnt_replace :: "msgpuck \<Rightarrow> 'd writev_fn \<Rightarrow> 'd tnt_stream \<Rightarrow> u32 \<Rightarrow> obj \<Rightarrow> (int \<times> 'd tnt_stream) option" where
  "tnt_replace mp wv s space tuple = tnt_store_base mp wv s space tuple TNT_OP_REPLACE"

definition tnt_delete :: "msgpuck \<Rightarrow> 'd writev_fn \<Rightarrow> 'd tnt_stream \<Rightarrow> u32 \<Rightarrow> u32 \<Rightarrow> obj
    \<Rightarrow> (int \<times> 'd tnt_stream) option" where
  "tnt_delete mp wv s space index key = do {
     rc \<leftarrow> tnt_object_verify mp key (Some MP_ARRAY);
     if rc \<noteq> 0 then Some (-1, s)
     else do {
       hdr \<leftarrow> encode_header mp TNT_OP_DELETE (s_reqid s);
       body \<leftarrow> in_array 64 (mp_encode_map mp 3
         @ mp_encode_uint mp TNT_SPACE @ mp_encode_uint mp (ucast space)
         @ mp_encode_uint mp TNT_INDEX @ mp_encode_uint mp (ucast index)
         @ mp_encode_uint mp TNT_KEY);
       v \<leftarrow> with_len mp [hdr, body, buf_contents key];
       wv (next_reqid s) v } }"

text \<open>
  \<open>proc\<close> is \<open>None\<close> for a null pointer, otherwise the \<open>proc_len\<close> bytes at \<open>proc\<close>; the length is a
  \<open>size_t\<close> that \<open>mp_encode_strl\<close> takes as \<open>uint32_t\<close>.
\<close>

definition tnt_rpc_base :: "msgpuck \<Rightarrow> 'd writev_fn \<Rightarrow> 'd tnt_stream \<Rightarrow> bytes option \<Rightarrow> obj \<Rightarrow> u32
    \<Rightarrow> (int \<times> 'd tnt_stream) option" where
  "tnt_rpc_base mp wv s proc args op = (case proc of
      None \<Rightarrow> Some (-1, s)
    | Some p \<Rightarrow>
        if length p = 0 then Some (-1, s)
        else do {
          rc \<leftarrow> tnt_object_verify mp args (Some MP_ARRAY);
          if rc \<noteq> 0 then Some (-1, s)
          else do {
            let fld = (if is_call op then TNT_FUNCTION else TNT_EXPRESSION);
            hdr \<leftarrow> encode_header mp op (s_reqid s);
            let b1 = mp_encode_map mp 2 @ mp_encode_uint mp fld @ mp_encode_strl mp (of_nat (length p));
            let b2 = mp_encode_uint mp TNT_TUPLE;
            _ \<leftarrow> in_array 64 (b1 @ b2);
            v \<leftarrow> with_len mp [hdr, b1, p, b2, buf_contents args];
            wv (next_reqid s) v } })"

definition tnt_call :: "msgpuck \<Rightarrow> 'd writev_fn \<Rightarrow> 'd tnt_stream \<Rightarrow> bytes option \<Rightarrow> obj \<Rightarrow> (int \<times> 'd tnt_stream) option" where
  "tnt_call mp wv s proc args = tnt_rpc_base mp wv s proc args TNT_OP_CALL"

definition tnt_call_16 :: "msgpuck \<Rightarrow> 'd writev_fn \<Rightarrow> 'd tnt_stream \<Rightarrow> bytes option \<Rightarrow> obj \<Rightarrow> (int \<times> 'd tnt_stream) option" where
  "tnt_call_16 mp wv s proc args = tnt_rpc_base mp wv s proc args TNT_OP_CALL_16"

definition tnt_eval :: "msgpuck \<Rightarrow> 'd writev_fn \<Rightarrow> 'd tnt_stream \<Rightarrow> bytes option \<Rightarrow> obj \<Rightarrow> (int \<times> 'd tnt_stream) option" where
  "tnt_eval mp wv s proc args = tnt_rpc_base mp wv s proc args TNT_OP_EVAL"

definition tnt_execute :: "msgpuck \<Rightarrow> 'd writev_fn \<Rightarrow> 'd tnt_stream \<Rightarrow> bytes option \<Rightarrow> obj \<Rightarrow> (int \<times> 'd tnt_stream) option" where
  "tnt_execute mp wv s expr params = (case expr of
      None \<Rightarrow> Some (-1, s)
    | Some e \<Rightarrow>
        if length e = 0 then Some (-1, s)
        else do {
          rc \<leftarrow> tnt_object_verify mp params (Some MP_ARRAY);
          if rc \<noteq> 0 then Some (-1, s)
          else do {
            hdr \<leftarrow> encode_header mp TNT_OP_EXECUTE (s_reqid s);
            let b1 = mp_encode_map mp 2 @ mp_encode_uint mp TNT_SQL_TEXT @ mp_encode_strl mp (of_nat (length e));
            let b2 = mp_encode_uint mp TNT_SQL_BIND;
            _ \<leftarrow> in_array 64 (b1 @ b2);
            v \<leftarrow> with_len mp [hdr, b1, e, b2, buf_contents params];
            wv (next_reqid s) v } })"

definition tnt_update :: "msgpuck \<Rightarrow> 'd writev_fn \<Rightarrow> 'd tnt_stream \<Rightarrow> u32 \<Rightarrow> u32 \<Rightarrow> obj \<Rightarrow> obj
    \<Rightarrow> (int \<times> 'd tnt_stream) option" where
  "tnt_update mp wv s space index key ops = do {
     rc \<leftarrow> tnt_object_verify mp key (Some MP_ARRAY);
     if rc \<noteq> 0 then Some (-1, s)
     else do {
       rc \<leftarrow> tnt_object_verify mp ops (Some MP_ARRAY);
       if rc \<noteq> 0 then Some (-1, s)
       else do {
         hdr \<leftarrow> encode_header mp TNT_OP_UPDATE (s_reqid s);
         let b1 = mp_encode_map mp 4
           @ mp_encode_uint mp TNT_SPACE @ mp_encode_uint mp (ucast space)
           @ mp_encode_uint mp TNT_INDEX @ mp_encode_uint mp (ucast index)
           @ mp_encode_uint mp TNT_KEY;
         let b2 = mp_encode_uint mp TNT_TUPLE;
         _ \<leftarrow> in_array 64 (b1 @ b2);
         v \<leftarrow> with_len mp [hdr, b1, buf_contents key, b2, buf_contents ops];
         wv (next_reqid s) v } } }"

definition tnt_upsert :: "msgpuck \<Rightarrow> 'd writev_fn \<Rightarrow> 'd tnt_stream \<Rightarrow> u32 \<Rightarrow> obj \<Rightarrow> obj
    \<Rightarrow> (int \<times> 'd tnt_stream) option" where
  "tnt_upsert mp wv s space tuple ops = do {
     rc \<leftarrow> tnt_object_verify mp tuple (Some MP_ARRAY);
     if rc \<noteq> 0 then Some (-1, s)
     else do {
       rc \<leftarrow> tnt_object_verify mp ops (Some MP_ARRAY);
       if rc \<noteq> 0 then Some (-1, s)
       else do {
         hdr \<leftarrow> encode_header mp TNT_OP_UPSERT (s_reqid s);
         let b1 = mp_encode_map mp 3
           @ mp_encode_uint mp TNT_SPACE @ mp_encode_uint mp (ucast space)
           @ mp_encode_uint mp TNT_TUPLE;
         let b2 = mp_encode_uint mp TNT_OPS;
         _ \<leftarrow> in_array 64 (b1 @ b2);
         v \<leftarrow> with_len mp [hdr, b1, buf_contents tuple, b2, buf_contents ops];
         wv (next_reqid s) v } } }"

section \<open>What a request frame is\<close>

text \<open>A pattern for bytes: MessagePack tokens, and byte strings that are copied verbatim.\<close>

datatype item = Tok tok | Raw bytes

fun matches :: "item list \<Rightarrow> bytes \<Rightarrow> bool" where
  "matches [] bs \<longleftrightarrow> bs = []"
| "matches (Tok t # xs) bs \<longleftrightarrow> (case mp_tok bs of None \<Rightarrow> False | Some (t', r) \<Rightarrow> t' = t \<and> matches xs r)"
| "matches (Raw b # xs) bs \<longleftrightarrow> take (length b) bs = b \<and> matches xs (drop (length b) bs)"

lemma matches_Tok: "encodes [t] b \<Longrightarrow> matches (Tok t # xs) (b @ r) = matches xs r"
  by (simp add: encodes_mp_tok)

lemma matches_Raw [simp]: "matches (Raw b # xs) (b @ r) = matches xs r"
  by simp

lemma matches_Raw_end [simp]: "matches [Raw b] b"
  by simp

declare matches.simps(2,3) [simp del]

text \<open>Items that are one complete value each.\<close>

fun value_item :: "item \<Rightarrow> bool" where
  "value_item (Tok t) \<longleftrightarrow> tok_kids t = 0"
| "value_item (Raw b) \<longleftrightarrow> mp_skip 1 b = Some []"

lemma mp_skip_extend: "mp_skip k bs = Some r \<Longrightarrow> mp_skip k (bs @ xs) = Some (r @ xs)"
  by (induction k bs rule: mp_skip.induct)
    (auto split: option.splits prod.splits dest: mp_tok_append [where xs = xs])

lemma matches_skip:
  "matches (xs @ ys) bs \<Longrightarrow> \<forall>x \<in> set xs. value_item x \<Longrightarrow>
   \<exists>r. mp_skip (length xs) bs = Some r \<and> matches ys r"
proof (induction xs bs rule: matches.induct)
  case (3 b xs bs)
  have "mp_skip 1 (b @ drop (length b) bs) = Some (drop (length b) bs)"
    using mp_skip_extend [of 1 b "[]"] 3(3) by simp
  moreover have "b @ drop (length b) bs = bs"
    using 3(2) by (metis append_Cons append_take_drop_id matches.simps(3))
  ultimately show ?case using 3 mp_skip_add [of 1 "length xs" bs] by (simp add: matches.simps(3))
qed (auto simp: matches.simps split: option.splits)

text \<open>A body: a map header whose count is right, followed by its keys and values.\<close>

fun body_items :: "item list \<Rightarrow> bool" where
  "body_items (Tok (TMap n) # xs) \<longleftrightarrow> length xs = 2 * unat n \<and> (\<forall>x \<in> set xs. value_item x)"
| "body_items _ \<longleftrightarrow> False"

lemma body_items_skip:
  "body_items xs \<Longrightarrow> matches (xs @ ys) bs \<Longrightarrow> \<exists>r. mp_skip 1 bs = Some r \<and> matches ys r"
  by (induction xs rule: body_items.induct) (auto simp: matches.simps(2) split: option.splits dest!: matches_skip)

lemma two_bodies_skip:
  assumes "body_items xs" and "body_items ys" and "matches (xs @ ys) bs"
  shows "mp_skip 2 bs = Some []"
proof -
  obtain r where r: "mp_skip 1 bs = Some r" "matches ys r" using body_items_skip [OF assms(1,3)] by blast
  have "mp_skip 1 r = Some []" using body_items_skip [of ys "[]" r] assms(2) r(2) by auto
  with r(1) mp_skip_add [of 1 1 bs] show ?thesis by (simp only: one_add_one option.case)
qed

definition hdr_items :: "u32 \<Rightarrow> u64 \<Rightarrow> item list" where
  "hdr_items code sync = [Tok (TMap 2), Tok (TUint TNT_CODE), Tok (TUint (ucast code)),
     Tok (TUint TNT_SYNC), Tok (TUint sync)]"

text \<open>
  A request frame: an unsigned integer, the number of bytes that follow it; then exactly two
  MessagePack values, the header map with the request code and the sync number, and the body.
\<close>

definition is_frame :: "u32 \<Rightarrow> u64 \<Rightarrow> item list \<Rightarrow> bytes \<Rightarrow> bool" where
  "is_frame code sync body fr \<longleftrightarrow> (case mp_tok fr of
      Some (TUint n, pay) \<Rightarrow> n = of_nat (length pay) \<and> length fr = length pay + mp_sizeof_luint32 n
        \<and> matches (hdr_items code sync @ body) pay \<and> mp_skip 2 pay = Some []
    | _ \<Rightarrow> False)"

context msgpuck_laws
begin

lemma matches_enc [simp]:
  "matches (Tok (TUint n) # xs) (mp_encode_uint mp n @ r) = matches xs r"
  "matches (Tok (TMap c) # xs) (mp_encode_map mp c @ r) = matches xs r"
  "matches (Tok (TArr c) # xs) (mp_encode_array mp c @ r) = matches xs r"
  "matches [Tok (TMap c)] (mp_encode_map mp c)"
  "matches [Tok (TArr c)] (mp_encode_array mp c)"
  "matches [Tok (TUint n)] (mp_encode_uint mp n)"
  using matches_Tok [OF enc_uint] matches_Tok [OF enc_map] matches_Tok [OF enc_array]
    matches_Tok [OF enc_map, where xs = "[]" and r = "[]"]
    matches_Tok [OF enc_array, where xs = "[]" and r = "[]"]
    matches_Tok [OF enc_uint, where xs = "[]" and r = "[]"]
  by simp_all

lemma matches_str [simp]:
  "length p < 2 ^ 32 \<Longrightarrow>
   matches (Tok (TStr p) # xs) (mp_encode_strl mp (of_nat (length p)) @ p @ r) = matches xs r"
  using matches_Tok [OF enc_strl, of p "of_nat (length p)" xs r] by (simp add: unat_of_nat_small)

lemma len_uint: "length (mp_encode_uint mp n) \<le> 9"
  by (simp add: size_uint sizeof_uint)

lemma len_uint32: "length (mp_encode_uint mp (ucast (n :: u32))) \<le> 5"
  by (simp add: size_uint sizeof_uint unat_ucast_u32)

lemma len_key: "unat n < 128 \<Longrightarrow> length (mp_encode_uint mp n) = 1"
  by (simp add: size_uint sizeof_uint)

lemma len_keys [simp]:
  "length (mp_encode_uint mp TNT_CODE) = 1" "length (mp_encode_uint mp TNT_SYNC) = 1"
  "length (mp_encode_uint mp TNT_SPACE) = 1" "length (mp_encode_uint mp TNT_INDEX) = 1"
  "length (mp_encode_uint mp TNT_LIMIT) = 1" "length (mp_encode_uint mp TNT_OFFSET) = 1"
  "length (mp_encode_uint mp TNT_ITERATOR) = 1" "length (mp_encode_uint mp TNT_KEY) = 1"
  "length (mp_encode_uint mp TNT_TUPLE) = 1" "length (mp_encode_uint mp TNT_FUNCTION) = 1"
  "length (mp_encode_uint mp TNT_EXPRESSION) = 1" "length (mp_encode_uint mp TNT_OPS) = 1"
  "length (mp_encode_uint mp TNT_SQL_TEXT) = 1" "length (mp_encode_uint mp TNT_SQL_BIND) = 1"
  "length (mp_encode_uint mp TNT_USERNAME) = 1" "length (mp_encode_uint mp TNT_INDEX_BASE) = 1"
  by (simp_all add: len_key proto_consts)

lemma len_map [simp]: "unat c < 16 \<Longrightarrow> length (mp_encode_map mp c) = 1"
  by (rule enc_map_one)

lemma encode_header_ok: "encode_header mp code sync = Some
     (mp_encode_map mp 2 @ mp_encode_uint mp TNT_CODE @ mp_encode_uint mp (ucast code)
      @ mp_encode_uint mp TNT_SYNC @ mp_encode_uint mp sync)"
  using len_uint [of sync] len_uint32 [of code] by (simp add: encode_header_def in_array_def)

lemma luint32_tok: "encodes [TUint n] (mp_encode_luint32 mp n)"
  "length (mp_encode_luint32 mp n) = mp_sizeof_luint32 n"
proof -
  have "unat (ucast n :: u32) = unat n" if "unat n < 4294967296"
    using that by (simp add: unsigned_ucast_eq take_bit_eq_mod)
  then show "encodes [TUint n] (mp_encode_luint32 mp n)"
    by (auto simp: mp_encode_luint32_def store_u8 store_u32 store_u64 encodes_one mp_tok_marks tk_be
        simp del: be_bytes.simps)
  show "length (mp_encode_luint32 mp n) = mp_sizeof_luint32 n"
    by (simp add: mp_encode_luint32_def mp_sizeof_luint32_def store_u8 store_u32 store_u64 del: be_bytes.simps)
qed

text \<open>A payload with its length in front is a frame.\<close>

lemma is_frame_prefix:
  assumes "matches (hdr_items code sync @ body) pay" and "body_items body"
  shows "is_frame code sync body (mp_encode_luint32 mp (of_nat (length pay)) @ pay)"
proof -
  have "body_items (hdr_items code sync)" by (simp add: hdr_items_def)
  from two_bodies_skip [OF this assms(2,1)] assms(1) show ?thesis
    using encodes_mp_tok [OF luint32_tok(1), of "of_nat (length pay)" pay] luint32_tok(2) [of "of_nat (length pay)"]
    by (simp add: is_frame_def)
qed

lemma hdr_matches:
  "matches (hdr_items code sync @ xs) (mp_encode_map mp 2 @ mp_encode_uint mp TNT_CODE
     @ mp_encode_uint mp (ucast code) @ mp_encode_uint mp TNT_SYNC @ mp_encode_uint mp sync @ r) = matches xs r"
  by (simp add: hdr_items_def)

lemma with_len_frame:
  assumes "encode_header mp code sync = Some hdr" and "matches body (concat pieces)" and "body_items body"
  obtains v where "with_len mp (hdr # pieces) = Some v" "is_frame code sync body (concat v)"
proof -
  let ?pay = "hdr @ concat pieces"
  let ?n = "of_nat (length ?pay) :: u64"
  have n: "sum_list (map length (hdr # pieces)) = length ?pay" by (simp add: length_concat)
  have "in_array 9 (mp_encode_luint32 mp ?n) = Some (mp_encode_luint32 mp ?n)"
    using luint32_tok(2) [of ?n] by (simp add: in_array_def mp_sizeof_luint32_def)
  then have v: "with_len mp (hdr # pieces) = Some (mp_encode_luint32 mp ?n # hdr # pieces)"
    by (simp only: with_len_def n) simp
  have "matches (hdr_items code sync @ body) ?pay"
    using assms(1,2) encode_header_ok [of code sync] hdr_matches by auto
  from is_frame_prefix [OF this assms(3)]
  have "is_frame code sync body (concat (mp_encode_luint32 mp ?n # hdr # pieces))" by simp
  with v show thesis by (rule that)
qed

lemma verify_ok_skip:
  "tnt_object_verify mp ob ty = Some 0 \<Longrightarrow> mp_skip 1 (buf_contents ob) = Some []"
  by (auto simp: tnt_object_verify_def check buf_contents_def split: option.splits if_splits Option.bind_splits)

end

section \<open>All requests\<close>

datatype request = RPing
  | RSelect u32 u32 u32 u32 u8 obj
  | RInsert u32 obj
  | RReplace u32 obj
  | RDelete u32 u32 obj
  | RCall "bytes option" obj
  | RCall16 "bytes option" obj
  | REval "bytes option" obj
  | RExecute "bytes option" obj
  | RUpdate u32 u32 obj obj
  | RUpsert u32 obj obj

fun send :: "msgpuck \<Rightarrow> 'd writev_fn \<Rightarrow> 'd tnt_stream \<Rightarrow> request \<Rightarrow> (int \<times> 'd tnt_stream) option" where
  "send mp wv s RPing = tnt_ping mp wv s"
| "send mp wv s (RSelect sp ix li os it k) = tnt_select mp wv s sp ix li os it k"
| "send mp wv s (RInsert sp t) = tnt_insert mp wv s sp t"
| "send mp wv s (RReplace sp t) = tnt_replace mp wv s sp t"
| "send mp wv s (RDelete sp ix k) = tnt_delete mp wv s sp ix k"
| "send mp wv s (RCall p a) = tnt_call mp wv s p a"
| "send mp wv s (RCall16 p a) = tnt_call_16 mp wv s p a"
| "send mp wv s (REval p a) = tnt_eval mp wv s p a"
| "send mp wv s (RExecute p a) = tnt_execute mp wv s p a"
| "send mp wv s (RUpdate sp ix k ops) = tnt_update mp wv s sp ix k ops"
| "send mp wv s (RUpsert sp t ops) = tnt_upsert mp wv s sp t ops"

text \<open>Code and body of each request, from the protocol description.\<close>

fun req_code :: "request \<Rightarrow> u32" where
  "req_code RPing = TNT_OP_PING"
| "req_code (RSelect _ _ _ _ _ _) = TNT_OP_SELECT"
| "req_code (RInsert _ _) = TNT_OP_INSERT"
| "req_code (RReplace _ _) = TNT_OP_REPLACE"
| "req_code (RDelete _ _ _) = TNT_OP_DELETE"
| "req_code (RCall _ _) = TNT_OP_CALL"
| "req_code (RCall16 _ _) = TNT_OP_CALL_16"
| "req_code (REval _ _) = TNT_OP_EVAL"
| "req_code (RExecute _ _) = TNT_OP_EXECUTE"
| "req_code (RUpdate _ _ _ _) = TNT_OP_UPDATE"
| "req_code (RUpsert _ _ _) = TNT_OP_UPSERT"

definition field :: "u64 \<Rightarrow> item \<Rightarrow> item list" where
  "field k v = [Tok (TUint k), v]"

definition num :: "u32 \<Rightarrow> item" where
  "num n = Tok (TUint (ucast n))"

definition name_item :: "bytes option \<Rightarrow> item" where
  "name_item p = Tok (TStr (case p of None \<Rightarrow> [] | Some b \<Rightarrow> b))"

fun req_body :: "request \<Rightarrow> item list" where
  "req_body RPing = [Tok (TMap 0)]"
| "req_body (RSelect sp ix li os it k) = Tok (TMap 6) # field TNT_SPACE (num sp) @ field TNT_INDEX (num ix)
     @ field TNT_LIMIT (num li) @ field TNT_OFFSET (num os) @ field TNT_ITERATOR (Tok (TUint (ucast it)))
     @ field TNT_KEY (Raw (buf_contents k))"
| "req_body (RInsert sp t) = Tok (TMap 2) # field TNT_SPACE (num sp) @ field TNT_TUPLE (Raw (buf_contents t))"
| "req_body (RReplace sp t) = Tok (TMap 2) # field TNT_SPACE (num sp) @ field TNT_TUPLE (Raw (buf_contents t))"
| "req_body (RDelete sp ix k) = Tok (TMap 3) # field TNT_SPACE (num sp) @ field TNT_INDEX (num ix)
     @ field TNT_KEY (Raw (buf_contents k))"
| "req_body (RCall p a) = Tok (TMap 2) # field TNT_FUNCTION (name_item p) @ field TNT_TUPLE (Raw (buf_contents a))"
| "req_body (RCall16 p a) = Tok (TMap 2) # field TNT_FUNCTION (name_item p) @ field TNT_TUPLE (Raw (buf_contents a))"
| "req_body (REval p a) = Tok (TMap 2) # field TNT_EXPRESSION (name_item p) @ field TNT_TUPLE (Raw (buf_contents a))"
| "req_body (RExecute p a) = Tok (TMap 2) # field TNT_SQL_TEXT (name_item p) @ field TNT_SQL_BIND (Raw (buf_contents a))"
| "req_body (RUpdate sp ix k ops) = Tok (TMap 4) # field TNT_SPACE (num sp) @ field TNT_INDEX (num ix)
     @ field TNT_KEY (Raw (buf_contents k)) @ field TNT_TUPLE (Raw (buf_contents ops))"
| "req_body (RUpsert sp t ops) = Tok (TMap 3) # field TNT_SPACE (num sp)
     @ field TNT_TUPLE (Raw (buf_contents t)) @ field TNT_OPS (Raw (buf_contents ops))"

fun req_objs :: "request \<Rightarrow> obj list" where
  "req_objs RPing = []"
| "req_objs (RSelect _ _ _ _ _ k) = [k]"
| "req_objs (RInsert _ t) = [t]"
| "req_objs (RReplace _ t) = [t]"
| "req_objs (RDelete _ _ k) = [k]"
| "req_objs (RCall _ a) = [a]"
| "req_objs (RCall16 _ a) = [a]"
| "req_objs (REval _ a) = [a]"
| "req_objs (RExecute _ a) = [a]"
| "req_objs (RUpdate _ _ k ops) = [k, ops]"
| "req_objs (RUpsert _ t ops) = [t, ops]"

fun req_name :: "request \<Rightarrow> bytes option option" where
  "req_name (RCall p _) = Some p"
| "req_name (RCall16 p _) = Some p"
| "req_name (REval p _) = Some p"
| "req_name (RExecute p _) = Some p"
| "req_name _ = None"

text \<open>Names are present, not empty, and have a 32-bit length.\<close>

definition name_ok :: "request \<Rightarrow> bool" where
  "name_ok rq = (case req_name rq of None \<Rightarrow> True | Some None \<Rightarrow> False
     | Some (Some p) \<Rightarrow> p \<noteq> [] \<and> length p < 2 ^ 32)"

definition args_ok :: "msgpuck \<Rightarrow> request \<Rightarrow> bool" where
  "args_ok mp rq \<longleftrightarrow> name_ok rq \<and>
     (\<forall>ob \<in> set (req_objs rq). tnt_object_verify mp ob (Some MP_ARRAY) = Some 0)"

locale client = msgpuck_laws mp + stream_writer wf out wv
  for mp :: msgpuck and wf :: "'d tnt_stream \<Rightarrow> bool" and out :: "'d tnt_stream \<Rightarrow> bytes"
    and wv :: "'d tnt_stream \<Rightarrow> bytes list \<Rightarrow> (int \<times> 'd tnt_stream) option"
begin

definition sent :: "u32 \<Rightarrow> item list \<Rightarrow> 'd tnt_stream \<Rightarrow> (int \<times> 'd tnt_stream) option \<Rightarrow> bool" where
  "sent code body s res \<longleftrightarrow> (\<exists>r s'. res = Some (r, s') \<and>
     (if r = -1 then (\<exists>v. concat v \<noteq> [] \<and> map_option fst (wv (next_reqid s) v) = Some (-1))
      else wf s' \<and> s_reqid s' = s_reqid s + 1 \<and> s_wrcnt s' = s_wrcnt s + 1
     \<and> (\<exists>fr. is_frame code (s_reqid s) body fr \<and> out s' = out s @ fr \<and> r = int (length fr))))"

lemma emit:
  assumes "wf s" and "matches body (concat pieces)" and "body_items body"
    and "encode_header mp code (s_reqid s) = Some hdr"
  shows "sent code body s (do { v \<leftarrow> with_len mp (hdr # pieces); wv (next_reqid s) v })"
proof -
  obtain v where v: "with_len mp (hdr # pieces) = Some v" "is_frame code (s_reqid s) body (concat v)"
    using with_len_frame [OF assms(4,2,3)] by blast
  have ne: "concat v \<noteq> []"
  proof
    assume "concat v = []"
    with v(2) show False by (simp only: is_frame_def) simp
  qed
  have s: "wf (next_reqid s)" "out (next_reqid s) = out s"
    using assms(1) by (simp_all add: next_reqid_def wf_reqid out_reqid)
  obtain r s' where r: "wv (next_reqid s) v = Some (r, s')" using writev_defined [OF s(1) ne] by blast
  have "wf s' \<and> s_reqid s' = s_reqid s + 1 \<and> s_wrcnt s' = s_wrcnt s + 1 \<and> (\<exists>fr. is_frame code (s_reqid s) body fr
      \<and> out s' = out s @ fr \<and> r = int (length fr))" if "r \<noteq> -1"
    using writev_ok [OF s(1) ne r that] s(2) v(2) by (auto simp: next_reqid_def)
  with v(1) r ne show ?thesis by (force simp: sent_def)
qed

lemmas body_simps = field_def num_def name_item_def in_array_def Let_def encode_header_ok

lemma store_ok:
  assumes "wf s" and v: "tnt_object_verify mp t (Some MP_ARRAY) = Some 0"
  shows "sent op (Tok (TMap 2) # field TNT_SPACE (num sp) @ field TNT_TUPLE (Raw (buf_contents t))) s
     (tnt_store_base mp wv s sp t op)"
  using emit [OF assms(1) _ _ encode_header_ok] len_uint32 [of sp] verify_ok_skip [OF v]
  by (simp add: tnt_store_base_def body_simps v)

lemma rpc_ok:
  assumes "wf s" and v: "tnt_object_verify mp a (Some MP_ARRAY) = Some 0" and "b \<noteq> []" and "length b < 2 ^ 32"
    and "k = (if is_call op then TNT_FUNCTION else TNT_EXPRESSION)"
  shows "sent op (Tok (TMap 2) # field k (Tok (TStr b)) @ field TNT_TUPLE (Raw (buf_contents a))) s
     (tnt_rpc_base mp wv s (Some b) a op)"
  using emit [OF assms(1) _ _ encode_header_ok] sizeof_strl [of "of_nat (length b)"] verify_ok_skip [OF v] assms(3-)
  by (simp add: tnt_rpc_base_def body_simps v)

lemma send_ok:
  assumes "wf s" and "args_ok mp rq"
  shows "sent (req_code rq) (req_body rq) s (send mp wv s rq)"
proof (cases rq)
  case RPing
  then show ?thesis using emit [OF assms(1) _ _ encode_header_ok, of "[Tok (TMap 0)]" "[mp_encode_map mp 0]"]
    by (simp add: tnt_ping_def body_simps)
next
  case (RSelect sp ix li os it k)
  have v: "tnt_object_verify mp k (Some MP_ARRAY) = Some 0" using assms(2) by (simp add: RSelect args_ok_def)
  show ?thesis
    using emit [OF assms(1) _ _ encode_header_ok] len_uint32 [of sp] len_uint32 [of ix] len_uint32 [of li]
      len_uint32 [of os] len_uint [of "ucast it"] verify_ok_skip [OF v]
    by (simp add: RSelect tnt_select_def body_simps v)
next
  case (RDelete sp ix k)
  have v: "tnt_object_verify mp k (Some MP_ARRAY) = Some 0" using assms(2) by (simp add: RDelete args_ok_def)
  show ?thesis
    using emit [OF assms(1) _ _ encode_header_ok] len_uint32 [of sp] len_uint32 [of ix] verify_ok_skip [OF v]
    by (simp add: RDelete tnt_delete_def body_simps v)
next
  case (RUpdate sp ix k ops)
  have v: "tnt_object_verify mp k (Some MP_ARRAY) = Some 0" "tnt_object_verify mp ops (Some MP_ARRAY) = Some 0"
    using assms(2) by (simp_all add: RUpdate args_ok_def)
  show ?thesis
    using emit [OF assms(1) _ _ encode_header_ok] len_uint32 [of sp] len_uint32 [of ix]
      verify_ok_skip [OF v(1)] verify_ok_skip [OF v(2)]
    by (simp add: RUpdate tnt_update_def body_simps v)
next
  case (RUpsert sp t ops)
  have v: "tnt_object_verify mp t (Some MP_ARRAY) = Some 0" "tnt_object_verify mp ops (Some MP_ARRAY) = Some 0"
    using assms(2) by (simp_all add: RUpsert args_ok_def)
  show ?thesis
    using emit [OF assms(1) _ _ encode_header_ok] len_uint32 [of sp] verify_ok_skip [OF v(1)] verify_ok_skip [OF v(2)]
    by (simp add: RUpsert tnt_upsert_def body_simps v)
next
  case (RExecute p a)
  then obtain b where b: "p = Some b" "b \<noteq> []" "length b < 2 ^ 32"
    using assms(2) by (auto simp: args_ok_def name_ok_def split: option.splits)
  have v: "tnt_object_verify mp a (Some MP_ARRAY) = Some 0" using assms(2) by (simp add: RExecute args_ok_def)
  show ?thesis
    using emit [OF assms(1) _ _ encode_header_ok] sizeof_strl [of "of_nat (length b)"] verify_ok_skip [OF v] b
    by (simp add: RExecute tnt_execute_def body_simps v)
qed (use assms in \<open>auto intro!: store_ok rpc_ok simp: tnt_insert_def tnt_replace_def tnt_call_def tnt_call_16_def
       tnt_eval_def args_ok_def name_ok_def is_call_ops name_item_def split: option.splits\<close>)

end

text \<open>The contract on the model's own stream, the growable buffer.\<close>

interpretation buf_client: client mp_ref buf_wf buf_contents "tnt_buf_writev (custom_realloc os)" for os
  by unfold_locales

section \<open>Properties\<close>

text \<open>C1. Every request of the fixed-layout interface (ping, select, insert, replace, delete, call,
  call_16, eval, execute, update, upsert) with verified arguments is written as one well-formed
  IPROTO frame: the call is never undefined (no stack array is overrun), and unless the stream
  fails it appends a length prefix that counts exactly the bytes after it, the header map with the
  request's code and the stream's current request number, and a body map whose count and fields are
  those of the protocol, with the argument objects verbatim; the request number moves on by one.
  This holds for any stream that keeps the \<open>writev\<close> contract.\<close>

theorem requests_are_frames:
  assumes "msgpuck_laws mp" and "stream_writer ok out wv" and "ok s" and "args_ok mp rq"
  shows "\<exists>r s'. send mp wv s rq = Some (r, s') \<and>
     (if r = -1 then (\<exists>v. concat v \<noteq> [] \<and> map_option fst (wv (next_reqid s) v) = Some (-1))
      else ok s' \<and> s_reqid s' = s_reqid s + 1 \<and>
        (\<exists>fr. is_frame (req_code rq) (s_reqid s) (req_body rq) fr \<and> out s' = out s @ fr \<and> r = int (length fr)))"
proof -
  have "client mp ok out wv" using assms(1,2) by (rule client.intro)
  from client.send_ok [OF this assms(3,4)] show ?thesis unfolding client.sent_def [OF \<open>client mp ok out wv\<close>] by metis
qed

definition demo_key :: obj where
  "demo_key = demo_obj\<lparr>s_data := map_option (\<lambda>sb. sb\<lparr>sb_data := Blk [0x91, 7], sb_size := 2, sb_alloc := 2\<rparr>)
     (s_data demo_obj)\<rparr>"

lemma demo_key_data: "\<exists>sb. s_data demo_key = Some sb \<and> sb_data sb = Blk [0x91, 7] \<and> sb_size sb = 2"
  using demo_obj_fresh by (auto simp: demo_key_def fresh_obj_def elim!: obj_repE)

lemma demo_key_verify: "tnt_object_verify mp_ref demo_key (Some MP_ARRAY) = Some 0"
  and demo_key_contents: "buf_contents demo_key = [0x91, 7]"
  using demo_key_data
  by (auto simp: tnt_object_verify_def mp_ref_def ref_typeof_def buf_contents_def sbuf_contents_def
      mp_tok.simps(2))

theorem requests_are_frames_witness:
  "\<exists>r s'. send mp_ref (tnt_buf_writev (custom_realloc os_ok)) demo_buf (RSelect 512 0 10 0 0 demo_key) = Some (r, s')
     \<and> (\<exists>fr. is_frame TNT_OP_SELECT 0 (req_body (RSelect 512 0 10 0 0 demo_key)) fr
          \<and> buf_contents s' = [1, 2] @ fr)"
proof -
  have ok: "args_ok mp_ref (RSelect 512 0 10 0 0 demo_key)"
    by (simp add: args_ok_def name_ok_def demo_key_verify)
  have b: "buf_wf demo_buf" "buf_wf (next_reqid demo_buf)" "buf_contents demo_buf = [1, 2]" "s_reqid demo_buf = 0"
    by (auto simp: buf_wf_def sbuf_wf_def buf_contents_def sbuf_contents_def demo_buf_def next_reqid_def)
  have no: "tnt_buf_writev (custom_realloc os_ok) (next_reqid demo_buf) v \<noteq> Some (-1, b)"
    if "xs \<in> set v" "xs \<noteq> []" for v b xs
  proof -
    have "concat v \<noteq> []" using that by auto
    from buf_writev_granted [OF libc_alloc.allocator_axioms os_ok_grants b(2) this] show ?thesis by auto
  qed
  show ?thesis
    using requests_are_frames [OF ref.msgpuck_laws_axioms libc_alloc.bufw.stream_writer_axioms b(1) ok, of os_ok]
    by (auto simp: b(3,4) no split: if_splits)
qed

text \<open>A request whose object arguments are not all valid MessagePack arrays, or whose function
  name or expression is missing or empty, is rejected with -1 before anything is written and
  without consuming a request number.\<close>

theorem requests_reject_bad_arguments:
  assumes "\<forall>ob \<in> set (req_objs rq). tnt_object_verify mp ob (Some MP_ARRAY) \<noteq> None"
    and "(\<exists>ob \<in> set (req_objs rq). tnt_object_verify mp ob (Some MP_ARRAY) \<noteq> Some 0)
       \<or> req_name rq \<in> {Some None, Some (Some [])}"
  shows "send mp wv s rq = Some (-1, s)"
  using assms
  by (cases rq)
    (auto simp: tnt_select_def tnt_insert_def tnt_replace_def tnt_store_base_def tnt_delete_def tnt_call_def
      tnt_call_16_def tnt_eval_def tnt_rpc_base_def tnt_execute_def tnt_update_def tnt_upsert_def
      split: option.splits)

theorem requests_reject_bad_arguments_witness:
  "send mp_ref (tnt_buf_writev (custom_realloc os_ok)) demo_buf (RCall (Some []) demo_key) = Some (-1, demo_buf)"
  by (rule requests_reject_bad_arguments) (simp_all add: demo_key_verify)

end
