(* ===== verification/Tnt_Request.thy ===== *)
theory Tnt_Request
  imports Tnt_Proto
begin

unbundle bit_operations_syntax

text \<open>
  Request objects, \<^verbatim>\<open>tnt/tnt_request.c\<close> and the structure of \<^verbatim>\<open>tnt_request.h\<close>.  The pointer pairs
  \<open>key\<close>/\<open>key_end\<close> and \<open>tuple\<close>/\<open>tuple_end\<close> are the bytes between them (\<open>None\<close> for null), taken when
  they are set.
\<close>

record tnt_request =
  rq_sync :: u64
  rq_type :: u32
  rq_space_id :: u32
  rq_index_id :: u32
  rq_offset :: u32
  rq_limit :: u32
  rq_iterator :: u32
  rq_key :: "bytes option"
  rq_key_object :: "obj option"
  rq_tuple :: "bytes option"
  rq_tuple_object :: "obj option"
  rq_index_base :: u32
  rq_alloc :: bool

definition sizeof_tnt_request :: nat where "sizeof_tnt_request = 96"

definition tnt_request_init :: "realloc_fn \<Rightarrow> tnt_request option \<Rightarrow> tnt_request option option" where
  "tnt_request_init ra req = do {
     ok \<leftarrow> (case req of
         Some _ \<Rightarrow> Some True
       | None \<Rightarrow> map_option (\<lambda>p. p \<noteq> NULLP) (tnt_mem_alloc ra sizeof_tnt_request));
     if \<not> ok then Some None
     else Some (Some \<lparr>rq_sync = 0, rq_type = 0, rq_space_id = 0, rq_index_id = 0, rq_offset = 0,
       rq_limit = 0xffffffff, rq_iterator = 0, rq_key = None, rq_key_object = None, rq_tuple = None,
       rq_tuple_object = None, rq_index_base = 0, rq_alloc = (req = None)\<rparr>)
   }"

text \<open>\<open>tnt_request_free\<close>: what is left is the caller's own structure, or nothing.\<close>

definition free_object :: "realloc_fn \<Rightarrow> obj option \<Rightarrow> unit option" where
  "free_object ra ob = (case ob of None \<Rightarrow> Some ()
     | Some st \<Rightarrow> map_option (\<lambda>_. ()) (tnt_stream_free (Some (tnt_buf_free ra)) (Some st)))"

definition tnt_request_free :: "realloc_fn \<Rightarrow> tnt_request \<Rightarrow> tnt_request option option" where
  "tnt_request_free ra req = do {
     _ \<leftarrow> free_object ra (rq_key_object req);
     _ \<leftarrow> free_object ra (rq_tuple_object req);
     Some (if rq_alloc req then None else Some (req\<lparr>rq_key_object := None, rq_tuple_object := None\<rparr>)) }"

text \<open>The constructors the macro \<open>TNT_REQUEST_CUSTOM\<close> generates.\<close>

definition tnt_request_custom :: "u32 \<Rightarrow> realloc_fn \<Rightarrow> tnt_request option \<Rightarrow> tnt_request option option" where
  "tnt_request_custom op ra req =
     map_option (map_option (\<lambda>r. r\<lparr>rq_type := op\<rparr>)) (tnt_request_init ra req)"

definition tnt_request_select where "tnt_request_select = tnt_request_custom TNT_OP_SELECT"
definition tnt_request_insert where "tnt_request_insert = tnt_request_custom TNT_OP_INSERT"
definition tnt_request_replace where "tnt_request_replace = tnt_request_custom TNT_OP_REPLACE"
definition tnt_request_update where "tnt_request_update = tnt_request_custom TNT_OP_UPDATE"
definition tnt_request_delete where "tnt_request_delete = tnt_request_custom TNT_OP_DELETE"
definition tnt_request_call where "tnt_request_call = tnt_request_custom TNT_OP_CALL"
definition tnt_request_call_16 where "tnt_request_call_16 = tnt_request_custom TNT_OP_CALL_16"
definition tnt_request_auth where "tnt_request_auth = tnt_request_custom TNT_OP_AUTH"
definition tnt_request_eval where "tnt_request_eval = tnt_request_custom TNT_OP_EVAL"
definition tnt_request_upsert where "tnt_request_upsert = tnt_request_custom TNT_OP_UPSERT"
definition tnt_request_ping where "tnt_request_ping = tnt_request_custom TNT_OP_PING"

section \<open>Setters\<close>

definition tnt_request_set_space :: "tnt_request \<Rightarrow> u32 \<Rightarrow> int \<times> tnt_request" where
  "tnt_request_set_space req space = (0, req\<lparr>rq_space_id := space\<rparr>)"

definition tnt_request_set_index :: "tnt_request \<Rightarrow> u32 \<Rightarrow> int \<times> tnt_request" where
  "tnt_request_set_index req index = (0, req\<lparr>rq_index_id := index\<rparr>)"

definition tnt_request_set_offset :: "tnt_request \<Rightarrow> u32 \<Rightarrow> int \<times> tnt_request" where
  "tnt_request_set_offset req offset = (0, req\<lparr>rq_offset := offset\<rparr>)"

definition tnt_request_set_limit :: "tnt_request \<Rightarrow> u32 \<Rightarrow> int \<times> tnt_request" where
  "tnt_request_set_limit req limit = (0, req\<lparr>rq_limit := limit\<rparr>)"

definition tnt_request_set_iterator :: "tnt_request \<Rightarrow> u32 \<Rightarrow> int \<times> tnt_request" where
  "tnt_request_set_iterator req iterator = (0, req\<lparr>rq_iterator := iterator\<rparr>)"

definition tnt_request_set_index_base :: "tnt_request \<Rightarrow> u32 \<Rightarrow> int \<times> tnt_request" where
  "tnt_request_set_index_base req index_base = (0, req\<lparr>rq_index_base := index_base\<rparr>)"

text \<open>The pointer pair of an object's data: null while nothing has been written to it.\<close>

definition sbuf_span :: "obj \<Rightarrow> bytes option option" where
  "sbuf_span s = do {
     sb \<leftarrow> s_data s;
     (case sb_data sb of NULLP \<Rightarrow> Some None | Blk d \<Rightarrow> Some (Some (take (sb_size sb) d)) | Freed \<Rightarrow> None) }"

definition tnt_request_set_key :: "tnt_request \<Rightarrow> obj \<Rightarrow> (int \<times> tnt_request) option" where
  "tnt_request_set_key req s = do { k \<leftarrow> sbuf_span s; Some (0, req\<lparr>rq_key := k\<rparr>) }"

definition tnt_request_set_key_format :: "msgpuck \<Rightarrow> realloc_fn \<Rightarrow> (u64 \<Rightarrow> u32) \<Rightarrow> tnt_request \<Rightarrow> string
    \<Rightarrow> va list \<Rightarrow> (int \<times> tnt_request) option" where
  "tnt_request_set_key_format mp ra d2f req fmt args = do {
     ko \<leftarrow> (case rq_key_object req of
         Some ob \<Rightarrow> map_option (\<lambda>r. Some (snd r)) (tnt_object_reset ob)
       | None \<Rightarrow> tnt_object ra None);
     (case ko of
        None \<Rightarrow> Some (-1, req)
      | Some ob \<Rightarrow> do {
          (res, ob1) \<leftarrow> tnt_object_vformat mp ra d2f ob fmt args;
          if res = -1 then Some (-1, req\<lparr>rq_key_object := Some ob1\<rparr>)
          else tnt_request_set_key (req\<lparr>rq_key_object := Some ob1\<rparr>) ob1 }) }"

definition tnt_request_set_func :: "tnt_request \<Rightarrow> bytes option \<Rightarrow> u32 \<Rightarrow> (int \<times> tnt_request) option" where
  "tnt_request_set_func req func flen =
     (if \<not> is_call (rq_type req) then Some (-1, req)
      else case func of
        None \<Rightarrow> Some (-1, req)
      | Some fp \<Rightarrow> if unat flen \<le> length fp then Some (0, req\<lparr>rq_key := Some (take (unat flen) fp)\<rparr>) else None)"

definition tnt_request_set_funcz :: "tnt_request \<Rightarrow> bytes option \<Rightarrow> (int \<times> tnt_request) option" where
  "tnt_request_set_funcz req func =
     (if \<not> is_call (rq_type req) then Some (-1, req)
      else case func of
        None \<Rightarrow> Some (-1, req)
      | Some fp \<Rightarrow> do { n \<leftarrow> c_strlen fp; Some (0, req\<lparr>rq_key := Some (take n fp)\<rparr>) })"

definition tnt_request_set_expr :: "tnt_request \<Rightarrow> bytes option \<Rightarrow> u32 \<Rightarrow> (int \<times> tnt_request) option" where
  "tnt_request_set_expr req expr elen =
     (if rq_type req \<noteq> TNT_OP_EVAL then Some (-1, req)
      else case expr of
        None \<Rightarrow> Some (-1, req)
      | Some ep \<Rightarrow> if unat elen \<le> length ep then Some (0, req\<lparr>rq_key := Some (take (unat elen) ep)\<rparr>) else None)"

definition tnt_request_set_exprz :: "tnt_request \<Rightarrow> bytes option \<Rightarrow> (int \<times> tnt_request) option" where
  "tnt_request_set_exprz req expr =
     (if rq_type req \<noteq> TNT_OP_EVAL then Some (-1, req)
      else case expr of
        None \<Rightarrow> Some (-1, req)
      | Some ep \<Rightarrow> do { n \<leftarrow> c_strlen ep; Some (0, req\<lparr>rq_key := Some (take n ep)\<rparr>) })"

definition tnt_request_set_ops :: "tnt_request \<Rightarrow> obj \<Rightarrow> (int \<times> tnt_request) option" where
  "tnt_request_set_ops req s =
     (if rq_type req = TNT_OP_UPDATE then do { t \<leftarrow> sbuf_span s; Some (0, req\<lparr>rq_tuple := t\<rparr>) }
      else if rq_type req = TNT_OP_UPSERT then do { k \<leftarrow> sbuf_span s; Some (0, req\<lparr>rq_key := k\<rparr>) }
      else Some (-1, req))"

definition tnt_request_set_tuple :: "tnt_request \<Rightarrow> obj \<Rightarrow> (int \<times> tnt_request) option" where
  "tnt_request_set_tuple req s = do { t \<leftarrow> sbuf_span s; Some (0, req\<lparr>rq_tuple := t\<rparr>) }"

definition tnt_request_set_tuple_format :: "msgpuck \<Rightarrow> realloc_fn \<Rightarrow> (u64 \<Rightarrow> u32) \<Rightarrow> tnt_request \<Rightarrow> string
    \<Rightarrow> va list \<Rightarrow> (int \<times> tnt_request) option" where
  "tnt_request_set_tuple_format mp ra d2f req fmt args = do {
     ko \<leftarrow> (case rq_tuple_object req of
         Some ob \<Rightarrow> map_option (\<lambda>r. Some (snd r)) (tnt_object_reset ob)
       | None \<Rightarrow> tnt_object ra None);
     (case ko of
        None \<Rightarrow> Some (-1, req)
      | Some ob \<Rightarrow> do {
          (res, ob1) \<leftarrow> tnt_object_vformat mp ra d2f ob fmt args;
          if res = -1 then Some (-1, req\<lparr>rq_tuple_object := Some ob1\<rparr>)
          else tnt_request_set_tuple (req\<lparr>rq_tuple_object := Some ob1\<rparr>) ob1 }) }"

section \<open>Writing a request out\<close>

definition INT64_MAX :: u64 where "INT64_MAX = 0x7fffffffffffffff"

text \<open>The fixed fields between the map header and the key, and how many there are.\<close>

definition wr_fields :: "msgpuck \<Rightarrow> tnt_request \<Rightarrow> bytes \<times> nat" where
  "wr_fields mp req = (let tp = rq_type req;
      f1 = (if tp < TNT_OP_CALL_16 \<or> tp = TNT_OP_UPSERT
            then (mp_encode_uint mp TNT_SPACE @ mp_encode_uint mp (ucast (rq_space_id req)), 1) else ([], 0));
      f2 = (if rq_index_id req \<noteq> 0 \<and> (tp = TNT_OP_SELECT \<or> tp = TNT_OP_UPDATE \<or> tp = TNT_OP_DELETE)
            then (mp_encode_uint mp TNT_INDEX @ mp_encode_uint mp (ucast (rq_index_id req)), 1) else ([], 0));
      f3 = (if tp = TNT_OP_SELECT
            then (mp_encode_uint mp TNT_LIMIT @ mp_encode_uint mp (ucast (rq_limit req)), 1) else ([], 0));
      f4 = (if rq_offset req \<noteq> 0 \<and> tp = TNT_OP_SELECT
            then (mp_encode_uint mp TNT_OFFSET @ mp_encode_uint mp (ucast (rq_offset req)), 1) else ([], 0));
      f5 = (if rq_iterator req \<noteq> 0 \<and> tp = TNT_OP_SELECT
            then (mp_encode_uint mp TNT_ITERATOR @ mp_encode_uint mp (ucast (rq_iterator req)), 1) else ([], 0))
    in (fst f1 @ fst f2 @ fst f3 @ fst f4 @ fst f5, snd f1 + snd f2 + snd f3 + snd f4 + (snd f5 :: nat)))"

text \<open>The \<open>switch\<close> on the request type for a request with a key; \<open>None\<close> is its \<open>default\<close>.\<close>

definition wr_key :: "msgpuck \<Rightarrow> u32 \<Rightarrow> bytes \<Rightarrow> bytes option" where
  "wr_key mp tp key =
     (if tp = TNT_OP_EVAL then Some (mp_encode_uint mp TNT_EXPRESSION @ mp_encode_strl mp (of_nat (length key)))
      else if tp = TNT_OP_CALL_16 \<or> tp = TNT_OP_CALL
        then Some (mp_encode_uint mp TNT_FUNCTION @ mp_encode_strl mp (of_nat (length key)))
      else if tp = TNT_OP_SELECT \<or> tp = TNT_OP_UPDATE \<or> tp = TNT_OP_DELETE
        then Some (mp_encode_uint mp TNT_KEY)
      else if tp = TNT_OP_UPSERT then Some (mp_encode_uint mp TNT_OPS)
      else None)"

text \<open>
  The state of the assembly: the pieces after \<open>v[0]\<close>, the bytes of the array \<open>header\<close> from \<open>begin\<close> to
  \<open>pos\<close>, the number of fields \<open>nd\<close>, and how much of \<open>header[128]\<close> is filled (9 bytes are left in front for
  the length).  \<open>wr_put\<close> encodes at \<open>pos\<close>; \<open>wr_ext\<close> closes the piece at \<open>pos\<close> and adds an external one.
\<close>

record wr =
  wr_v :: "bytes list"
  wr_cur :: bytes
  wr_nd :: nat
  wr_used :: nat

definition wr_put :: "bytes \<Rightarrow> wr \<Rightarrow> wr" where
  "wr_put bs w = w\<lparr>wr_cur := wr_cur w @ bs, wr_used := wr_used w + length bs\<rparr>"

definition wr_ext :: "bytes \<Rightarrow> wr \<Rightarrow> wr" where
  "wr_ext ext w = w\<lparr>wr_v := wr_v w @ [wr_cur w, ext], wr_cur := [], wr_nd := wr_nd w + 1\<rparr>"

text \<open>Header, placeholder for the map header, fixed fields.\<close>

definition wr_start :: "msgpuck \<Rightarrow> tnt_request \<Rightarrow> wr" where
  "wr_start mp req = (let (f, nd) = wr_fields mp req in
     wr_put f (wr_put [0] (wr_put (mp_encode_map mp 2 @ mp_encode_uint mp TNT_CODE
         @ mp_encode_uint mp (ucast (rq_type req)) @ mp_encode_uint mp TNT_SYNC @ mp_encode_uint mp (rq_sync req))
       \<lparr>wr_v = [], wr_cur = [], wr_nd = nd, wr_used = 9\<rparr>)))"

definition wr_tuple :: "msgpuck \<Rightarrow> tnt_request \<Rightarrow> wr \<Rightarrow> wr" where
  "wr_tuple mp req w = (case rq_tuple req of
      None \<Rightarrow> w
    | Some t \<Rightarrow> wr_ext t (wr_put (mp_encode_uint mp TNT_TUPLE) w))"

definition wr_base :: "msgpuck \<Rightarrow> tnt_request \<Rightarrow> wr \<Rightarrow> wr" where
  "wr_base mp req w =
     (if rq_index_base req \<noteq> 0 \<and> (rq_type req = TNT_OP_UPDATE \<or> rq_type req = TNT_OP_UPSERT)
      then (wr_put (mp_encode_uint mp TNT_INDEX_BASE @ mp_encode_uint mp (scast (rq_index_base req))) w)
             \<lparr>wr_nd := wr_nd w + 1\<rparr>
      else w)"

text \<open>
  The last piece, and the map header filled in at \<open>map\<close>, \<open>mpos\<close> bytes into the first piece; undefined if
  the assertion on the size of the map header fails or the array has been overrun.
\<close>

definition wr_finish :: "msgpuck \<Rightarrow> nat \<Rightarrow> wr \<Rightarrow> bytes list option" where
  "wr_finish mp mpos w = (let v = (if wr_cur w \<noteq> [] then wr_v w @ [wr_cur w] else wr_v w) in
     if mp_sizeof_map mp (of_nat (wr_nd w)) \<noteq> 1 \<or> wr_used w > 128 then None
     else (case v of [] \<Rightarrow> None | p # ps \<Rightarrow> Some (blit p mpos (mp_encode_map mp (of_nat (wr_nd w))) # ps)))"

text \<open>\<open>Some None\<close> is the early \<open>return -1\<close>.\<close>

definition wr_pieces :: "msgpuck \<Rightarrow> tnt_request \<Rightarrow> bytes list option option" where
  "wr_pieces mp req = (let w = wr_start mp req;
       mpos = length (wr_cur w) - length (fst (wr_fields mp req)) - 1
     in case rq_key req of
        None \<Rightarrow> map_option Some (wr_finish mp mpos (wr_base mp req (wr_tuple mp req w)))
      | Some k \<Rightarrow> (case wr_key mp (rq_type req) k of
            None \<Rightarrow> Some None
          | Some kf \<Rightarrow> map_option Some
              (wr_finish mp mpos (wr_base mp req (wr_tuple mp req (wr_ext k (wr_put kf w)))))))"

definition tnt_request_writeout :: "msgpuck \<Rightarrow> 'd writev_fn \<Rightarrow> 'd tnt_stream \<Rightarrow> tnt_request \<Rightarrow> u64 option
    \<Rightarrow> (int \<times> 'd tnt_stream \<times> tnt_request \<times> u64 option) option" where
  "tnt_request_writeout mp wv s req sync = (
     let s = (if sync = Some INT64_MAX \<and> s_reqid s AND INT64_MAX = INT64_MAX then s\<lparr>s_reqid := 0\<rparr> else s);
         req = req\<lparr>rq_sync := s_reqid s\<rparr>;
         s = next_reqid s
     in do {
       pieces \<leftarrow> wr_pieces mp req;
       (case pieces of
          None \<Rightarrow> Some (-1, s, req, sync)
        | Some v \<Rightarrow> do {
            let plen = sum_list (map length v);
            let prefix = mp_encode_luint32 mp (of_nat plen);
            (rv, s1) \<leftarrow> (if length prefix = mp_sizeof_luint32 (of_nat plen) then wv s (prefix # v) else None);
            if rv = -1 then Some (-1, s1, req, sync)
            else Some (0, s1, req, map_option (\<lambda>_. rq_sync req) sync) }) })"

definition tnt_request_compile :: "msgpuck \<Rightarrow> 'd writev_fn \<Rightarrow> 'd tnt_stream \<Rightarrow> tnt_request
    \<Rightarrow> (int \<times> 'd tnt_stream \<times> tnt_request) option" where
  "tnt_request_compile mp wv s req = do {
     (rc, s1, req1, sync) \<leftarrow> tnt_request_writeout mp wv s req (Some INT64_MAX);
     if rc = -1 then Some (-1, s1, req1)
     else do { y \<leftarrow> sync; Some (sint y, s1, req1) } }"

section \<open>The frame of a request object\<close>

definition opt_field :: "bool \<Rightarrow> u64 \<Rightarrow> item \<Rightarrow> item list list" where
  "opt_field b k v = (if b then [field k v] else [])"

definition key_item :: "u32 \<Rightarrow> bytes \<Rightarrow> item list" where
  "key_item tp k =
     (if tp = TNT_OP_EVAL then field TNT_EXPRESSION (Tok (TStr k))
      else if tp = TNT_OP_CALL_16 \<or> tp = TNT_OP_CALL then field TNT_FUNCTION (Tok (TStr k))
      else if tp = TNT_OP_UPSERT then field TNT_OPS (Raw k)
      else field TNT_KEY (Raw k))"

text \<open>The fields the protocol expects for the request's type and settings, in order.\<close>

definition fixed_fields :: "tnt_request \<Rightarrow> item list list" where
  "fixed_fields req = (let tp = rq_type req in
     opt_field (tp < TNT_OP_CALL_16 \<or> tp = TNT_OP_UPSERT) TNT_SPACE (num (rq_space_id req))
     @ opt_field (rq_index_id req \<noteq> 0 \<and> (tp = TNT_OP_SELECT \<or> tp = TNT_OP_UPDATE \<or> tp = TNT_OP_DELETE))
         TNT_INDEX (num (rq_index_id req))
     @ opt_field (tp = TNT_OP_SELECT) TNT_LIMIT (num (rq_limit req))
     @ opt_field (rq_offset req \<noteq> 0 \<and> tp = TNT_OP_SELECT) TNT_OFFSET (num (rq_offset req))
     @ opt_field (rq_iterator req \<noteq> 0 \<and> tp = TNT_OP_SELECT) TNT_ITERATOR (num (rq_iterator req)))"

definition key_fields :: "tnt_request \<Rightarrow> item list list" where
  "key_fields req = (case rq_key req of None \<Rightarrow> [] | Some k \<Rightarrow> [key_item (rq_type req) k])"

definition tuple_fields :: "tnt_request \<Rightarrow> item list list" where
  "tuple_fields req = (case rq_tuple req of None \<Rightarrow> [] | Some t \<Rightarrow> [field TNT_TUPLE (Raw t)])"

definition base_fields :: "tnt_request \<Rightarrow> item list list" where
  "base_fields req = opt_field
     (rq_index_base req \<noteq> 0 \<and> (rq_type req = TNT_OP_UPDATE \<or> rq_type req = TNT_OP_UPSERT))
     TNT_INDEX_BASE (Tok (TUint (scast (rq_index_base req))))"

definition rq_fields :: "tnt_request \<Rightarrow> item list list" where
  "rq_fields req = fixed_fields req @ key_fields req @ tuple_fields req @ base_fields req"

definition rq_body :: "tnt_request \<Rightarrow> item list" where
  "rq_body req = Tok (TMap (of_nat (length (rq_fields req)))) # concat (rq_fields req)"

text \<open>Which types accept a key, and that key and tuple are one MessagePack value (or a string).\<close>

definition key_ok :: "u32 \<Rightarrow> bytes \<Rightarrow> bool" where
  "key_ok tp k =
     (if tp \<in> {TNT_OP_EVAL, TNT_OP_CALL_16, TNT_OP_CALL} then length k < 2 ^ 32
      else tp \<in> {TNT_OP_SELECT, TNT_OP_UPDATE, TNT_OP_DELETE, TNT_OP_UPSERT} \<and> mp_skip 1 k = Some [])"

definition rq_valid :: "tnt_request \<Rightarrow> bool" where
  "rq_valid req \<longleftrightarrow> (case rq_key req of None \<Rightarrow> True | Some k \<Rightarrow> key_ok (rq_type req) k)
     \<and> (case rq_tuple req of None \<Rightarrow> True | Some t \<Rightarrow> mp_skip 1 t = Some [])"

lemma length_opt_field: "length (opt_field b k v) = (if b then 1 else 0)"
  by (simp add: opt_field_def)

lemma length_rq_fields:
  "length (fixed_fields req) \<le> 5" "length (key_fields req) \<le> 1" "length (tuple_fields req) \<le> 1"
  "length (base_fields req) \<le> 1"
  by (simp_all add: fixed_fields_def key_fields_def tuple_fields_def base_fields_def length_opt_field Let_def
      split: option.splits)

definition entry :: "item list \<Rightarrow> bool" where
  "entry f \<longleftrightarrow> length f = 2 \<and> (\<forall>x \<in> set f. value_item x)"

lemma entry_opt_field: "value_item v \<Longrightarrow> f \<in> set (opt_field b k v) \<Longrightarrow> entry f"
  by (auto simp: opt_field_def entry_def field_def split: if_splits)

lemma entries_concat:
  "\<forall>f \<in> set fs. entry f \<Longrightarrow> length (concat fs) = 2 * length fs \<and> (\<forall>x \<in> set (concat fs). value_item x)"
  by (induction fs) (auto simp: entry_def)

lemma rq_fields_entries: "rq_valid req \<Longrightarrow> \<forall>f \<in> set (rq_fields req). entry f"
proof -
  assume v: "rq_valid req"
  have "\<forall>f \<in> set (fixed_fields req). entry f"
    by (auto simp: fixed_fields_def num_def Let_def elim!: entry_opt_field [rotated])
  moreover have "\<forall>f \<in> set (base_fields req). entry f"
    by (auto simp: base_fields_def elim!: entry_opt_field [rotated])
  moreover have "\<forall>f \<in> set (key_fields req). entry f"
  proof (cases "rq_key req")
    case (Some k)
    then have "key_ok (rq_type req) k" using v by (simp add: rq_valid_def)
    then have "entry (key_item (rq_type req) k)"
      by (cases "rq_type req \<in> {TNT_OP_EVAL, TNT_OP_CALL_16, TNT_OP_CALL}")
        (auto simp: key_item_def key_ok_def entry_def field_def)
    then show ?thesis by (simp add: key_fields_def Some)
  qed (simp add: key_fields_def)
  moreover have "\<forall>f \<in> set (tuple_fields req). entry f"
    using v by (auto simp: tuple_fields_def rq_valid_def entry_def field_def split: option.splits)
  ultimately show ?thesis by (auto simp: rq_fields_def)
qed

lemma count_small: "length (rq_fields req) \<le> 8"
  using length_rq_fields [of req] by (simp add: rq_fields_def)

lemma rq_body_items: "rq_valid req \<Longrightarrow> body_items (rq_body req)"
proof -
  assume "rq_valid req"
  from entries_concat [OF rq_fields_entries [OF this]]
  have c: "length (concat (rq_fields req)) = 2 * length (rq_fields req)"
    "\<forall>x \<in> set (concat (rq_fields req)). value_item x" by blast+
  have "unat (of_nat (length (rq_fields req)) :: u32) = length (rq_fields req)"
    using count_small [of req] by (intro unat_of_nat_u32) simp
  with c show ?thesis by (simp only: rq_body_def body_items.simps)
qed

lemma blit_placeholder: "length b = 1 \<Longrightarrow> blit (h @ 0 # x) (length h) b = h @ b @ x"
  by (simp add: blit_def)

context msgpuck_laws
begin

lemma wr_fields_spec:
  shows "matches (concat (fixed_fields req) @ xs) (fst (wr_fields mp req) @ r) = matches xs r"
    and "snd (wr_fields mp req) = length (fixed_fields req)"
    and "length (fst (wr_fields mp req)) \<le> 30"
proof -
  have seg: "matches (concat (opt_field b k (num n)) @ ys)
      ((if b then mp_encode_uint mp k @ mp_encode_uint mp (ucast n) else []) @ q) = matches ys q"
    for b k n ys q by (simp add: opt_field_def field_def num_def)
  have fst_if: "fst (if b then (x, 1 :: nat) else ([], 0)) = (if b then x else [])" for b and x :: bytes by simp
  show "matches (concat (fixed_fields req) @ xs) (fst (wr_fields mp req) @ r) = matches xs r"
    unfolding fixed_fields_def wr_fields_def Let_def fst_conv fst_if concat_append append_assoc seg ..
  show "snd (wr_fields mp req) = length (fixed_fields req)"
    by (simp add: fixed_fields_def wr_fields_def Let_def opt_field_def)
  show "length (fst (wr_fields mp req)) \<le> 30"
    using len_uint32 [of "rq_space_id req"] len_uint32 [of "rq_index_id req"] len_uint32 [of "rq_limit req"]
      len_uint32 [of "rq_offset req"] len_uint32 [of "rq_iterator req"]
    by (simp add: wr_fields_def Let_def)
qed

lemma distinct_ops: "TNT_OP_SELECT \<noteq> TNT_OP_UPSERT" "TNT_OP_UPDATE \<noteq> TNT_OP_UPSERT" "TNT_OP_DELETE \<noteq> TNT_OP_UPSERT"
  "TNT_OP_UPSERT \<noteq> TNT_OP_EVAL" "TNT_OP_UPSERT \<noteq> TNT_OP_CALL" "TNT_OP_UPSERT \<noteq> TNT_OP_CALL_16"
  by (simp_all add: proto_consts)

lemma wr_key_spec:
  assumes "key_ok tp k"
  obtains kf where "wr_key mp tp k = Some kf" "length kf \<le> 6"
    "\<forall>xs r. matches (key_item tp k @ xs) (kf @ k @ r) = matches xs r"
proof (cases "tp \<in> {TNT_OP_EVAL, TNT_OP_CALL_16, TNT_OP_CALL}")
  case True
  with assms sizeof_strl [of "of_nat (length k)"] show thesis
    by (intro that [of "mp_encode_uint mp (if tp = TNT_OP_EVAL then TNT_EXPRESSION else TNT_FUNCTION)
        @ mp_encode_strl mp (of_nat (length k))"]) (auto simp: wr_key_def key_item_def key_ok_def field_def)
next
  case False
  with assms show thesis
    by (intro that [of "mp_encode_uint mp (if tp = TNT_OP_UPSERT then TNT_OPS else TNT_KEY)"])
      (auto simp: wr_key_def key_item_def key_ok_def field_def distinct_ops)
qed

definition rq_hdr :: "tnt_request \<Rightarrow> bytes" where
  "rq_hdr req = mp_encode_map mp 2 @ mp_encode_uint mp TNT_CODE @ mp_encode_uint mp (ucast (rq_type req))
     @ mp_encode_uint mp TNT_SYNC @ mp_encode_uint mp (rq_sync req)"

lemma rq_hdr_len: "length (rq_hdr req) \<le> 17"
  using len_uint [of "rq_sync req"] len_uint32 [of "rq_type req"] by (simp add: rq_hdr_def)

text \<open>
  Assembly invariant: what has been assembled, fields counted, room used, and that the placeholder
  stands after the request header in the first piece.
\<close>

definition wr_inv :: "bytes \<Rightarrow> bytes \<Rightarrow> nat \<Rightarrow> nat \<Rightarrow> wr \<Rightarrow> bool" where
  "wr_inv h rest nd used w \<longleftrightarrow> concat (wr_v w) @ wr_cur w = h @ 0 # rest \<and> wr_nd w = nd \<and> wr_used w \<le> used
     \<and> (\<exists>x. hd (wr_v w @ [wr_cur w]) = h @ 0 # x)"

lemma wr_inv_put: "wr_inv h rest nd used w \<Longrightarrow> wr_inv h (rest @ bs) nd (used + length bs) (wr_put bs w)"
  by (cases "wr_v w") (auto simp: wr_inv_def wr_put_def)

lemma wr_inv_ext: "wr_inv h rest nd used w \<Longrightarrow> wr_inv h (rest @ e) (nd + 1) used (wr_ext e w)"
  by (cases "wr_v w") (auto simp: wr_inv_def wr_ext_def)

lemma wr_inv_start:
  "wr_inv (rq_hdr req) (fst (wr_fields mp req)) (length (fixed_fields req)) 57 (wr_start mp req)"
proof -
  obtain f nd where f: "wr_fields mp req = (f, nd)" by (cases "wr_fields mp req")
  have "length f \<le> 30" "nd = length (fixed_fields req)" using wr_fields_spec(2,3) [of req] by (simp_all add: f)
  with rq_hdr_len [of req] show ?thesis
    by (simp add: wr_start_def f wr_inv_def wr_put_def rq_hdr_def [symmetric])
qed

definition tup_bytes :: "tnt_request \<Rightarrow> bytes" where
  "tup_bytes req = (case rq_tuple req of None \<Rightarrow> [] | Some t \<Rightarrow> mp_encode_uint mp TNT_TUPLE @ t)"

definition base_bytes :: "tnt_request \<Rightarrow> bytes" where
  "base_bytes req =
     (if rq_index_base req \<noteq> 0 \<and> (rq_type req = TNT_OP_UPDATE \<or> rq_type req = TNT_OP_UPSERT)
      then mp_encode_uint mp TNT_INDEX_BASE @ mp_encode_uint mp (scast (rq_index_base req)) else [])"

lemma base_bytes_spec:
  "matches (concat (base_fields req) @ xs) (base_bytes req @ r) = matches xs r" "length (base_bytes req) \<le> 10"
  using len_uint [of "scast (rq_index_base req)"]
  by (simp_all add: base_bytes_def base_fields_def opt_field_def field_def)

lemma tup_bytes_spec: "matches (concat (tuple_fields req) @ xs) (tup_bytes req @ r) = matches xs r"
  by (simp add: tup_bytes_def tuple_fields_def field_def split: option.splits)

lemma wr_inv_tuple:
  assumes "wr_inv h rest nd used w"
  shows "wr_inv h (rest @ tup_bytes req) (nd + length (tuple_fields req)) (used + 1) (wr_tuple mp req w)"
proof (cases "rq_tuple req")
  case None
  then show ?thesis using assms by (auto simp: tup_bytes_def tuple_fields_def wr_tuple_def wr_inv_def)
next
  case (Some t)
  from wr_inv_ext [OF wr_inv_put [OF assms], of "mp_encode_uint mp TNT_TUPLE" t] show ?thesis
    by (simp add: Some tup_bytes_def tuple_fields_def wr_tuple_def)
qed

lemma wr_inv_base:
  assumes "wr_inv h rest nd used w"
  shows "wr_inv h (rest @ base_bytes req) (nd + length (base_fields req)) (used + 10) (wr_base mp req w)"
proof (cases "rq_index_base req \<noteq> 0 \<and> (rq_type req = TNT_OP_UPDATE \<or> rq_type req = TNT_OP_UPSERT)")
  case True
  have "wr_inv h (rest @ base_bytes req) nd (used + length (base_bytes req)) (wr_put (base_bytes req) w)"
    by (rule wr_inv_put [OF assms])
  moreover have "wr_base mp req w = (wr_put (base_bytes req) w)\<lparr>wr_nd := wr_nd w + 1\<rparr>"
    "length (base_fields req) = 1" "wr_nd w = nd"
    using True assms by (simp_all add: wr_base_def base_bytes_def base_fields_def length_opt_field wr_inv_def)
  ultimately show ?thesis using base_bytes_spec(2) [of req] by (auto simp: wr_inv_def)
next
  case False
  then have "base_bytes req = []" "length (base_fields req) = 0" "wr_base mp req w = w"
    by (auto simp: wr_base_def base_bytes_def base_fields_def length_opt_field)
  then show ?thesis using assms by (auto simp: wr_inv_def)
qed

lemma wr_finish_ok:
  assumes "wr_inv h rest nd used w" and "nd < 16" and "used \<le> 128"
  obtains v where "wr_finish mp (length h) w = Some v" "concat v = h @ mp_encode_map mp (of_nat nd) @ rest"
proof -
  have m: "length (mp_encode_map mp (of_nat nd)) = 1" "mp_sizeof_map mp (of_nat nd) = 1"
    using assms(2) by (simp_all add: size_map [symmetric] enc_map_one unat_of_nat_small)
  define v where "v = (if wr_cur w \<noteq> [] then wr_v w @ [wr_cur w] else wr_v w)"
  have c: "concat v = h @ 0 # rest" using assms(1) by (auto simp: v_def wr_inv_def)
  then obtain p ps where v: "v = p # ps" by (cases v) auto
  with assms(1) obtain x where x: "p = h @ 0 # x"
    by (cases "wr_v w") (auto simp: v_def wr_inv_def split: if_splits)
  with c v have "x @ concat ps = rest" by simp
  with m x v show thesis
    using assms(1,3) that [of "(h @ mp_encode_map mp (of_nat nd) @ x) # ps"]
    by (simp add: wr_finish_def v_def [symmetric] wr_inv_def blit_placeholder)
qed

lemma map_pos: "length (wr_cur (wr_start mp req)) - length (fst (wr_fields mp req)) - 1 = length (rq_hdr req)"
  by (cases "wr_fields mp req") (simp add: wr_start_def wr_put_def rq_hdr_def [symmetric])

lemma wr_pieces_ok:
  assumes "rq_valid req"
  obtains v where "wr_pieces mp req = Some (Some v)"
    "matches (hdr_items (rq_type req) (rq_sync req) @ rq_body req) (concat v)"
proof -
  note goal = that
  have fin: thesis if w: "wr_inv (rq_hdr req) (fst (wr_fields mp req) @ kb)
        (length (fixed_fields req) + length (key_fields req)) 63 w"
    and pc: "wr_pieces mp req = map_option Some (wr_finish mp (length (rq_hdr req)) (wr_base mp req (wr_tuple mp req w)))"
    and kb: "\<And>xs r. matches (concat (key_fields req) @ xs) (kb @ r) = matches xs r" for w kb
  proof -
    note wr_inv_base [OF wr_inv_tuple [OF w, of req], of req]
    moreover have "length (fixed_fields req) + length (key_fields req) + length (tuple_fields req)
        + length (base_fields req) = length (rq_fields req)" by (simp add: rq_fields_def)
    ultimately have "wr_inv (rq_hdr req) (((fst (wr_fields mp req) @ kb) @ tup_bytes req) @ base_bytes req)
        (length (rq_fields req)) 74 (wr_base mp req (wr_tuple mp req w))" by simp
    then obtain v where v: "wr_finish mp (length (rq_hdr req)) (wr_base mp req (wr_tuple mp req w)) = Some v"
      "concat v = rq_hdr req @ mp_encode_map mp (of_nat (length (rq_fields req)))
         @ ((fst (wr_fields mp req) @ kb) @ tup_bytes req) @ base_bytes req"
      by (rule wr_finish_ok) (use count_small [of req] in auto)
    have "matches (hdr_items (rq_type req) (rq_sync req) @ rq_body req) (concat v)"
      using base_bytes_spec(1) [of req "[]" "[]"]
      by (simp add: v(2) rq_hdr_def hdr_matches rq_body_def rq_fields_def wr_fields_spec(1) kb tup_bytes_spec)
    moreover have "wr_pieces mp req = Some (Some v)" using v(1) pc by simp
    ultimately show thesis by (intro goal)
  qed
  show thesis
  proof (cases "rq_key req")
    case None
    have "wr_inv (rq_hdr req) (fst (wr_fields mp req) @ []) (length (fixed_fields req) + length (key_fields req)) 63
        (wr_start mp req)"
      using wr_inv_start [of req] by (simp add: key_fields_def None wr_inv_def)
    then show thesis
      by (rule fin) (simp_all add: wr_pieces_def None key_fields_def Let_def map_pos [simplified])
  next
    case (Some k)
    then have "key_ok (rq_type req) k" using assms by (simp add: rq_valid_def)
    then obtain kf where kf: "wr_key mp (rq_type req) k = Some kf" "length kf \<le> 6"
      "\<forall>xs r. matches (key_item (rq_type req) k @ xs) (kf @ k @ r) = matches xs r" by (rule wr_key_spec)
    have "wr_inv (rq_hdr req) (fst (wr_fields mp req) @ kf @ k)
        (length (fixed_fields req) + length (key_fields req)) 63 (wr_ext k (wr_put kf (wr_start mp req)))"
      using wr_inv_ext [OF wr_inv_put [OF wr_inv_start [of req]], of kf k] kf(2)
      by (simp add: key_fields_def Some wr_inv_def)
    then show thesis
      by (rule fin) (simp_all add: wr_pieces_def Some kf key_fields_def Let_def map_pos [simplified])
  qed
qed

end

text \<open>The request number a request gets: \<open>tnt_request_compile\<close> restarts at the all-ones patterns.\<close>

definition rq_number :: "u64 option \<Rightarrow> u64 \<Rightarrow> u64" where
  "rq_number sync reqid = (if sync = Some INT64_MAX \<and> reqid AND INT64_MAX = INT64_MAX then 0 else reqid)"

lemma rq_number_not_minus_1: "sint (rq_number (Some INT64_MAX) q) \<noteq> -1"
proof
  assume *: "sint (rq_number (Some INT64_MAX) q) = -1"
  have "(of_int (sint (rq_number (Some INT64_MAX) q)) :: u64) = of_int (-1)" by (simp only: *)
  then have "rq_number (Some INT64_MAX) q = -1" by simp
  moreover have "(-1 :: u64) AND INT64_MAX = INT64_MAX" by simp
  ultimately show False by (auto simp: rq_number_def split: if_splits)
qed

lemma rq_number_positive: "0 < sint (rq_number (Some INT64_MAX) q) \<longleftrightarrow> 0 < q \<and> q < INT64_MAX"
proof -
  have m: "q AND INT64_MAX = take_bit 63 q" by (simp add: take_bit_eq_mask mask_eq_exp_minus_1 INT64_MAX_def)
  have t: "sint q = (uint q + 2 ^ 63) mod 2 ^ 64 - 2 ^ 63" by (simp add: sint_uint signed_take_bit_eq_take_bit_shift take_bit_eq_mod)
  have u: "uint q < 2 ^ 64" using uint_lt2p [of q] by simp
  have s: "sint q = (if uint q < 2 ^ 63 then uint q else uint q - 2 ^ 64)"
  proof (cases "uint q < 2 ^ 63")
    case True
    then show ?thesis unfolding t by (subst mod_pos_pos_trivial) simp_all
  next
    case False
    have "(uint q + 2 ^ 63) mod 2 ^ 64 = (uint q - 2 ^ 63 + 2 ^ 64) mod 2 ^ 64" by (simp add: add.commute)
    also have "\<dots> = uint q - 2 ^ 63" unfolding mod_add_self2 by (rule mod_pos_pos_trivial) (use False u in simp_all)
    finally show ?thesis using False by (simp add: t)
  qed
  have "uint (take_bit 63 q) = uint q mod 2 ^ 63" unfolding unsigned_take_bit_eq by (simp add: take_bit_eq_mod)
  then have "take_bit 63 q = INT64_MAX \<longleftrightarrow> uint q mod 2 ^ 63 = 2 ^ 63 - 1"
    by (simp add: word_uint_eq_iff INT64_MAX_def)
  moreover have "0 < q \<longleftrightarrow> 0 < uint q" "q < INT64_MAX \<longleftrightarrow> uint q < 2 ^ 63 - 1"
    by (simp_all add: word_less_def INT64_MAX_def)
  ultimately show ?thesis using uint_lt2p [of q] uint_ge_0 [of q] unfolding rq_number_def m by (auto simp: s)
qed

context client
begin

lemma writeout_ok:
  fixes sync :: "u64 option"
  assumes "wf s" and "rq_valid req"
  defines "n \<equiv> rq_number sync (s_reqid s)"
  obtains v r s' where "wv (s\<lparr>s_reqid := n + 1\<rparr>) v = Some (r, s')" "is_frame (rq_type req) n (rq_body req) (concat v)" "concat v \<noteq> []"
    "tnt_request_writeout mp wv s req sync =
       Some (if r = -1 then (-1, s', req\<lparr>rq_sync := n\<rparr>, sync) else (0, s', req\<lparr>rq_sync := n\<rparr>, map_option (\<lambda>_. n) sync))"
    "r \<noteq> -1 \<longrightarrow> out s' = out s @ concat v \<and> wf s' \<and> s_reqid s' = n + 1"
proof -
  let ?req = "req\<lparr>rq_sync := n\<rparr>"
  have same: "rq_fields ?req = rq_fields req"
    by (simp add: rq_fields_def fixed_fields_def key_fields_def tuple_fields_def base_fields_def split: option.splits)
  have valid: "rq_valid ?req" using assms(2) by (simp add: rq_valid_def split: option.splits)
  from valid obtain v where v: "wr_pieces mp ?req = Some (Some v)"
    "matches (hdr_items (rq_type req) n @ rq_body req) (concat v)"
    by (rule wr_pieces_ok) (simp add: rq_body_def same)
  define pre where "pre = mp_encode_luint32 mp (of_nat (length (concat v)))"
  have fr: "is_frame (rq_type req) n (rq_body req) (concat (pre # v))"
    using is_frame_prefix [OF v(2)] rq_body_items [OF assms(2)] by (simp add: pre_def)
  have pl: "length pre = mp_sizeof_luint32 (of_nat (length (concat v)))" by (simp add: pre_def luint32_tok)
  have ne: "concat (pre # v) \<noteq> []"
    using pl by (auto simp: mp_sizeof_luint32_def split: if_splits)
  define s1 where "s1 = s\<lparr>s_reqid := n + 1\<rparr>"
  have s1: "wf s1" "out s1 = out s" using assms(1) by (simp_all add: s1_def wf_reqid out_reqid)
  obtain r s2 where r: "wv s1 (pre # v) = Some (r, s2)" using writev_defined [OF s1(1) ne] by blast
  have n1: "(if sync = Some INT64_MAX \<and> s_reqid s AND INT64_MAX = INT64_MAX then s\<lparr>s_reqid := 0\<rparr> else s)
      = s\<lparr>s_reqid := n\<rparr>" by (simp add: n_def rq_number_def)
  have n2: "next_reqid (s\<lparr>s_reqid := n\<rparr>) = s1" by (simp add: next_reqid_def s1_def)
  have sl: "sum_list (map length v) = length (concat v)" by (simp add: length_concat)
  have w: "tnt_request_writeout mp wv s req sync =
      Some (if r = -1 then (-1, s2, ?req, sync) else (0, s2, ?req, map_option (\<lambda>_. n) sync))"
    unfolding tnt_request_writeout_def Let_def n1
    using v(1) r pl by (simp add: n2 sl pre_def [symmetric])
  show thesis
    by (rule that [OF r [unfolded s1_def] fr ne w]) (use writev_ok [OF s1(1) ne r] s1(2) in \<open>auto simp: s1_def\<close>)
qed

end

section \<open>Formatted keys and tuples\<close>

text \<open>The objects kept inside a request are ones the builder may be used on.\<close>

definition kept_ok :: "nat \<Rightarrow> obj option \<Rightarrow> bool" where
  "kept_ok cap ob \<longleftrightarrow> (case ob of None \<Rightarrow> cap = 8 | Some o' \<Rightarrow> (\<exists>st. obj_rep o' st cap))"

context builder_env
begin

lemma packed_span: "obj_rep s' (m, [], bs) cap \<Longrightarrow> bs \<noteq> [] \<Longrightarrow> sbuf_span s' = Some (Some bs)"
  by (auto simp: sbuf_span_def sbuf_contents_def elim!: obj_repE split: cptr.splits)

text \<open>The object a formatted setter works on: the kept one after a reset, or a new one.\<close>

lemma kept_fresh:
  assumes "kept_ok cap ob"
  obtains "(case ob of Some o' \<Rightarrow> map_option (\<lambda>r. Some (snd r)) (tnt_object_reset o') | None \<Rightarrow> tnt_object ra None)
      = Some None" "\<not> grants_all ra"
    | o1 where "(case ob of Some o' \<Rightarrow> map_option (\<lambda>r. Some (snd r)) (tnt_object_reset o') | None \<Rightarrow> tnt_object ra None)
      = Some (Some o1)" "fresh_obj o1 cap"
proof (cases ob)
  case None
  then have "cap = 8" using assms by (simp add: kept_ok_def)
  then show thesis by (cases rule: tnt_object_fresh) (use that None in auto)
next
  case (Some o')
  then obtain m fs c where "obj_rep o' (m, fs, c) cap" using assms by (auto simp: kept_ok_def)
  then obtain o1 where "tnt_object_reset o' = Some (0, o1)" "fresh_obj o1 cap" by (rule tnt_object_reset_fresh)
  then show thesis using that(2) Some by simp
qed

end

section \<open>Properties\<close>

text \<open>C2. \<open>tnt_request_writeout\<close> of a request whose key and tuple are well formed for its type is never
  undefined (the 128-byte header array is not overrun, the one-byte map header assertion holds).  It
  hands the stream's \<open>writev\<close> one IPROTO frame: request code and the request number in the header, and
  a body map that counts and lists exactly the fields of the request's type and settings.  It returns -1
  exactly if that \<open>writev\<close> returned -1, and 0 otherwise, with the frame appended to the stream.  The
  request records the number used, the stream's number moves on by one, and \<open>*sync\<close>, if given, is the
  number used on success and unchanged on failure.\<close>

theorem request_writeout_frame:
  assumes "msgpuck_laws mp" and "stream_writer ok out wv" and "ok s" and "rq_valid req"
    and "n = rq_number sync (s_reqid s)"
  shows "\<exists>v r s'. wv (s\<lparr>s_reqid := n + 1\<rparr>) v = Some (r, s') \<and> is_frame (rq_type req) n (rq_body req) (concat v)
     \<and> tnt_request_writeout mp wv s req sync =
          Some (if r = -1 then (-1, s', req\<lparr>rq_sync := n\<rparr>, sync) else (0, s', req\<lparr>rq_sync := n\<rparr>, map_option (\<lambda>_. n) sync))
     \<and> (r \<noteq> -1 \<longrightarrow> out s' = out s @ concat v \<and> ok s' \<and> s_reqid s' = n + 1)"
proof -
  have c: "client mp ok out wv" using assms(1,2) by (rule client.intro)
  show ?thesis unfolding assms(5)
    by (rule client.writeout_ok [OF c assms(3,4), of sync]) blast
qed

definition demo_req :: tnt_request where
  "demo_req = \<lparr>rq_sync = 0, rq_type = TNT_OP_SELECT, rq_space_id = 512, rq_index_id = 1, rq_offset = 0,
     rq_limit = 10, rq_iterator = 2, rq_key = Some [0x91, 7], rq_key_object = None, rq_tuple = None,
     rq_tuple_object = None, rq_index_base = 0, rq_alloc = False\<rparr>"

lemma demo_req_valid: "rq_valid demo_req"
  by (simp add: rq_valid_def demo_req_def key_ok_def proto_consts mp_tok.simps(2))

lemma demo_buf_ok: "buf_wf demo_buf" "buf_contents demo_buf = [1, 2]" "s_reqid demo_buf = 0"
  by (auto simp: buf_wf_def sbuf_wf_def buf_contents_def sbuf_contents_def demo_buf_def)

lemma frame_not_empty: "is_frame code sync body fr \<Longrightarrow> fr \<noteq> []"
  by (auto simp: is_frame_def)

lemma demo_write: "concat v \<noteq> [] \<Longrightarrow> tnt_buf_writev (custom_realloc os_ok) (demo_buf\<lparr>s_reqid := k\<rparr>) v = Some (r, s') \<Longrightarrow> r \<noteq> -1"
  using buf_writev_granted [OF libc_alloc.allocator_axioms os_ok_grants, of "demo_buf\<lparr>s_reqid := k\<rparr>" v] demo_buf_ok(1)
  by (auto simp: buf_wf_def)

theorem request_writeout_frame_witness:
  "\<exists>s' fr. tnt_request_writeout mp_ref (tnt_buf_writev (custom_realloc os_ok)) demo_buf demo_req (Some 3)
       = Some (0, s', demo_req, Some 0) \<and> is_frame TNT_OP_SELECT 0 (rq_body demo_req) fr
       \<and> buf_contents s' = [1, 2] @ fr \<and> s_reqid s' = 1"
proof -
  have n: "0 = rq_number (Some 3) (s_reqid demo_buf)" "rq_type demo_req = TNT_OP_SELECT" "demo_req\<lparr>rq_sync := 0\<rparr> = demo_req"
    by (simp_all add: demo_buf_ok rq_number_def demo_req_def)
  obtain v r s' where v: "tnt_buf_writev (custom_realloc os_ok) (demo_buf\<lparr>s_reqid := 0 + 1\<rparr>) v = Some (r, s')"
    "is_frame TNT_OP_SELECT 0 (rq_body demo_req) (concat v)"
    "tnt_request_writeout mp_ref (tnt_buf_writev (custom_realloc os_ok)) demo_buf demo_req (Some 3)
       = Some (if r = -1 then (-1, s', demo_req, Some 3) else (0, s', demo_req, Some 0))"
    "r \<noteq> -1 \<longrightarrow> buf_contents s' = buf_contents demo_buf @ concat v \<and> s_reqid s' = 0 + 1"
    using request_writeout_frame [OF ref.msgpuck_laws_axioms libc_alloc.bufw.stream_writer_axioms demo_buf_ok(1)
        demo_req_valid n(1), of os_ok] unfolding n(2,3) option.map by blast
  then show ?thesis using demo_write [OF frame_not_empty [OF v(2)] v(1)] by (auto simp: demo_buf_ok)
qed

text \<open>C28. \<open>tnt_request_compile\<close> reports failure unambiguously: it hands \<open>writev\<close> the request's frame and returns -1
  exactly when that failed.  A successful call returns the request number as \<open>int64_t\<close>, and the restart of the
  numbering at the all-ones patterns keeps that number from ever being -1.  But it is not always
  positive, as documented: it is exactly for stream numbers between 1 and 2^63 - 2, so the first request on a new
  stream returns 0, and from 2^63 on a successful call returns a negative number.\<close>

theorem request_compile_unambiguous:
  assumes "msgpuck_laws mp" and "stream_writer ok out wv" and "ok s" and "rq_valid req"
    and "n = rq_number (Some INT64_MAX) (s_reqid s)"
  shows "(\<exists>v w s'. wv (s\<lparr>s_reqid := n + 1\<rparr>) v = Some (w, s') \<and> is_frame (rq_type req) n (rq_body req) (concat v)
        \<and> tnt_request_compile mp wv s req = Some (if w = -1 then -1 else sint n, s', req\<lparr>rq_sync := n\<rparr>)
        \<and> (w \<noteq> -1 \<longrightarrow> out s' = out s @ concat v))
     \<and> sint n \<noteq> -1 \<and> (0 < sint n \<longleftrightarrow> 0 < s_reqid s \<and> s_reqid s < INT64_MAX)"
proof -
  have c: "client mp ok out wv" using assms(1,2) by (rule client.intro)
  have "\<exists>v w s'. wv (s\<lparr>s_reqid := n + 1\<rparr>) v = Some (w, s') \<and> is_frame (rq_type req) n (rq_body req) (concat v)
        \<and> tnt_request_compile mp wv s req = Some (if w = -1 then -1 else sint n, s', req\<lparr>rq_sync := n\<rparr>)
        \<and> (w \<noteq> -1 \<longrightarrow> out s' = out s @ concat v)"
    unfolding assms(5)
    by (rule client.writeout_ok [OF c assms(3,4), of "Some INT64_MAX"]) (auto simp: tnt_request_compile_def)
  then show ?thesis using rq_number_not_minus_1 rq_number_positive assms(5) by simp
qed

theorem request_compile_unambiguous_witness:
  "\<exists>s' fr. tnt_request_compile mp_ref (tnt_buf_writev (custom_realloc os_ok)) demo_buf demo_req = Some (0, s', demo_req)
     \<and> is_frame TNT_OP_SELECT 0 (rq_body demo_req) fr \<and> buf_contents s' = [1, 2] @ fr"
proof -
  have n: "0 = rq_number (Some INT64_MAX) (s_reqid demo_buf)" "rq_type demo_req = TNT_OP_SELECT" "demo_req\<lparr>rq_sync := 0\<rparr> = demo_req"
    by (simp_all add: demo_buf_ok rq_number_def demo_req_def INT64_MAX_def)
  obtain v w s' where v: "tnt_buf_writev (custom_realloc os_ok) (demo_buf\<lparr>s_reqid := 0 + 1\<rparr>) v = Some (w, s')"
    "is_frame TNT_OP_SELECT 0 (rq_body demo_req) (concat v)"
    "tnt_request_compile mp_ref (tnt_buf_writev (custom_realloc os_ok)) demo_buf demo_req
       = Some (if w = -1 then -1 else sint (0 :: u64), s', demo_req)"
    "w \<noteq> -1 \<longrightarrow> buf_contents s' = buf_contents demo_buf @ concat v"
    using request_compile_unambiguous [OF ref.msgpuck_laws_axioms libc_alloc.bufw.stream_writer_axioms demo_buf_ok(1)
        demo_req_valid n(1), of os_ok] unfolding n(2,3) option.map by blast
  then show ?thesis using demo_write [OF frame_not_empty [OF v(2)] v(1)] by (auto simp: demo_buf_ok)
qed

text \<open>\<open>tnt_request_set_key_format\<close> with the format string of a value: unless memory is refused it
  returns 0 and the request's key is an encoding of the value, whether the request already keeps a
  key object (which is reset and reused) or not; the tuple and all other settings are untouched.\<close>

theorem request_key_format:
  assumes "msgpuck_laws mp" and "allocator ra" and "kept_ok cap (rq_key_object req)" and "buildable v"
    and "formattable v" and "mdepth v \<le> cap" and "\<And>x. d2f (f2d x) = x"
  shows "\<exists>r req'. tnt_request_set_key_format mp ra d2f req (fmt_of v) (args_of f2d v) = Some (r, req') \<and>
     (if r = -1 then \<not> grants_all ra
      else r = 0 \<and> (\<exists>bs ob. encodes (toks v) bs \<and> kept_ok cap (Some ob)
         \<and> req' = req\<lparr>rq_key_object := Some ob, rq_key := Some bs\<rparr>))"
proof -
  have env: "builder_env mp ra" using assms(1,2) by (rule builder_env.intro)
  show ?thesis
  proof (rule builder_env.kept_fresh [OF env assms(3)], goal_cases)
    case 1
    then show ?case by (simp add: tnt_request_set_key_format_def)
  next
    case (2 o1)
    note set = tnt_request_set_key_format_def 2(1)
    show ?case
    proof (rule builder_env.vformat_fresh [OF env 2(2) assms(4-7)], goal_cases)
      case (1 s')
      then show ?case by (simp add: set)
    next
      case (2 r s' bs)
      have "bs \<noteq> []" using 2(3) toks_nonempty [of v] encodes_nonempty by (metis list.exhaust)
      with 2 have sp: "sbuf_span s' = Some (Some bs)" by (intro builder_env.packed_span [OF env])
      have "kept_ok cap (Some s')" using 2(4) by (auto simp: kept_ok_def)
      with 2(1-3) sp show ?case by (auto simp: set tnt_request_set_key_def)
    qed
  qed
qed

theorem request_key_format_witness:
  "\<exists>req' bs. tnt_request_set_key_format mp_ref (custom_realloc os_ok) ucast demo_req (fmt_of demo_val)
       (args_of ucast demo_val) = Some (0, req') \<and> encodes (toks demo_val) bs \<and> rq_key req' = Some bs"
proof -
  have "kept_ok 8 (rq_key_object demo_req)" by (simp add: kept_ok_def demo_req_def)
  moreover have "ucast (ucast x :: u64) = (x :: u32)" for x
    by (rule ucast_up_ucast_id) (simp add: is_up)
  ultimately show ?thesis
    using request_key_format [OF ref.msgpuck_laws_axioms libc_alloc.allocator_axioms [of os_ok], of 8 demo_req demo_val
        ucast ucast] demo_val_ok os_ok_grants by (auto split: if_splits)
qed

end
