(* ===== verification/Tnt_Reply.thy ===== *)
theory Tnt_Reply
  imports Tnt_Proto
begin

unbundle bit_operations_syntax

text \<open>
  Reply parsing, \<^verbatim>\<open>tnt/tnt_reply.c\<close>, the structure of \<^verbatim>\<open>tnt_reply.h\<close>, and \<open>tnt_buf_reply\<close> of
  \<^verbatim>\<open>tnt_buf.c\<close>.  Buffers that are parsed are byte lists of exactly \<open>size\<close> bytes; a pointer into one is
  the list of bytes from there on, and reading past its end is undefined (\<open>None\<close>).  A (begin, end)
  pair of the reply is the bytes between.  A shift by 64 or more is undefined.
\<close>

record reply_struct =
  rp_alloc :: bool
  rp_bitmap :: u64
  rp_buf :: cptr
  rp_buf_size :: nat
  rp_code :: u64
  rp_sync :: u64
  rp_schema_id :: u64
  rp_error :: "bytes option"
  rp_data :: "bytes option"
  rp_metadata :: "bytes option"
  rp_sqlinfo :: "bytes option"

definition TNT_REPLY_IPROTO_HDR_SIZE :: nat where "TNT_REPLY_IPROTO_HDR_SIZE = 5"

definition sizeof_tnt_reply :: nat where "sizeof_tnt_reply = 120"

text \<open>\<open>memset(r, 0, sizeof *r); r->alloc = alloc\<close>\<close>

definition zero_reply :: "bool \<Rightarrow> reply_struct" where
  "zero_reply a = \<lparr>rp_alloc = a, rp_bitmap = 0, rp_buf = NULLP, rp_buf_size = 0, rp_code = 0, rp_sync = 0,
     rp_schema_id = 0, rp_error = None, rp_data = None, rp_metadata = None, rp_sqlinfo = None\<rparr>"

definition tnt_reply_init :: "realloc_fn \<Rightarrow> reply_struct option \<Rightarrow> reply_struct option option" where
  "tnt_reply_init ra r = (case r of
      Some _ \<Rightarrow> Some (Some (zero_reply False))
    | None \<Rightarrow> do {
        p \<leftarrow> tnt_mem_alloc ra sizeof_tnt_reply;
        Some (if p = NULLP then None else Some (zero_reply True)) })"

definition tnt_reply_free :: "realloc_fn \<Rightarrow> reply_struct \<Rightarrow> reply_struct option option" where
  "tnt_reply_free ra r = do {
     _ \<leftarrow> (if rp_buf r \<noteq> NULLP then tnt_mem_free ra (rp_buf r) else Some NULLP);
     Some (if rp_alloc r then None else Some (r\<lparr>rp_buf := NULLP\<rparr>)) }"

text \<open>\<open>mp_typeof(*p)\<close>\<close>

definition peek :: "msgpuck \<Rightarrow> bytes \<Rightarrow> mp_type option" where
  "peek mp p = (case p of [] \<Rightarrow> None | b # _ \<Rightarrow> Some (mp_typeof mp b))"

definition key_bit :: "u32 \<Rightarrow> u64 option" where
  "key_bit key = (if unat key < 64 then Some (push_bit (unat key) 1) else None)"

section \<open>Header\<close>

record hdr_acc =
  ha_sync :: u64
  ha_code :: u64
  ha_schema_id :: u64
  ha_bitmap :: u64

text \<open>The loop over the header map; \<open>Some None\<close> is \<open>return -1\<close>.\<close>

fun hdr_loop :: "msgpuck \<Rightarrow> nat \<Rightarrow> bytes \<Rightarrow> hdr_acc \<Rightarrow> (hdr_acc \<times> bytes) option option" where
  "hdr_loop mp 0 p a = Some (Some (a, p))"
| "hdr_loop mp (Suc n) p a = do {
     ty \<leftarrow> peek mp p;
     if ty \<noteq> MP_UINT then Some None
     else do {
       (key64, p) \<leftarrow> mp_decode_uint mp p;
       let key = (ucast key64 :: u32);
       ty \<leftarrow> peek mp p;
       if ty \<noteq> MP_UINT then Some None
       else if ucast key = TNT_SYNC then do {
         (v, p) \<leftarrow> mp_decode_uint mp p;
         bit \<leftarrow> key_bit key;
         hdr_loop mp n p (a\<lparr>ha_sync := v, ha_bitmap := ha_bitmap a OR bit\<rparr>) }
       else if ucast key = TNT_CODE then do {
         (v, p) \<leftarrow> mp_decode_uint mp p;
         bit \<leftarrow> key_bit key;
         hdr_loop mp n p (a\<lparr>ha_code := v, ha_bitmap := ha_bitmap a OR bit\<rparr>) }
       else if ucast key = TNT_SCHEMA_ID then do {
         (v, p) \<leftarrow> mp_decode_uint mp p;
         bit \<leftarrow> key_bit key;
         hdr_loop mp n p (a\<lparr>ha_schema_id := v, ha_bitmap := ha_bitmap a OR bit\<rparr>) }
       else Some None } }"

text \<open>
  \<open>tnt_reply_hdr0\<close>: result, reply, and \<open>*off\<close> (0 when it is not set).  The reply may be null.
\<close>

definition tnt_reply_hdr0 :: "msgpuck \<Rightarrow> reply_struct option \<Rightarrow> bytes \<Rightarrow> (int \<times> reply_struct option \<times> nat) option" where
  "tnt_reply_hdr0 mp r buf = (case mp_check mp buf of
      None \<Rightarrow> Some (-1, r, 0)
    | Some _ \<Rightarrow> do {
        ty \<leftarrow> peek mp buf;
        if ty \<noteq> MP_MAP then Some (-1, r, 0)
        else do {
          (n, p) \<leftarrow> mp_decode_map mp buf;
          res \<leftarrow> hdr_loop mp (unat n) p \<lparr>ha_sync = 0, ha_code = 0, ha_schema_id = 0, ha_bitmap = 0\<rparr>;
          (case res of
             None \<Rightarrow> Some (-1, r, 0)
           | Some (a, p) \<Rightarrow> Some (0, map_option (\<lambda>r. r\<lparr>rp_sync := ha_sync a, rp_code := ha_code a AND 0x7fff,
                 rp_schema_id := ha_schema_id a, rp_bitmap := ha_bitmap a\<rparr>) r, length buf - length p)) } })"

section \<open>Body\<close>

record body_acc =
  ba_error :: "bytes option"
  ba_data :: "bytes option"
  ba_metadata :: "bytes option"
  ba_sqlinfo :: "bytes option"
  ba_bitmap :: u64

text \<open>One entry of the body map; the key has been read.\<close>

definition body_entry :: "msgpuck \<Rightarrow> u32 \<Rightarrow> bytes \<Rightarrow> body_acc \<Rightarrow> (body_acc \<times> bytes) option option" where
  "body_entry mp key p a =
     (if ucast key = TNT_ERROR then do {
        ty \<leftarrow> peek mp p;
        if ty \<noteq> MP_STR then Some None
        else do {
          ((str, elen), q) \<leftarrow> mp_decode_str mp p;
          if unat elen \<le> length str then Some (Some (a\<lparr>ba_error := Some (take (unat elen) str)\<rparr>, q)) else None } }
      else if ucast key = TNT_DATA then do {
        ty \<leftarrow> peek mp p;
        if ty \<noteq> MP_ARRAY then Some None
        else do { q \<leftarrow> mp_next mp p; Some (Some (a\<lparr>ba_data := Some (between p q)\<rparr>, q)) } }
      else if ucast key = TNT_METADATA then do {
        ty \<leftarrow> peek mp p;
        if ty \<noteq> MP_ARRAY then Some None
        else do { q \<leftarrow> mp_next mp p; Some (Some (a\<lparr>ba_metadata := Some (between p q)\<rparr>, q)) } }
      else if ucast key = TNT_SQL_INFO then do {
        ty \<leftarrow> peek mp p;
        if ty \<noteq> MP_MAP then Some None
        else do { q \<leftarrow> mp_next mp p; Some (Some (a\<lparr>ba_sqlinfo := Some (between p q)\<rparr>, q)) } }
      else do { q \<leftarrow> mp_next mp p; Some (Some (a, q)) })"

fun body_loop :: "msgpuck \<Rightarrow> nat \<Rightarrow> bytes \<Rightarrow> body_acc \<Rightarrow> (body_acc \<times> bytes) option option" where
  "body_loop mp 0 p a = Some (Some (a, p))"
| "body_loop mp (Suc n) p a = do {
     (key64, p) \<leftarrow> mp_decode_uint mp p;
     let key = (ucast key64 :: u32);
     res \<leftarrow> body_entry mp key p a;
     (case res of
        None \<Rightarrow> Some None
      | Some (a, p) \<Rightarrow> do {
          bit \<leftarrow> key_bit key;
          body_loop mp n p (a\<lparr>ba_bitmap := ba_bitmap a OR bit\<rparr>) }) }"

definition tnt_reply_body0 :: "msgpuck \<Rightarrow> reply_struct option \<Rightarrow> bytes \<Rightarrow> (int \<times> reply_struct option \<times> nat) option" where
  "tnt_reply_body0 mp r buf = (case mp_check mp buf of
      None \<Rightarrow> Some (-1, r, 0)
    | Some _ \<Rightarrow> do {
        ty \<leftarrow> peek mp buf;
        if ty \<noteq> MP_MAP then Some (-1, r, 0)
        else do {
          (n, p) \<leftarrow> mp_decode_map mp buf;
          res \<leftarrow> body_loop mp (unat n) p
             \<lparr>ba_error = None, ba_data = None, ba_metadata = None, ba_sqlinfo = None, ba_bitmap = 0\<rparr>;
          (case res of
             None \<Rightarrow> Some (-1, r, 0)
           | Some (a, p) \<Rightarrow> Some (0, map_option (\<lambda>r. r\<lparr>rp_error := ba_error a, rp_data := ba_data a,
                 rp_metadata := ba_metadata a, rp_sqlinfo := ba_sqlinfo a,
                 rp_bitmap := rp_bitmap r OR ba_bitmap a\<rparr>) r, length buf - length p)) } })"

section \<open>Whole replies\<close>

text \<open>
  \<open>tnt_reply_len\<close>: 0 and the length of the whole reply, 1 and the number of missing bytes, or -1.
  The sums are computed in \<open>size_t\<close>.
\<close>

definition tnt_reply_len :: "msgpuck \<Rightarrow> bytes \<Rightarrow> (int \<times> u64) option" where
  "tnt_reply_len mp buf =
     (if length buf < TNT_REPLY_IPROTO_HDR_SIZE
      then Some (1, of_nat (TNT_REPLY_IPROTO_HDR_SIZE - length buf))
      else do {
        ty \<leftarrow> peek mp buf;
        if ty \<noteq> MP_UINT then Some (-1, 0)
        else do {
          (len, _) \<leftarrow> mp_decode_uint mp buf;
          let total = len + of_nat TNT_REPLY_IPROTO_HDR_SIZE;
          if of_nat (length buf) < total then Some (1, total - of_nat (length buf))
          else Some (0, total) } })"

text \<open>
  A receive callback: asked for \<open>n\<close> bytes it delivers exactly \<open>n\<close>, or fails (the inner \<open>None\<close>); it
  may change the state it works on.
\<close>

type_synonym 'c recv_fn = "'c \<Rightarrow> nat \<Rightarrow> (bytes option \<times> 'c) option"

definition tnt_reply_from :: "msgpuck \<Rightarrow> realloc_fn \<Rightarrow> reply_struct \<Rightarrow> 'c recv_fn \<Rightarrow> 'c
    \<Rightarrow> (int \<times> reply_struct \<times> 'c) option" where
  "tnt_reply_from mp ra r rcv c = (
     let rolled = zero_reply (rp_alloc r); r = zero_reply (rp_alloc r) in do {
     (got, c) \<leftarrow> rcv c TNT_REPLY_IPROTO_HDR_SIZE;
     (case got of
        None \<Rightarrow> Some (-1, rolled, c)
      | Some hd5 \<Rightarrow> do {
          ty \<leftarrow> peek mp hd5;
          if ty \<noteq> MP_UINT then Some (-1, rolled, c)
          else do {
            (len, _) \<leftarrow> mp_decode_uint mp hd5;
            let sz = unat len;
            p \<leftarrow> tnt_mem_alloc ra sz;
            let r = r\<lparr>rp_buf := p, rp_buf_size := sz\<rparr>;
            if p = NULLP then Some (-1, rolled, c)
            else do {
              (got, c) \<leftarrow> rcv c sz;
              (case got of
                 None \<Rightarrow> do { _ \<leftarrow> tnt_mem_free ra p; Some (-1, rolled, c) }
               | Some d \<Rightarrow> do {
                   let r = r\<lparr>rp_buf := Blk d\<rparr>;
                   (rc, r1, hdr_length) \<leftarrow> tnt_reply_hdr0 mp (Some r) d;
                   if rc \<noteq> 0 then do { _ \<leftarrow> tnt_mem_free ra (Blk d); Some (-1, rolled, c) }
                   else if sz = hdr_length then map_option (\<lambda>r1. (0, r1, c)) r1
                   else do {
                     (rc, r2, _) \<leftarrow> tnt_reply_body0 mp r1 (drop hdr_length d);
                     if rc \<noteq> 0 then do { _ \<leftarrow> tnt_mem_free ra (Blk d); Some (-1, rolled, c) }
                     else map_option (\<lambda>r2. (0, r2, c)) r2 } }) } } }) })"

definition tnt_reply_cb :: "(bytes \<times> nat) recv_fn" where
  "tnt_reply_cb = (\<lambda>(src, off) n.
     if off + n \<le> length src then Some (Some (take n (drop off src)), (src, off + n)) else None)"

text \<open>\<open>tnt_reply\<close> and \<open>tnt_reply0\<close>: result, reply, and \<open>*off\<close> (\<open>None\<close> when it is not set).\<close>

definition tnt_reply :: "msgpuck \<Rightarrow> realloc_fn \<Rightarrow> reply_struct option \<Rightarrow> bytes
    \<Rightarrow> (int \<times> reply_struct option \<times> u64 option) option" where
  "tnt_reply mp ra r buf = do {
     (rc, length) \<leftarrow> tnt_reply_len mp buf;
     if rc = 1 then Some (1, r, Some length)
     else if rc \<noteq> 0 then Some (-1, r, None)
     else (case r of
        None \<Rightarrow> Some (0, None, Some length)
      | Some r0 \<Rightarrow> do {
          (rc, r1, c) \<leftarrow> tnt_reply_from mp ra r0 tnt_reply_cb (buf, 0);
          Some (rc, Some r1, Some (of_nat (snd c))) }) }"

definition tnt_reply0 :: "msgpuck \<Rightarrow> reply_struct option \<Rightarrow> bytes
    \<Rightarrow> (int \<times> reply_struct option \<times> u64 option) option" where
  "tnt_reply0 mp r buf = do {
     (rc, len) \<leftarrow> tnt_reply_len mp buf;
     if rc = 1 then Some (1, r, Some len)
     else if rc \<noteq> 0 then Some (-1, r, None)
     else if r = None then Some (0, None, Some len)
     else do {
       let data_length = unat (len - of_nat TNT_REPLY_IPROTO_HDR_SIZE);
       let data = drop TNT_REPLY_IPROTO_HDR_SIZE buf;
       if length data < data_length then None
       else do {
         (rc, r1, hdr_length) \<leftarrow> tnt_reply_hdr0 mp r (take data_length data);
         if rc \<noteq> 0 then Some (-1, r1, None)
         else if data_length \<noteq> hdr_length then do {
           (rc, r2, _) \<leftarrow> tnt_reply_body0 mp r1 (drop hdr_length (take data_length data));
           if rc \<noteq> 0 then Some (-1, r2, None) else Some (0, r2, Some len) }
         else Some (0, r1, Some len) } } }"

text \<open>\<open>tnt_buf_reply\<close>, the \<open>read_reply\<close> of stream buffers.\<close>

definition tnt_buf_reply :: "msgpuck \<Rightarrow> realloc_fn \<Rightarrow> 't buf_stream \<Rightarrow> reply_struct
    \<Rightarrow> (int \<times> 't buf_stream \<times> reply_struct) option" where
  "tnt_buf_reply mp ra s r = do {
     sb \<leftarrow> s_data s;
     if sb_data sb = NULLP then Some (-1, s, r)
     else if sb_size sb = sb_rdoff sb then Some (1, s, r)
     else if sb_size sb < sb_rdoff sb then None
     else (case sb_data sb of
        Blk d \<Rightarrow>
          if sb_size sb \<le> length d then do {
            (rc, r1, off) \<leftarrow> tnt_reply mp ra (Some r) (drop (sb_rdoff sb) (take (sb_size sb) d));
            r2 \<leftarrow> r1;
            if rc = 0 then do {
              n \<leftarrow> off;
              Some (rc, s\<lparr>s_data := Some (sb\<lparr>sb_rdoff := sb_rdoff sb + unat n\<rparr>)\<rparr>, r2) }
            else Some (rc, s, r2) }
          else None
      | _ \<Rightarrow> None) }"

section \<open>Header parsing\<close>

lemma tok_type_uint: "tok_type t = MP_UINT \<Longrightarrow> \<exists>n. t = TUint n"
  by (cases t) auto

lemma tok_type_map: "tok_type t = MP_MAP \<Longrightarrow> \<exists>n. t = TMap n"
  by (cases t) auto

lemma key_bit_small: "unat (ucast (key :: u32) :: u64) < 64 \<Longrightarrow> key_bit key = Some (push_bit (unat key) 1)"
  by (simp add: key_bit_def)

lemma mp_skip_suffix: "mp_skip k bs = Some q \<Longrightarrow> \<exists>pre. bs = pre @ q"
proof (induction k bs rule: mp_skip.induct)
  case (2 k bs)
  then obtain t r where t: "mp_tok bs = Some (t, r)" "mp_skip (k + tok_kids t) r = Some q"
    by (auto split: option.splits)
  from "2.IH" [OF t(1) refl t(2)] mp_tok_prefix [OF t(1)] show ?case by auto
qed simp

lemma mp_skip_SucE:
  assumes "mp_skip (Suc k) bs = Some q"
  obtains t r where "mp_tok bs = Some (t, r)" "mp_skip (k + tok_kids t) r = Some q"
  using assms by (auto split: option.splits)

context msgpuck_laws
begin

lemma peek_tok: "mp_tok p = Some (t, r) \<Longrightarrow> peek mp p = Some (tok_type t)"
  by (cases p) (auto simp: peek_def dest: type_of)

text \<open>On any bytes that hold \<open>2n\<close> values the header loop is defined, and it ends where they end.\<close>

lemma hdr_loop_total:
  "mp_skip (2 * n) p = Some q \<Longrightarrow>
   \<exists>res. hdr_loop mp n p a = Some res \<and> (\<forall>a' p'. res = Some (a', p') \<longrightarrow> p' = q)"
proof (induction n arbitrary: p a)
  case (Suc n)
  have sk: "mp_skip (Suc (Suc (2 * n))) p = Some q" using Suc.prems by simp
  then obtain t1 r1 where t1: "mp_tok p = Some (t1, r1)" "mp_skip (Suc (2 * n) + tok_kids t1) r1 = Some q"
    by (rule mp_skip_SucE)
  show ?case
  proof (cases "tok_type t1 = MP_UINT")
    case False
    then show ?thesis using peek_tok [OF t1(1)] by simp
  next
    case True
    then obtain k where k: "t1 = TUint k" using tok_type_uint by blast
    with t1(2) have "mp_skip (Suc (2 * n)) r1 = Some q" by simp
    then obtain t2 r2 where t2: "mp_tok r1 = Some (t2, r2)" "mp_skip (2 * n + tok_kids t2) r2 = Some q"
      by (rule mp_skip_SucE)
    show ?thesis
    proof (cases "tok_type t2 = MP_UINT")
      case False
      then show ?thesis using peek_tok [OF t1(1)] peek_tok [OF t2(1)] by (simp add: t1(1) k dec_uint)
    next
      case True
      then obtain v where v: "t2 = TUint v" using tok_type_uint by blast
      with t2(2) have "mp_skip (2 * n) r2 = Some q" by simp
      note IH = Suc.IH [OF this]
      have bit: "key_bit (ucast k) = Some (push_bit (unat (ucast k :: u32)) 1)"
        if "(ucast (ucast k :: u32) :: u64) \<in> {TNT_SYNC, TNT_CODE, TNT_SCHEMA_ID}"
        using that by (intro key_bit_small) (auto simp: proto_consts simp del: unat_ucast_u32)
      show ?thesis
        using IH bit peek_tok [OF t1(1)] peek_tok [OF t2(1)] by (simp add: t1(1) k v t2(1) dec_uint Let_def)
    qed
  qed
qed simp

lemma hdr0_total:
  "\<exists>rc r' off. tnt_reply_hdr0 mp r buf = Some (rc, r', off) \<and>
     (if rc = 0 then mp_skip 1 buf = Some (drop off buf) \<and> off \<le> length buf else rc = -1 \<and> r' = r)"
proof (cases "mp_skip 1 buf")
  case None
  then show ?thesis by (simp add: tnt_reply_hdr0_def check)
next
  case (Some q)
  then have "mp_skip (Suc 0) buf = Some q" by simp
  then obtain t p where t: "mp_tok buf = Some (t, p)" "mp_skip (0 + tok_kids t) p = Some q" by (rule mp_skip_SucE)
  show ?thesis
  proof (cases "tok_type t = MP_MAP")
    case False
    then show ?thesis using Some peek_tok [OF t(1)] by (simp add: tnt_reply_hdr0_def check)
  next
    case True
    then obtain n where n: "t = TMap n" using tok_type_map by blast
    define a where "a = \<lparr>ha_sync = 0, ha_code = 0, ha_schema_id = 0, ha_bitmap = 0\<rparr>"
    have "mp_skip (2 * unat n) p = Some q" using t(2) n by simp
    then obtain res where res: "hdr_loop mp (unat n) p a = Some res" "\<forall>a' p'. res = Some (a', p') \<longrightarrow> p' = q"
      using hdr_loop_total by blast
    obtain pre where pre: "buf = pre @ q" using mp_skip_suffix [OF Some] by blast
    show ?thesis
    proof (cases res)
      case None
      then show ?thesis using Some peek_tok [OF t(1)] res n t(1)
        by (simp add: tnt_reply_hdr0_def check dec_map a_def)
    next
      case (Some x)
      with res(2) obtain a' where "res = Some (a', q)" by (cases x) auto
      then show ?thesis using \<open>mp_skip 1 buf = Some q\<close> peek_tok [OF t(1)] res(1) n t(1) pre
        by (simp add: tnt_reply_hdr0_def check dec_map a_def)
    qed
  qed
qed

end

section \<open>Well-formed replies\<close>

text \<open>The entries of the header and body maps in order; the last entry of a key counts.\<close>

definition last_val :: "('k \<times> 'v) list \<Rightarrow> 'k \<Rightarrow> 'v option" where
  "last_val es k = map_of (rev es) k"

lemma last_val_simps [simp]:
  "last_val [] k = None" "last_val (es @ [(k', v)]) k = (if k = k' then Some v else last_val es k)"
  by (simp_all add: last_val_def)

definition num_val :: "(u64 \<times> u64) list \<Rightarrow> u64 \<Rightarrow> u64" where
  "num_val hs k = (case last_val hs k of None \<Rightarrow> 0 | Some v \<Rightarrow> v)"

definition key_bits :: "u64 list \<Rightarrow> u64" where
  "key_bits ks = foldl (\<lambda>b k. b OR push_bit (unat k) 1) 0 ks"

lemma key_bits_snoc [simp]: "key_bits (ks @ [k]) = key_bits ks OR push_bit (unat k) 1"
  by (simp add: key_bits_def)

definition hdr_toks :: "(u64 \<times> u64) list \<Rightarrow> tok list" where
  "hdr_toks hs = concat (map (\<lambda>(k, v). [TUint k, TUint v]) hs)"

definition body_toks :: "(u64 \<times> mval) list \<Rightarrow> tok list" where
  "body_toks es = concat (map (\<lambda>(k, v). TUint k # toks v) es)"

definition hdr_ok :: "(u64 \<times> u64) list \<Rightarrow> bool" where
  "hdr_ok hs \<longleftrightarrow> length hs < 2 ^ 31 \<and> fst ` set hs \<subseteq> {TNT_CODE, TNT_SYNC, TNT_SCHEMA_ID}"

definition hdr_is :: "(u64 \<times> u64) list \<Rightarrow> hdr_acc \<Rightarrow> bool" where
  "hdr_is hs a \<longleftrightarrow> ha_sync a = num_val hs TNT_SYNC \<and> ha_code a = num_val hs TNT_CODE
     \<and> ha_schema_id a = num_val hs TNT_SCHEMA_ID \<and> ha_bitmap a = key_bits (map fst hs)"

lemma ucast_small: "unat (k :: u64) < 2 ^ 32 \<Longrightarrow> (ucast (ucast k :: u32) :: u64) = k"
proof -
  assume "unat k < 2 ^ 32"
  then have "unat (ucast k :: u32) = unat k" by (simp add: unsigned_ucast_eq take_bit_eq_mod)
  then show ?thesis by (simp add: word_unat_eq_iff)
qed

lemma unat_ucast_small: "unat (k :: u64) < 2 ^ 32 \<Longrightarrow> unat (ucast k :: u32) = unat k"
  by (simp add: unsigned_ucast_eq take_bit_eq_mod)

lemma reads_ConsE:
  assumes "reads (t # ts) bs = Some q"
  obtains r where "mp_tok bs = Some (t, r)" "reads ts r = Some q"
  using assms by (auto split: option.splits if_splits)

context msgpuck_laws
begin

lemma hdr_loop_reads:
  assumes "reads (hdr_toks hs) p = Some q" and "fst ` set hs \<subseteq> {TNT_CODE, TNT_SYNC, TNT_SCHEMA_ID}"
    and "hdr_is hs0 a"
  shows "\<exists>a'. hdr_loop mp (length hs) p a = Some (Some (a', q)) \<and> hdr_is (hs0 @ hs) a'"
  using assms
proof (induction hs arbitrary: p a hs0)
  case Nil
  then show ?case by (simp add: hdr_toks_def)
next
  case (Cons h hs)
  obtain k v where h: "h = (k, v)" by (cases h)
  have "reads (TUint k # TUint v # hdr_toks hs) p = Some q" using Cons.prems(1) by (simp add: hdr_toks_def h)
  then obtain r1 where r1: "mp_tok p = Some (TUint k, r1)" "reads (TUint v # hdr_toks hs) r1 = Some q"
    by (rule reads_ConsE)
  from r1(2) obtain r2 where r2: "mp_tok r1 = Some (TUint v, r2)" "reads (hdr_toks hs) r2 = Some q"
    by (rule reads_ConsE)
  have k: "k \<in> {TNT_CODE, TNT_SYNC, TNT_SCHEMA_ID}" using Cons.prems(2) h by simp
  then have ks: "unat k < 64" by (auto simp: proto_consts)
  then have uk: "(ucast (ucast k :: u32) :: u64) = k" "unat (ucast k :: u32) = unat k"
    by (simp_all add: ucast_small unat_ucast_small)
  have bit: "key_bit (ucast k) = Some (push_bit (unat k) 1)" using ks by (simp add: key_bit_def uk)
  define a1 where "a1 = (if k = TNT_SYNC then a\<lparr>ha_sync := v, ha_bitmap := ha_bitmap a OR push_bit (unat k) 1\<rparr>
    else if k = TNT_CODE then a\<lparr>ha_code := v, ha_bitmap := ha_bitmap a OR push_bit (unat k) 1\<rparr>
    else a\<lparr>ha_schema_id := v, ha_bitmap := ha_bitmap a OR push_bit (unat k) 1\<rparr>)"
  have a1: "hdr_is (hs0 @ [h]) a1"
    using Cons.prems(3) k by (auto simp: hdr_is_def num_val_def h a1_def proto_consts)
  note ev = dec_uint r1(1) r2(1) Let_def uk bit a1_def peek_tok [OF r1(1)] peek_tok [OF r2(1)]
  have ne: "TNT_CODE \<noteq> TNT_SYNC" "TNT_SCHEMA_ID \<noteq> TNT_SYNC" "TNT_SCHEMA_ID \<noteq> TNT_CODE"
    by (simp_all add: proto_consts)
  from k consider "k = TNT_SYNC" | "k = TNT_CODE" | "k = TNT_SCHEMA_ID" by blast
  then have "hdr_loop mp (length (h # hs)) p a = hdr_loop mp (length hs) r2 a1"
  proof cases
    case 1
    show ?thesis by (simp add: ev [unfolded 1] ne)
  next
    case 2
    show ?thesis by (simp add: ev [unfolded 2] ne)
  next
    case 3
    show ?thesis by (simp add: ev [unfolded 3] ne)
  qed
  with Cons.IH [OF r2(2) _ a1] Cons.prems(2) show ?case by auto
qed

lemma hdr0_reads:
  assumes "hdr_ok hs" and "reads (TMap (of_nat (length hs)) # hdr_toks hs) buf = Some q"
  shows "tnt_reply_hdr0 mp (Some r) buf = Some (0, Some (r\<lparr>rp_sync := num_val hs TNT_SYNC,
     rp_code := num_val hs TNT_CODE AND 0x7fff, rp_schema_id := num_val hs TNT_SCHEMA_ID,
     rp_bitmap := key_bits (map fst hs)\<rparr>), length buf - length q)"
proof -
  from assms(2) obtain p where p: "mp_tok buf = Some (TMap (of_nat (length hs)), p)" "reads (hdr_toks hs) p = Some q"
    by (rule reads_ConsE)
  have n: "unat (of_nat (length hs) :: u32) = length hs" using assms(1) by (simp add: hdr_ok_def unat_of_nat_small)
  let ?a = "\<lparr>ha_sync = 0, ha_code = 0, ha_schema_id = 0, ha_bitmap = 0\<rparr>"
  have "hdr_is [] ?a" by (simp add: hdr_is_def num_val_def key_bits_def)
  from hdr_loop_reads [OF p(2) _ this] assms(1) obtain a where
    a: "hdr_loop mp (length hs) p ?a = Some (Some (a, q))" "hdr_is hs a" by (auto simp: hdr_ok_def)
  have "concat (map (\<lambda>(k, v). toks k @ toks v) (map (\<lambda>(k, v). (VUint k, VUint v)) hs)) = hdr_toks hs"
    by (induction hs) (auto simp: hdr_toks_def)
  then have hv: "reads (toks (VMap (map (\<lambda>(k, v). (VUint k, VUint v)) hs))) buf = Some q"
    using assms(2) by (simp only: toks.simps length_map)
  have "mp_skip 1 buf = Some q"
    by (rule mp_skip_value [OF _ hv]) (use assms(1) in \<open>auto simp: hdr_ok_def\<close>)
  with a p(1) n peek_tok [OF p(1)] show ?thesis
    by (simp add: tnt_reply_hdr0_def check dec_map hdr_is_def)
qed

end

section \<open>Body parsing\<close>

definition is_arr :: "mval \<Rightarrow> bool" where
  "is_arr v = (case v of VArr _ \<Rightarrow> True | _ \<Rightarrow> False)"

text \<open>Entries a server may send: keys below 64, errors are strings, data and metadata are arrays.\<close>

definition entry_ok :: "u64 \<times> mval \<Rightarrow> bool" where
  "entry_ok = (\<lambda>(k, v). unat k < 64 \<and> vwf v
     \<and> (k = TNT_ERROR \<longrightarrow> (\<exists>s. v = VStr s \<and> length s < 2 ^ 32))
     \<and> (k = TNT_DATA \<or> k = TNT_METADATA \<longrightarrow> is_arr v))"

definition body_ok :: "(u64 \<times> mval) list \<Rightarrow> bool" where
  "body_ok es \<longleftrightarrow> length es < 2 ^ 31 \<and> (\<forall>e \<in> set es. entry_ok e)"

definition slice_of :: "bytes option \<Rightarrow> mval option \<Rightarrow> bool" where
  "slice_of ob ov = (case ov of None \<Rightarrow> ob = None | Some v \<Rightarrow> (case ob of None \<Rightarrow> False | Some b \<Rightarrow> encodes (toks v) b))"

definition str_of :: "mval option \<Rightarrow> bytes option" where
  "str_of ov = (case ov of Some (VStr s) \<Rightarrow> Some s | _ \<Rightarrow> None)"

definition body_is :: "(u64 \<times> mval) list \<Rightarrow> body_acc \<Rightarrow> bool" where
  "body_is es a \<longleftrightarrow> ba_error a = str_of (last_val es TNT_ERROR) \<and> slice_of (ba_data a) (last_val es TNT_DATA)
     \<and> slice_of (ba_metadata a) (last_val es TNT_METADATA) \<and> ba_sqlinfo a = None
     \<and> ba_bitmap a = key_bits (map fst es)"

lemma toks_type: "toks v = t # ts \<Longrightarrow> is_arr v \<Longrightarrow> tok_type t = MP_ARRAY"
  by (cases v) (auto simp: is_arr_def)

lemma reads_between: "reads ts p = Some q \<Longrightarrow> encodes ts (between p q)"
  using reads_split [of ts p q] by auto

context msgpuck_laws
begin

lemma body_entry_reads:
  assumes "entry_ok (k, v)" and "reads (toks v) p = Some q" and "body_is es a"
  obtains a' where "body_entry mp (ucast k) p a = Some (Some (a', q))"
    "body_is (es @ [(k, v)]) (a'\<lparr>ba_bitmap := ba_bitmap a' OR push_bit (unat k) 1\<rparr>)"
proof -
  have k: "unat k < 64" "vwf v" using assms(1) by (auto simp: entry_ok_def)
  then have uk: "(ucast (ucast k :: u32) :: u64) = k" by (simp add: ucast_small)
  have nx: "mp_next mp p = Some q" using mp_skip_value [OF k(2) assms(2)] by (simp add: next_val)
  have ne: "TNT_DATA \<noteq> TNT_ERROR" "TNT_METADATA \<noteq> TNT_ERROR" "TNT_METADATA \<noteq> TNT_DATA" "k \<noteq> TNT_SQL_INFO"
    using k(1) by (auto simp: proto_consts)
  have enc: "encodes (toks v) (between p q)" using assms(2) by (rule reads_between)
  have arr: "peek mp p = Some MP_ARRAY" if "is_arr v"
  proof -
    obtain t ts where ts: "toks v = t # ts" using toks_nonempty [of v] by (metis list.exhaust)
    with assms(2) have "reads (t # ts) p = Some q" by simp
    then obtain r where "mp_tok p = Some (t, r)" by (rule reads_ConsE)
    from peek_tok [OF this] toks_type [OF ts that] show ?thesis by simp
  qed
  consider "k = TNT_ERROR" | "k = TNT_DATA" | "k = TNT_METADATA" | "k \<notin> {TNT_ERROR, TNT_DATA, TNT_METADATA}" by blast
  then show thesis
  proof cases
    case 1
    then obtain s where s: "v = VStr s" "length s < 2 ^ 32" using assms(1) by (auto simp: entry_ok_def)
    with assms(2) have t: "mp_tok p = Some (TStr s, q)" by (auto split: option.splits if_splits)
    have "body_entry mp (ucast k) p a = Some (Some (a\<lparr>ba_error := Some s\<rparr>, q))"
      using peek_tok [OF t] s(2) by (simp add: body_entry_def uk 1 [symmetric] t dec_str unat_of_nat_small)
    then show thesis using that [of "a\<lparr>ba_error := Some s\<rparr>"] assms(3) ne by (auto simp: body_is_def 1 s str_of_def)
  next
    case 2
    then have "is_arr v" using assms(1) by (simp add: entry_ok_def)
    then have "body_entry mp (ucast k) p a = Some (Some (a\<lparr>ba_data := Some (between p q)\<rparr>, q))"
      using ne by (simp add: body_entry_def uk arr nx 2 [symmetric])
    then show thesis
      using that [of "a\<lparr>ba_data := Some (between p q)\<rparr>"] assms(3) ne enc by (auto simp: body_is_def 2 slice_of_def)
  next
    case 3
    then have "is_arr v" using assms(1) by (simp add: entry_ok_def)
    then have "body_entry mp (ucast k) p a = Some (Some (a\<lparr>ba_metadata := Some (between p q)\<rparr>, q))"
      using ne by (simp add: body_entry_def uk arr nx 3 [symmetric])
    then show thesis
      using that [of "a\<lparr>ba_metadata := Some (between p q)\<rparr>"] assms(3) ne enc by (auto simp: body_is_def 3 slice_of_def)
  next
    case 4
    then have "body_entry mp (ucast k) p a = Some (Some (a, q))"
      using ne by (simp add: body_entry_def uk nx)
    then show thesis using that [of a] assms(3) 4 by (auto simp: body_is_def)
  qed
qed

lemma body_loop_reads:
  assumes "reads (body_toks es) p = Some q" and "\<forall>e \<in> set es. entry_ok e" and "body_is es0 a"
  shows "\<exists>a'. body_loop mp (length es) p a = Some (Some (a', q)) \<and> body_is (es0 @ es) a'"
  using assms
proof (induction es arbitrary: p a es0)
  case Nil
  then show ?case by (simp add: body_toks_def)
next
  case (Cons e es)
  obtain k v where e: "e = (k, v)" by (cases e)
  have "reads (TUint k # toks v @ body_toks es) p = Some q" using Cons.prems(1) by (simp add: body_toks_def e)
  then obtain r1 where r1: "mp_tok p = Some (TUint k, r1)" "reads (toks v @ body_toks es) r1 = Some q"
    by (rule reads_ConsE)
  then obtain r2 where r2: "reads (toks v) r1 = Some r2" "reads (body_toks es) r2 = Some q"
    by (auto simp: reads_append split: option.splits)
  have ok: "entry_ok (k, v)" using Cons.prems(2) e by simp
  then have ks: "unat k < 64" by (simp add: entry_ok_def)
  have bit: "key_bit (ucast k) = Some (push_bit (unat k) 1)" using ks by (simp add: key_bit_def unat_ucast_small)
  from ok r2(1) Cons.prems(3) obtain a1 where a1: "body_entry mp (ucast k) r1 a = Some (Some (a1, r2))"
    "body_is (es0 @ [(k, v)]) (a1\<lparr>ba_bitmap := ba_bitmap a1 OR push_bit (unat k) 1\<rparr>)" by (rule body_entry_reads)
  from Cons.IH [OF r2(2) _ a1(2)] Cons.prems(2) show ?case
    by (auto simp: e dec_uint r1(1) Let_def a1(1) bit)
qed

lemma body0_reads:
  assumes "body_ok es" and "reads (TMap (of_nat (length es)) # body_toks es) buf = Some q"
  obtains a where "tnt_reply_body0 mp (Some r) buf = Some (0, Some (r\<lparr>rp_error := ba_error a, rp_data := ba_data a,
     rp_metadata := ba_metadata a, rp_sqlinfo := ba_sqlinfo a, rp_bitmap := rp_bitmap r OR ba_bitmap a\<rparr>),
     length buf - length q)" "body_is es a"
proof -
  from assms(2) obtain p where p: "mp_tok buf = Some (TMap (of_nat (length es)), p)" "reads (body_toks es) p = Some q"
    by (rule reads_ConsE)
  have n: "unat (of_nat (length es) :: u32) = length es" using assms(1) by (simp add: body_ok_def unat_of_nat_small)
  let ?a = "\<lparr>ba_error = None, ba_data = None, ba_metadata = None, ba_sqlinfo = None, ba_bitmap = 0\<rparr>"
  have "body_is [] ?a" by (simp add: body_is_def str_of_def slice_of_def key_bits_def)
  from body_loop_reads [OF p(2) _ this] assms(1) obtain a where
    a: "body_loop mp (length es) p ?a = Some (Some (a, q))" "body_is es a" by (auto simp: body_ok_def)
  have "concat (map (\<lambda>(k, v). toks k @ toks v) (map (\<lambda>(k, v). (VUint k, v)) es)) = body_toks es"
    by (induction es) (auto simp: body_toks_def)
  then have hv: "reads (toks (VMap (map (\<lambda>(k, v). (VUint k, v)) es))) buf = Some q"
    using assms(2) by (simp only: toks.simps length_map)
  have "mp_skip 1 buf = Some q"
    by (rule mp_skip_value [OF _ hv]) (use assms(1) in \<open>auto simp: body_ok_def entry_ok_def\<close>)
  with a p(1) n peek_tok [OF p(1)] show thesis
    by (intro that [of a]) (simp_all add: tnt_reply_body0_def check dec_map)
qed

end

section \<open>Reply frames\<close>

definition body_list :: "(u64 \<times> mval) list option \<Rightarrow> (u64 \<times> mval) list" where
  "body_list es = (case es of None \<Rightarrow> [] | Some x \<Rightarrow> x)"

text \<open>
  A reply frame as the server sends it: a five-byte length, the header map, and the body map if
  there is one.
\<close>

definition is_reply :: "(u64 \<times> u64) list \<Rightarrow> (u64 \<times> mval) list option \<Rightarrow> bytes \<Rightarrow> bool" where
  "is_reply hs es fr \<longleftrightarrow> hdr_ok hs \<and> body_ok (body_list es) \<and> (\<exists>hb bb.
     fr = 0xce # be_bytes 4 (length (hb @ bb)) @ hb @ bb \<and> length (hb @ bb) < 2 ^ 32
     \<and> encodes (TMap (of_nat (length hs)) # hdr_toks hs) hb
     \<and> (case es of None \<Rightarrow> bb = [] | Some x \<Rightarrow> encodes (TMap (of_nat (length x)) # body_toks x) bb))"

text \<open>What the reply object holds of a frame.\<close>

definition reply_has :: "(u64 \<times> u64) list \<Rightarrow> (u64 \<times> mval) list option \<Rightarrow> reply_struct \<Rightarrow> bool" where
  "reply_has hs es r \<longleftrightarrow> rp_sync r = num_val hs TNT_SYNC \<and> rp_code r = num_val hs TNT_CODE AND 0x7fff
     \<and> rp_schema_id r = num_val hs TNT_SCHEMA_ID \<and> rp_error r = str_of (last_val (body_list es) TNT_ERROR)
     \<and> slice_of (rp_data r) (last_val (body_list es) TNT_DATA)
     \<and> slice_of (rp_metadata r) (last_val (body_list es) TNT_METADATA) \<and> rp_sqlinfo r = None
     \<and> rp_bitmap r = key_bits (map fst hs) OR key_bits (map fst (body_list es))"

text \<open>A reply object without body fields, as \<open>tnt_reply_init\<close> or a \<open>memset\<close> leaves it.\<close>

definition blank :: "reply_struct \<Rightarrow> bool" where
  "blank r \<longleftrightarrow> rp_error r = None \<and> rp_data r = None \<and> rp_metadata r = None \<and> rp_sqlinfo r = None"

lemma is_replyE:
  assumes "is_reply hs es fr"
  obtains hb bb where "fr = 0xce # be_bytes 4 (length (hb @ bb)) @ hb @ bb" "length (hb @ bb) < 2 ^ 32"
    "encodes (TMap (of_nat (length hs)) # hdr_toks hs) hb" "hdr_ok hs" "body_ok (body_list es)"
    "case es of None \<Rightarrow> bb = [] | Some x \<Rightarrow> encodes (TMap (of_nat (length x)) # body_toks x) bb"
  using assms by (auto simp: is_reply_def)

lemma tok_len_prefix: "n < 2 ^ 32 \<Longrightarrow> mp_tok (0xce # be_bytes 4 n @ x) = Some (TUint (of_nat n), x)"
  by (simp add: mp_tok_marks tk_num_be del: be_bytes.simps)

context msgpuck_laws
begin

lemma payload_parses:
  assumes "encodes (TMap (of_nat (length hs)) # hdr_toks hs) hb" and "hdr_ok hs" and "body_ok (body_list es)"
    and "case es of None \<Rightarrow> bb = [] | Some x \<Rightarrow> encodes (TMap (of_nat (length x)) # body_toks x) bb" and "blank r"
  obtains r1 where "tnt_reply_hdr0 mp (Some r) (hb @ bb) = Some (0, Some r1, length hb)"
    "es = None \<Longrightarrow> reply_has hs es r1 \<and> bb = [] \<and> rp_alloc r1 = rp_alloc r"
    "es \<noteq> None \<Longrightarrow> bb \<noteq> [] \<and> (\<exists>r2. tnt_reply_body0 mp (Some r1) bb = Some (0, Some r2, length bb)
       \<and> reply_has hs es r2 \<and> rp_alloc r2 = rp_alloc r)"
proof -
  have h: "reads (TMap (of_nat (length hs)) # hdr_toks hs) (hb @ bb) = Some bb" using assms(1) by (rule encodes_reads)
  define r1 where "r1 = r\<lparr>rp_sync := num_val hs TNT_SYNC,
     rp_code := num_val hs TNT_CODE AND 0x7fff, rp_schema_id := num_val hs TNT_SCHEMA_ID,
     rp_bitmap := key_bits (map fst hs)\<rparr>"
  have 1: "tnt_reply_hdr0 mp (Some r) (hb @ bb) = Some (0, Some r1, length hb)"
    using hdr0_reads [OF assms(2) h, of r] by (simp add: r1_def)
  show thesis
  proof (rule that [OF 1])
    assume "es = None"
    then show "reply_has hs es r1 \<and> bb = [] \<and> rp_alloc r1 = rp_alloc r"
      using assms(4,5) by (simp add: reply_has_def r1_def body_list_def blank_def str_of_def slice_of_def key_bits_def)
  next
    assume "es \<noteq> None"
    then obtain x where x: "es = Some x" by auto
    then have ok: "body_ok x" and e: "encodes (TMap (of_nat (length x)) # body_toks x) bb"
      using assms(3,4) by (simp_all add: body_list_def)
    from e have "reads (TMap (of_nat (length x)) # body_toks x) bb = Some []" by (simp only: encodes_def)
    from ok this obtain a where a: "tnt_reply_body0 mp (Some r1) bb = Some (0, Some (r1\<lparr>rp_error := ba_error a,
       rp_data := ba_data a, rp_metadata := ba_metadata a, rp_sqlinfo := ba_sqlinfo a,
       rp_bitmap := rp_bitmap r1 OR ba_bitmap a\<rparr>), length bb - length ([] :: bytes))" "body_is x a"
      by (rule body0_reads)
    moreover have "bb \<noteq> []" using e by (rule encodes_nonempty)
    ultimately show "bb \<noteq> [] \<and> (\<exists>r2. tnt_reply_body0 mp (Some r1) bb = Some (0, Some r2, length bb)
       \<and> reply_has hs es r2 \<and> rp_alloc r2 = rp_alloc r)"
      by (simp add: reply_has_def body_is_def r1_def x body_list_def)
  qed
qed

lemma reply_len_prefix:
  assumes "n < 2 ^ 32" and "length rest < 2 ^ 63"
  shows "tnt_reply_len mp (0xce # be_bytes 4 n @ rest)
     = Some (if length rest < n then (1, of_nat (n - length rest)) else (0, of_nat (n + 5)))"
proof -
  let ?b = "0xce # be_bytes 4 n @ rest"
  have t: "mp_tok ?b = Some (TUint (of_nat n), rest)" using assms(1) by (rule tok_len_prefix)
  have l: "length ?b = length rest + 5" by simp
  have w: "unat (of_nat (length rest + 5) :: u64) = length rest + 5" "unat (of_nat (n + 5) :: u64) = n + 5"
    using assms by (simp_all add: unat_of_nat_small del: of_nat_add)
  have lt: "(of_nat (length rest + 5) :: u64) < of_nat (n + 5) \<longleftrightarrow> length rest < n"
    by (simp only: word_less_nat_alt w) simp
  have sub: "(of_nat (n + 5) :: u64) - of_nat (length rest + 5) = of_nat (n - length rest)" if "length rest < n"
    using that by (simp add: of_nat_diff)
  have "(5 + of_nat (length rest) < (of_nat n + 5 :: u64)) = (length rest < n)"
    using lt by (simp add: add.commute)
  with sub peek_tok [OF t] show ?thesis
    by (auto simp: tnt_reply_len_def TNT_REPLY_IPROTO_HDR_SIZE_def dec_uint t Let_def)
qed

end

text \<open>Header and body of a payload, as both whole-reply functions parse it.\<close>

definition parse_payload :: "msgpuck \<Rightarrow> reply_struct \<Rightarrow> bytes \<Rightarrow> reply_struct option option" where
  "parse_payload mp r d = do {
     (rc, r1, h) \<leftarrow> tnt_reply_hdr0 mp (Some r) d;
     if rc \<noteq> 0 then Some None
     else if length d = h then Some r1
     else do { (rc, r2, _) \<leftarrow> tnt_reply_body0 mp r1 (drop h d); Some (if rc \<noteq> 0 then None else r2) } }"

lemma hdr0_some: "tnt_reply_hdr0 mp (Some r) d = Some (rc, r1, h) \<Longrightarrow> \<exists>x. r1 = Some x"
  by (auto simp: tnt_reply_hdr0_def split: option.splits if_splits Option.bind_splits)

lemma body0_some: "tnt_reply_body0 mp (Some r) d = Some (rc, r1, h) \<Longrightarrow> \<exists>x. r1 = Some x"
  by (auto simp: tnt_reply_body0_def split: option.splits if_splits Option.bind_splits)

context builder_env
begin

lemma reply_from_parse:
  assumes "rcv c 5 = Some (Some h5, c1)" and "mp_tok h5 = Some (TUint len, x)"
    and "tnt_mem_alloc ra (unat len) = Some (Blk d0)" and "rcv c1 (unat len) = Some (Some d, c2)"
    and "length d = unat len"
  shows "tnt_reply_from mp ra r rcv c = map_option (\<lambda>res. case res of
       None \<Rightarrow> (-1, zero_reply (rp_alloc r), c2) | Some r' \<Rightarrow> (0, r', c2))
     (parse_payload mp ((zero_reply (rp_alloc r))\<lparr>rp_buf := Blk d, rp_buf_size := length d\<rparr>) d)"
proof -
  define r0 where "r0 = (zero_reply (rp_alloc r))\<lparr>rp_buf := Blk d, rp_buf_size := length d\<rparr>"
  have r0: "(zero_reply (rp_alloc r))\<lparr>rp_buf := Blk d0, rp_buf_size := unat len, rp_buf := Blk d\<rparr> = r0"
    by (simp add: r0_def assms(5))
  obtain rc r1 h where h: "tnt_reply_hdr0 mp (Some r0) d = Some (rc, r1, h)" using hdr0_total by blast
  obtain x1 where x1: "r1 = Some x1" using hdr0_some [OF h] by blast
  have step: "tnt_reply_from mp ra r rcv c = (if rc \<noteq> 0 then Some (-1, zero_reply (rp_alloc r), c2)
      else if unat len = h then Some (0, x1, c2)
      else do { (rc, r2, _) \<leftarrow> tnt_reply_body0 mp r1 (drop h d);
         if rc \<noteq> 0 then do { _ \<leftarrow> tnt_mem_free ra (Blk d); Some (-1, zero_reply (rp_alloc r), c2) }
         else map_option (\<lambda>r2. (0, r2, c2)) r2 })"
    using assms peek_tok [OF assms(2)] h x1
    by (simp add: tnt_reply_from_def TNT_REPLY_IPROTO_HDR_SIZE_def Let_def dec_uint r0 [simplified])
  show ?thesis unfolding step r0_def [symmetric]
    using h x1 body0_some [of mp x1 "drop h d"]
    by (auto simp: parse_payload_def assms(5) split: Option.bind_splits)
qed

lemma parse_payload_reply:
  assumes "encodes (TMap (of_nat (length hs)) # hdr_toks hs) hb" and "hdr_ok hs" and "body_ok (body_list es)"
    and "case es of None \<Rightarrow> bb = [] | Some x \<Rightarrow> encodes (TMap (of_nat (length x)) # body_toks x) bb" and "blank r"
  obtains r' where "parse_payload mp r (hb @ bb) = Some (Some r')" "reply_has hs es r'" "rp_alloc r' = rp_alloc r"
proof (rule payload_parses [OF assms])
  fix r1
  assume 1: "tnt_reply_hdr0 mp (Some r) (hb @ bb) = Some (0, Some r1, length hb)"
    "es = None \<Longrightarrow> reply_has hs es r1 \<and> bb = [] \<and> rp_alloc r1 = rp_alloc r"
    "es \<noteq> None \<Longrightarrow> bb \<noteq> [] \<and> (\<exists>r2. tnt_reply_body0 mp (Some r1) bb = Some (0, Some r2, length bb)
       \<and> reply_has hs es r2 \<and> rp_alloc r2 = rp_alloc r)"
  show thesis
  proof (cases "es = None")
    case True
    with 1 show thesis by (intro that [of r1]) (simp_all add: parse_payload_def)
  next
    case False
    with 1(3) obtain r2 where "bb \<noteq> []" "tnt_reply_body0 mp (Some r1) bb = Some (0, Some r2, length bb)"
      "reply_has hs es r2" "rp_alloc r2 = rp_alloc r" by blast
    with 1(1) show thesis by (intro that [of r2]) (simp_all add: parse_payload_def)
  qed
qed

lemma reply_cb_frame:
  "tnt_reply_cb (0xce # be_bytes 4 n @ pay @ rest, 0) 5 = Some (Some (0xce # be_bytes 4 n), (0xce # be_bytes 4 n @ pay @ rest, 5))"
  "tnt_reply_cb (0xce # be_bytes 4 n @ pay @ rest, 5) (length pay)
     = Some (Some pay, (0xce # be_bytes 4 n @ pay @ rest, 5 + length pay))"
  by (simp_all add: tnt_reply_cb_def del: be_bytes.simps)

lemma reply_frame_parse:
  assumes "length pay < 2 ^ 32" and "length (pay @ rest) < 2 ^ 63" and "0 < length pay"
  obtains rb where "tnt_reply mp ra (Some r) (0xce # be_bytes 4 (length pay) @ pay @ rest) = Some (-1, Some rb, Some 5)"
      "\<not> grants_all ra"
    | "tnt_reply mp ra (Some r) (0xce # be_bytes 4 (length pay) @ pay @ rest) =
        map_option (\<lambda>res. (case res of None \<Rightarrow> (-1, Some (zero_reply (rp_alloc r)), Some (of_nat (5 + length pay)))
           | Some r' \<Rightarrow> (0, Some r', Some (of_nat (5 + length pay)))))
        (parse_payload mp ((zero_reply (rp_alloc r))\<lparr>rp_buf := Blk pay, rp_buf_size := length pay\<rparr>) pay)"
proof -
  let ?n = "length pay"
  let ?h = "0xce # be_bytes 4 ?n"
  have t: "mp_tok ?h = Some (TUint (of_nat ?n), [])" using tok_len_prefix [OF assms(1), of "[]"] by simp
  have n: "unat (of_nat ?n :: u64) = ?n" using assms(1) by (simp add: unat_of_nat_small)
  have len: "tnt_reply_len mp (?h @ pay @ rest) = Some (0, of_nat (?n + 5))"
    using reply_len_prefix [OF assms(1), of "pay @ rest"] assms(2) by simp
  from assms(3) show thesis
  proof (rule mem_alloc_cases, goal_cases)
    case 1
    have "tnt_reply_from mp ra r tnt_reply_cb (?h @ pay @ rest, 0)
        = Some (-1, zero_reply (rp_alloc r), (?h @ pay @ rest, 5))"
      using 1(1) peek_tok [OF t] reply_cb_frame(1) [of ?n pay rest]
      by (simp add: tnt_reply_from_def TNT_REPLY_IPROTO_HDR_SIZE_def Let_def dec_uint t n del: be_bytes.simps)
    then show ?case using len 1(2) that(1) by (simp add: tnt_reply_def)
  next
    case (2 d)
    have "tnt_reply_from mp ra r tnt_reply_cb (?h @ pay @ rest, 0) = map_option (\<lambda>res. case res of
         None \<Rightarrow> (-1, zero_reply (rp_alloc r), (?h @ pay @ rest, 5 + ?n)) | Some r' \<Rightarrow> (0, r', (?h @ pay @ rest, 5 + ?n)))
       (parse_payload mp ((zero_reply (rp_alloc r))\<lparr>rp_buf := Blk pay, rp_buf_size := ?n\<rparr>) pay)"
      by (rule reply_from_parse [OF _ t]) (use reply_cb_frame [of ?n pay rest] 2(1) n in simp_all)
    then have "tnt_reply mp ra (Some r) (?h @ pay @ rest) =
        map_option (\<lambda>res. (case res of None \<Rightarrow> (-1, Some (zero_reply (rp_alloc r)), Some (of_nat (5 + ?n)))
           | Some r' \<Rightarrow> (0, Some r', Some (of_nat (5 + ?n)))))
        (parse_payload mp ((zero_reply (rp_alloc r))\<lparr>rp_buf := Blk pay, rp_buf_size := ?n\<rparr>) pay)"
      using len
      by (cases "parse_payload mp ((zero_reply (rp_alloc r))\<lparr>rp_buf := Blk pay, rp_buf_size := ?n\<rparr>) pay")
        (simp_all add: tnt_reply_def del: be_bytes.simps split: option.splits)
    then show ?case by (intro that(2)) simp
  qed
qed

end

text \<open>The reply without its own copy of the buffer.\<close>

definition strip_buf :: "reply_struct \<Rightarrow> reply_struct" where
  "strip_buf r = r\<lparr>rp_buf := NULLP, rp_buf_size := 0\<rparr>"

lemma hdr0_strip: "tnt_reply_hdr0 mp (Some (strip_buf r)) d =
   map_option (\<lambda>(rc, r1, h). (rc, map_option strip_buf r1, h)) (tnt_reply_hdr0 mp (Some r) d)"
  by (auto simp: tnt_reply_hdr0_def strip_buf_def split: option.splits Option.bind_splits)

lemma body0_strip: "tnt_reply_body0 mp (Some (strip_buf r)) d =
   map_option (\<lambda>(rc, r1, h). (rc, map_option strip_buf r1, h)) (tnt_reply_body0 mp (Some r) d)"
  by (auto simp: tnt_reply_body0_def strip_buf_def split: option.splits Option.bind_splits)

lemma payload_strip: "parse_payload mp (strip_buf r) d = map_option (map_option strip_buf) (parse_payload mp r d)"
proof (cases "tnt_reply_hdr0 mp (Some r) d")
  case (Some x)
  obtain rc r1 h where x: "x = (rc, r1, h)" by (cases x) auto
  with Some obtain y where "r1 = Some y" using hdr0_some by blast
  then show ?thesis
    using Some x by (auto simp: parse_payload_def hdr0_strip body0_strip split: Option.bind_splits)
qed (simp add: parse_payload_def hdr0_strip)

context msgpuck_laws
begin

lemma reply0_frame_parse:
  assumes "length pay < 2 ^ 32" and "length (pay @ rest) < 2 ^ 63"
  shows "map_option (\<lambda>(rc, r', off). (rc, if rc = 0 then r' else None, if rc = 0 then off else None))
       (tnt_reply0 mp (Some r) (0xce # be_bytes 4 (length pay) @ pay @ rest)) =
     map_option (\<lambda>res. case res of None \<Rightarrow> (-1, None, None) | Some r' \<Rightarrow> (0, Some r', Some (of_nat (5 + length pay))))
       (parse_payload mp r pay)"
proof -
  let ?n = "length pay"
  let ?b = "0xce # be_bytes 4 ?n @ pay @ rest"
  have len: "tnt_reply_len mp ?b = Some (0, of_nat (?n + 5))"
    using reply_len_prefix [OF assms(1), of "pay @ rest"] assms(2) by simp
  have n: "unat (of_nat (?n + 5) - of_nat TNT_REPLY_IPROTO_HDR_SIZE :: u64) = ?n"
    using assms(1) by (simp add: TNT_REPLY_IPROTO_HDR_SIZE_def unat_of_nat_small)
  have d: "drop TNT_REPLY_IPROTO_HDR_SIZE ?b = pay @ rest"
    by (simp add: TNT_REPLY_IPROTO_HDR_SIZE_def del: be_bytes.simps)
  obtain rc r1 h where h: "tnt_reply_hdr0 mp (Some r) pay = Some (rc, r1, h)" using hdr0_total by blast
  obtain x1 where x1: "r1 = Some x1" using hdr0_some [OF h] by blast
  have r0: "tnt_reply0 mp (Some r) ?b = (if rc \<noteq> 0 then Some (-1, r1, None)
      else if ?n \<noteq> h then do { (rc, r2, _) \<leftarrow> tnt_reply_body0 mp r1 (drop h pay);
         if rc \<noteq> 0 then Some (-1, r2, None) else Some (0, r2, Some (of_nat ?n + 5)) }
      else Some (0, r1, Some (of_nat ?n + 5)))"
    unfolding tnt_reply0_def Let_def d using len h n by (simp add: n [simplified])
  show ?thesis unfolding r0
    using h x1 body0_some [of mp x1 "drop h pay"]
    by (auto simp: parse_payload_def ac_simps split: Option.bind_splits)
qed

end

lemma reply_frame_ok:
  assumes "msgpuck_laws mp" and "allocator ra" and "is_reply hs es fr" and "length (fr @ rest) < 2 ^ 63"
  shows "\<exists>rc r' off. tnt_reply mp ra (Some r) (fr @ rest) = Some (rc, Some r', Some off) \<and>
     (if rc = -1 then \<not> grants_all ra
      else rc = 0 \<and> off = of_nat (length fr) \<and> reply_has hs es r' \<and> rp_alloc r' = rp_alloc r)"
proof -
  have env: "builder_env mp ra" using assms(1,2) by (rule builder_env.intro)
  from assms(3) obtain hb bb where f: "fr = 0xce # be_bytes 4 (length (hb @ bb)) @ hb @ bb" "length (hb @ bb) < 2 ^ 32"
    "encodes (TMap (of_nat (length hs)) # hdr_toks hs) hb" "hdr_ok hs" "body_ok (body_list es)"
    "case es of None \<Rightarrow> bb = [] | Some x \<Rightarrow> encodes (TMap (of_nat (length x)) # body_toks x) bb" by (rule is_replyE)
  have buf: "fr @ rest = 0xce # be_bytes 4 (length (hb @ bb)) @ (hb @ bb) @ rest" and fl: "length fr = 5 + length (hb @ bb)"
    by (simp_all add: f(1))
  have small: "length ((hb @ bb) @ rest) < 2 ^ 63" using assms(4) by (simp add: f(1))
  have pos: "0 < length (hb @ bb)" using encodes_nonempty [OF f(3)] by simp
  let ?r0 = "(zero_reply (rp_alloc r))\<lparr>rp_buf := Blk (hb @ bb), rp_buf_size := length (hb @ bb)\<rparr>"
  have "blank ?r0" "rp_alloc ?r0 = rp_alloc r" by (simp_all add: blank_def zero_reply_def)
  then obtain r' where r': "parse_payload mp ?r0 (hb @ bb) = Some (Some r')" "reply_has hs es r'" "rp_alloc r' = rp_alloc r"
    using builder_env.parse_payload_reply [OF env f(3-6), of ?r0] by metis
  show ?thesis unfolding buf fl
    by (rule builder_env.reply_frame_parse [OF env f(2) small pos, of r]) (use r' in \<open>simp_all del: be_bytes.simps\<close>)
qed

lemma buf_reply_frame:
  assumes "msgpuck_laws mp" and "allocator ra" and "s_data s = Some sb" and "sbuf_wf sb"
    and "drop (sb_rdoff sb) (sbuf_contents sb) = fr @ rest" and "is_reply hs es fr" and "length (fr @ rest) < 2 ^ 63"
  shows "\<exists>rc r' s'. tnt_buf_reply mp ra s r = Some (rc, s', r') \<and>
     (if rc = -1 then \<not> grants_all ra \<and> s' = s
      else rc = 0 \<and> reply_has hs es r' \<and> s' = s\<lparr>s_data := Some (sb\<lparr>sb_rdoff := sb_rdoff sb + length fr\<rparr>)\<rparr>)"
proof -
  have ne: "fr @ rest \<noteq> []" using assms(6) by (auto simp: is_reply_def)
  have lt: "sb_rdoff sb < sb_size sb"
    using ne assms(4,5) length_sbuf_contents [OF assms(4)] by (metis drop_all leI)
  obtain d where d: "sb_data sb = Blk d" "sb_size sb \<le> length d"
    using lt assms(4) by (auto simp: sbuf_wf_def split: cptr.splits)
  have c: "sbuf_contents sb = take (sb_size sb) d" by (simp add: sbuf_contents_def d)
  have n: "unat (of_nat (length fr) :: u64) = length fr"
    using assms(7) by (intro unat_of_nat_u64) simp
  from reply_frame_ok [OF assms(1,2,6,7), of r] obtain rc r' off where
    r: "tnt_reply mp ra (Some r) (fr @ rest) = Some (rc, Some r', Some off)"
    "if rc = -1 then \<not> grants_all ra
      else rc = 0 \<and> off = of_nat (length fr) \<and> reply_has hs es r' \<and> rp_alloc r' = rp_alloc r" by blast
  show ?thesis
    using assms(3) lt d r n assms(5)
    by (auto simp: tnt_buf_reply_def c split: if_splits)
qed

text \<open>The buffer a reply owns is never left dangling, and its \<open>alloc\<close> mark is kept.\<close>

lemma hdr0_keeps: "tnt_reply_hdr0 mp (Some r) d = Some (rc, r1, h)
    \<Longrightarrow> \<exists>x. r1 = Some x \<and> rp_buf x = rp_buf r \<and> rp_alloc x = rp_alloc r"
  by (auto simp: tnt_reply_hdr0_def split: option.splits if_splits Option.bind_splits)

lemma body0_keeps: "tnt_reply_body0 mp (Some r) d = Some (rc, r1, h)
    \<Longrightarrow> \<exists>x. r1 = Some x \<and> rp_buf x = rp_buf r \<and> rp_alloc x = rp_alloc r"
  by (auto simp: tnt_reply_body0_def split: option.splits if_splits Option.bind_splits)

lemma zero_owns [simp]: "rp_buf (zero_reply a) = NULLP" "rp_alloc (zero_reply a) = a"
  by (simp_all add: zero_reply_def)

lemma reply_from_owns:
  "tnt_reply_from mp ra r rcv c = Some (rc, r', c') \<Longrightarrow> rp_buf r' \<noteq> Freed \<and> rp_alloc r' = rp_alloc r"
  unfolding tnt_reply_from_def Let_def
  by (auto split: Option.bind_splits option.splits if_splits dest!: hdr0_keeps body0_keeps)

lemma buf_reply_owns:
  "tnt_buf_reply mp ra s r = Some (rc, s', r') \<Longrightarrow> rp_buf r \<noteq> Freed \<Longrightarrow> rp_buf r' \<noteq> Freed \<and> rp_alloc r' = rp_alloc r"
  unfolding tnt_buf_reply_def tnt_reply_def
  by (auto split: Option.bind_splits option.splits if_splits cptr.splits dest!: reply_from_owns)

section \<open>Properties\<close>

text \<open>C21. Parsing the header of a reply is memory safe on arbitrary input: \<open>tnt_reply_hdr0\<close> never reads
  outside the buffer, whatever the bytes are; it returns 0 with \<open>*off\<close> at the end of the first
  MessagePack value of the buffer, or -1 with the reply unchanged.\<close>

theorem reply_header_safe:
  assumes "msgpuck_laws mp"
  shows "\<exists>rc r' off. tnt_reply_hdr0 mp r buf = Some (rc, r', off) \<and>
     (if rc = 0 then mp_skip 1 buf = Some (drop off buf) \<and> off \<le> length buf else rc = -1 \<and> r' = r)"
  by (rule msgpuck_laws.hdr0_total [OF assms])

theorem reply_header_safe_witness:
  "\<exists>rc r' off. tnt_reply_hdr0 mp_ref None [0x81, 0xcf, 0x00] = Some (rc, r', off) \<and>
     (if rc = 0 then mp_skip 1 [0x81, 0xcf, 0x00] = Some (drop off [0x81, 0xcf, 0x00]) \<and> off \<le> 3
      else rc = -1 \<and> r' = None)"
  using reply_header_safe [OF ref.msgpuck_laws_axioms, of None "[0x81, 0xcf, 0x00]"] by (auto split: if_splits)

text \<open>C3. \<open>tnt_reply\<close> parses every well-formed reply: for a frame with any order and repetition of header
  and body entries, followed by any further bytes, it returns 0 with \<open>*off\<close> at the end of the frame,
  the code (15 bits), sync and schema id of the header, the error string, and the data and metadata
  slices, each of which is exactly the encoding of the value sent; entries with other keys below 64
  are skipped.  The only failure is refused memory.\<close>

theorem reply_parses:
  assumes "msgpuck_laws mp" and "allocator ra" and "is_reply hs es fr" and "length (fr @ rest) < 2 ^ 63"
  shows "\<exists>rc r' off. tnt_reply mp ra (Some r) (fr @ rest) = Some (rc, Some r', Some off) \<and>
     (if rc = -1 then \<not> grants_all ra
      else rc = 0 \<and> off = of_nat (length fr) \<and> reply_has hs es r' \<and> rp_alloc r' = rp_alloc r)"
  using reply_frame_ok [OF assms] .

definition demo_hs :: "(u64 \<times> u64) list" where
  "demo_hs = [(TNT_CODE, 0), (TNT_SYNC, 7), (TNT_SCHEMA_ID, 2)]"

definition demo_es :: "(u64 \<times> mval) list option" where
  "demo_es = Some [(TNT_DATA, VArr [VUint 1])]"

definition demo_reply :: bytes where
  "demo_reply = [0xce, 0, 0, 0, 11, 0x83, 0, 0, 1, 7, 5, 2, 0x81, 0x30, 0x91, 1]"

lemma demo_is_reply: "is_reply demo_hs demo_es demo_reply"
proof -
  let ?hb = "[0x83, 0, 0, 1, 7, 5, 2] :: bytes" and ?bb = "[0x81, 0x30, 0x91, 1] :: bytes"
  have "encodes (TMap (of_nat (length demo_hs)) # hdr_toks demo_hs) ?hb"
    by (simp add: encodes_def demo_hs_def hdr_toks_def proto_consts mp_tok.simps(2))
  moreover have "encodes (TMap 1 # body_toks [(TNT_DATA, VArr [VUint 1])]) ?bb"
    by (simp add: encodes_def body_toks_def proto_consts mp_tok.simps(2))
  moreover have "demo_reply = 0xce # be_bytes 4 (length (?hb @ ?bb)) @ ?hb @ ?bb"
    by (simp add: demo_reply_def be_bytes_4)
  moreover have "hdr_ok demo_hs" "body_ok (body_list demo_es)"
    by (auto simp: hdr_ok_def demo_hs_def body_ok_def body_list_def demo_es_def entry_ok_def is_arr_def proto_consts)
  ultimately show ?thesis
    unfolding is_reply_def by (intro conjI exI [of _ ?hb] exI [of _ ?bb]) (simp_all add: demo_es_def)
qed

theorem reply_parses_witness:
  "\<exists>r'. tnt_reply mp_ref (custom_realloc os_ok) (Some (zero_reply False)) demo_reply = Some (0, Some r', Some 16)
     \<and> rp_sync r' = 7 \<and> reply_has demo_hs demo_es r'"
proof -
  have l: "length (demo_reply @ []) < 2 ^ 63" "length demo_reply = 16" by (simp_all add: demo_reply_def)
  have y: "num_val demo_hs TNT_SYNC = 7" by (simp add: num_val_def last_val_def demo_hs_def proto_consts)
  from reply_parses [OF ref.msgpuck_laws_axioms libc_alloc.allocator_axioms [of os_ok] demo_is_reply l(1),
      of "zero_reply False"] obtain rc r' off where
    "tnt_reply mp_ref (custom_realloc os_ok) (Some (zero_reply False)) demo_reply = Some (rc, Some r', Some off)"
    "rc \<noteq> -1 \<and> rc = 0 \<and> off = 16 \<and> reply_has demo_hs demo_es r'"
    using os_ok_grants l(2) by (auto split: if_splits)
  then show ?thesis using y by (auto simp: reply_has_def)
qed

text \<open>C24. An incomplete reply is recognised and the caller is told exactly how much to read: on any
  proper prefix of a reply frame both \<open>tnt_reply\<close> and \<open>tnt_reply0\<close> return 1, leave the reply object
  alone, and set \<open>*off\<close> to the rest of the five-byte length while that is incomplete, and then to the
  exact number of missing bytes.\<close>

theorem reply_incomplete:
  assumes "msgpuck_laws mp" and "is_reply hs es fr" and "k < length fr"
  shows "tnt_reply mp ra r (take k fr) = Some (1, r, Some (of_nat (if k < 5 then 5 - k else length fr - k)))
     \<and> tnt_reply0 mp r (take k fr) = Some (1, r, Some (of_nat (if k < 5 then 5 - k else length fr - k)))"
proof -
  from assms(2) obtain hb bb where f: "fr = 0xce # be_bytes 4 (length (hb @ bb)) @ hb @ bb" "length (hb @ bb) < 2 ^ 32"
    by (rule is_replyE)
  have "tnt_reply_len mp (take k fr) = Some (1, of_nat (if k < 5 then 5 - k else length fr - k))"
  proof (cases "k < 5")
    case True
    then show ?thesis using assms(3) by (simp add: tnt_reply_len_def TNT_REPLY_IPROTO_HDR_SIZE_def)
  next
    case False
    then have t: "take k fr = 0xce # be_bytes 4 (length (hb @ bb)) @ take (k - 5) (hb @ bb)"
      by (simp add: f(1) take_Cons' del: be_bytes.simps)
    have l: "length (take (k - 5) (hb @ bb)) < length (hb @ bb)" "length (take (k - 5) (hb @ bb)) < 2 ^ 63"
      "length (hb @ bb) - length (take (k - 5) (hb @ bb)) = length fr - k"
      using assms(3) False f by auto
    show ?thesis
      unfolding t by (simp only: msgpuck_laws.reply_len_prefix [OF assms(1) f(2) l(2)] l(1,3) False if_True if_False)
  qed
  then show ?thesis by (simp add: tnt_reply_def tnt_reply0_def)
qed

theorem reply_incomplete_witness:
  "tnt_reply mp_ref (custom_realloc os_ok) None (take 9 demo_reply) = Some (1, None, Some 7)"
  using reply_incomplete [OF ref.msgpuck_laws_axioms demo_is_reply, of 9 "custom_realloc os_ok" None]
  by (simp add: demo_reply_def)

text \<open>C22. The two whole-reply parsers agree on every payload, well formed or not: with memory granted,
  \<open>tnt_reply\<close> (which copies the payload) and \<open>tnt_reply0\<close> on a zeroed reply (which points into the
  caller's buffer) are defined on the same inputs, return the same result, and on success set the
  same offset and the same fields except the copy itself.\<close>

theorem reply_reply0_agree:
  assumes "msgpuck_laws mp" and "allocator ra" and "grants_all ra" and "0 < length pay" and "length pay < 2 ^ 32"
    and "length (pay @ rest) < 2 ^ 63"
  defines "buf \<equiv> 0xce # be_bytes 4 (length pay) @ pay @ rest"
  shows "map_option (\<lambda>(rc, r', off). (rc, if rc = 0 then map_option strip_buf r' else None, if rc = 0 then off else None))
       (tnt_reply mp ra (Some r) buf) =
     map_option (\<lambda>(rc, r', off). (rc, if rc = 0 then r' else None, if rc = 0 then off else None))
       (tnt_reply0 mp (Some (zero_reply (rp_alloc r))) buf)"
proof -
  have env: "builder_env mp ra" using assms(1,2) by (rule builder_env.intro)
  let ?r0 = "(zero_reply (rp_alloc r))\<lparr>rp_buf := Blk pay, rp_buf_size := length pay\<rparr>"
  have z: "strip_buf ?r0 = zero_reply (rp_alloc r)" by (simp add: strip_buf_def zero_reply_def)
  note r0 = msgpuck_laws.reply0_frame_parse [OF assms(1,5,6), of "zero_reply (rp_alloc r)"]
  note st = payload_strip [of mp ?r0 pay, unfolded z]
  show ?thesis unfolding buf_def r0 st
    by (rule builder_env.reply_frame_parse [OF env assms(5,6,4), of r])
      (use assms(3) in simp, cases "parse_payload mp ?r0 pay", simp_all del: be_bytes.simps split: option.splits)
qed

theorem reply_reply0_agree_witness:
  "map_option (\<lambda>(rc, r', off). (rc, if rc = 0 then map_option strip_buf r' else None, if rc = 0 then off else None))
       (tnt_reply mp_ref (custom_realloc os_ok) (Some (zero_reply False)) [0xce, 0, 0, 0, 2, 0x80, 0xc1]) =
     map_option (\<lambda>(rc, r', off). (rc, if rc = 0 then r' else None, if rc = 0 then off else None))
       (tnt_reply0 mp_ref (Some (zero_reply False)) [0xce, 0, 0, 0, 2, 0x80, 0xc1])"
proof -
  let ?p = "[0x80, 0xc1] :: bytes"
  have p: "0 < length ?p" "length ?p < 2 ^ 32" "length (?p @ []) < 2 ^ 63" by simp_all
  show ?thesis
    using reply_reply0_agree [OF ref.msgpuck_laws_axioms libc_alloc.allocator_axioms os_ok_grants p, of "zero_reply False"]
    by (simp add: zero_owns be_bytes_4)
qed

text \<open>\<open>tnt_buf_reply\<close> reads replies off a stream buffer one by one: when the unread part of the buffer
  begins with a reply frame it is parsed, and the read offset moves to the byte after it, so the next
  call sees the next reply; the buffer contents are not changed.\<close>

theorem buf_reply_next:
  assumes "msgpuck_laws mp" and "allocator ra" and "s_data s = Some sb" and "sbuf_wf sb"
    and "drop (sb_rdoff sb) (sbuf_contents sb) = fr @ rest" and "is_reply hs es fr" and "length (fr @ rest) < 2 ^ 63"
  shows "\<exists>rc r' s'. tnt_buf_reply mp ra s r = Some (rc, s', r') \<and>
     (if rc = -1 then \<not> grants_all ra \<and> s' = s
      else rc = 0 \<and> reply_has hs es r' \<and> s' = s\<lparr>s_data := Some (sb\<lparr>sb_rdoff := sb_rdoff sb + length fr\<rparr>)\<rparr>)"
  using buf_reply_frame [OF assms] .

definition demo_reply_buf :: "unit buf_stream" where
  "demo_reply_buf = demo_buf\<lparr>s_data := Some \<lparr>sb_data = Blk (9 # demo_reply @ [1]), sb_size = 18, sb_alloc = 18,
     sb_rdoff = 1, sb_resize = Tnt_buf_resize, sb_free = False, sb_subdata = None, sb_as = False\<rparr>\<rparr>"

theorem buf_reply_next_witness:
  "\<exists>r' s'. tnt_buf_reply mp_ref (custom_realloc os_ok) demo_reply_buf (zero_reply False) = Some (0, s', r')
     \<and> reply_has demo_hs demo_es r'"
proof -
  let ?sb = "\<lparr>sb_data = Blk (9 # demo_reply @ [1]), sb_size = 18, sb_alloc = 18,
     sb_rdoff = 1, sb_resize = Tnt_buf_resize, sb_free = False, sb_subdata = None, sb_as = False\<rparr> :: unit tnt_stream_buf"
  have l: "length demo_reply = 16" by (simp add: demo_reply_def)
  have sb: "s_data demo_reply_buf = Some ?sb" "sbuf_wf ?sb" "drop (sb_rdoff ?sb) (sbuf_contents ?sb) = demo_reply @ [1]"
    "length (demo_reply @ [1]) < 2 ^ 63"
    by (simp_all add: demo_reply_buf_def sbuf_wf_def sbuf_contents_def l)
  from buf_reply_next [OF ref.msgpuck_laws_axioms libc_alloc.allocator_axioms [of os_ok] sb(1-3) demo_is_reply sb(4),
      of "zero_reply False"] os_ok_grants show ?thesis by (auto split: if_splits)
qed

text \<open>Replies to SQL statements cannot be parsed within the C standard: a body that holds the key
  \<open>TNT_SQL_INFO\<close> (0x42) makes \<open>tnt_reply_body0\<close> shift \<open>1ULL\<close> by 66.\<close>

theorem reply_sql_info_undefined:
  assumes "msgpuck_laws mp" and "vwf (VMap kvs)" and "encodes (TMap 1 # body_toks [(TNT_SQL_INFO, VMap kvs)]) buf"
  shows "tnt_reply_body0 mp r buf = None"
proof -
  note L = msgpuck_laws.peek_tok [OF assms(1)]
  let ?v = "VMap [(VUint TNT_SQL_INFO, VMap kvs)]"
  have "body_toks [(TNT_SQL_INFO, VMap kvs)] = TUint TNT_SQL_INFO # toks (VMap kvs)" by (simp add: body_toks_def)
  with assms(3) have e: "reads (TMap 1 # TUint TNT_SQL_INFO # toks (VMap kvs)) buf = Some []"
    by (simp only: encodes_def)
  from e obtain p where p: "mp_tok buf = Some (TMap 1, p)" "reads (TUint TNT_SQL_INFO # toks (VMap kvs)) p = Some []"
    by (rule reads_ConsE)
  from p(2) obtain q where q: "mp_tok p = Some (TUint TNT_SQL_INFO, q)" "reads (toks (VMap kvs)) q = Some []"
    by (rule reads_ConsE)
  from q(2) obtain u where u: "mp_tok q = Some (TMap (of_nat (length kvs)), u)"
    by (simp only: toks.simps) (rule reads_ConsE)
  have nx: "mp_next mp q = Some []"
    using mp_skip_value [OF assms(2) q(2)] by (simp add: msgpuck_laws.next_val [OF assms(1)])
  have ck: "mp_check mp buf = Some []"
    using mp_skip_value [of ?v buf "[]"] e assms(2) by (simp add: msgpuck_laws.check [OF assms(1)])
  show ?thesis
    using ck L [OF p(1)] L [OF u] p(1) q(1) nx
    by (simp add: tnt_reply_body0_def msgpuck_laws.dec_map [OF assms(1)] msgpuck_laws.dec_uint [OF assms(1)]
        body_entry_def Let_def proto_consts key_bit_def)
qed

theorem reply_sql_info_undefined_witness:
  "tnt_reply_body0 mp_ref None [0x81, 0x42, 0x81, 0, 1] = None"
  by (rule reply_sql_info_undefined [OF ref.msgpuck_laws_axioms, of "[(VUint 0, VUint 1)]"])
    (simp_all add: encodes_def body_toks_def proto_consts mp_tok.simps(2))

text \<open>C34. The length check of a reply can be defeated by its size arithmetic: for the nine-byte length
  prefix \<open>2^64 - 1\<close> the sum with the prefix size wraps around, and \<open>tnt_reply_len\<close> reports a complete
  reply of 4 bytes.\<close>

theorem reply_len_wraps:
  assumes "msgpuck_laws mp" and "length rest < 2 ^ 32"
  shows "tnt_reply_len mp (0xcf # [0xff, 0xff, 0xff, 0xff, 0xff, 0xff, 0xff, 0xff] @ rest) = Some (0, 4)"
proof -
  let ?m = "[0xff, 0xff, 0xff, 0xff, 0xff, 0xff, 0xff, 0xff] :: bytes"
  have t: "mp_tok (0xcf # ?m @ rest) = Some (TUint (- 1), rest)"
    by (simp add: mp_tok_marks(12) tk_num_def be_nat_def)
  have "unat (of_nat (length rest + 9) :: u64) = length rest + 9"
    using assms(2) by (intro unat_of_nat_u64) simp
  then have "\<not> (of_nat (length rest + 9) < (4 :: u64))" by (simp only: word_less_nat_alt) simp
  then have "\<not> (9 + of_nat (length rest) < (4 :: u64))" by (simp add: add.commute)
  then show ?thesis
    using msgpuck_laws.peek_tok [OF assms(1) t]
    by (simp add: tnt_reply_len_def TNT_REPLY_IPROTO_HDR_SIZE_def msgpuck_laws.dec_uint [OF assms(1)] t [simplified] Let_def)
qed

theorem reply_len_wraps_witness:
  "tnt_reply_len mp_ref (0xcf # [0xff, 0xff, 0xff, 0xff, 0xff, 0xff, 0xff, 0xff] @ [1]) = Some (0, 4)"
  by (rule reply_len_wraps [OF ref.msgpuck_laws_axioms]) simp

end
