(* ===== verification/Tnt_Iter.thy ===== *)
theory Tnt_Iter
  imports Tnt_Reply
begin

text \<open>
  Iterators, \<^verbatim>\<open>tnt/tnt_iter.c\<close> with the structures of \<^verbatim>\<open>tnt_iter.h\<close>: over the elements of a MessagePack
  array, over the pairs of a MessagePack map, and over the replies of a stream.

  A pointer into the iterated buffer is the list of bytes from there on (\<open>None\<close> for \<open>NULL\<close>), a
  (data, size) argument the list of its bytes (empty for \<open>NULL\<close>).  The callbacks of an iterator are
  names of the functions the constructors install, and \<open>tnt_next\<close>, \<open>tnt_rewind\<close> and \<open>tnt_iter_free\<close>
  dispatch on them.  The union of iterator states is a datatype; reading a member that was not
  written is undefined.  \<open>cur_index\<close> is a C \<open>int\<close>: incrementing it past \<open>INT_MAX\<close> is undefined.
  A reply iterator owns the state of its stream and calls the stream's \<open>read_reply\<close>, an argument.

  The locale \<open>cursor\<close> is what a client of an iterator relies on: \<open>next\<close> shows the items still due one
  by one and then returns 0.
\<close>

datatype tnt_iter_type = TNT_ITER_ARRAY | TNT_ITER_MAP | TNT_ITER_REPLY

datatype tnt_iter_status = TNT_ITER_OK | TNT_ITER_FAIL

record iter_array_st =
  ia_data :: "bytes option"
  ia_first_elem :: "bytes option"
  ia_elem :: "bytes option"
  ia_elem_end :: "bytes option"
  ia_elem_count :: u32
  ia_cur_index :: int

record iter_map_st =
  im_data :: "bytes option"
  im_first_key :: "bytes option"
  im_key :: "bytes option"
  im_key_end :: "bytes option"
  im_value :: "bytes option"
  im_value_end :: "bytes option"
  im_pair_count :: u32
  im_cur_index :: int

record 's iter_reply_st =
  ir_s :: 's
  ir_r :: reply_struct

datatype 's iter_data = IterZero | IterArray iter_array_st | IterMap iter_map_st
  | IterReply "'s iter_reply_st"

datatype iter_next_fn = Array_next | Map_next | Reply_next
datatype iter_rewind_fn = Array_rewind | Map_rewind
datatype iter_free_fn = Reply_free

record 's tnt_iter =
  it_type :: tnt_iter_type
  it_status :: tnt_iter_status
  it_alloc :: bool
  it_next :: "iter_next_fn option"
  it_rewind :: "iter_rewind_fn option"
  it_free :: "iter_free_fn option"
  it_data :: "'s iter_data"

type_synonym 's read_reply_fn = "'s \<Rightarrow> reply_struct \<Rightarrow> (int \<times> 's \<times> reply_struct) option"

definition INT_MAX :: int where "INT_MAX = 2147483647"

definition sizeof_tnt_iter :: nat where "sizeof_tnt_iter = 176"

text \<open>\<open>memset\<close> leaves every field zero; the first enumerators are zero.\<close>

definition tnt_iter_init :: "realloc_fn \<Rightarrow> 's tnt_iter option \<Rightarrow> 's tnt_iter option option" where
  "tnt_iter_init ra i = (
     let zero = \<lparr>it_type = TNT_ITER_ARRAY, it_status = TNT_ITER_OK, it_alloc = (i = None), it_next = None,
        it_rewind = None, it_free = None, it_data = IterZero\<rparr> in
     if i = None then do {
       p \<leftarrow> tnt_mem_alloc ra sizeof_tnt_iter;
       Some (if p = NULLP then None else Some zero) }
     else Some (Some zero))"

section \<open>Arrays\<close>

definition tnt_iter_array_next :: "msgpuck \<Rightarrow> 's tnt_iter \<Rightarrow> (int \<times> 's tnt_iter) option" where
  "tnt_iter_array_next mp i = (case it_data i of
      IterArray itr \<Rightarrow>
        if ia_cur_index itr = INT_MAX then None
        else do {
          let itr = itr\<lparr>ia_cur_index := ia_cur_index itr + 1\<rparr>;
          if (of_int (ia_cur_index itr) :: u32) \<ge> ia_elem_count itr
          then Some (0, i\<lparr>it_data := IterArray itr, it_status := TNT_ITER_FAIL\<rparr>)
          else do {
            let itr = itr\<lparr>ia_elem := if ia_cur_index itr = 0 then ia_first_elem itr else ia_elem_end itr\<rparr>;
            let itr = itr\<lparr>ia_elem_end := ia_elem itr\<rparr>;
            p \<leftarrow> ia_elem_end itr;
            q \<leftarrow> mp_next mp p;
            Some (1, i\<lparr>it_data := IterArray (itr\<lparr>ia_elem_end := Some q\<rparr>)\<rparr>) } }
    | _ \<Rightarrow> None)"

definition tnt_iter_array_rewind :: "'s tnt_iter \<Rightarrow> 's tnt_iter option" where
  "tnt_iter_array_rewind i = (case it_data i of
      IterArray itr \<Rightarrow> Some (i\<lparr>it_data := IterArray (itr\<lparr>ia_cur_index := -1, ia_elem := None, ia_elem_end := None\<rparr>),
         it_status := TNT_ITER_OK\<rparr>)
    | _ \<Rightarrow> None)"

definition tnt_iter_array :: "msgpuck \<Rightarrow> realloc_fn \<Rightarrow> 's tnt_iter option \<Rightarrow> bytes \<Rightarrow> 's tnt_iter option option" where
  "tnt_iter_array mp ra i data = (case mp_check mp data of
      None \<Rightarrow> Some None
    | Some _ \<Rightarrow>
        if data = [] then Some None
        else do {
          ty \<leftarrow> peek mp data;
          if ty \<noteq> MP_ARRAY then Some None
          else do {
            i \<leftarrow> tnt_iter_init ra i;
            (case i of
               None \<Rightarrow> Some None
             | Some i \<Rightarrow> do {
                 (n, first) \<leftarrow> mp_decode_array mp data;
                 Some (Some (i\<lparr>it_type := TNT_ITER_ARRAY, it_next := Some Array_next, it_rewind := Some Array_rewind,
                   it_free := None, it_data := IterArray \<lparr>ia_data = Some data, ia_first_elem = Some first,
                     ia_elem = None, ia_elem_end = None, ia_elem_count = n, ia_cur_index = -1\<rparr>\<rparr>)) }) } })"

text \<open>The bytes a stream buffer holds, \<open>TNT_SBUF_DATA\<close> and \<open>TNT_SBUF_SIZE\<close>.\<close>

definition sbuf_slice :: "'t buf_stream \<Rightarrow> bytes option" where
  "sbuf_slice s = do {
     sb \<leftarrow> s_data s;
     (case sb_data sb of
        NULLP \<Rightarrow> if sb_size sb = 0 then Some [] else None
      | Blk d \<Rightarrow> if sb_size sb \<le> length d then Some (take (sb_size sb) d) else None
      | Freed \<Rightarrow> None) }"

definition tnt_iter_array_object :: "msgpuck \<Rightarrow> realloc_fn \<Rightarrow> 's tnt_iter option \<Rightarrow> 't buf_stream
    \<Rightarrow> 's tnt_iter option option" where
  "tnt_iter_array_object mp ra i s = do { d \<leftarrow> sbuf_slice s; tnt_iter_array mp ra i d }"

section \<open>Maps\<close>

definition tnt_iter_map_next :: "msgpuck \<Rightarrow> 's tnt_iter \<Rightarrow> (int \<times> 's tnt_iter) option" where
  "tnt_iter_map_next mp i = (case it_data i of
      IterMap itr \<Rightarrow>
        if im_cur_index itr = INT_MAX then None
        else do {
          let itr = itr\<lparr>im_cur_index := im_cur_index itr + 1\<rparr>;
          if (of_int (im_cur_index itr) :: u32) \<ge> im_pair_count itr
          then Some (0, i\<lparr>it_data := IterMap itr, it_status := TNT_ITER_FAIL\<rparr>)
          else do {
            let itr = itr\<lparr>im_key := if im_cur_index itr = 0 then im_first_key itr else im_value_end itr\<rparr>;
            p \<leftarrow> im_key itr;
            q \<leftarrow> mp_next mp p;
            let itr = itr\<lparr>im_key_end := Some q, im_value := Some q\<rparr>;
            r \<leftarrow> mp_next mp q;
            Some (1, i\<lparr>it_data := IterMap (itr\<lparr>im_value_end := Some r\<rparr>)\<rparr>) } }
    | _ \<Rightarrow> None)"

definition tnt_iter_map_rewind :: "'s tnt_iter \<Rightarrow> 's tnt_iter option" where
  "tnt_iter_map_rewind i = (case it_data i of
      IterMap itr \<Rightarrow> Some (i\<lparr>it_data := IterMap (itr\<lparr>im_cur_index := -1, im_key := None, im_key_end := None,
         im_value := None, im_value_end := None\<rparr>), it_status := TNT_ITER_OK\<rparr>)
    | _ \<Rightarrow> None)"

definition tnt_iter_map :: "msgpuck \<Rightarrow> realloc_fn \<Rightarrow> 's tnt_iter option \<Rightarrow> bytes \<Rightarrow> 's tnt_iter option option" where
  "tnt_iter_map mp ra i data = (case mp_check mp data of
      None \<Rightarrow> Some None
    | Some _ \<Rightarrow>
        if data = [] then Some None
        else do {
          ty \<leftarrow> peek mp data;
          if ty \<noteq> MP_MAP then Some None
          else do {
            i \<leftarrow> tnt_iter_init ra i;
            (case i of
               None \<Rightarrow> Some None
             | Some i \<Rightarrow> do {
                 (n, first) \<leftarrow> mp_decode_map mp data;
                 Some (Some (i\<lparr>it_type := TNT_ITER_MAP, it_next := Some Map_next, it_rewind := Some Map_rewind,
                   it_free := None, it_data := IterMap \<lparr>im_data = Some data, im_first_key = Some first,
                     im_key = None, im_key_end = None, im_value = None, im_value_end = None,
                     im_pair_count = n, im_cur_index = -1\<rparr>\<rparr>)) }) } })"

definition tnt_iter_map_object :: "msgpuck \<Rightarrow> realloc_fn \<Rightarrow> 's tnt_iter option \<Rightarrow> 't buf_stream
    \<Rightarrow> 's tnt_iter option option" where
  "tnt_iter_map_object mp ra i s = do { d \<leftarrow> sbuf_slice s; tnt_iter_map mp ra i d }"

section \<open>Replies\<close>

text \<open>\<open>tnt_reply_free\<close> and \<open>tnt_reply_init\<close> on the embedded reply; \<open>init\<close> clears \<open>alloc\<close>.\<close>

definition tnt_iter_reply_next :: "realloc_fn \<Rightarrow> 's read_reply_fn \<Rightarrow> 's tnt_iter \<Rightarrow> (int \<times> 's tnt_iter) option" where
  "tnt_iter_reply_next ra rr i = (case it_data i of
      IterReply ir \<Rightarrow> do {
        freed \<leftarrow> tnt_reply_free ra (ir_r ir);
        r0 \<leftarrow> freed;
        inited \<leftarrow> tnt_reply_init ra (Some r0);
        r1 \<leftarrow> inited;
        (rc, s, r) \<leftarrow> rr (ir_s ir) r1;
        let i = i\<lparr>it_data := IterReply (ir\<lparr>ir_s := s, ir_r := r\<rparr>)\<rparr>;
        Some (if rc = -1 then (0, i\<lparr>it_status := TNT_ITER_FAIL\<rparr>)
              else if rc = 1 then (0, i) else (1, i)) }
    | _ \<Rightarrow> None)"

definition tnt_iter_reply_free :: "realloc_fn \<Rightarrow> 's tnt_iter \<Rightarrow> 's tnt_iter option" where
  "tnt_iter_reply_free ra i = (case it_data i of
      IterReply ir \<Rightarrow> do {
        freed \<leftarrow> tnt_reply_free ra (ir_r ir);
        r0 \<leftarrow> freed;
        Some (i\<lparr>it_data := IterReply (ir\<lparr>ir_r := r0\<rparr>)\<rparr>) }
    | _ \<Rightarrow> None)"

definition tnt_iter_reply :: "realloc_fn \<Rightarrow> 's tnt_iter option \<Rightarrow> 's \<Rightarrow> 's tnt_iter option option" where
  "tnt_iter_reply ra i s = do {
     i \<leftarrow> tnt_iter_init ra i;
     (case i of
        None \<Rightarrow> Some None
      | Some i \<Rightarrow> do {
          inited \<leftarrow> tnt_reply_init ra (Some (zero_reply False));
          r \<leftarrow> inited;
          Some (Some (i\<lparr>it_type := TNT_ITER_REPLY, it_next := Some Reply_next, it_rewind := None,
            it_free := Some Reply_free, it_data := IterReply \<lparr>ir_s = s, ir_r = r\<rparr>\<rparr>)) }) }"

section \<open>Dispatch\<close>

text \<open>\<open>tnt_iter_free\<close>: the iterator that remains (\<open>None\<close> when it was allocated and is gone).\<close>

definition tnt_iter_free :: "realloc_fn \<Rightarrow> 's tnt_iter \<Rightarrow> 's tnt_iter option option" where
  "tnt_iter_free ra i = do {
     i \<leftarrow> (case it_free i of Some Reply_free \<Rightarrow> tnt_iter_reply_free ra i | None \<Rightarrow> Some i);
     Some (if it_alloc i then None else Some i) }"

definition tnt_next :: "msgpuck \<Rightarrow> realloc_fn \<Rightarrow> 's read_reply_fn \<Rightarrow> 's tnt_iter \<Rightarrow> (int \<times> 's tnt_iter) option" where
  "tnt_next mp ra rr i = (case it_next i of
      Some Array_next \<Rightarrow> tnt_iter_array_next mp i
    | Some Map_next \<Rightarrow> tnt_iter_map_next mp i
    | Some Reply_next \<Rightarrow> tnt_iter_reply_next ra rr i
    | None \<Rightarrow> None)"

definition tnt_rewind :: "'s tnt_iter \<Rightarrow> 's tnt_iter option" where
  "tnt_rewind i = (let i = i\<lparr>it_status := TNT_ITER_OK\<rparr> in case it_rewind i of
      Some Array_rewind \<Rightarrow> tnt_iter_array_rewind i
    | Some Map_rewind \<Rightarrow> tnt_iter_map_rewind i
    | None \<Rightarrow> Some i)"

section \<open>The contract of an iterator\<close>

text \<open>The client's loop \<^verbatim>\<open>while (tnt_next(it)) ...\<close>: the iterator after every successful step, and the
  iterator at the end.  The fuel bounds the number of calls; running out of it gives \<open>None\<close>.\<close>

primrec drain :: "('i \<Rightarrow> (int \<times> 'i) option) \<Rightarrow> nat \<Rightarrow> 'i \<Rightarrow> ('i list \<times> 'i) option" where
  "drain step 0 i = None"
| "drain step (Suc n) i = do {
     (rc, j) \<leftarrow> step i;
     if rc = 0 then Some ([], j)
     else do { (js, k) \<leftarrow> drain step n j; Some (j # js, k) } }"

lemma drain_step:
  "step i = Some (1, j) \<Longrightarrow> drain step n j = Some (js, k) \<Longrightarrow> drain step (Suc n) i = Some (j # js, k)"
  by simp

locale cursor =
  fixes step :: "'i \<Rightarrow> (int \<times> 'i) option"
    and at_item :: "'x \<Rightarrow> 'i \<Rightarrow> bool"
    and todo :: "'x list \<Rightarrow> 'i \<Rightarrow> bool"
    and ended :: "'i \<Rightarrow> bool"
  assumes step_item: "todo (x # xs) i \<Longrightarrow> \<exists>j. step i = Some (1, j) \<and> at_item x j \<and> todo xs j"
    and step_end: "todo [] i \<Longrightarrow> \<exists>j. step i = Some (0, j) \<and> ended j"
begin

text \<open>The client's loop visits exactly the items due, in order, and stops.\<close>

lemma drain_all:
  "todo xs i \<Longrightarrow> \<exists>js k. drain step (Suc (length xs)) i = Some (js, k) \<and> list_all2 at_item xs js \<and> ended k"
proof (induction xs arbitrary: i)
  case Nil
  then show ?case using step_end by force
next
  case (Cons x xs)
  from step_item [OF Cons.prems] obtain j where j: "step i = Some (1, j)" "at_item x j" "todo xs j" by blast
  from Cons.IH [OF j(3)] obtain js k where
    "drain step (Suc (length xs)) j = Some (js, k)" "list_all2 at_item xs js" "ended k" by blast
  with drain_step [of step i j, OF j(1)] j(2) show ?case by (metis length_Cons list_all2_Cons)
qed

end

section \<open>Arrays and maps as cursors\<close>

definition arr_at :: "mval \<Rightarrow> 's tnt_iter \<Rightarrow> bool" where
  "arr_at v i \<longleftrightarrow> (\<exists>itr e q. it_data i = IterArray itr \<and> ia_elem itr = Some e \<and> ia_elem_end itr = Some q
     \<and> encodes (toks v) (between e q))"

definition arr_home :: "bytes \<Rightarrow> nat \<Rightarrow> 's tnt_iter \<Rightarrow> bool" where
  "arr_home f n i \<longleftrightarrow> it_next i = Some Array_next \<and> it_rewind i = Some Array_rewind \<and> it_free i = None
     \<and> (\<exists>itr. it_data i = IterArray itr \<and> ia_first_elem itr = Some f \<and> ia_elem_count itr = of_nat n) \<and> n < 2 ^ 31"

definition arr_todo :: "bytes \<Rightarrow> nat \<Rightarrow> mval list \<Rightarrow> 's tnt_iter \<Rightarrow> bool" where
  "arr_todo f n vs i \<longleftrightarrow> arr_home f n i \<and> (\<forall>v \<in> set vs. vwf v) \<and>
     (\<exists>itr p. it_data i = IterArray itr \<and> -1 \<le> ia_cur_index itr
        \<and> ia_cur_index itr + 1 + int (length vs) = int n
        \<and> (if ia_cur_index itr = -1 then ia_first_elem itr else ia_elem_end itr) = Some p
        \<and> reads (concat (map toks vs)) p \<noteq> None)"

definition arr_ended :: "bytes \<Rightarrow> nat \<Rightarrow> 's tnt_iter \<Rightarrow> bool" where
  "arr_ended f n i \<longleftrightarrow> arr_home f n i \<and> it_status i = TNT_ITER_FAIL"

definition pair_toks :: "mval \<times> mval \<Rightarrow> tok list" where
  "pair_toks kv = toks (fst kv) @ toks (snd kv)"

definition map_at :: "mval \<times> mval \<Rightarrow> 's tnt_iter \<Rightarrow> bool" where
  "map_at kv i \<longleftrightarrow> (\<exists>itr p q v r. it_data i = IterMap itr \<and> im_key itr = Some p \<and> im_key_end itr = Some q
     \<and> im_value itr = Some v \<and> im_value_end itr = Some r
     \<and> encodes (toks (fst kv)) (between p q) \<and> encodes (toks (snd kv)) (between v r))"

definition map_home :: "bytes \<Rightarrow> nat \<Rightarrow> 's tnt_iter \<Rightarrow> bool" where
  "map_home f n i \<longleftrightarrow> it_next i = Some Map_next \<and> it_rewind i = Some Map_rewind \<and> it_free i = None
     \<and> (\<exists>itr. it_data i = IterMap itr \<and> im_first_key itr = Some f \<and> im_pair_count itr = of_nat n) \<and> n < 2 ^ 31"

definition map_todo :: "bytes \<Rightarrow> nat \<Rightarrow> (mval \<times> mval) list \<Rightarrow> 's tnt_iter \<Rightarrow> bool" where
  "map_todo f n kvs i \<longleftrightarrow> map_home f n i \<and> (\<forall>kv \<in> set kvs. vwf (fst kv) \<and> vwf (snd kv)) \<and>
     (\<exists>itr p. it_data i = IterMap itr \<and> -1 \<le> im_cur_index itr
        \<and> im_cur_index itr + 1 + int (length kvs) = int n
        \<and> (if im_cur_index itr = -1 then im_first_key itr else im_value_end itr) = Some p
        \<and> reads (concat (map pair_toks kvs)) p \<noteq> None)"

definition map_ended :: "bytes \<Rightarrow> nat \<Rightarrow> 's tnt_iter \<Rightarrow> bool" where
  "map_ended f n i \<longleftrightarrow> map_home f n i \<and> it_status i = TNT_ITER_FAIL"

lemma index_word_le:
  assumes "0 \<le> c" and "c < 2 ^ 31" and "n < 2 ^ 31"
  shows "(of_nat n :: u32) \<le> of_int c \<longleftrightarrow> int n \<le> c"
proof -
  obtain m where m: "c = int m" using assms(1) nonneg_int_cases by blast
  have "unat (of_nat n :: u32) = n" "unat (of_nat m :: u32) = m"
    using assms by (auto intro!: unat_of_nat_u32 simp: m)
  then show ?thesis by (simp add: word_le_nat_alt m)
qed

lemma reads_concat_Cons:
  assumes "reads (concat (map f (x # xs))) p \<noteq> None"
  obtains q where "reads (f x) p = Some q" "reads (concat (map f xs)) q \<noteq> None"
  using assms by (auto simp: reads_append split: option.splits)

context msgpuck_laws
begin

lemma next_reads: "vwf v \<Longrightarrow> reads (toks v) p = Some q \<Longrightarrow> mp_next mp p = Some q"
  using mp_skip_value by (simp add: next_val)

lemma array_cursor: "cursor (tnt_next mp ra rr) arr_at (arr_todo f n) (arr_ended f n)"
proof
  fix v vs and i :: "'a tnt_iter"
  assume t: "arr_todo f n (v # vs) i"
  then obtain itr p where i: "it_data i = IterArray itr" "-1 \<le> ia_cur_index itr"
      "ia_cur_index itr + 1 + int (length (v # vs)) = int n"
      "(if ia_cur_index itr = -1 then ia_first_elem itr else ia_elem_end itr) = Some p"
      "reads (concat (map toks (v # vs))) p \<noteq> None"
    and h: "arr_home f n i" and w: "vwf v" "\<forall>v \<in> set vs. vwf v" by (auto simp: arr_todo_def)
  from i(5) obtain q where q: "reads (toks v) p = Some q" "reads (concat (map toks vs)) q \<noteq> None"
    by (rule reads_concat_Cons)
  have n: "n < 2 ^ 31" "ia_elem_count itr = of_nat n" using h i(1) by (auto simp: arr_home_def)
  have c: "ia_cur_index itr \<noteq> INT_MAX" "ia_cur_index itr + 1 < int n" using i(2,3) n(1) by (auto simp: INT_MAX_def)
  have le: "\<not> of_nat n \<le> (of_int (ia_cur_index itr + 1) :: u32)"
    by (subst index_word_le) (use c i(2) n(1) in auto)
  let ?itr = "itr\<lparr>ia_cur_index := ia_cur_index itr + 1, ia_elem := Some p, ia_elem_end := Some q\<rparr>"
  let ?j = "i\<lparr>it_data := IterArray ?itr\<rparr>"
  have "(if ia_cur_index itr + 1 = 0 then ia_first_elem itr else ia_elem_end itr) = Some p"
    using i(4) by (auto split: if_splits)
  then have "tnt_next mp ra rr i = Some (1, ?j)"
    using h c(1) le next_reads [OF w(1) q(1)] n(2)
    by (cases "ia_cur_index itr + 1 = 0") (auto simp: tnt_next_def arr_home_def tnt_iter_array_next_def i(1) Let_def)
  moreover have "arr_at v ?j" using reads_between [OF q(1)] by (auto simp: arr_at_def)
  moreover have "arr_todo f n vs ?j"
    using h i q(2) w(2) by (auto simp: arr_todo_def arr_home_def)
  ultimately show "\<exists>j. tnt_next mp ra rr i = Some (1, j) \<and> arr_at v j \<and> arr_todo f n vs j" by blast
next
  fix i :: "'a tnt_iter"
  assume "arr_todo f n [] i"
  then obtain itr where i: "it_data i = IterArray itr" "-1 \<le> ia_cur_index itr" "ia_cur_index itr + 1 = int n"
    and h: "arr_home f n i" by (auto simp: arr_todo_def)
  have n: "n < 2 ^ 31" "ia_elem_count itr = of_nat n" using h i(1) by (auto simp: arr_home_def)
  have "ia_cur_index itr \<noteq> INT_MAX" using i(3) n(1) by (auto simp: INT_MAX_def)
  then have "tnt_next mp ra rr i = Some (0, i\<lparr>it_data := IterArray (itr\<lparr>ia_cur_index := int n\<rparr>), it_status := TNT_ITER_FAIL\<rparr>)"
    using h n(2) by (simp add: tnt_next_def arr_home_def tnt_iter_array_next_def i Let_def)
  moreover have "arr_ended f n (i\<lparr>it_data := IterArray (itr\<lparr>ia_cur_index := int n\<rparr>), it_status := TNT_ITER_FAIL\<rparr>)"
    using h i(1) by (auto simp: arr_ended_def arr_home_def)
  ultimately show "\<exists>j. tnt_next mp ra rr i = Some (0, j) \<and> arr_ended f n j" by blast
qed

lemma map_cursor: "cursor (tnt_next mp ra rr) map_at (map_todo f n) (map_ended f n)"
proof
  fix kv kvs and i :: "'a tnt_iter"
  assume t: "map_todo f n (kv # kvs) i"
  then obtain itr p where i: "it_data i = IterMap itr" "-1 \<le> im_cur_index itr"
      "im_cur_index itr + 1 + int (length (kv # kvs)) = int n"
      "(if im_cur_index itr = -1 then im_first_key itr else im_value_end itr) = Some p"
      "reads (concat (map pair_toks (kv # kvs))) p \<noteq> None"
    and h: "map_home f n i" and w: "vwf (fst kv)" "vwf (snd kv)" "\<forall>kv \<in> set kvs. vwf (fst kv) \<and> vwf (snd kv)"
    by (auto simp: map_todo_def)
  from i(5) obtain r where "reads (pair_toks kv) p = Some r" and r: "reads (concat (map pair_toks kvs)) r \<noteq> None"
    by (rule reads_concat_Cons)
  then obtain q where q: "reads (toks (fst kv)) p = Some q" "reads (toks (snd kv)) q = Some r"
    by (auto simp: pair_toks_def reads_append split: option.splits)
  have n: "n < 2 ^ 31" "im_pair_count itr = of_nat n" using h i(1) by (auto simp: map_home_def)
  have c: "im_cur_index itr \<noteq> INT_MAX" "im_cur_index itr + 1 < int n" using i(2,3) n(1) by (auto simp: INT_MAX_def)
  have le: "\<not> of_nat n \<le> (of_int (im_cur_index itr + 1) :: u32)"
    by (subst index_word_le) (use c i(2) n(1) in auto)
  let ?itr = "itr\<lparr>im_cur_index := im_cur_index itr + 1, im_key := Some p, im_key_end := Some q, im_value := Some q,
     im_value_end := Some r\<rparr>"
  let ?j = "i\<lparr>it_data := IterMap ?itr\<rparr>"
  have "(if im_cur_index itr + 1 = 0 then im_first_key itr else im_value_end itr) = Some p"
    using i(4) by (auto split: if_splits)
  then have "tnt_next mp ra rr i = Some (1, ?j)"
    using h c(1) le next_reads [OF w(1) q(1)] next_reads [OF w(2) q(2)] n(2)
    by (cases "im_cur_index itr + 1 = 0") (auto simp: tnt_next_def map_home_def tnt_iter_map_next_def i(1) Let_def)
  moreover have "map_at kv ?j" using reads_between [OF q(1)] reads_between [OF q(2)] by (auto simp: map_at_def)
  moreover have "map_todo f n kvs ?j"
    using h i r w(3) by (auto simp: map_todo_def map_home_def)
  ultimately show "\<exists>j. tnt_next mp ra rr i = Some (1, j) \<and> map_at kv j \<and> map_todo f n kvs j" by blast
next
  fix i :: "'a tnt_iter"
  assume "map_todo f n [] i"
  then obtain itr where i: "it_data i = IterMap itr" "-1 \<le> im_cur_index itr" "im_cur_index itr + 1 = int n"
    and h: "map_home f n i" by (auto simp: map_todo_def)
  have n: "n < 2 ^ 31" "im_pair_count itr = of_nat n" using h i(1) by (auto simp: map_home_def)
  have "im_cur_index itr \<noteq> INT_MAX" using i(3) n(1) by (auto simp: INT_MAX_def)
  then have "tnt_next mp ra rr i = Some (0, i\<lparr>it_data := IterMap (itr\<lparr>im_cur_index := int n\<rparr>), it_status := TNT_ITER_FAIL\<rparr>)"
    using h n(2) by (simp add: tnt_next_def map_home_def tnt_iter_map_next_def i Let_def)
  moreover have "map_ended f n (i\<lparr>it_data := IterMap (itr\<lparr>im_cur_index := int n\<rparr>), it_status := TNT_ITER_FAIL\<rparr>)"
    using h i(1) by (auto simp: map_ended_def map_home_def)
  ultimately show "\<exists>j. tnt_next mp ra rr i = Some (0, j) \<and> map_ended f n j" by blast
qed

text \<open>A new or rewound iterator has every element due.\<close>

lemma array_start:
  assumes "vwf (VArr vs)" and "length vs < 2 ^ 31" and "encodes (toks (VArr vs)) buf" and "tnt_iter_init ra i0 = Some (Some i)"
  obtains it f where "tnt_iter_array mp ra i0 buf = Some (Some it)" "arr_todo f (length vs) vs it"
    "reads (concat (map toks vs)) f \<noteq> None"
proof -
  from assms(3) have "reads (toks (VArr vs)) buf = Some []" by (simp only: encodes_def)
  moreover then obtain f where f: "mp_tok buf = Some (TArr (of_nat (length vs)), f)" "reads (concat (map toks vs)) f = Some []"
    by (simp only: toks.simps) (rule reads_ConsE)
  moreover have "mp_check mp buf = Some []" using mp_skip_value [OF assms(1)] calculation(1) by (simp add: check)
  moreover have "buf \<noteq> []" using f(1) by auto
  ultimately show thesis using peek_tok [OF f(1)] assms
    by (intro that [of _ f]) (auto simp: f(2) tnt_iter_array_def dec_array arr_todo_def arr_home_def)
qed

lemma map_start:
  assumes "vwf (VMap kvs)" and "encodes (toks (VMap kvs)) buf" and "tnt_iter_init ra i0 = Some (Some i)"
  obtains it f where "tnt_iter_map mp ra i0 buf = Some (Some it)" "map_todo f (length kvs) kvs it"
    "reads (concat (map pair_toks kvs)) f \<noteq> None"
proof -
  have eq: "(\<lambda>(k, v). toks k @ toks v) = pair_toks" by (auto simp: pair_toks_def)
  from assms(2) have "reads (toks (VMap kvs)) buf = Some []" by (simp only: encodes_def)
  moreover then obtain f where f: "mp_tok buf = Some (TMap (of_nat (length kvs)), f)" "reads (concat (map pair_toks kvs)) f = Some []"
    by (simp only: toks.simps eq) (rule reads_ConsE)
  moreover have "mp_check mp buf = Some []" using mp_skip_value [OF assms(1)] calculation(1) by (simp add: check)
  moreover have "buf \<noteq> []" using f(1) by auto
  ultimately show thesis using peek_tok [OF f(1)] assms
    by (intro that [of _ f]) (auto simp: f(2) tnt_iter_map_def dec_map map_todo_def map_home_def)
qed

end

lemma array_rewind:
  assumes "arr_ended f n k" and "\<forall>v \<in> set vs. vwf v" and "n = length vs" and "reads (concat (map toks vs)) f \<noteq> None"
  obtains k' where "tnt_rewind k = Some k'" "it_status k' = TNT_ITER_OK" "arr_todo f n vs k'"
  using assms by (auto simp: arr_ended_def arr_home_def tnt_rewind_def tnt_iter_array_rewind_def arr_todo_def Let_def)

lemma map_rewind:
  assumes "map_ended f n k" and "\<forall>kv \<in> set kvs. vwf (fst kv) \<and> vwf (snd kv)" and "n = length kvs"
    and "reads (concat (map pair_toks kvs)) f \<noteq> None"
  obtains k' where "tnt_rewind k = Some k'" "it_status k' = TNT_ITER_OK" "map_todo f n kvs k'"
  using assms by (auto simp: map_ended_def map_home_def tnt_rewind_def tnt_iter_map_rewind_def map_todo_def Let_def)

section \<open>Replies as a cursor\<close>

definition rep_at :: "(u64 \<times> u64) list \<times> (u64 \<times> mval) list option \<Rightarrow> 's tnt_iter \<Rightarrow> bool" where
  "rep_at x i \<longleftrightarrow> (\<exists>ir. it_data i = IterReply ir \<and> reply_has (fst x) (snd x) (ir_r ir))"

definition rep_todo :: "((u64 \<times> u64) list \<times> (u64 \<times> mval) list option) list \<Rightarrow> 't buf_stream tnt_iter \<Rightarrow> bool" where
  "rep_todo xs i \<longleftrightarrow> it_next i = Some Reply_next \<and> it_status i = TNT_ITER_OK \<and>
     (\<exists>ir sb frs. it_data i = IterReply ir \<and> rp_buf (ir_r ir) \<noteq> Freed \<and> \<not> rp_alloc (ir_r ir)
        \<and> s_data (ir_s ir) = Some sb \<and> sbuf_wf sb \<and> sb_data sb \<noteq> NULLP
        \<and> list_all2 (\<lambda>x fr. is_reply (fst x) (snd x) fr) xs frs
        \<and> drop (sb_rdoff sb) (sbuf_contents sb) = concat frs \<and> length (concat frs) < 2 ^ 63)"

definition rep_ended :: "'s tnt_iter \<Rightarrow> bool" where
  "rep_ended i \<longleftrightarrow> it_status i = TNT_ITER_OK"

lemma sbuf_wf_rdoff:
  "sbuf_wf sb \<Longrightarrow> drop (sb_rdoff sb) (sbuf_contents sb) = xs @ ys \<Longrightarrow> sbuf_wf (sb\<lparr>sb_rdoff := sb_rdoff sb + length xs\<rparr>)"
  by (drule arg_cong [where f = length]) (auto simp: sbuf_wf_def sbuf_contents_def split: cptr.splits)

lemma reply_refresh:
  assumes "allocator ra" and "rp_buf r \<noteq> Freed" and "\<not> rp_alloc r"
  shows "do { freed \<leftarrow> tnt_reply_free ra r; r0 \<leftarrow> freed; inited \<leftarrow> tnt_reply_init ra (Some r0); inited } = Some (zero_reply False)"
  using assms allocator.mem_free_live [OF assms(1)] by (cases "rp_buf r") (auto simp: tnt_reply_free_def tnt_reply_init_def)

lemma reply_next_step:
  assumes "allocator ra" and "it_next i = Some Reply_next" and "it_data i = IterReply ir"
    and "rp_buf (ir_r ir) \<noteq> Freed" and "\<not> rp_alloc (ir_r ir)" and "rr (ir_s ir) (zero_reply False) = Some (rc, s', r')"
  shows "tnt_next mp ra rr i = Some (let i = i\<lparr>it_data := IterReply (ir\<lparr>ir_s := s', ir_r := r'\<rparr>)\<rparr> in
       if rc = -1 then (0, i\<lparr>it_status := TNT_ITER_FAIL\<rparr>) else if rc = 1 then (0, i) else (1, i))"
proof -
  obtain r0 where "tnt_reply_free ra (ir_r ir) = Some (Some r0)" "tnt_reply_init ra (Some r0) = Some (Some (zero_reply False))"
    using reply_refresh [OF assms(1,4,5)] by (auto simp: bind_eq_Some_conv)
  with assms(2,3,6) show ?thesis by (simp add: tnt_next_def tnt_iter_reply_next_def Let_def)
qed

lemma reply_cursor:
  assumes "msgpuck_laws mp" and "allocator ra" and "grants_all ra"
  shows "cursor (tnt_next mp ra (tnt_buf_reply mp ra)) rep_at rep_todo rep_ended"
proof
  fix x xs and i :: "'a buf_stream tnt_iter"
  assume "rep_todo (x # xs) i"
  then obtain ir sb fr frs where i: "it_data i = IterReply ir" "rp_buf (ir_r ir) \<noteq> Freed" "\<not> rp_alloc (ir_r ir)"
      "s_data (ir_s ir) = Some sb" "sbuf_wf sb" "sb_data sb \<noteq> NULLP"
      "list_all2 (\<lambda>x fr. is_reply (fst x) (snd x) fr) xs frs" "is_reply (fst x) (snd x) fr"
      "drop (sb_rdoff sb) (sbuf_contents sb) = fr @ concat frs" "length (fr @ concat frs) < 2 ^ 63"
    and t: "it_next i = Some Reply_next" "it_status i = TNT_ITER_OK"
    by (auto simp: rep_todo_def list_all2_Cons1)
  let ?s = "(ir_s ir)\<lparr>s_data := Some (sb\<lparr>sb_rdoff := sb_rdoff sb + length fr\<rparr>)\<rparr>"
  obtain r' where r: "tnt_buf_reply mp ra (ir_s ir) (zero_reply False) = Some (0, ?s, r')" "reply_has (fst x) (snd x) r'"
    using buf_reply_frame [OF assms(1,2) i(4,5,9,8,10), of "zero_reply False"] assms(3) by (auto split: if_splits)
  let ?j = "i\<lparr>it_data := IterReply (ir\<lparr>ir_s := ?s, ir_r := r'\<rparr>)\<rparr>"
  have "tnt_next mp ra (tnt_buf_reply mp ra) i = Some (1, ?j)"
    using reply_next_step [where rr = "tnt_buf_reply mp ra", OF assms(2) t(1) i(1-3) r(1)] by simp
  moreover have "rep_at x ?j" using r(2) by (simp add: rep_at_def)
  moreover have "drop (sb_rdoff sb + length fr) (sbuf_contents sb) = concat frs"
    by (simp only: add.commute [of "sb_rdoff sb"] drop_drop [symmetric] i(9)) simp
  then have "drop (sb_rdoff sb + length fr) (sbuf_contents (sb\<lparr>sb_rdoff := sb_rdoff sb + length fr\<rparr>)) = concat frs"
    by (simp add: sbuf_contents_def cong: cptr.case_cong)
  then have "rep_todo xs ?j"
    using i(6,7,10) t buf_reply_owns [OF r(1)] sbuf_wf_rdoff [OF i(5,9)]
    by (auto simp: rep_todo_def)
  ultimately show "\<exists>j. tnt_next mp ra (tnt_buf_reply mp ra) i = Some (1, j) \<and> rep_at x j \<and> rep_todo xs j" by blast
next
  fix i :: "'a buf_stream tnt_iter"
  assume "rep_todo [] i"
  then obtain ir sb where i: "it_data i = IterReply ir" "rp_buf (ir_r ir) \<noteq> Freed" "\<not> rp_alloc (ir_r ir)"
      "s_data (ir_s ir) = Some sb" "sbuf_wf sb" "sb_data sb \<noteq> NULLP" "drop (sb_rdoff sb) (sbuf_contents sb) = []"
    and t: "it_next i = Some Reply_next" "it_status i = TNT_ITER_OK"
    by (auto simp: rep_todo_def)
  have "sb_size sb = sb_rdoff sb" using i(5,7) length_sbuf_contents [OF i(5)] by (auto simp: sbuf_wf_def)
  then have "tnt_buf_reply mp ra (ir_s ir) (zero_reply False) = Some (1, ir_s ir, zero_reply False)"
    using i(4,6) by (simp add: tnt_buf_reply_def)
  from reply_next_step [where rr = "tnt_buf_reply mp ra", OF assms(2) t(1) i(1-3) this] t(2)
  show "\<exists>j. tnt_next mp ra (tnt_buf_reply mp ra) i = Some (0, j) \<and> rep_ended j" by (simp add: rep_ended_def)
qed

interpretation ref_array: cursor "tnt_next mp_ref (custom_realloc os) rr" arr_at "arr_todo f n" "arr_ended f n" for os rr f n
  by (rule ref.array_cursor)

interpretation ref_map: cursor "tnt_next mp_ref (custom_realloc os) rr" map_at "map_todo f n" "map_ended f n" for os rr f n
  by (rule ref.map_cursor)

interpretation ref_reply: cursor "tnt_next mp_ref (custom_realloc os_ok) (tnt_buf_reply mp_ref (custom_realloc os_ok))"
    rep_at rep_todo rep_ended
  by (rule reply_cursor [OF ref.msgpuck_laws_axioms libc_alloc.allocator_axioms os_ok_grants])

section \<open>Properties\<close>

lemma iter_init_granted: "allocator ra \<Longrightarrow> grants_all ra \<Longrightarrow> \<exists>i. tnt_iter_init ra i0 = Some (Some i)"
  by (cases i0) (auto simp: tnt_iter_init_def sizeof_tnt_iter_def elim!: allocator.mem_alloc_cases [where n = 176])

text \<open>C15. Iterating over a MessagePack array visits its elements: for every encoding of an array of fewer
  than \<open>2^31\<close> values \<open>tnt_iter_array\<close> succeeds, the loop \<open>while (tnt_next(i))\<close> ends after one call per
  element and one more, after the k-th call the bytes from \<open>elem\<close> to \<open>elem_end\<close> are an encoding of the
  k-th value, the status at the end is \<open>TNT_ITER_FAIL\<close>, and after \<open>tnt_rewind\<close> the same elements are visited again.\<close>

theorem iter_array_visits:
  assumes "msgpuck_laws mp" and "allocator ra" and "grants_all ra" and "vwf (VArr vs)" and "length vs < 2 ^ 31"
    and "encodes (toks (VArr vs)) buf"
  shows "\<exists>it js k k' js' e. tnt_iter_array mp ra i0 buf = Some (Some it)
     \<and> drain (tnt_next mp ra rr) (Suc (length vs)) it = Some (js, k) \<and> list_all2 arr_at vs js
     \<and> it_status k = TNT_ITER_FAIL \<and> tnt_rewind k = Some k' \<and> it_status k' = TNT_ITER_OK
     \<and> drain (tnt_next mp ra rr) (Suc (length vs)) k' = Some (js', e) \<and> list_all2 arr_at vs js'"
proof -
  note cur = cursor.drain_all [OF msgpuck_laws.array_cursor [OF assms(1)]]
  obtain i where "tnt_iter_init ra i0 = Some (Some i)" using iter_init_granted [OF assms(2,3)] by blast
  with assms obtain it f where it: "tnt_iter_array mp ra i0 buf = Some (Some it)" "arr_todo f (length vs) vs it"
    "reads (concat (map toks vs)) f \<noteq> None" using msgpuck_laws.array_start by metis
  from cur [OF it(2)] obtain js k where k: "drain (tnt_next mp ra rr) (Suc (length vs)) it = Some (js, k)"
    "list_all2 arr_at vs js" "arr_ended f (length vs) k" by blast
  obtain k' where k': "tnt_rewind k = Some k'" "it_status k' = TNT_ITER_OK" "arr_todo f (length vs) vs k'"
    by (rule array_rewind [OF k(3) _ refl it(3)]) (use assms(4) in simp_all)
  from cur [OF k'(3), of ra rr] it(1) k k'(1,2) show ?thesis unfolding arr_ended_def by blast
qed

text \<open>Iterating over a MessagePack map visits its pairs: the same for \<open>tnt_iter_map\<close>, with the bytes
  from \<open>key\<close> to \<open>key_end\<close> and from \<open>value\<close> to \<open>value_end\<close> encodings of the k-th key and value.\<close>

theorem iter_map_visits:
  assumes "msgpuck_laws mp" and "allocator ra" and "grants_all ra" and "vwf (VMap kvs)"
    and "encodes (toks (VMap kvs)) buf"
  shows "\<exists>it js k k' js' e. tnt_iter_map mp ra i0 buf = Some (Some it)
     \<and> drain (tnt_next mp ra rr) (Suc (length kvs)) it = Some (js, k) \<and> list_all2 map_at kvs js
     \<and> it_status k = TNT_ITER_FAIL \<and> tnt_rewind k = Some k' \<and> it_status k' = TNT_ITER_OK
     \<and> drain (tnt_next mp ra rr) (Suc (length kvs)) k' = Some (js', e) \<and> list_all2 map_at kvs js'"
proof -
  note cur = cursor.drain_all [OF msgpuck_laws.map_cursor [OF assms(1)]]
  obtain i where "tnt_iter_init ra i0 = Some (Some i)" using iter_init_granted [OF assms(2,3)] by blast
  with assms obtain it f where it: "tnt_iter_map mp ra i0 buf = Some (Some it)" "map_todo f (length kvs) kvs it"
    "reads (concat (map pair_toks kvs)) f \<noteq> None" using msgpuck_laws.map_start by metis
  from cur [OF it(2)] obtain js k where k: "drain (tnt_next mp ra rr) (Suc (length kvs)) it = Some (js, k)"
    "list_all2 map_at kvs js" "map_ended f (length kvs) k" by blast
  obtain k' where k': "tnt_rewind k = Some k'" "it_status k' = TNT_ITER_OK" "map_todo f (length kvs) kvs k'"
    by (rule map_rewind [OF k(3) _ refl it(3)]) (use assms(4) in auto)
  from cur [OF k'(3), of ra rr] it(1) k k'(1,2) show ?thesis unfolding map_ended_def by blast
qed

definition no_stream :: "unit read_reply_fn" where
  "no_stream s r = Some (1, s, r)"

theorem iter_array_visits_witness:
  "\<exists>it js k. tnt_iter_array mp_ref (custom_realloc os_ok) None [0x92, 1, 0x91, 0xc0] = Some (Some it)
     \<and> drain (tnt_next mp_ref (custom_realloc os_ok) no_stream) 3 it = Some (js, k)
     \<and> list_all2 arr_at [VUint 1, VArr [VNil]] js"
proof -
  let ?vs = "[VUint 1, VArr [VNil]]"
  have "vwf (VArr ?vs)" "length ?vs < 2 ^ 31" "encodes (toks (VArr ?vs)) [0x92, 1, 0x91, 0xc0]" "Suc (length ?vs) = 3"
    by (simp_all add: encodes_def mp_tok.simps(2))
  with iter_array_visits [OF ref.msgpuck_laws_axioms libc_alloc.allocator_axioms os_ok_grants, of ?vs] show ?thesis by metis
qed

theorem iter_map_visits_witness:
  "\<exists>it js k. tnt_iter_map mp_ref (custom_realloc os_ok) None [0x81, 1, 0xc0] = Some (Some it)
     \<and> drain (tnt_next mp_ref (custom_realloc os_ok) no_stream) 2 it = Some (js, k)
     \<and> list_all2 map_at [(VUint 1, VNil)] js"
proof -
  let ?kvs = "[(VUint 1, VNil)]"
  have "vwf (VMap ?kvs)" "encodes (toks (VMap ?kvs)) [0x81, 1, 0xc0]" "Suc (length ?kvs) = 2"
    by (simp_all add: encodes_def mp_tok.simps(2))
  with iter_map_visits [OF ref.msgpuck_laws_axioms libc_alloc.allocator_axioms os_ok_grants, of ?kvs] show ?thesis by metis
qed

text \<open>C14. A reply iterator over a stream buffer visits every reply the buffer holds, in order: when the
  unread bytes are any sequence of reply frames, \<open>tnt_next\<close> parses one frame per call, releasing the
  reply before it, and then returns 0 with the status still \<open>TNT_ITER_OK\<close>.\<close>

theorem iter_reply_visits:
  assumes "msgpuck_laws mp" and "allocator ra" and "grants_all ra"
    and "s_data s = Some sb" and "sbuf_wf sb" and "sb_data sb \<noteq> NULLP"
    and "list_all2 (\<lambda>x fr. is_reply (fst x) (snd x) fr) xs frs"
    and "drop (sb_rdoff sb) (sbuf_contents sb) = concat frs" and "length (concat frs) < 2 ^ 63"
  shows "\<exists>it js k. tnt_iter_reply ra i0 s = Some (Some it)
     \<and> drain (tnt_next mp ra (tnt_buf_reply mp ra)) (Suc (length xs)) it = Some (js, k)
     \<and> list_all2 rep_at xs js \<and> it_status k = TNT_ITER_OK"
proof -
  obtain i where i: "tnt_iter_init ra i0 = Some (Some i)" using iter_init_granted [OF assms(2,3)] by blast
  then have st: "it_status i = TNT_ITER_OK"
    by (auto simp: tnt_iter_init_def Let_def split: if_splits Option.bind_splits)
  define it where "it = i\<lparr>it_type := TNT_ITER_REPLY, it_next := Some Reply_next, it_rewind := None,
            it_free := Some Reply_free, it_data := IterReply \<lparr>ir_s = s, ir_r = zero_reply False\<rparr>\<rparr>"
  have "tnt_iter_reply ra i0 s = Some (Some it)" using i by (simp add: tnt_iter_reply_def tnt_reply_init_def it_def)
  moreover have "rep_todo xs it" using assms st by (auto simp: rep_todo_def it_def)
  ultimately show ?thesis
    using cursor.drain_all [OF reply_cursor [OF assms(1-3)]] unfolding rep_ended_def by blast
qed

theorem iter_reply_visits_witness:
  "\<exists>it js k. tnt_iter_reply (custom_realloc os_ok) None (demo_reply_buf\<lparr>s_data := Some \<lparr>sb_data = Blk (demo_reply @ demo_reply),
       sb_size = 32, sb_alloc = 32, sb_rdoff = 0, sb_resize = Tnt_buf_resize, sb_free = False, sb_subdata = None, sb_as = False\<rparr>\<rparr>)
       = Some (Some it)
     \<and> drain (tnt_next mp_ref (custom_realloc os_ok) (tnt_buf_reply mp_ref (custom_realloc os_ok))) 3 it = Some (js, k)
     \<and> list_all2 rep_at [(demo_hs, demo_es), (demo_hs, demo_es)] js"
proof -
  let ?sb = "\<lparr>sb_data = Blk (demo_reply @ demo_reply), sb_size = 32, sb_alloc = 32, sb_rdoff = 0,
     sb_resize = Tnt_buf_resize, sb_free = False, sb_subdata = None, sb_as = False\<rparr> :: unit tnt_stream_buf"
  let ?xs = "[(demo_hs, demo_es), (demo_hs, demo_es)]" and ?frs = "[demo_reply, demo_reply]"
  have l: "length demo_reply = 16" by (simp add: demo_reply_def)
  have "s_data (demo_reply_buf\<lparr>s_data := Some ?sb\<rparr>) = Some ?sb" "sbuf_wf ?sb" "sb_data ?sb \<noteq> NULLP"
    "list_all2 (\<lambda>x fr. is_reply (fst x) (snd x) fr) ?xs ?frs"
    "drop (sb_rdoff ?sb) (sbuf_contents ?sb) = concat ?frs" "length (concat ?frs) < 2 ^ 63"
    by (simp_all add: sbuf_wf_def sbuf_contents_def l demo_is_reply)
  from iter_reply_visits [OF ref.msgpuck_laws_axioms libc_alloc.allocator_axioms os_ok_grants this, of None]
  show ?thesis by (simp add: numeral_3_eq_3 del: drain.simps) blast
qed

end
