(* ===== verification/Tnt_Update.thy ===== *)
theory Tnt_Update
  imports Tnt_Proto
begin

text \<open>
  Update operations, the second half of \<^verbatim>\<open>tnt/tnt_update.c\<close>: a container of operations is an object in
  sparse mode with one open array; every \<open>tnt_update_*\<close> call writes one operation to it, bypassing the
  element counts of the builder, and \<open>tnt_update_container_close\<close> sets the count from the number of
  writes.  (\<open>tnt_update\<close> and \<open>tnt_upsert\<close> themselves are in \<open>Tnt_Proto\<close>.)
\<close>

definition TNT_UOP_ADDITION :: byte where "TNT_UOP_ADDITION = 0x2b"
definition TNT_UOP_SUBSTRACT :: byte where "TNT_UOP_SUBSTRACT = 0x2d"
definition TNT_UOP_AND :: byte where "TNT_UOP_AND = 0x26"
definition TNT_UOP_XOR :: byte where "TNT_UOP_XOR = 0x5e"
definition TNT_UOP_OR :: byte where "TNT_UOP_OR = 0x7c"
definition TNT_UOP_DELETE :: byte where "TNT_UOP_DELETE = 0x23"
definition TNT_UOP_INSERT :: byte where "TNT_UOP_INSERT = 0x21"
definition TNT_UOP_ASSIGN :: byte where "TNT_UOP_ASSIGN = 0x3d"
definition TNT_UOP_SPLICE :: byte where "TNT_UOP_SPLICE = 0x3a"

lemmas uop_consts = TNT_UOP_ADDITION_def TNT_UOP_SUBSTRACT_def TNT_UOP_AND_def TNT_UOP_XOR_def TNT_UOP_OR_def
  TNT_UOP_DELETE_def TNT_UOP_INSERT_def TNT_UOP_ASSIGN_def TNT_UOP_SPLICE_def

definition tnt_update_op_len :: "byte \<Rightarrow> int" where
  "tnt_update_op_len opc =
     (if opc \<in> {TNT_UOP_ADDITION, TNT_UOP_SUBSTRACT, TNT_UOP_AND, TNT_UOP_XOR, TNT_UOP_OR, TNT_UOP_DELETE,
          TNT_UOP_INSERT, TNT_UOP_ASSIGN} then 3
      else if opc = TNT_UOP_SPLICE then 5
      else -1)"

section \<open>The container\<close>

text \<open>The result is null (the inner \<open>None\<close>) when memory is refused.\<close>

definition tnt_update_container :: "msgpuck \<Rightarrow> realloc_fn \<Rightarrow> obj option \<Rightarrow> obj option option" where
  "tnt_update_container mp ra s0 = do {
     ops \<leftarrow> tnt_object ra s0;
     (case ops of
        None \<Rightarrow> Some None
      | Some ops \<Rightarrow> do {
          (_, ops) \<leftarrow> tnt_object_type ops TNT_SBO_SPARSE;
          (rc, ops) \<leftarrow> tnt_object_add_array mp ra ops 0;
          if rc = -1 then do {
            _ \<leftarrow> tnt_stream_free (Some (tnt_buf_free ra)) (Some ops);
            Some None }
          else Some (Some ops) }) }"

text \<open>\<open>opob->stack->size\<close> is the element count of the first entry of the container stack.\<close>

definition tnt_update_container_close :: "msgpuck \<Rightarrow> realloc_fn \<Rightarrow> obj \<Rightarrow> (int \<times> obj) option" where
  "tnt_update_container_close mp ra ops = do {
     opob \<leftarrow> get_sbo ops;
     (case sbo_stack opob of
        [] \<Rightarrow> None
      | fr # frs \<Rightarrow> do {
          (_, ops) \<leftarrow> tnt_object_container_close mp ra
             (set_sbo ops (opob\<lparr>sbo_stack := fr\<lparr>ss_size := s_wrcnt ops - 1\<rparr> # frs\<rparr>));
          Some (0, ops) }) }"

text \<open>What is left of the stream when the reset fails is the caller's own structure, if any.\<close>

definition tnt_update_container_reset :: "msgpuck \<Rightarrow> realloc_fn \<Rightarrow> obj \<Rightarrow> (int \<times> obj option) option" where
  "tnt_update_container_reset mp ra ops = do {
     (_, ops) \<leftarrow> tnt_object_reset ops;
     (_, ops) \<leftarrow> tnt_object_type ops TNT_SBO_SPARSE;
     (rc, ops) \<leftarrow> tnt_object_add_array mp ra ops 0;
     if rc = -1 then do {
       left \<leftarrow> tnt_stream_free (Some (tnt_buf_free ra)) (Some ops);
       Some (-1, left) }
     else Some (0, Some ops) }"

section \<open>Operations\<close>

text \<open>\<open>op\<close> is a \<open>char\<close> by its bits; the header of the operation is built in a local array of 64 bytes.\<close>

definition tnt_update_op :: "msgpuck \<Rightarrow> realloc_fn \<Rightarrow> obj \<Rightarrow> byte \<Rightarrow> u32 \<Rightarrow> bytes \<Rightarrow> (int \<times> obj) option" where
  "tnt_update_op mp ra ops opc fieldno opdata = do {
     let body = mp_encode_array mp (of_int (tnt_update_op_len opc)) @ mp_encode_str mp [opc]
       @ mp_encode_uint mp (ucast fieldno);
     _ \<leftarrow> in_array 64 body;
     tnt_buf_writev ra ops [body, opdata] }"

definition tnt_update_bit :: "msgpuck \<Rightarrow> realloc_fn \<Rightarrow> obj \<Rightarrow> u32 \<Rightarrow> byte \<Rightarrow> u64 \<Rightarrow> (int \<times> obj) option" where
  "tnt_update_bit mp ra ops fieldno opc value =
     (if opc \<noteq> 0x26 \<and> opc \<noteq> 0x5e \<and> opc \<noteq> 0x7c then Some (-1, ops)
      else do {
        let body = mp_encode_uint mp value;
        _ \<leftarrow> in_array 10 body;
        tnt_update_op mp ra ops opc fieldno body })"

definition tnt_update_arith_int :: "msgpuck \<Rightarrow> realloc_fn \<Rightarrow> obj \<Rightarrow> u32 \<Rightarrow> byte \<Rightarrow> u64 \<Rightarrow> (int \<times> obj) option" where
  "tnt_update_arith_int mp ra ops fieldno opc value =
     (if opc \<noteq> 0x2b \<and> opc \<noteq> 0x2d then Some (-1, ops)
      else do {
        let body = (if 0 \<le> sint value then mp_encode_uint mp value else mp_encode_int mp value);
        _ \<leftarrow> in_array 10 body;
        tnt_update_op mp ra ops opc fieldno body })"

definition tnt_update_arith_float :: "msgpuck \<Rightarrow> realloc_fn \<Rightarrow> obj \<Rightarrow> u32 \<Rightarrow> byte \<Rightarrow> u32 \<Rightarrow> (int \<times> obj) option" where
  "tnt_update_arith_float mp ra ops fieldno opc value =
     (if opc \<noteq> 0x2b \<and> opc \<noteq> 0x2d then Some (-1, ops)
      else do {
        let body = mp_encode_float mp value;
        _ \<leftarrow> in_array 10 body;
        tnt_update_op mp ra ops opc fieldno body })"

definition tnt_update_arith_double :: "msgpuck \<Rightarrow> realloc_fn \<Rightarrow> obj \<Rightarrow> u32 \<Rightarrow> byte \<Rightarrow> u64 \<Rightarrow> (int \<times> obj) option" where
  "tnt_update_arith_double mp ra ops fieldno opc value =
     (if opc \<noteq> 0x2b \<and> opc \<noteq> 0x2d then Some (-1, ops)
      else do {
        let body = mp_encode_double mp value;
        _ \<leftarrow> in_array 10 body;
        tnt_update_op mp ra ops opc fieldno body })"

definition tnt_update_delete :: "msgpuck \<Rightarrow> realloc_fn \<Rightarrow> obj \<Rightarrow> u32 \<Rightarrow> u32 \<Rightarrow> (int \<times> obj) option" where
  "tnt_update_delete mp ra ops fieldno fieldcount = do {
     let body = mp_encode_uint mp (ucast fieldcount);
     _ \<leftarrow> in_array 10 body;
     tnt_update_op mp ra ops 0x23 fieldno body }"

definition tnt_update_insert :: "msgpuck \<Rightarrow> realloc_fn \<Rightarrow> obj \<Rightarrow> u32 \<Rightarrow> obj \<Rightarrow> (int \<times> obj) option" where
  "tnt_update_insert mp ra ops fieldno val = do {
     rc \<leftarrow> tnt_object_verify mp val None;
     if rc \<noteq> 0 then Some (-1, ops)
     else tnt_update_op mp ra ops 0x21 fieldno (buf_contents val) }"

definition tnt_update_assign :: "msgpuck \<Rightarrow> realloc_fn \<Rightarrow> obj \<Rightarrow> u32 \<Rightarrow> obj \<Rightarrow> (int \<times> obj) option" where
  "tnt_update_assign mp ra ops fieldno val = do {
     rc \<leftarrow> tnt_object_verify mp val None;
     if rc \<noteq> 0 then Some (-1, ops)
     else tnt_update_op mp ra ops 0x3d fieldno (buf_contents val) }"

text \<open>The length parameters of \<open>mp_sizeof_str\<close> and \<open>mp_encode_str\<close> are \<open>uint32_t\<close>.\<close>

definition tnt_update_splice :: "msgpuck \<Rightarrow> realloc_fn \<Rightarrow> obj \<Rightarrow> u32 \<Rightarrow> u32 \<Rightarrow> u32 \<Rightarrow> bytes \<Rightarrow> (int \<times> obj) option" where
  "tnt_update_splice mp ra ops fieldno position offset buffer = do {
     let len = (of_nat (length buffer) :: u32);
     let buf_size = mp_sizeof_uint mp (ucast position) + mp_sizeof_uint mp (ucast offset) + mp_sizeof_str mp len;
     p \<leftarrow> tnt_mem_alloc ra buf_size;
     (case p of
        NULLP \<Rightarrow> Some (-1, ops)
      | Freed \<Rightarrow> None
      | Blk d \<Rightarrow> do {
          let data = mp_encode_uint mp (ucast position) @ mp_encode_uint mp (ucast offset)
            @ mp_encode_str mp (take (unat len) buffer);
          if length data \<le> length d \<and> buf_size \<le> length d then do {
            let d = blit d 0 data;
            (retval, ops) \<leftarrow> tnt_update_op mp ra ops 0x3a fieldno (take buf_size d);
            _ \<leftarrow> tnt_mem_free ra (Blk d);
            Some (retval, ops) }
          else None }) }"

section \<open>Update programs\<close>

datatype uop = UBit byte u64 | UInt byte u64 | UFloat byte u32 | UDouble byte u64 | UDelete u32
  | UInsert obj | UAssign obj | USplice u32 u32 bytes

fun upd_exec :: "msgpuck \<Rightarrow> realloc_fn \<Rightarrow> u32 \<times> uop \<Rightarrow> obj \<Rightarrow> (int \<times> obj) option" where
  "upd_exec mp ra (f, UBit opc v) s = tnt_update_bit mp ra s f opc v"
| "upd_exec mp ra (f, UInt opc v) s = tnt_update_arith_int mp ra s f opc v"
| "upd_exec mp ra (f, UFloat opc v) s = tnt_update_arith_float mp ra s f opc v"
| "upd_exec mp ra (f, UDouble opc v) s = tnt_update_arith_double mp ra s f opc v"
| "upd_exec mp ra (f, UDelete n) s = tnt_update_delete mp ra s f n"
| "upd_exec mp ra (f, UInsert v) s = tnt_update_insert mp ra s f v"
| "upd_exec mp ra (f, UAssign v) s = tnt_update_assign mp ra s f v"
| "upd_exec mp ra (f, USplice pos off b) s = tnt_update_splice mp ra s f pos off b"

text \<open>A caller that stops at the first failure.\<close>

fun upd_run :: "msgpuck \<Rightarrow> realloc_fn \<Rightarrow> (u32 \<times> uop) list \<Rightarrow> obj \<Rightarrow> (int \<times> obj) option" where
  "upd_run mp ra [] s = Some (0, s)"
| "upd_run mp ra (u # us) s = do {
     (r, s1) \<leftarrow> upd_exec mp ra u s;
     if r = -1 then Some (-1, s1) else upd_run mp ra us s1 }"

text \<open>The operation on the wire: an array of the operator, the field number and the arguments.\<close>

definition uop_head :: "nat \<Rightarrow> byte \<Rightarrow> u32 \<Rightarrow> tok list" where
  "uop_head n opc f = [TArr (of_nat n), TStr [opc], TUint (ucast f)]"

definition obj_holds :: "obj \<Rightarrow> mval \<Rightarrow> bool" where
  "obj_holds o' v \<longleftrightarrow> s_data o' \<noteq> None \<and> vwf v \<and> encodes (toks v) (buf_contents o')"

fun uop_is :: "u32 \<times> uop \<Rightarrow> tok list \<Rightarrow> bool" where
  "uop_is (f, UBit opc v) ts \<longleftrightarrow> opc \<in> {TNT_UOP_AND, TNT_UOP_XOR, TNT_UOP_OR} \<and> ts = uop_head 3 opc f @ [TUint v]"
| "uop_is (f, UInt opc v) ts \<longleftrightarrow> opc \<in> {TNT_UOP_ADDITION, TNT_UOP_SUBSTRACT}
     \<and> ts = uop_head 3 opc f @ [if 0 \<le> sint v then TUint v else TInt v]"
| "uop_is (f, UFloat opc v) ts \<longleftrightarrow> opc \<in> {TNT_UOP_ADDITION, TNT_UOP_SUBSTRACT} \<and> ts = uop_head 3 opc f @ [TFlt v]"
| "uop_is (f, UDouble opc v) ts \<longleftrightarrow> opc \<in> {TNT_UOP_ADDITION, TNT_UOP_SUBSTRACT} \<and> ts = uop_head 3 opc f @ [TDbl v]"
| "uop_is (f, UDelete n) ts \<longleftrightarrow> ts = uop_head 3 TNT_UOP_DELETE f @ [TUint (ucast n)]"
| "uop_is (f, UInsert o') ts \<longleftrightarrow> (\<exists>v. obj_holds o' v \<and> ts = uop_head 3 TNT_UOP_INSERT f @ toks v)"
| "uop_is (f, UAssign o') ts \<longleftrightarrow> (\<exists>v. obj_holds o' v \<and> ts = uop_head 3 TNT_UOP_ASSIGN f @ toks v)"
| "uop_is (f, USplice pos off b) ts \<longleftrightarrow> length b < 2 ^ 32
     \<and> ts = uop_head 5 TNT_UOP_SPLICE f @ [TUint (ucast pos), TUint (ucast off), TStr b]"

text \<open>A container that is open and holds \<open>k\<close> operations.\<close>

definition upd_rep :: "obj \<Rightarrow> nat \<Rightarrow> bytes \<Rightarrow> nat \<Rightarrow> bool" where
  "upd_rep s k body cap \<longleftrightarrow> s_wrcnt s = of_nat (Suc k) \<and> 0 < cap \<and>
     (\<exists>n h. length h = 5 \<and> obj_rep s (TNT_SBO_SPARSE, [\<lparr>ss_offset = 0, ss_size = n, ss_type = MP_ARRAY\<rparr>], h @ body) cap)"

section \<open>One operation\<close>

text \<open>A number takes at most nine bytes.\<close>

lemma number_length:
  assumes "encodes [t] bs" and "tok_type t \<in> {MP_UINT, MP_INT, MP_FLOAT, MP_DOUBLE}"
  shows "length bs \<le> 9"
proof -
  from assms(1) obtain b u where "bs = b # u" "mp_tok (b # u) = Some (t, [])"
    by (cases bs) (auto simp: encodes_one)
  then show ?thesis using assms(2) unfolding mp_tok.simps(2) Let_def
    by (auto simp: tk_defs split: if_splits list.splits)
qed

lemma in_array_ok: "length bs \<le> n \<Longrightarrow> in_array n bs = Some bs"
  by (simp add: in_array_def)

context builder_env
begin

lemma uop_head_bytes:
  assumes "unat n < 16"
  shows "encodes [TArr n, TStr [opc], TUint (ucast f)] (mp_encode_array mp n @ mp_encode_str mp [opc] @ mp_encode_uint mp (ucast (f :: u32)))"
    "length (mp_encode_array mp n @ mp_encode_str mp [opc] @ mp_encode_uint mp (ucast (f :: u32))) \<le> 64"
proof -
  show "encodes [TArr n, TStr [opc], TUint (ucast f)] (mp_encode_array mp n @ mp_encode_str mp [opc] @ mp_encode_uint mp (ucast f))"
    by (intro encodes_Cons enc_array enc_str_toks enc_uint) simp
  have "length (mp_encode_uint mp (ucast f)) \<le> 9" by (rule number_length [OF enc_uint]) simp
  moreover have "length (mp_encode_str mp [opc]) \<le> 6" using sizeof_strl [of 1] by (simp add: enc_str)
  ultimately show "length (mp_encode_array mp n @ mp_encode_str mp [opc] @ mp_encode_uint mp (ucast f)) \<le> 64"
    by (simp add: enc_array_one [OF assms])
qed

lemma update_op_appends:
  assumes "upd_rep s k body cap" and "tnt_update_op_len opc = int n" and "n < 16" and "encodes ts data"
  obtains s' where "tnt_update_op mp ra s opc f data = Some (-1, s')" "\<not> grants_all ra"
    | s' r bs where "tnt_update_op mp ra s opc f data = Some (r, s')" "0 \<le> r" "upd_rep s' (Suc k) (body @ bs) cap"
        "encodes (uop_head n opc f @ ts) bs"
proof -
  have n: "unat (of_nat n :: u32) = n" using assms(3) by (intro unat_of_nat_u32) simp
  define hd where "hd = mp_encode_array mp (of_nat n) @ mp_encode_str mp [opc] @ mp_encode_uint mp (ucast f)"
  have h: "encodes (uop_head n opc f) hd" "in_array 64 hd = Some hd"
    using uop_head_bytes [of "of_nat n" opc f] assms(3) n by (simp_all add: hd_def uop_head_def in_array_ok)
  have op: "tnt_update_op mp ra s opc f data = tnt_buf_writev ra s [hd, data]"
    using h(2) assms(2) by (simp add: tnt_update_op_def hd_def Let_def)
  have ne: "concat [hd, data] \<noteq> []" using h(1) by (auto simp: uop_head_def dest: encodes_nonempty)
  from assms(1) obtain m x where w: "s_wrcnt s = of_nat (Suc k)" "0 < cap" "length x = 5"
    and rep: "obj_rep s (TNT_SBO_SPARSE, [\<lparr>ss_offset = 0, ss_size = m, ss_type = MP_ARRAY\<rparr>], x @ body) cap"
    by (auto simp: upd_rep_def)
  from rep obtain sb sbo where sb: "s_data s = Some sb" "sbuf_wf sb" "\<not> sb_as sb" by (rule obj_repE)
  from obj_writev_cases [OF rep ne] show thesis
  proof cases
    case (1 s')
    then show thesis using that(1) op by simp
  next
    case (2 s')
    have "s_wrcnt s' = s_wrcnt s + 1" by (rule buf_writev_cases [OF sb ne]) (use 2(1) in auto)
    then have "upd_rep s' (Suc k) (body @ (hd @ data)) cap" using w 2(2) by (auto simp: upd_rep_def)
    then show thesis using that(2) [of _ s' "hd @ data"] 2(1) op h(1) assms(4) by auto
  qed
qed

lemma holds_verify: "obj_holds o' v \<Longrightarrow> tnt_object_verify mp o' None = Some 0"
  using mp_skip_value [of v "buf_contents o'" "[]"]
  by (auto simp: obj_holds_def tnt_object_verify_def check encodes_def buf_contents_def split: option.splits)

text \<open>Every update call appends one operation, or fails for lack of memory.\<close>

lemma upd_exec_appends:
  assumes "upd_rep s k body cap" and "uop_is u ts"
  obtains s' where "upd_exec mp ra u s = Some (-1, s')" "\<not> grants_all ra"
    | s' r bs where "upd_exec mp ra u s = Some (r, s')" "0 \<le> r" "upd_rep s' (Suc k) (body @ bs) cap" "encodes ts bs"
proof -
  note fails = that(1) and appends = that(2)
  have num: "in_array 10 bs = Some bs" if "encodes [t] bs" "tok_type t \<in> {MP_UINT, MP_INT, MP_FLOAT, MP_DOUBLE}" for t bs
    using number_length [OF that] by (simp add: in_array_ok)
  obtain f x where u: "u = (f, x)" by (cases u)
  note app = update_op_appends [OF assms(1), where f = f]
  note lens = tnt_update_op_len_def uop_consts
  have one: thesis if "upd_exec mp ra u s = tnt_update_op mp ra s opc f data" "tnt_update_op_len opc = 3"
      "encodes us data" "ts = uop_head 3 opc f @ us" for opc data us
    by (rule app [of opc 3 us data]) (use that in \<open>auto intro: fails appends\<close>)
  show thesis
  proof (cases x)
    case (UBit opc v)
    then show thesis using assms(2) u num [OF enc_uint, of v]
      by (intro one [of opc "mp_encode_uint mp v" "[TUint v]"]) (auto simp: tnt_update_bit_def Let_def lens enc_uint)
  next
    case (UInt opc v)
    let ?b = "if 0 \<le> sint v then mp_encode_uint mp v else mp_encode_int mp v" and ?t = "if 0 \<le> sint v then TUint v else TInt v"
    have e: "encodes [?t] ?b" by (simp add: enc_uint enc_int)
    then show thesis using assms(2) u UInt num [OF e]
      by (intro one [of opc ?b "[?t]"]) (auto simp: tnt_update_arith_int_def Let_def lens)
  next
    case (UFloat opc v)
    then show thesis using assms(2) u num [OF enc_float, of v]
      by (intro one [of opc "mp_encode_float mp v" "[TFlt v]"]) (auto simp: tnt_update_arith_float_def Let_def lens enc_float)
  next
    case (UDouble opc v)
    then show thesis using assms(2) u num [OF enc_double, of v]
      by (intro one [of opc "mp_encode_double mp v" "[TDbl v]"]) (auto simp: tnt_update_arith_double_def Let_def lens enc_double)
  next
    case (UDelete n)
    then show thesis using assms(2) u num [OF enc_uint, of "ucast n"]
      by (intro one [of TNT_UOP_DELETE "mp_encode_uint mp (ucast n)" "[TUint (ucast n)]"])
        (auto simp: tnt_update_delete_def Let_def lens enc_uint)
  next
    case (UInsert o')
    then obtain v where v: "obj_holds o' v" "ts = uop_head 3 TNT_UOP_INSERT f @ toks v" using assms(2) u by auto
    show thesis
      by (rule one [of TNT_UOP_INSERT "buf_contents o'" "toks v"])
        (use v u UInsert holds_verify [OF v(1)] in \<open>auto simp: tnt_update_insert_def lens obj_holds_def\<close>)
  next
    case (UAssign o')
    then obtain v where v: "obj_holds o' v" "ts = uop_head 3 TNT_UOP_ASSIGN f @ toks v" using assms(2) u by auto
    show thesis
      by (rule one [of TNT_UOP_ASSIGN "buf_contents o'" "toks v"])
        (use v u UAssign holds_verify [OF v(1)] in \<open>auto simp: tnt_update_assign_def lens obj_holds_def\<close>)
  next
    case (USplice pos off b)
    let ?l = "of_nat (length b) :: u32"
    define data where "data = mp_encode_uint mp (ucast pos) @ mp_encode_uint mp (ucast off) @ mp_encode_str mp b"
    have b: "length b < 2 ^ 32" "unat ?l = length b" and ts: "ts = uop_head 5 TNT_UOP_SPLICE f @ [TUint (ucast pos), TUint (ucast off), TStr b]"
      using assms(2) u USplice by (simp_all add: unat_of_nat_small)
    have e: "encodes [TUint (ucast pos), TUint (ucast off), TStr b] data"
      unfolding data_def by (intro encodes_Cons enc_uint enc_str_toks b)
    have sz: "mp_sizeof_uint mp (ucast pos) + mp_sizeof_uint mp (ucast off) + mp_sizeof_str mp ?l = length data"
      using size_str [of ?l] b by (simp add: data_def size_uint enc_str)
    have ld: "length (mp_encode_uint mp (ucast pos)) + (length (mp_encode_uint mp (ucast off)) + length (mp_encode_str mp b)) = length data"
      by (simp add: data_def)
    have pos: "0 < length data" using encodes_nonempty [OF e] by simp
    then show thesis
    proof (rule mem_alloc_cases)
      assume "tnt_mem_alloc ra (length data) = Some NULLP" "\<not> grants_all ra"
      then show thesis by (intro fails [of s]) (simp_all add: u USplice tnt_update_splice_def Let_def sz)
    next
      fix d
      assume d: "tnt_mem_alloc ra (length data) = Some (Blk d)" "length d = length data"
      have x: "upd_exec mp ra u s = tnt_update_op mp ra s TNT_UOP_SPLICE f data"
        using d b by (simp add: u USplice tnt_update_splice_def Let_def sz data_def [symmetric] ld blit_def uop_consts
            split: Option.bind_splits)
      show thesis
        by (rule app [of TNT_UOP_SPLICE 5 _ data, OF _ _ e]) (auto simp: x ts lens intro: fails appends)
    qed
  qed
qed

lemma upd_run_appends:
  assumes "upd_rep s k body cap" and "list_all2 uop_is us tss"
  shows "\<exists>r s'. upd_run mp ra us s = Some (r, s') \<and> (if r = -1 then \<not> grants_all ra
     else r = 0 \<and> (\<exists>bs. upd_rep s' (k + length us) (body @ bs) cap \<and> encodes (concat tss) bs))"
  using assms
proof (induction us arbitrary: s k body tss)
  case Nil
  then show ?case by (auto intro: exI [of _ "[]"])
next
  case (Cons u us)
  then obtain ts tss' where ts: "tss = ts # tss'" "uop_is u ts" "list_all2 uop_is us tss'"
    by (auto simp: list_all2_Cons1)
  from Cons.prems(1) ts(2) show ?case
  proof (rule upd_exec_appends)
    fix s' r bs
    assume 1: "upd_exec mp ra u s = Some (r, s')" "0 \<le> r" "upd_rep s' (Suc k) (body @ bs) cap" "encodes ts bs"
    from Cons.IH [OF 1(3) ts(3)] obtain r' s'' where 2: "upd_run mp ra us s' = Some (r', s'')"
      "if r' = -1 then \<not> grants_all ra
       else r' = 0 \<and> (\<exists>bs'. upd_rep s'' (Suc k + length us) ((body @ bs) @ bs') cap \<and> encodes (concat tss') bs')" by blast
    show ?case
    proof (cases "r' = -1")
      case False
      with 2(2) obtain bs' where "upd_rep s'' (k + length (u # us)) (body @ (bs @ bs')) cap" "encodes (concat tss') bs'" "r' = 0"
        by auto
      with 1 2(1) show ?thesis
        by (intro exI [of _ 0] exI [of _ s'']) (auto simp: ts(1) intro!: exI [of _ "bs @ bs'"])
    qed (use 1 2 in auto)
  qed (auto intro!: exI [of _ "-1"])
qed

text \<open>Opening the container.\<close>

lemma open_array_rep:
  assumes "fresh_obj s cap" and "0 < cap"
  obtains s2 where "do { (_, s1) \<leftarrow> tnt_object_type s TNT_SBO_SPARSE; tnt_object_add_array mp ra s1 0 } = Some (-1, s2)"
      "\<not> grants_all ra"
    | r s2 where "do { (_, s1) \<leftarrow> tnt_object_type s TNT_SBO_SPARSE; tnt_object_add_array mp ra s1 0 } = Some (r, s2)"
      "r \<noteq> -1" "upd_rep s2 0 [] cap"
proof -
  have f: "obj_rep s (TNT_SBO_SIMPLE, [], []) cap" "s_wrcnt s = 0" using assms(1) by (simp_all add: fresh_obj_def)
  from f obtain s1 where s1: "tnt_object_type s TNT_SBO_SPARSE = Some (0, s1)" "obj_rep s1 (TNT_SBO_SPARSE, [], []) cap"
    by (rule tnt_object_type_rep)
  have w1: "s_wrcnt s1 = 0" using s1(1) f(2) by (auto simp: tnt_object_type_def set_sbo_def split: if_splits Option.bind_splits)
  let ?f = "\<lparr>ss_offset = 0, ss_size = 0, ss_type = MP_ARRAY\<rparr>"
  have "fits cap (length []) [OArr 0]" using assms(2) by simp
  from obj_exec_refines [OF s1(2) _ this] have ref:
    "refines_step ra cap (Some (TNT_SBO_SPARSE, [?f], mp_encode_array32 mp 0)) (tnt_object_add_array mp ra s1 0)"
    by (simp add: builder_ok_def)
  then obtain r s2 where r: "tnt_object_add_array mp ra s1 0 = Some (r, s2)"
    "if r = -1 then \<not> grants_all ra else obj_rep s2 (TNT_SBO_SPARSE, [?f], mp_encode_array32 mp 0) cap"
    by (auto simp: refines_step_def split: if_splits)
  have w: "s_wrcnt s2 = 1" if "r \<noteq> -1"
  proof -
    have t: "\<And>s. s_wrcnt (set_sbo s x) = s_wrcnt s" for x by (simp add: set_sbo_def)
    have b: "tnt_buf_write ra z bs = Some (q, z') \<Longrightarrow> q \<noteq> -1 \<Longrightarrow> s_wrcnt z' = s_wrcnt z + 1" for z bs q z'
      by (auto simp: tnt_buf_write_def Let_def split: Option.bind_splits option.splits if_splits)
    show ?thesis using r(1) that w1
      by (auto simp: tnt_object_add_array_def push_container_def count_in_parent_def t Let_def
          split: Option.bind_splits if_splits dest!: b)
  qed
  show thesis
  proof (cases "r = -1")
    case True
    then show thesis using that(1) s1(1) r by simp
  next
    case False
    then have "upd_rep s2 0 [] cap" using w r(2) assms(2) by (auto simp: upd_rep_def intro!: exI [of _ 0] exI [of _ "mp_encode_array32 mp 0"])
    then show thesis using that(2) s1(1) r(1) False by simp
  qed
qed

text \<open>Closing it.\<close>

lemma container_close_rep:
  assumes "upd_rep s k body cap"
  obtains s' where "tnt_update_container_close mp ra s = Some (0, s')"
    "obj_rep s' (TNT_SBO_SPARSE, [], mp_encode_array32 mp (of_nat k) @ body) cap"
proof -
  from assms obtain n h where w: "s_wrcnt s = of_nat (Suc k)" "0 < cap" "length h = 5"
    and rep: "obj_rep s (TNT_SBO_SPARSE, [\<lparr>ss_offset = 0, ss_size = n, ss_type = MP_ARRAY\<rparr>], h @ body) cap"
    by (auto simp: upd_rep_def)
  from rep obtain sb sbo where sb: "s_data s = Some sb" "sb_subdata sb = Some sbo" "length (sbo_stack sbo) = cap"
    "sbo_stack_alloc sbo = cap" "sbo_stack_size sbo = length [\<lparr>ss_offset = 0, ss_size = n, ss_type = MP_ARRAY\<rparr>]"
    "sbo_type sbo = TNT_SBO_SPARSE" "[\<lparr>ss_offset = 0, ss_size = n, ss_type = MP_ARRAY\<rparr>] = frames sbo" by (rule obj_repE)
  have sz: "sbo_stack_size sbo = Suc 0" using sb(5) by simp
  with sb(3) sb(7) [symmetric] w(2) obtain frs where st: "sbo_stack sbo = \<lparr>ss_offset = 0, ss_size = n, ss_type = MP_ARRAY\<rparr> # frs"
    by (cases "sbo_stack sbo") (auto simp: frames_def)
  let ?f = "\<lparr>ss_offset = 0, ss_size = of_nat k, ss_type = MP_ARRAY\<rparr>"
  let ?sbo = "sbo\<lparr>sbo_stack := ?f # frs\<rparr>"
  have "obj_rep (set_sbo s ?sbo) (TNT_SBO_SPARSE, [] @ [?f], h @ body) cap"
    using obj_rep_set_sbo [OF rep, of ?sbo] sb(3,4,6) sz st w(2) by (simp add: frames_def)
  from close_sparse [OF this] obtain s' where "tnt_object_container_close mp ra (set_sbo s ?sbo) = Some (0, s')"
    "obj_rep s' (TNT_SBO_SPARSE, [], hdr_close mp TNT_SBO_SPARSE ?f (h @ body)) cap" using w(3) by auto
  then show thesis using that sb(1,2) st w(1,3) by (simp add: tnt_update_container_close_def get_sbo_def blit_def)
qed

end

section \<open>Properties\<close>

lemma env_intro: "msgpuck_laws mp \<Longrightarrow> allocator ra \<Longrightarrow> builder_env mp ra"
  by (rule builder_env.intro)

lemma close_container_ok:
  assumes "builder_env mp ra" and "upd_rep s k body cap" and "encodes (concat tss) body"
  shows "\<exists>s'. tnt_update_container_close mp ra s = Some (0, s') \<and> encodes (TArr (of_nat k) # concat tss) (buf_contents s')"
proof -
  from builder_env.container_close_rep [OF assms(1,2)] obtain s' where
    s': "tnt_update_container_close mp ra s = Some (0, s')"
    "obj_rep s' (TNT_SBO_SPARSE, [], mp_encode_array32 mp (of_nat k) @ body) cap" by blast
  have "buf_contents s' = mp_encode_array32 mp (of_nat k) @ body"
    using s'(2) by (auto elim!: obj_repE simp: buf_contents_def)
  moreover have "encodes [TArr (of_nat k)] (mp_encode_array32 mp (of_nat k))"
    using assms(1) by (simp add: builder_env_def msgpuck_laws.enc_array32)
  ultimately show ?thesis using s'(1) encodes_Cons assms(3) by auto
qed

text \<open>C16. An update container holds exactly the operations that were added to it: after
  \<open>tnt_update_container\<close>, any sequence of \<open>tnt_update_bit/arith_*/delete/insert/assign/splice\<close> calls with
  legal operators, and \<open>tnt_update_container_close\<close>, with memory granted, every call succeeds and the
  object is one array whose count is the number of calls and whose elements are, in order, the arrays of
  operator, field number and arguments.\<close>

theorem update_container_encodes:
  assumes "msgpuck_laws mp" and "allocator ra" and "grants_all ra" and "list_all2 uop_is us tss"
  shows "\<exists>s s' s''. tnt_update_container mp ra None = Some (Some s) \<and> upd_run mp ra us s = Some (0, s')
     \<and> tnt_update_container_close mp ra s' = Some (0, s'')
     \<and> encodes (TArr (of_nat (length us)) # concat tss) (buf_contents s'')"
proof -
  note env = env_intro [OF assms(1,2)]
  obtain s0 where s0: "tnt_object ra None = Some (Some s0)" "fresh_obj s0 8"
    using allocator.tnt_object_fresh [OF assms(2)] assms(3) by metis
  obtain r s where s: "do { (_, s1) \<leftarrow> tnt_object_type s0 TNT_SBO_SPARSE; tnt_object_add_array mp ra s1 0 } = Some (r, s)"
    "r \<noteq> -1" "upd_rep s 0 [] 8" using builder_env.open_array_rep [OF env s0(2)] assms(3) by auto
  then have 1: "tnt_update_container mp ra None = Some (Some s)"
    using s0(1) by (auto simp: tnt_update_container_def bind_eq_Some_conv)
  from builder_env.upd_run_appends [OF env s(3) assms(4)] assms(3) obtain s' bs where
    2: "upd_run mp ra us s = Some (0, s')" "upd_rep s' (0 + length us) ([] @ bs) 8" "encodes (concat tss) bs"
    by (auto split: if_splits)
  from 2(2) have "upd_rep s' (length us) bs 8" by simp
  from close_container_ok [OF env this 2(3)] 1 2(1) show ?thesis by blast
qed

theorem update_container_encodes_witness:
  "\<exists>s s' s''. tnt_update_container mp_ref (custom_realloc os_ok) None = Some (Some s)
     \<and> upd_run mp_ref (custom_realloc os_ok) [(1, UBit TNT_UOP_AND 5), (2, USplice 0 1 [0x61])] s = Some (0, s')
     \<and> tnt_update_container_close mp_ref (custom_realloc os_ok) s' = Some (0, s'')
     \<and> encodes [TArr 2, TArr 3, TStr [0x26], TUint 1, TUint 5, TArr 5, TStr [0x3a], TUint 2, TUint 0, TUint 1, TStr [0x61]]
         (buf_contents s'')"
  using update_container_encodes [OF ref.msgpuck_laws_axioms libc_alloc.allocator_axioms os_ok_grants,
      of "[(1, UBit TNT_UOP_AND 5), (2, USplice 0 1 [0x61])]"
         "[uop_head 3 TNT_UOP_AND 1 @ [TUint 5], uop_head 5 TNT_UOP_SPLICE 2 @ [TUint 0, TUint 1, TStr [0x61]]]"]
  by (simp add: uop_head_def uop_consts)

text \<open>An update call with an operator that does not belong to it (not one of \<open>&\<close>, \<open>^\<close>, \<open>|\<close> for
  \<open>tnt_update_bit\<close>, not \<open>+\<close> or \<open>-\<close> for the arithmetic calls) is rejected with -1 and leaves the container as
  it was, and so is an inserted or assigned object that \<open>tnt_object_verify\<close> rejects.\<close>

theorem update_rejects:
  "(opc \<notin> {TNT_UOP_AND, TNT_UOP_XOR, TNT_UOP_OR} \<longrightarrow> tnt_update_bit mp ra s f opc v = Some (-1, s))
   \<and> (opc \<notin> {TNT_UOP_ADDITION, TNT_UOP_SUBSTRACT} \<longrightarrow> tnt_update_arith_int mp ra s f opc v = Some (-1, s)
       \<and> tnt_update_arith_float mp ra s f opc v32 = Some (-1, s) \<and> tnt_update_arith_double mp ra s f opc v = Some (-1, s))
   \<and> (tnt_object_verify mp val None = Some (-1) \<longrightarrow> tnt_update_insert mp ra s f val = Some (-1, s)
       \<and> tnt_update_assign mp ra s f val = Some (-1, s))"
  by (auto simp: tnt_update_bit_def tnt_update_arith_int_def tnt_update_arith_float_def tnt_update_arith_double_def
      tnt_update_insert_def tnt_update_assign_def uop_consts)

theorem update_rejects_witness:
  "tnt_update_bit mp_ref (custom_realloc os_ok) demo_obj 1 TNT_UOP_ADDITION 5 = Some (-1, demo_obj)
   \<and> tnt_update_arith_int mp_ref (custom_realloc os_ok) demo_obj 1 TNT_UOP_AND 5 = Some (-1, demo_obj)"
  using update_rejects [of TNT_UOP_ADDITION mp_ref "custom_realloc os_ok" demo_obj 1 5]
    update_rejects [of TNT_UOP_AND mp_ref "custom_realloc os_ok" demo_obj 1 5]
  by (simp add: uop_consts)

end
