(* ===== verification/Tnt_Io.thy ===== *)
theory Tnt_Io
  imports Tnt_Buf
begin

unbundle bit_operations_syntax

text \<open>
  The network layer: \<^verbatim>\<open>tnt/tnt_iob.c\<close> (fixed-size send and receive buffers), \<^verbatim>\<open>tnt/tnt_opt.c\<close> (connection
  options) and \<^verbatim>\<open>tnt/tnt_io.c\<close> (connecting, buffered and raw sending and receiving), with the structures
  of \<^verbatim>\<open>tnt_iob.h\<close>, \<^verbatim>\<open>tnt_opt.h\<close> and \<^verbatim>\<open>tnt_net.h\<close>.

  The operating system is the field \<open>nt_sys\<close> of the network structure, a record \<open>world\<close> of scripts: what the
  next \<open>send\<close>/\<open>writev\<close> calls accept, what the next \<open>recv\<close> calls deliver, and what the control calls
  (\<open>socket\<close>, \<open>setsockopt\<close>, \<open>fcntl\<close>, \<open>connect\<close>, \<open>poll\<close>, \<open>gettimeofday\<close>, \<open>getsockopt\<close>) answer.  Every script is
  finite: after its end a peer has closed the connection and control calls fail.  A script can hold any
  sequence of short counts, end-of-file, \<open>EINTR\<close> and other errors, so a theorem about all worlds covers every
  finite behaviour of the system.  The bytes the peer was sent and the control calls made are recorded
  (\<open>w_out\<close>, \<open>w_log\<close>), and so are the descriptors that are open (\<open>w_fds\<close>).  A user callback (\<open>sbuf.tx\<close>, \<open>sbuf.txv\<close>, \<open>rbuf.tx\<close>) answers from the same scripts; the
  difference to the system call is that \<open>EINTR\<close> is not retried and that vectors come in groups of
  \<open>getiovmax()\<close>.
\<close>

section \<open>The operating system\<close>

datatype send_ans = SendOk nat | SendErr int
datatype recv_ans = RecvOk bytes | RecvErr int
datatype ctl_ans = CtlOk int | CtlErr int

datatype ctl_call = Csocket int | Cclose int | Cconnect int bytes | Csetsockopt int int int | Cgetfl int | Csetfl int int
  | Cpoll int int | Cgettimeofday | Cgetsockopt int | Cgetaddrinfo bytes bytes

record world =
  w_send :: "send_ans list"
  w_out :: bytes
  w_recv :: "recv_ans list"
  w_ctl :: "ctl_ans list"
  w_addrs :: "nat list option"
  w_log :: "ctl_call list"
  w_fds :: "int list"
  w_errno :: int

definition EINTR :: int where "EINTR = 4"
definition EAGAIN :: int where "EAGAIN = 11"
definition EPIPE :: int where "EPIPE = 32"
definition EINPROGRESS :: int where "EINPROGRESS = 115"
definition EIO :: int where "EIO = 5"

text \<open>\<open>send\<close> and \<open>writev\<close> accept a prefix of the bytes offered.\<close>

definition sys_send :: "world \<Rightarrow> bytes \<Rightarrow> int \<times> world" where
  "sys_send w buf = (case w_send w of
      [] \<Rightarrow> (-1, w\<lparr>w_errno := EPIPE\<rparr>)
    | SendOk n # xs \<Rightarrow> (int (min n (length buf)), w\<lparr>w_send := xs, w_out := w_out w @ take n buf\<rparr>)
    | SendErr e # xs \<Rightarrow> (-1, w\<lparr>w_send := xs, w_errno := e\<rparr>))"

text \<open>\<open>recv\<close> delivers at most \<open>n\<close> bytes of the next piece; 0 is end of file.\<close>

definition sys_recv :: "world \<Rightarrow> nat \<Rightarrow> int \<times> bytes \<times> world" where
  "sys_recv w n = (case w_recv w of
      [] \<Rightarrow> (0, [], w)
    | RecvOk d # xs \<Rightarrow> (int (min n (length d)), take n d,
         w\<lparr>w_recv := if length d \<le> n then xs else RecvOk (drop n d) # xs\<rparr>)
    | RecvErr e # xs \<Rightarrow> (-1, [], w\<lparr>w_recv := xs, w_errno := e\<rparr>))"

text \<open>The descriptors that are open: \<open>socket\<close> opens one, \<open>close\<close> closes it.\<close>

fun track :: "ctl_call \<Rightarrow> int \<Rightarrow> int list \<Rightarrow> int list" where
  "track (Csocket f) r fds = (if 0 \<le> r then r # fds else fds)"
| "track (Cclose fd) r fds = remove1 fd fds"
| "track _ r fds = fds"

definition sys_ctl :: "ctl_call \<Rightarrow> world \<Rightarrow> int \<times> world" where
  "sys_ctl c w = (
     let (r, w) = (case w_ctl w of
        [] \<Rightarrow> (-1, w\<lparr>w_errno := EIO\<rparr>)
      | CtlOk v # xs \<Rightarrow> (v, w\<lparr>w_ctl := xs\<rparr>)
      | CtlErr e # xs \<Rightarrow> (-1, w\<lparr>w_ctl := xs, w_errno := e\<rparr>)) in
     (r, w\<lparr>w_log := w_log w @ [c], w_fds := track c r (w_fds w)\<rparr>))"

section \<open>Buffers and options\<close>

record tnt_iob =
  ib_buf :: cptr
  ib_off :: nat
  ib_top :: nat
  ib_size :: nat
  ib_tx :: bool
  ib_txv :: bool
  ib_ptr :: nat

definition tnt_iob_init :: "realloc_fn \<Rightarrow> nat \<Rightarrow> bool \<Rightarrow> bool \<Rightarrow> nat \<Rightarrow> (int \<times> tnt_iob) option" where
  "tnt_iob_init ra sz tx txv ptr = (
     let iob = \<lparr>ib_buf = NULLP, ib_off = 0, ib_top = 0, ib_size = sz, ib_tx = tx, ib_txv = txv, ib_ptr = ptr\<rparr> in
     if sz > 0 then do {
       p \<leftarrow> tnt_mem_alloc ra sz;
       (case p of
          NULLP \<Rightarrow> Some (-1, iob)
        | Blk d \<Rightarrow> if sz \<le> length d then Some (0, iob\<lparr>ib_buf := Blk (blit d 0 (replicate sz 0))\<rparr>) else None
        | Freed \<Rightarrow> None) }
     else Some (0, iob))"

definition tnt_iob_clear :: "tnt_iob \<Rightarrow> tnt_iob" where
  "tnt_iob_clear iob = iob\<lparr>ib_top := 0, ib_off := 0\<rparr>"

definition tnt_iob_free :: "realloc_fn \<Rightarrow> tnt_iob \<Rightarrow> tnt_iob option" where
  "tnt_iob_free ra iob =
     (if ib_buf iob \<noteq> NULLP then do { old \<leftarrow> tnt_mem_free ra (ib_buf iob); Some (iob\<lparr>ib_buf := old\<rparr>) }
      else Some iob)"

text \<open>
  The parts of \<open>struct uri\<close> the client reads.  A (pointer, length) pair is a byte string or null; the service
  is also used as a C string, so it is kept as the bytes from the pointer up to the terminator of the whole
  URI string, and its length.
\<close>

datatype uri_host_hint = URI_NAME | URI_IPV4 | URI_IPV6 | URI_UNIX | URI_OTHER

record uri =
  u_login :: "bytes option"
  u_password :: "bytes option"
  u_host :: bytes
  u_service :: "bytes option"
  u_service_len :: nat
  u_host_hint :: uri_host_hint

text \<open>A \<open>struct timeval\<close>: seconds and microseconds.\<close>

type_synonym timeval = "int \<times> int"

record tnt_opt =
  op_uristr :: cptr
  op_uri :: "uri option"
  op_tmout_connect :: timeval
  op_tmout_recv :: timeval
  op_tmout_send :: timeval
  op_send_cb :: bool
  op_send_cbv :: bool
  op_send_cb_arg :: nat
  op_send_buf :: int
  op_recv_cb :: bool
  op_recv_cb_arg :: nat
  op_recv_buf :: int

definition zero_uri :: uri where
  "zero_uri = \<lparr>u_login = None, u_password = None, u_host = [], u_service = None, u_service_len = 0, u_host_hint = URI_NAME\<rparr>"

definition zero_opt :: tnt_opt where
  "zero_opt = \<lparr>op_uristr = NULLP, op_uri = None, op_tmout_connect = (0, 0), op_tmout_recv = (0, 0),
     op_tmout_send = (0, 0), op_send_cb = False, op_send_cbv = False, op_send_cb_arg = 0, op_send_buf = 0,
     op_recv_cb = False, op_recv_cb_arg = 0, op_recv_buf = 0\<rparr>"

definition sizeof_uri :: nat where "sizeof_uri = 136"

text \<open>The memory of the \<open>uri\<close> structure is zeroed by the allocator (\<open>custom_realloc\<close> calls \<open>calloc\<close>).\<close>

definition tnt_opt_init :: "realloc_fn \<Rightarrow> (int \<times> tnt_opt) option" where
  "tnt_opt_init ra = (
     let opt = zero_opt\<lparr>op_recv_buf := 16384, op_send_buf := 16384, op_tmout_connect := (16, 0)\<rparr> in do {
     p \<leftarrow> tnt_mem_alloc ra sizeof_uri;
     Some (if p = NULLP then (-1, opt) else (0, opt\<lparr>op_uri := Some zero_uri\<rparr>)) })"

definition tnt_opt_free :: "realloc_fn \<Rightarrow> tnt_opt \<Rightarrow> tnt_opt option" where
  "tnt_opt_free ra opt = do {
     old \<leftarrow> (if op_uristr opt \<noteq> NULLP then tnt_mem_free ra (op_uristr opt) else Some NULLP);
     Some (opt\<lparr>op_uristr := old, op_uri := None\<rparr>) }"

datatype tnt_error = TNT_EOK | TNT_EFAIL | TNT_EMEMORY | TNT_ESYSTEM | TNT_EBIG | TNT_ESIZE | TNT_ERESOLVE
  | TNT_ETMOUT | TNT_EBADVAL | TNT_ELOGIN | TNT_LAST

text \<open>
  An option with its variadic argument.  The switch's \<open>default\<close> is \<open>OptOther\<close>.  The grammar of URIs is
  generated code: \<open>uri_parse\<close> is a parameter, \<open>None\<close> for its result -1; it may leave the structure partly
  filled, which \<open>upd\<close> describes.
\<close>

datatype tnt_opt_type = TNT_OPT_URI bytes | TNT_OPT_TMOUT_CONNECT timeval | TNT_OPT_TMOUT_RECV timeval
  | TNT_OPT_TMOUT_SEND timeval | TNT_OPT_SEND_CB bool | TNT_OPT_SEND_CBV bool | TNT_OPT_SEND_CB_ARG nat
  | TNT_OPT_SEND_BUF int | TNT_OPT_RECV_CB bool | TNT_OPT_RECV_CB_ARG nat | TNT_OPT_RECV_BUF int | OptOther

type_synonym uri_parse_fn = "uri \<Rightarrow> bytes \<Rightarrow> int \<times> uri"

definition tnt_opt_set :: "realloc_fn \<Rightarrow> uri_parse_fn \<Rightarrow> tnt_opt \<Rightarrow> tnt_opt_type \<Rightarrow> (tnt_error \<times> tnt_opt) option" where
  "tnt_opt_set ra uri_parse opt name = (case name of
      TNT_OPT_URI str \<Rightarrow> do {
        _ \<leftarrow> (if op_uristr opt \<noteq> NULLP then tnt_mem_free ra (op_uristr opt) else Some NULLP);
        p \<leftarrow> tnt_mem_dup ra str;
        let opt = opt\<lparr>op_uristr := p\<rparr>;
        (case p of
           NULLP \<Rightarrow> Some (TNT_EMEMORY, opt)
         | Freed \<Rightarrow> None
         | Blk d \<Rightarrow> do {
             u \<leftarrow> op_uri opt;
             let (rc, u) = uri_parse u d;
             Some (if rc = -1 then TNT_EFAIL else TNT_EOK, opt\<lparr>op_uri := Some u\<rparr>) }) }
    | TNT_OPT_TMOUT_CONNECT tv \<Rightarrow> Some (TNT_EOK, opt\<lparr>op_tmout_connect := tv\<rparr>)
    | TNT_OPT_TMOUT_RECV tv \<Rightarrow> Some (TNT_EOK, opt\<lparr>op_tmout_recv := tv\<rparr>)
    | TNT_OPT_TMOUT_SEND tv \<Rightarrow> Some (TNT_EOK, opt\<lparr>op_tmout_send := tv\<rparr>)
    | TNT_OPT_SEND_CB b \<Rightarrow> Some (TNT_EOK, opt\<lparr>op_send_cb := b\<rparr>)
    | TNT_OPT_SEND_CBV b \<Rightarrow> Some (TNT_EOK, opt\<lparr>op_send_cbv := b\<rparr>)
    | TNT_OPT_SEND_CB_ARG a \<Rightarrow> Some (TNT_EOK, opt\<lparr>op_send_cb_arg := a\<rparr>)
    | TNT_OPT_SEND_BUF n \<Rightarrow> Some (TNT_EOK, opt\<lparr>op_send_buf := n\<rparr>)
    | TNT_OPT_RECV_CB b \<Rightarrow> Some (TNT_EOK, opt\<lparr>op_recv_cb := b\<rparr>)
    | TNT_OPT_RECV_CB_ARG a \<Rightarrow> Some (TNT_EOK, opt\<lparr>op_recv_cb_arg := a\<rparr>)
    | TNT_OPT_RECV_BUF n \<Rightarrow> Some (TNT_EOK, opt\<lparr>op_recv_buf := n\<rparr>)
    | OptOther \<Rightarrow> Some (TNT_EFAIL, opt))"

text \<open>The network structure; \<open>'sc\<close> is the type of the schema.\<close>

record 'sc tnt_stream_net =
  nt_opt :: tnt_opt
  nt_connected :: bool
  nt_fd :: int
  nt_sbuf :: tnt_iob
  nt_rbuf :: tnt_iob
  nt_error :: tnt_error
  nt_errno :: int
  nt_greeting :: cptr
  nt_schema :: "'sc option"
  nt_inited :: bool
  nt_sys :: world

definition sys_error :: "'sc tnt_stream_net \<Rightarrow> 'sc tnt_stream_net" where
  "sys_error s = s\<lparr>nt_error := TNT_ESYSTEM, nt_errno := w_errno (nt_sys s)\<rparr>"

section \<open>Sending\<close>

text \<open>\<open>do r = send(...); while (r == -1 && errno == EINTR)\<close>\<close>

lemma sys_send_shrinks: "sys_send w buf = (r, w') \<Longrightarrow> \<not> (r = -1 \<and> w_errno w' \<noteq> EINTR) \<Longrightarrow> length (w_send w') < length (w_send w)"
  by (auto simp: sys_send_def EINTR_def EPIPE_def split: list.splits send_ans.splits)

function send_retry :: "world \<Rightarrow> bytes \<Rightarrow> int \<times> world" where
  "send_retry w buf = (case sys_send w buf of (r, w') \<Rightarrow>
     if r = -1 \<and> w_errno w' = EINTR then send_retry w' buf else (r, w'))"
  by pat_completeness auto
termination
  by (relation "measure (\<lambda>(w, buf). length (w_send w))") (auto dest: sys_send_shrinks [OF sym])

declare send_retry.simps [simp del]

lemma send_retry_shrinks: "send_retry w buf = (r, w') \<Longrightarrow> 0 < r \<Longrightarrow> length (w_send w') < length (w_send w)"
proof (induction w buf rule: send_retry.induct)
  case (1 w buf)
  obtain q v where v: "sys_send w buf = (q, v)" by fastforce
  show ?case
  proof (cases "q = -1 \<and> w_errno v = EINTR")
    case True
    then have "length (w_send w') < length (w_send v)"
      using 1 v by (subst (asm) send_retry.simps) auto
    then show ?thesis using sys_send_shrinks [OF v] True by auto
  next
    case False
    then have "(r, w') = (q, v)" using "1.prems" v by (subst (asm) send_retry.simps) auto
    then show ?thesis using sys_send_shrinks [OF v] "1.prems"(2) by auto
  qed
qed

definition do_send :: "bool \<Rightarrow> world \<Rightarrow> bytes \<Rightarrow> int \<times> world" where
  "do_send cb w buf = (if cb then sys_send w buf else send_retry w buf)"

lemma do_send_shrinks: "do_send cb w buf = (r, w') \<Longrightarrow> 0 < r \<Longrightarrow> length (w_send w') < length (w_send w)"
  using sys_send_shrinks send_retry_shrinks by (auto simp: do_send_def split: if_splits)

text \<open>The loop of \<open>tnt_io_send_raw\<close>; \<open>buf\<close> is what is left to send.\<close>

function send_loop :: "bool \<Rightarrow> 'sc tnt_stream_net \<Rightarrow> bytes \<Rightarrow> nat \<Rightarrow> int \<times> 'sc tnt_stream_net" where
  "send_loop all s buf off = (case do_send (ib_tx (nt_sbuf s)) (nt_sys s) buf of (r, w) \<Rightarrow>
     let s = s\<lparr>nt_sys := w\<rparr> in
     if r \<le> 0 then (-1, sys_error s)
     else if drop (nat r) buf \<noteq> [] \<and> all then send_loop all s (drop (nat r) buf) (off + nat r)
     else (int (off + nat r), s))"
  by pat_completeness auto
termination
  by (relation "measure (\<lambda>(all, s, buf, off). length (w_send (nt_sys s)))") (auto dest: do_send_shrinks [OF sym])

declare send_loop.simps [simp del]

definition tnt_io_send_raw :: "'sc tnt_stream_net \<Rightarrow> bytes \<Rightarrow> bool \<Rightarrow> int \<times> 'sc tnt_stream_net" where
  "tnt_io_send_raw s buf all = send_loop all s buf 0"

text \<open>Advancing a vector by \<open>r\<close> bytes.\<close>

fun iov_advance :: "nat \<Rightarrow> bytes list \<Rightarrow> bytes list" where
  "iov_advance r [] = []"
| "iov_advance r (v # vs) = (if length v > r then drop r v # vs else iov_advance (r - length v) vs)"

text \<open>\<open>IOV_MAX\<close> of the platform.\<close>

definition getiovmax :: nat where "getiovmax = 1024"

text \<open>One call of the vector callback or of \<open>writev\<close>.\<close>

definition do_sendv :: "bool \<Rightarrow> world \<Rightarrow> bytes list \<Rightarrow> int \<times> world" where
  "do_sendv cbv w iov = (if cbv then sys_send w (concat (take getiovmax iov)) else send_retry w (concat iov))"

lemma do_sendv_shrinks: "do_sendv cb w iov = (r, w') \<Longrightarrow> 0 < r \<Longrightarrow> length (w_send w') < length (w_send w)"
  using sys_send_shrinks send_retry_shrinks by (auto simp: do_sendv_def split: if_splits)

function sendv_loop :: "bool \<Rightarrow> 'sc tnt_stream_net \<Rightarrow> bytes list \<Rightarrow> nat \<Rightarrow> int \<times> 'sc tnt_stream_net" where
  "sendv_loop all s iov tot = (if iov = [] then (int tot, s)
     else case do_sendv (ib_txv (nt_sbuf s)) (nt_sys s) iov of (r, w) \<Rightarrow>
       let s = s\<lparr>nt_sys := w\<rparr> in
       if r \<le> 0 then (-1, sys_error s)
       else if \<not> all then (int (tot + nat r), s)
       else sendv_loop all s (iov_advance (nat r) iov) (tot + nat r))"
  by pat_completeness auto
termination
  by (relation "measure (\<lambda>(all, s, iov, tot). length (w_send (nt_sys s)))") (auto dest: do_sendv_shrinks [OF sym])

declare sendv_loop.simps [simp del]

definition tnt_io_sendv_raw :: "'sc tnt_stream_net \<Rightarrow> bytes list \<Rightarrow> bool \<Rightarrow> int \<times> 'sc tnt_stream_net" where
  "tnt_io_sendv_raw s iov all = sendv_loop all s iov 0"

text \<open>The bytes buffered for sending.\<close>

definition iob_pending :: "tnt_iob \<Rightarrow> bytes option" where
  "iob_pending b = (case ib_buf b of Blk d \<Rightarrow> if ib_off b \<le> length d then Some (take (ib_off b) d) else None | _ \<Rightarrow> None)"

definition tnt_io_flush :: "'sc tnt_stream_net \<Rightarrow> (int \<times> 'sc tnt_stream_net) option" where
  "tnt_io_flush s =
     (if ib_off (nt_sbuf s) = 0 then Some (0, s)
      else do {
        d \<leftarrow> iob_pending (nt_sbuf s);
        let (rc, s) = tnt_io_send_raw s d True;
        Some (if rc = -1 then (-1, s) else (rc, s\<lparr>nt_sbuf := (nt_sbuf s)\<lparr>ib_off := 0\<rparr>\<rparr>)) })"

text \<open>\<open>memcpy(iob->buf + iob->off, bs, n); iob->off += n\<close>\<close>

definition iob_put :: "tnt_iob \<Rightarrow> bytes \<Rightarrow> tnt_iob option" where
  "iob_put b bs = (case ib_buf b of
      Blk d \<Rightarrow> if ib_off b + length bs \<le> length d
        then Some (b\<lparr>ib_buf := Blk (blit d (ib_off b) bs), ib_off := ib_off b + length bs\<rparr>) else None
    | _ \<Rightarrow> None)"

definition tnt_io_send :: "'sc tnt_stream_net \<Rightarrow> bytes \<Rightarrow> (int \<times> 'sc tnt_stream_net) option" where
  "tnt_io_send s buf =
     (if ib_buf (nt_sbuf s) = NULLP then Some (tnt_io_send_raw s buf True)
      else if length buf > ib_size (nt_sbuf s) then Some (-1, s\<lparr>nt_error := TNT_EBIG\<rparr>)
      else if ib_off (nt_sbuf s) + length buf \<le> ib_size (nt_sbuf s) then do {
        b \<leftarrow> iob_put (nt_sbuf s) buf;
        Some (int (length buf), s\<lparr>nt_sbuf := b\<rparr>) }
      else do {
        d \<leftarrow> iob_pending (nt_sbuf s);
        let (r, s) = tnt_io_send_raw s d True;
        if r = -1 then Some (-1, s)
        else do {
          b \<leftarrow> iob_put ((nt_sbuf s)\<lparr>ib_off := 0\<rparr>) buf;
          Some (int (length buf), s\<lparr>nt_sbuf := b\<rparr>) } })"

fun tnt_io_sendv_put :: "tnt_iob \<Rightarrow> bytes list \<Rightarrow> tnt_iob option" where
  "tnt_io_sendv_put b [] = Some b"
| "tnt_io_sendv_put b (v # vs) = do { b \<leftarrow> iob_put b v; tnt_io_sendv_put b vs }"

definition tnt_io_sendv :: "'sc tnt_stream_net \<Rightarrow> bytes list \<Rightarrow> (int \<times> 'sc tnt_stream_net) option" where
  "tnt_io_sendv s iov =
     (if ib_buf (nt_sbuf s) = NULLP then Some (tnt_io_sendv_raw s iov True)
      else let sz = sum_list (map length iov) in
      if sz > ib_size (nt_sbuf s) then Some (-1, s\<lparr>nt_error := TNT_EBIG\<rparr>)
      else if ib_off (nt_sbuf s) + sz \<le> ib_size (nt_sbuf s) then do {
        b \<leftarrow> tnt_io_sendv_put (nt_sbuf s) iov;
        Some (int sz, s\<lparr>nt_sbuf := b\<rparr>) }
      else do {
        d \<leftarrow> iob_pending (nt_sbuf s);
        let (r, s) = tnt_io_send_raw s d True;
        if r = -1 then Some (-1, s)
        else do {
          b \<leftarrow> tnt_io_sendv_put ((nt_sbuf s)\<lparr>ib_off := 0\<rparr>) iov;
          Some (int sz, s\<lparr>nt_sbuf := b\<rparr>) } })"

section \<open>Receiving\<close>

fun recv_size :: "recv_ans list \<Rightarrow> nat" where
  "recv_size [] = 0"
| "recv_size (RecvOk d # xs) = Suc (length d) + recv_size xs"
| "recv_size (RecvErr e # xs) = Suc (recv_size xs)"

lemma sys_recv_shrinks:
  "sys_recv w n = (r, d, w') \<Longrightarrow> 0 < r \<or> r = -1 \<Longrightarrow> recv_size (w_recv w') < recv_size (w_recv w)"
  by (auto simp: sys_recv_def split: list.splits recv_ans.splits if_splits)

function recv_retry :: "world \<Rightarrow> nat \<Rightarrow> int \<times> bytes \<times> world" where
  "recv_retry w n = (case sys_recv w n of (r, d, w') \<Rightarrow>
     if r = -1 \<and> w_errno w' = EINTR then recv_retry w' n else (r, d, w'))"
  by pat_completeness auto
termination
  by (relation "measure (\<lambda>(w, n). recv_size (w_recv w))") (auto dest: sys_recv_shrinks [OF sym])

declare recv_retry.simps [simp del]

definition do_recv :: "bool \<Rightarrow> world \<Rightarrow> nat \<Rightarrow> int \<times> bytes \<times> world" where
  "do_recv cb w n = (if cb then sys_recv w n else recv_retry w n)"

lemma recv_retry_shrinks: "recv_retry w n = (r, d, w') \<Longrightarrow> 0 < r \<Longrightarrow> recv_size (w_recv w') < recv_size (w_recv w)"
proof (induction w n rule: recv_retry.induct)
  case (1 w n)
  obtain q e v where v: "sys_recv w n = (q, e, v)" by (metis prod_cases3)
  show ?case
  proof (cases "q = -1 \<and> w_errno v = EINTR")
    case True
    then have "recv_size (w_recv w') < recv_size (w_recv v)"
      using 1 v by (subst (asm) recv_retry.simps) auto
    then show ?thesis using sys_recv_shrinks [OF v] True by auto
  next
    case False
    then have "(r, d, w') = (q, e, v)" using "1.prems" v by (subst (asm) recv_retry.simps) auto
    then show ?thesis using sys_recv_shrinks [OF v] "1.prems"(2) by auto
  qed
qed

lemma do_recv_shrinks: "do_recv cb w n = (r, d, w') \<Longrightarrow> 0 < r \<Longrightarrow> recv_size (w_recv w') < recv_size (w_recv w)"
  using sys_recv_shrinks recv_retry_shrinks by (auto simp: do_recv_def split: if_splits)

text \<open>The loop of \<open>tnt_io_recv_raw\<close>: result, the bytes stored at \<open>buf\<close>, and the structure.\<close>

function recv_loop :: "bool \<Rightarrow> 'sc tnt_stream_net \<Rightarrow> nat \<Rightarrow> bytes \<Rightarrow> int \<times> bytes \<times> 'sc tnt_stream_net" where
  "recv_loop all s left got = (case do_recv (ib_tx (nt_rbuf s)) (nt_sys s) left of (r, d, w) \<Rightarrow>
     let s = s\<lparr>nt_sys := w\<rparr> in
     if r \<le> 0 then (-1, got @ d, sys_error s)
     else if left - nat r \<noteq> 0 \<and> all then recv_loop all s (left - nat r) (got @ d)
     else (int (length (got @ d)), got @ d, s))"
  by pat_completeness auto
termination
  by (relation "measure (\<lambda>(all, s, left, got). recv_size (w_recv (nt_sys s)))") (auto dest: do_recv_shrinks [OF sym])

declare recv_loop.simps [simp del]

definition tnt_io_recv_raw :: "'sc tnt_stream_net \<Rightarrow> nat \<Rightarrow> bool \<Rightarrow> int \<times> bytes \<times> 'sc tnt_stream_net" where
  "tnt_io_recv_raw s n all = recv_loop all s n []"

lemma recv_raw_shrinks:
  "tnt_io_recv_raw s n False = (r, d, s') \<Longrightarrow> 0 < r \<Longrightarrow> recv_size (w_recv (nt_sys s')) < recv_size (w_recv (nt_sys s))"
  unfolding tnt_io_recv_raw_def
  by (subst (asm) recv_loop.simps) (auto simp: Let_def split: prod.splits if_splits dest: do_recv_shrinks)

text \<open>
  The loop of \<open>tnt_io_recv\<close>: \<open>left\<close> bytes are still wanted and \<open>got\<close> have been copied to the caller.
\<close>

function recv_buffered :: "'sc tnt_stream_net \<Rightarrow> nat \<Rightarrow> bytes \<Rightarrow> (int \<times> bytes \<times> 'sc tnt_stream_net) option" where
  "recv_buffered s left got = (case ib_buf (nt_rbuf s) of
      Blk d \<Rightarrow>
        (let off = ib_off (nt_rbuf s); top = ib_top (nt_rbuf s) in
         if top < off \<or> length d < top \<or> length d < ib_size (nt_rbuf s) then None
         else if off + left \<le> top
         then Some (int (length got + left), got @ take left (drop off d),
            s\<lparr>nt_rbuf := (nt_rbuf s)\<lparr>ib_off := off + left\<rparr>\<rparr>)
         else
           (let lv = top - off; rv = left - lv; got = got @ take lv (drop off d) in
            case tnt_io_recv_raw (s\<lparr>nt_rbuf := (nt_rbuf s)\<lparr>ib_off := 0\<rparr>\<rparr>) (ib_size (nt_rbuf s)) False of (n, e, s) \<Rightarrow>
              let d = blit d 0 e; s = s\<lparr>nt_rbuf := (nt_rbuf s)\<lparr>ib_buf := Blk d\<rparr>\<rparr> in
              if n \<le> 0 then Some (-1, got, sys_error s)
              else let s = s\<lparr>nt_rbuf := (nt_rbuf s)\<lparr>ib_top := nat n\<rparr>\<rparr> in
              if rv \<le> nat n
              then Some (int (length got + rv), got @ take rv d, s\<lparr>nt_rbuf := (nt_rbuf s)\<lparr>ib_off := rv\<rparr>\<rparr>)
              else recv_buffered s (left - lv) got))
    | _ \<Rightarrow> None)"
  by pat_completeness auto
termination
  by (relation "measure (\<lambda>(s, left, got). recv_size (w_recv (nt_sys s)))") (auto dest: recv_raw_shrinks [OF sym])

declare recv_buffered.simps [simp del]

definition tnt_io_recv :: "'sc tnt_stream_net \<Rightarrow> nat \<Rightarrow> (int \<times> bytes \<times> 'sc tnt_stream_net) option" where
  "tnt_io_recv s n =
     (if ib_buf (nt_rbuf s) = NULLP then Some (tnt_io_recv_raw s n True) else recv_buffered s n [])"

section \<open>Connecting\<close>

definition ctl :: "ctl_call \<Rightarrow> 'sc tnt_stream_net \<Rightarrow> int \<times> 'sc tnt_stream_net" where
  "ctl c s = (case sys_ctl c (nt_sys s) of (r, w) \<Rightarrow> (r, s\<lparr>nt_sys := w\<rparr>))"

definition save_errno :: "'sc tnt_stream_net \<Rightarrow> 'sc tnt_stream_net" where
  "save_errno s = s\<lparr>nt_errno := w_errno (nt_sys s)\<rparr>"

definition O_NONBLOCK :: int where "O_NONBLOCK = 2048"

definition tnt_io_nonblock :: "'sc tnt_stream_net \<Rightarrow> bool \<Rightarrow> tnt_error \<times> 'sc tnt_stream_net" where
  "tnt_io_nonblock s nb = (case ctl (Cgetfl (nt_fd s)) s of (flags, s) \<Rightarrow>
     if flags = -1 then (TNT_ESYSTEM, save_errno s)
     else let flags = (if nb then flags OR O_NONBLOCK else flags AND NOT O_NONBLOCK) in
       case ctl (Csetfl (nt_fd s) flags) s of (r, s) \<Rightarrow>
         if r = -1 then (TNT_ESYSTEM, save_errno s) else (TNT_EOK, s))"

text \<open>Conversion of a \<open>long\<close> to \<open>int\<close>, and C division by a positive constant.\<close>

definition to_cint :: "int \<Rightarrow> int" where
  "to_cint x = sint (of_int x :: 32 word)"

definition cdiv :: "int \<Rightarrow> int \<Rightarrow> int" where
  "cdiv a b = (if a < 0 then - ((- a) div b) else a div b)"

definition TIMEVAL_TO_MSEC :: "timeval \<Rightarrow> int" where
  "TIMEVAL_TO_MSEC tv = fst tv * 1000 + cdiv (snd tv) 1000"

definition TIMEVAL_DIFF_MSEC :: "timeval \<Rightarrow> timeval \<Rightarrow> int" where
  "TIMEVAL_DIFF_MSEC a b = (fst a - fst b) * 1000 + cdiv (snd a - snd b) 1000"

text \<open>The answer to \<open>gettimeofday\<close> is the time in microseconds.\<close>

definition tv_of :: "int \<Rightarrow> timeval" where
  "tv_of us = (us div 1000000, us mod 1000000)"

lemma ctl_shrinks:
  "ctl c s = (r, s') \<Longrightarrow> r = -1 \<and> w_errno (nt_sys s') \<noteq> EIO \<or> r \<noteq> -1 \<Longrightarrow> length (w_ctl (nt_sys s')) < length (w_ctl (nt_sys s))"
  by (auto simp: ctl_def sys_ctl_def Let_def split: list.splits ctl_ans.splits)

lemma ctl_le: "length (w_ctl (nt_sys (snd (ctl c s)))) \<le> length (w_ctl (nt_sys s))"
  by (auto simp: ctl_def sys_ctl_def Let_def split: list.splits ctl_ans.splits)

lemma poll_shrinks:
  assumes "(-1, s1) = ctl c s" and "w_errno (nt_sys s1) = EINTR \<or> w_errno (nt_sys s1) = EAGAIN" and "(t, s2) = ctl c' s1"
  shows "length (w_ctl (nt_sys s2)) < length (w_ctl (nt_sys s))"
proof -
  have "length (w_ctl (nt_sys s1)) < length (w_ctl (nt_sys s))"
    using assms(2) by (intro ctl_shrinks [OF assms(1) [symmetric]]) (auto simp: EINTR_def EAGAIN_def EIO_def)
  then show ?thesis using ctl_le [of c' s1] assms(3) by (metis le_less_trans snd_conv)
qed

text \<open>Waiting for the connection; \<open>TNT_EOK\<close> when the socket has an event.\<close>

function poll_loop :: "'sc tnt_stream_net \<Rightarrow> timeval \<Rightarrow> int \<Rightarrow> tnt_error \<times> 'sc tnt_stream_net" where
  "poll_loop s start timeout = (case ctl (Cpoll (nt_fd s) timeout) s of (ret, s1) \<Rightarrow>
     if ret = -1 then
       if w_errno (nt_sys s1) = EINTR \<or> w_errno (nt_sys s1) = EAGAIN then
         (case ctl Cgettimeofday s1 of (t, s2) \<Rightarrow>
            if t = -1 then (TNT_ESYSTEM, save_errno s2)
            else if to_cint (TIMEVAL_DIFF_MSEC (tv_of t) start) \<ge> timeout then (TNT_ETMOUT, s2)
            else poll_loop s2 start timeout)
       else (TNT_ESYSTEM, save_errno s1)
     else if ret = 0 then (TNT_ETMOUT, s1)
     else (TNT_EOK, s1))"
  by pat_completeness auto
termination
  by (relation "measure (\<lambda>(s, start, timeout). length (w_ctl (nt_sys s)))") (auto intro: poll_shrinks)

declare poll_loop.simps [simp del]

definition tnt_io_connect_do :: "'sc tnt_stream_net \<Rightarrow> bytes \<Rightarrow> tnt_error \<times> 'sc tnt_stream_net" where
  "tnt_io_connect_do s addr = (case tnt_io_nonblock s True of (result, s) \<Rightarrow>
     if result \<noteq> TNT_EOK then (result, s)
     else case ctl (Cconnect (nt_fd s) addr) s of (r, s) \<Rightarrow>
       if r \<noteq> -1 then (TNT_EOK, s)
       else if w_errno (nt_sys s) = EINPROGRESS then
         (case ctl Cgettimeofday s of (t, s) \<Rightarrow>
            if t = -1 then (TNT_ESYSTEM, save_errno s)
            else case poll_loop s (tv_of t) (to_cint (TIMEVAL_TO_MSEC (op_tmout_connect (nt_opt s)))) of (result, s) \<Rightarrow>
              if result \<noteq> TNT_EOK then (result, s)
              else case ctl (Cgetsockopt (nt_fd s)) s of (opt, s) \<Rightarrow>
                if opt = -1 then (TNT_ESYSTEM, save_errno s)
                else if opt \<noteq> 0 then (TNT_ESYSTEM, s\<lparr>nt_errno := opt\<rparr>)
                else tnt_io_nonblock s False)
       else (TNT_ESYSTEM, save_errno s))"

definition tnt_io_close :: "'sc tnt_stream_net \<Rightarrow> 'sc tnt_stream_net" where
  "tnt_io_close s = (let s = (if nt_fd s > 0 then
       (snd (ctl (Cclose (nt_fd s)) s))\<lparr>nt_fd := -1\<rparr> else s) in s\<lparr>nt_connected := False\<rparr>)"

text \<open>
  The binary search of \<open>tnt_io_xbufmax\<close>.  The arithmetic is that of \<open>int\<close> (a signed overflow is undefined) and
  \<open>unsigned int\<close>; not returning is \<open>None\<close>.
\<close>

definition SO_SNDBUF :: int where "SO_SNDBUF = 7"
definition SO_RCVBUF :: int where "SO_RCVBUF = 8"
definition SO_RCVTIMEO :: int where "SO_RCVTIMEO = 20"
definition SO_SNDTIMEO :: int where "SO_SNDTIMEO = 21"
definition TCP_NODELAY :: int where "TCP_NODELAY = 1"

definition xbuf_avg :: "int \<Rightarrow> int \<Rightarrow> u32" where
  "xbuf_avg lo hi = of_int (lo + hi) div 2"

partial_function (option) xbufmax_loop :: "int \<Rightarrow> 'sc tnt_stream_net \<Rightarrow> int \<Rightarrow> int \<Rightarrow> 'sc tnt_stream_net option" where
  "xbufmax_loop opt s lo hi =
     (if lo \<le> hi then
        if lo + hi < - (2 ^ 31) \<or> lo + hi \<ge> 2 ^ 31 then None
        else if fst (ctl (Csetsockopt (nt_fd s) opt (uint (xbuf_avg lo hi))) s) = 0
        then xbufmax_loop opt (snd (ctl (Csetsockopt (nt_fd s) opt (uint (xbuf_avg lo hi))) s)) (sint (xbuf_avg lo hi + 1)) hi
        else xbufmax_loop opt (snd (ctl (Csetsockopt (nt_fd s) opt (uint (xbuf_avg lo hi))) s)) lo (sint (xbuf_avg lo hi - 1))
      else Some s)"

definition tnt_io_xbufmax :: "'sc tnt_stream_net \<Rightarrow> int \<Rightarrow> int \<Rightarrow> (tnt_error \<times> 'sc tnt_stream_net) option" where
  "tnt_io_xbufmax s opt lo = do {
     s \<leftarrow> xbufmax_loop opt s (if lo = 0 then 16384 else lo) (128 * 1024 * 1024);
     Some (TNT_EOK, s) }"

definition tnt_io_setopts :: "'sc tnt_stream_net \<Rightarrow> (tnt_error \<times> 'sc tnt_stream_net) option" where
  "tnt_io_setopts s = do {
     uri \<leftarrow> op_uri (nt_opt s);
     let (r, s) = (if u_host_hint uri \<noteq> URI_UNIX then ctl (Csetsockopt (nt_fd s) TCP_NODELAY 1) s else (0, s));
     if r = -1 then Some (TNT_ESYSTEM, save_errno s)
     else do {
       (_, s) \<leftarrow> tnt_io_xbufmax s SO_SNDBUF (op_send_buf (nt_opt s));
       (_, s) \<leftarrow> tnt_io_xbufmax s SO_RCVBUF (op_recv_buf (nt_opt s));
       let (r, s) = ctl (Csetsockopt (nt_fd s) SO_SNDTIMEO (TIMEVAL_TO_MSEC (op_tmout_send (nt_opt s)))) s;
       if r = -1 then Some (TNT_ESYSTEM, save_errno s)
       else do {
         let (r, s) = ctl (Csetsockopt (nt_fd s) SO_RCVTIMEO (TIMEVAL_TO_MSEC (op_tmout_recv (nt_opt s)))) s;
         if r = -1 then Some (TNT_ESYSTEM, save_errno s)
         else Some (TNT_EOK, s) } } }"

text \<open>The resolver: the addresses it found (opaque socket addresses by number), or failure.\<close>

definition tnt_io_resolve :: "'sc tnt_stream_net \<Rightarrow> bytes \<Rightarrow> bytes \<Rightarrow> (tnt_error \<times> nat list) \<times> 'sc tnt_stream_net" where
  "tnt_io_resolve s hostname port = (
     let s = s\<lparr>nt_sys := (nt_sys s)\<lparr>w_log := w_log (nt_sys s) @ [Cgetaddrinfo hostname port]\<rparr>\<rparr> in
     case w_addrs (nt_sys s) of
       Some (a # as) \<Rightarrow> ((TNT_EOK, a # as), s)
     | _ \<Rightarrow> ((TNT_ERESOLVE, []), s))"

definition sockaddr :: "nat \<Rightarrow> bytes" where
  "sockaddr a = be_bytes 4 a"

fun tcp_loop :: "'sc tnt_stream_net \<Rightarrow> tnt_error \<Rightarrow> nat list \<Rightarrow> (tnt_error \<times> 'sc tnt_stream_net) option" where
  "tcp_loop s result [] = Some (result, s)"
| "tcp_loop s result (a # as) = (case ctl (Csocket (int a)) s of (fd, s) \<Rightarrow>
     let s = s\<lparr>nt_fd := fd\<rparr> in
     if fd < 0 then tcp_loop (save_errno s) TNT_ESYSTEM as
     else do {
       (result, s) \<leftarrow> tnt_io_setopts s;
       if result \<noteq> TNT_EOK then tcp_loop (tnt_io_close s) result as
       else case tnt_io_connect_do s (sockaddr a) of (result, s) \<Rightarrow>
         if result \<noteq> TNT_EOK then tcp_loop (tnt_io_close s) result as
         else Some (result, s) })"

definition tnt_io_connect_tcp :: "'sc tnt_stream_net \<Rightarrow> bytes \<Rightarrow> bytes \<Rightarrow> (tnt_error \<times> 'sc tnt_stream_net) option" where
  "tnt_io_connect_tcp s host port = (case tnt_io_resolve s host port of ((result, addrs), s) \<Rightarrow>
     if result \<noteq> TNT_EOK then Some (result, s) else tcp_loop s result addrs)"

text \<open>\<open>sun_path\<close> has 108 bytes; \<open>path\<close> is a C string.\<close>

definition PF_UNIX :: int where "PF_UNIX = 1"

definition tnt_io_connect_unix :: "'sc tnt_stream_net \<Rightarrow> bytes \<Rightarrow> (tnt_error \<times> 'sc tnt_stream_net) option" where
  "tnt_io_connect_unix s path = (case ctl (Csocket PF_UNIX) s of (fd, s) \<Rightarrow>
     let s = s\<lparr>nt_fd := fd\<rparr> in
     if fd < 0 then Some (TNT_ESYSTEM, save_errno s)
     else do {
       (result, s) \<leftarrow> tnt_io_setopts s;
       if result \<noteq> TNT_EOK then Some (result, tnt_io_close s)
       else do {
         len \<leftarrow> c_strlen path;
         if len + 1 > 108 then None
         else case ctl (Cconnect (nt_fd s) (take len path)) s of (r, s) \<Rightarrow>
           if r \<noteq> -1 then Some (TNT_EOK, s)
           else Some (TNT_ESYSTEM, tnt_io_close (save_errno s)) } })"

text \<open>''3301''\<close>

definition default_port :: bytes where "default_port = [0x33, 0x33, 0x30, 0x31]"

text \<open>The host and the service are copied to local arrays of 128 bytes and terminated.\<close>

definition tnt_io_connect :: "'sc tnt_stream_net \<Rightarrow> (tnt_error \<times> 'sc tnt_stream_net) option" where
  "tnt_io_connect s = do {
     uri \<leftarrow> op_uri (nt_opt s);
     (result, s) \<leftarrow> (case u_host_hint uri of
         URI_UNIX \<Rightarrow> (case u_service uri of
             None \<Rightarrow> None
           | Some p \<Rightarrow>
               if u_service_len uri < 128 \<and> u_service_len uri \<le> length p
               then tnt_io_connect_unix s (take (u_service_len uri) p @ [0]) else None)
       | URI_OTHER \<Rightarrow> Some (TNT_EFAIL, s)
       | _ \<Rightarrow>
           if length (u_host uri) < 128
           then tnt_io_connect_tcp s (u_host uri) (case u_service uri of None \<Rightarrow> default_port | Some p \<Rightarrow> p)
           else None);
     if result \<noteq> TNT_EOK then Some (result, s)
     else Some (TNT_EOK, s\<lparr>nt_connected := True\<rparr>) }"

end
