(* ===== verification/Tnt_Io_Spec.thy ===== *)
theory Tnt_Io_Spec
  imports Tnt_Io Tnt_Msgpack
begin

text \<open>
  What the network layer promises: buffered sending delivers exactly the bytes given, in order, whatever the
  system accepts per call; buffered receiving delivers exactly the bytes of the peer, in order, however they
  arrive in pieces; and what goes wrong after an error.
\<close>

section \<open>Sending\<close>

definition pending :: "tnt_iob \<Rightarrow> bytes" where
  "pending b = (case ib_buf b of Blk d \<Rightarrow> take (ib_off b) d | _ \<Rightarrow> [])"

definition sendbuf_wf :: "tnt_iob \<Rightarrow> bool" where
  "sendbuf_wf b \<longleftrightarrow> (case ib_buf b of
      NULLP \<Rightarrow> ib_off b = 0 | Blk d \<Rightarrow> length d = ib_size b \<and> ib_off b \<le> ib_size b | Freed \<Rightarrow> False)"

text \<open>The bytes sent so far, those still buffered included.\<close>

definition io_out :: "'sc tnt_stream_net \<Rightarrow> bytes" where
  "io_out s = w_out (nt_sys s) @ pending (nt_sbuf s)"

definition sent :: "world \<Rightarrow> bytes \<Rightarrow> world \<Rightarrow> bool" where
  "sent w bs w' \<longleftrightarrow> (\<exists>xs e. w' = w\<lparr>w_send := xs, w_out := w_out w @ bs, w_errno := e\<rparr>)"

lemma sentE: "sent w bs w' \<Longrightarrow> w_out w' = w_out w @ bs \<and> w_recv w' = w_recv w"
  by (auto simp: sent_def)

lemma sent_nil: "sent w [] w"
  unfolding sent_def by (rule exI [of _ "w_send w"], rule exI [of _ "w_errno w"]) simp

lemma sent_trans: "sent w xs w1 \<Longrightarrow> sent w1 ys w2 \<Longrightarrow> sent w (xs @ ys) w2"
  unfolding sent_def by (elim exE) (rule exI, rule exI, simp)

lemma sys_send_sent: "sys_send w buf = (r, w') \<Longrightarrow> sent w (take (nat r) buf) w' \<and> -1 \<le> r \<and> r \<le> int (length buf)"
proof -
  assume a: "sys_send w buf = (r, w')"
  show ?thesis
  proof (cases "w_send w")
    case Nil
    have "sent w [] (w\<lparr>w_errno := e\<rparr>)" for e
      unfolding sent_def by (rule exI [of _ "w_send w"], rule exI [of _ e]) simp
    then show ?thesis using a Nil by (auto simp: sys_send_def)
  next
    case (Cons x xs)
    have "sent w bs (w\<lparr>w_send := xs, w_out := w_out w @ bs\<rparr>)" for bs
      unfolding sent_def by (rule exI [of _ xs], rule exI [of _ "w_errno w"]) simp
    moreover have "sent w [] (w\<lparr>w_send := xs, w_errno := e\<rparr>)" for e
      unfolding sent_def by (rule exI [of _ xs], rule exI [of _ e]) simp
    moreover have "take n buf = take (min n (length buf)) buf" for n by (simp add: min_def)
    ultimately show ?thesis using a Cons by (auto simp: sys_send_def split: send_ans.splits)
  qed
qed

lemma send_retry_sent: "send_retry w buf = (r, w') \<Longrightarrow> sent w (take (nat r) buf) w' \<and> -1 \<le> r \<and> r \<le> int (length buf)"
proof (induction w buf rule: send_retry.induct)
  case (1 w buf)
  obtain q v where v: "sys_send w buf = (q, v)" by fastforce
  show ?case
  proof (cases "q = -1 \<and> w_errno v = EINTR")
    case True
    then have "send_retry v buf = (r, w')" using "1.prems" v by (subst (asm) send_retry.simps) auto
    with "1.IH" [OF v [symmetric] True] have "sent v (take (nat r) buf) w' \<and> -1 \<le> r \<and> r \<le> int (length buf)" by blast
    then show ?thesis using sys_send_sent [OF v] True sent_trans [of w "[]" v] by auto
  next
    case False
    then have "(r, w') = (q, v)" using "1.prems" v by (subst (asm) send_retry.simps) auto
    then show ?thesis using sys_send_sent [OF v] by auto
  qed
qed

lemma do_send_sent: "do_send cb w buf = (r, w') \<Longrightarrow> sent w (take (nat r) buf) w' \<and> -1 \<le> r \<and> r \<le> int (length buf)"
  using sys_send_sent send_retry_sent by (auto simp: do_send_def split: if_splits)

text \<open>\<open>tnt_io_send_raw\<close> with \<open>all\<close>: everything is sent, or an error is reported after a part.\<close>

definition io_step :: "'sc tnt_stream_net \<Rightarrow> bytes \<Rightarrow> 'sc tnt_stream_net \<Rightarrow> bool" where
  "io_step s bs s' \<longleftrightarrow> (\<exists>w e n. sent (nt_sys s) bs w \<and> s' = s\<lparr>nt_sys := w, nt_error := e, nt_errno := n\<rparr>)"

lemma io_stepI: "sent (nt_sys s) bs w \<Longrightarrow> io_step s bs (s\<lparr>nt_sys := w\<rparr>)"
  unfolding io_step_def by (rule exI [of _ w], rule exI [of _ "nt_error s"], rule exI [of _ "nt_errno s"]) simp

lemma io_step_error: "sent (nt_sys s) bs w \<Longrightarrow> io_step s bs (sys_error (s\<lparr>nt_sys := w\<rparr>))"
  by (auto simp: io_step_def sys_error_def)

lemma io_step_trans: "io_step s xs s1 \<Longrightarrow> io_step s1 ys s2 \<Longrightarrow> io_step s (xs @ ys) s2"
  unfolding io_step_def by (auto dest: sent_trans) (metis sent_trans)

lemma send_loop_sends:
  assumes "send_loop True s buf off = (r, s')"
  shows "if r = -1 then \<exists>n. io_step s (take n buf) s' else r = int (off + length buf) \<and> io_step s buf s'"
  using assms
proof (induction "True" s buf off rule: send_loop.induct)
  case (1 s buf off)
  obtain q w where q: "do_send (ib_tx (nt_sbuf s)) (nt_sys s) buf = (q, w)" by fastforce
  have snt: "sent (nt_sys s) (take (nat q) buf) w" "q \<le> int (length buf)" using do_send_sent [OF q] by auto
  consider "q \<le> 0" | "0 < q" "drop (nat q) buf \<noteq> []" | "0 < q" "drop (nat q) buf = []" by linarith
  then show ?case
  proof cases
    case 1
    then have "(r, s') = (-1, sys_error (s\<lparr>nt_sys := w\<rparr>))" using "1.prems" q by (subst (asm) send_loop.simps) auto
    then show ?thesis using io_step_error [OF snt(1)] by auto
  next
    case 2
    then have "send_loop True (s\<lparr>nt_sys := w\<rparr>) (drop (nat q) buf) (off + nat q) = (r, s')"
      using "1.prems" q by (subst (asm) send_loop.simps) auto
    with "1.hyps" [OF q [symmetric] refl] 2 have IH:
      "if r = -1 then \<exists>n. io_step (s\<lparr>nt_sys := w\<rparr>) (take n (drop (nat q) buf)) s'
       else r = int (off + nat q + length (drop (nat q) buf)) \<and> io_step (s\<lparr>nt_sys := w\<rparr>) (drop (nat q) buf) s'" by auto
    note tr = io_step_trans [OF io_stepI [OF snt(1)]]
    show ?thesis
    proof (cases "r = -1")
      case True
      with IH obtain n where "io_step (s\<lparr>nt_sys := w\<rparr>) (take n (drop (nat q) buf)) s'" by auto
      from tr [OF this] have "io_step s (take (nat q + n) buf) s'" by (simp add: take_add)
      then show ?thesis using True by auto
    next
      case False
      with IH tr [of "drop (nat q) buf" s'] snt(2) show ?thesis by auto
    qed
  next
    case 3
    then have "(r, s') = (int (off + nat q), s\<lparr>nt_sys := w\<rparr>)" using "1.prems" q by (subst (asm) send_loop.simps) auto
    then show ?thesis using 3 snt io_stepI [OF snt(1)] by auto
  qed
qed

lemma concat_iov_advance: "concat (iov_advance r iov) = drop r (concat iov)"
  by (induction r iov rule: iov_advance.induct) auto

lemma do_sendv_sent: "do_sendv cb w iov = (r, w') \<Longrightarrow> sent w (take (nat r) (concat iov)) w' \<and> -1 \<le> r \<and> r \<le> int (length (concat iov))"
proof -
  assume a: "do_sendv cb w iov = (r, w')"
  have split: "concat iov = concat (take getiovmax iov) @ concat (drop getiovmax iov)"
    by (metis append_take_drop_id concat_append)
  show ?thesis
  proof (cases cb)
    case True
    then have "sent w (take (nat r) (concat (take getiovmax iov))) w' \<and> -1 \<le> r \<and> r \<le> int (length (concat (take getiovmax iov)))"
      using a sys_send_sent by (simp add: do_sendv_def)
    moreover from this have "take (nat r) (concat iov) = take (nat r) (concat (take getiovmax iov))"
      by (subst split) auto
    moreover have "length (concat (take getiovmax iov)) \<le> length (concat iov)" using arg_cong [OF split, of length] by simp
    ultimately show ?thesis by auto
  next
    case False
    then show ?thesis using a send_retry_sent by (simp add: do_sendv_def)
  qed
qed

lemma sendv_loop_sends:
  assumes "sendv_loop True s iov tot = (r, s')"
  shows "if r = -1 then \<exists>n. io_step s (take n (concat iov)) s' else r = int (tot + length (concat iov)) \<and> io_step s (concat iov) s'"
  using assms
proof (induction "True" s iov tot rule: sendv_loop.induct)
  case (1 s iov tot)
  show ?case
  proof (cases "iov = []")
    case True
    then have "(r, s') = (int tot, s)" using "1.prems" by (subst (asm) sendv_loop.simps) auto
    moreover have "io_step s [] s" using io_stepI [OF sent_nil, of s] by simp
    ultimately show ?thesis using True by auto
  next
    case iov: False
    obtain q w where q: "do_sendv (ib_txv (nt_sbuf s)) (nt_sys s) iov = (q, w)" by fastforce
    have snt: "sent (nt_sys s) (take (nat q) (concat iov)) w" "q \<le> int (length (concat iov))" using do_sendv_sent [OF q] by auto
    show ?thesis
    proof (cases "q \<le> 0")
      case True
      then have "(r, s') = (-1, sys_error (s\<lparr>nt_sys := w\<rparr>))" using "1.prems" q iov by (subst (asm) sendv_loop.simps) auto
      then show ?thesis using io_step_error [OF snt(1)] by auto
    next
      case False
      then have "sendv_loop True (s\<lparr>nt_sys := w\<rparr>) (iov_advance (nat q) iov) (tot + nat q) = (r, s')"
        using "1.prems" q iov by (subst (asm) sendv_loop.simps) auto
      with "1.hyps" [OF iov q [symmetric] refl] False have IH:
        "if r = -1 then \<exists>n. io_step (s\<lparr>nt_sys := w\<rparr>) (take n (drop (nat q) (concat iov))) s'
         else r = int (tot + nat q + length (drop (nat q) (concat iov))) \<and> io_step (s\<lparr>nt_sys := w\<rparr>) (drop (nat q) (concat iov)) s'"
        by (auto simp: concat_iov_advance)
      note tr = io_step_trans [OF io_stepI [OF snt(1)]]
      show ?thesis
      proof (cases "r = -1")
        case True
        with IH obtain n where "io_step (s\<lparr>nt_sys := w\<rparr>) (take n (drop (nat q) (concat iov))) s'" by auto
        from tr [OF this] have "io_step s (take (nat q + n) (concat iov)) s'" by (simp add: take_add)
        then show ?thesis using True by auto
      next
        case f: False
        with IH tr [of "drop (nat q) (concat iov)" s'] snt(2) False show ?thesis by auto
      qed
    qed
  qed
qed

lemma io_step_fields:
  assumes "io_step s bs s'"
  shows "nt_sbuf s' = nt_sbuf s" "nt_rbuf s' = nt_rbuf s" "w_out (nt_sys s') = w_out (nt_sys s) @ bs"
    "w_recv (nt_sys s') = w_recv (nt_sys s)"
  using assms by (auto simp: io_step_def sent_def)

lemma iob_put_ok:
  assumes "sendbuf_wf b" and "ib_buf b \<noteq> NULLP" and "ib_off b + length bs \<le> ib_size b"
  obtains b' where "iob_put b bs = Some b'" "sendbuf_wf b'" "ib_buf b' \<noteq> NULLP" "pending b' = pending b @ bs"
    "ib_size b' = ib_size b" "ib_off b' = ib_off b + length bs"
proof -
  from assms(1,2) obtain d where d: "ib_buf b = Blk d" "length d = ib_size b" "ib_off b \<le> ib_size b"
    by (auto simp: sendbuf_wf_def split: cptr.splits)
  have "take (ib_off b + length bs) (blit d (ib_off b) bs) = take (ib_off b) d @ bs"
    using d assms(3) by (intro take_blit_end) simp
  then show thesis using d assms(3)
    by (intro that [of "b\<lparr>ib_buf := Blk (blit d (ib_off b) bs), ib_off := ib_off b + length bs\<rparr>"])
      (auto simp: iob_put_def sendbuf_wf_def pending_def)
qed

lemma sendv_put_ok:
  assumes "sendbuf_wf b" and "ib_buf b \<noteq> NULLP" and "ib_off b + length (concat iov) \<le> ib_size b"
  shows "\<exists>b'. tnt_io_sendv_put b iov = Some b' \<and> sendbuf_wf b' \<and> pending b' = pending b @ concat iov"
  using assms
proof (induction iov arbitrary: b)
  case (Cons v vs)
  then have "ib_off b + length v \<le> ib_size b" by simp
  from iob_put_ok [OF Cons.prems(1,2) this] obtain b1 where b1: "iob_put b v = Some b1" "sendbuf_wf b1"
    "ib_buf b1 \<noteq> NULLP" "pending b1 = pending b @ v" "ib_size b1 = ib_size b" "ib_off b1 = ib_off b + length v" by metis
  then show ?case using Cons.IH [of b1] Cons.prems(3) by auto
qed simp

lemma pending_flush:
  assumes "sendbuf_wf b" and "ib_buf b \<noteq> NULLP"
  shows "iob_pending b = Some (pending b)" "sendbuf_wf (b\<lparr>ib_off := 0\<rparr>)" "pending (b\<lparr>ib_off := 0\<rparr>) = []"
  using assms by (auto simp: iob_pending_def pending_def sendbuf_wf_def split: cptr.splits)

text \<open>\<open>tnt_io_sendv\<close> and \<open>tnt_io_send\<close> append to the output or fail.\<close>

lemma io_sendv_ok:
  assumes "sendbuf_wf (nt_sbuf s)"
  obtains r s' where "tnt_io_sendv s iov = Some (r, s')" "sendbuf_wf (nt_sbuf s')" "nt_rbuf s' = nt_rbuf s"
    "w_recv (nt_sys s') = w_recv (nt_sys s)"
    "r \<noteq> -1 \<longrightarrow> r = int (length (concat iov)) \<and> io_out s' = io_out s @ concat iov"
proof -
  have len: "sum_list (map length iov) = length (concat iov)" by (simp add: length_concat)
  show thesis
  proof (cases "ib_buf (nt_sbuf s) = NULLP")
    case True
    obtain r s' where r: "sendv_loop True s iov 0 = (r, s')" by fastforce
    then have "\<exists>bs. io_step s bs s'" using sendv_loop_sends [OF r] by (auto split: if_splits)
    then have f: "nt_sbuf s' = nt_sbuf s" "nt_rbuf s' = nt_rbuf s" "w_recv (nt_sys s') = w_recv (nt_sys s)"
      using io_step_fields by blast+
    have "r \<noteq> -1 \<longrightarrow> r = int (length (concat iov)) \<and> io_out s' = io_out s @ concat iov"
      using sendv_loop_sends [OF r] io_step_fields(3) True f(1) by (auto simp: io_out_def pending_def split: if_splits)
    then show thesis using that [of r s'] r f True assms by (simp add: tnt_io_sendv_def tnt_io_sendv_raw_def)
  next
    case nn: False
    note pf = pending_flush [OF assms nn]
    consider "length (concat iov) > ib_size (nt_sbuf s)"
      | "ib_off (nt_sbuf s) + length (concat iov) \<le> ib_size (nt_sbuf s)"
      | "length (concat iov) \<le> ib_size (nt_sbuf s)" "\<not> ib_off (nt_sbuf s) + length (concat iov) \<le> ib_size (nt_sbuf s)"
      by linarith
    then show thesis
    proof cases
      case 1
      then show thesis using that [of "-1" "s\<lparr>nt_error := TNT_EBIG\<rparr>"] assms nn
        by (simp add: tnt_io_sendv_def len Let_def)
    next
      case 2
      from sendv_put_ok [OF assms nn 2] obtain b' where
        b: "tnt_io_sendv_put (nt_sbuf s) iov = Some b'" "sendbuf_wf b'" "pending b' = pending (nt_sbuf s) @ concat iov" by blast
      then show thesis using that [of "int (length (concat iov))" "s\<lparr>nt_sbuf := b'\<rparr>"] 2 nn
        by (simp add: tnt_io_sendv_def len Let_def io_out_def)
    next
      case 3
      obtain r s1 where r: "send_loop True s (pending (nt_sbuf s)) 0 = (r, s1)" by fastforce
      then have "\<exists>bs. io_step s bs s1" using send_loop_sends [OF r] by (auto split: if_splits)
      then have f: "nt_sbuf s1 = nt_sbuf s" "nt_rbuf s1 = nt_rbuf s" "w_recv (nt_sys s1) = w_recv (nt_sys s)"
        using io_step_fields by blast+
      note defs = tnt_io_sendv_def len Let_def tnt_io_send_raw_def pf(1) r
      show thesis
      proof (cases "r = -1")
        case True
        then show thesis using that [of "-1" s1] 3 nn f assms by (simp add: defs)
      next
        case False
        have out: "w_out (nt_sys s1) = w_out (nt_sys s) @ pending (nt_sbuf s)"
          using send_loop_sends [OF r] False io_step_fields(3) by auto
        let ?b = "(nt_sbuf s1)\<lparr>ib_off := 0\<rparr>"
        have "ib_buf ?b \<noteq> NULLP" "ib_off ?b + length (concat iov) \<le> ib_size ?b" "sendbuf_wf ?b" using nn 3(1) f(1) pf(2) by simp_all
        from sendv_put_ok [OF this(3,1,2)] pf(3) f(1) obtain b' where
          b: "tnt_io_sendv_put ?b iov = Some b'" "sendbuf_wf b'" "pending b' = concat iov" by auto
        then show thesis using that [of "int (length (concat iov))" "s1\<lparr>nt_sbuf := b'\<rparr>"] 3 nn f out False
          by (simp add: defs io_out_def)
      qed
    qed
  qed
qed

lemma send_is_sendv:
  "tnt_io_send s buf = (if ib_buf (nt_sbuf s) = NULLP then Some (tnt_io_send_raw s buf True) else tnt_io_sendv s [buf])"
proof -
  have one: "tnt_io_sendv_put b [buf] = iob_put b buf" for b by (cases "iob_put b buf") simp_all
  show ?thesis unfolding tnt_io_send_def tnt_io_sendv_def Let_def one sum_list_length_one by simp
qed

lemma io_flush_ok:
  assumes "sendbuf_wf (nt_sbuf s)"
  obtains r s' where "tnt_io_flush s = Some (r, s')" "sendbuf_wf (nt_sbuf s')" "nt_rbuf s' = nt_rbuf s"
    "w_recv (nt_sys s') = w_recv (nt_sys s)"
    "r \<noteq> -1 \<longrightarrow> r = int (length (pending (nt_sbuf s))) \<and> pending (nt_sbuf s') = [] \<and> w_out (nt_sys s') = io_out s"
proof (cases "ib_off (nt_sbuf s) = 0")
  case True
  then show thesis using that [of 0 s] assms
    by (auto simp: tnt_io_flush_def io_out_def pending_def split: cptr.splits)
next
  case False
  then have nn: "ib_buf (nt_sbuf s) \<noteq> NULLP" using assms by (auto simp: sendbuf_wf_def)
  note pf = pending_flush [OF assms nn]
  obtain r s1 where r: "send_loop True s (pending (nt_sbuf s)) 0 = (r, s1)" by fastforce
  then have "\<exists>bs. io_step s bs s1" using send_loop_sends [OF r] by (auto split: if_splits)
  then have f: "nt_sbuf s1 = nt_sbuf s" "nt_rbuf s1 = nt_rbuf s" "w_recv (nt_sys s1) = w_recv (nt_sys s)"
    using io_step_fields by blast+
  note defs = tnt_io_flush_def Let_def tnt_io_send_raw_def pf(1) r
  show thesis
  proof (cases "r = -1")
    case True
    then show thesis using that [of "-1" s1] False f assms by (simp add: defs)
  next
    case ok: False
    then have out: "w_out (nt_sys s1) = w_out (nt_sys s) @ pending (nt_sbuf s)" "r = int (length (pending (nt_sbuf s)))"
      using send_loop_sends [OF r] io_step_fields(3) by auto
    show thesis
    proof (rule that [of r "s1\<lparr>nt_sbuf := (nt_sbuf s1)\<lparr>ib_off := 0\<rparr>\<rparr>"])
      show "tnt_io_flush s = Some (r, s1\<lparr>nt_sbuf := (nt_sbuf s1)\<lparr>ib_off := 0\<rparr>\<rparr>)" using False ok by (simp add: defs)
    qed (use f pf(2,3) out in \<open>simp_all add: io_out_def\<close>)
  qed
qed

section \<open>Receiving\<close>

text \<open>The bytes the peer delivers before the connection fails or ends; \<open>cb\<close>: through a callback.\<close>

fun recv_avail :: "bool \<Rightarrow> recv_ans list \<Rightarrow> bytes" where
  "recv_avail cb [] = []"
| "recv_avail cb (RecvOk d # xs) = (if d = [] then [] else d @ recv_avail cb xs)"
| "recv_avail cb (RecvErr e # xs) = (if \<not> cb \<and> e = EINTR then recv_avail cb xs else [])"

definition unread :: "tnt_iob \<Rightarrow> bytes" where
  "unread b = (case ib_buf b of Blk d \<Rightarrow> take (ib_top b - ib_off b) (drop (ib_off b) d) | _ \<Rightarrow> [])"

definition recvbuf_wf :: "tnt_iob \<Rightarrow> bool" where
  "recvbuf_wf b \<longleftrightarrow> (case ib_buf b of
      NULLP \<Rightarrow> True
    | Blk d \<Rightarrow> length d = ib_size b \<and> 0 < ib_size b \<and> ib_off b \<le> ib_top b \<and> ib_top b \<le> ib_size b
    | Freed \<Rightarrow> False)"

text \<open>What is still to be read: the unread part of the buffer and what the peer will deliver.\<close>

definition io_in :: "'sc tnt_stream_net \<Rightarrow> bytes" where
  "io_in s = unread (nt_rbuf s) @ recv_avail (ib_tx (nt_rbuf s)) (w_recv (nt_sys s))"

definition received :: "bool \<Rightarrow> world \<Rightarrow> bytes \<Rightarrow> world \<Rightarrow> bool" where
  "received cb w bs w' \<longleftrightarrow> recv_avail cb (w_recv w) = bs @ recv_avail cb (w_recv w') \<and> w_out w' = w_out w \<and> w_send w' = w_send w"

lemma received_trans: "received cb w xs w1 \<Longrightarrow> received cb w1 ys w2 \<Longrightarrow> received cb w (xs @ ys) w2"
  by (simp add: received_def)

lemma sys_recv_received:
  assumes "sys_recv w n = (r, d, w')" and "0 < n"
  shows "if r = -1 \<and> w_errno w' = EINTR \<and> \<not> cb then received cb w [] w' \<and> d = []
     else if r \<le> 0 then recv_avail cb (w_recv w) = [] \<and> d = [] \<and> w_out w' = w_out w
     else d \<noteq> [] \<and> r = int (length d) \<and> length d \<le> n \<and> received cb w d w'"
proof (cases "w_recv w")
  case Nil
  then show ?thesis using assms by (auto simp: sys_recv_def)
next
  case (Cons x xs)
  show ?thesis
  proof (cases x)
    case (RecvErr e)
    then show ?thesis using assms Cons by (auto simp: sys_recv_def received_def)
  next
    case (RecvOk p)
    have "drop n p \<noteq> [] \<Longrightarrow> take n p @ drop n p @ recv_avail cb xs = p @ recv_avail cb xs" by simp
    then show ?thesis using assms Cons RecvOk
      by (cases "p = []"; cases "n \<le> length p"; cases "n = length p") (auto simp: sys_recv_def received_def min_def)
  qed
qed

lemma do_recv_received:
  assumes "do_recv cb w n = (r, d, w')" and "0 < n"
  shows "if r \<le> 0 then recv_avail cb (w_recv w) = [] \<and> d = [] \<and> w_out w' = w_out w
     else d \<noteq> [] \<and> r = int (length d) \<and> length d \<le> n \<and> received cb w d w'"
proof (cases cb)
  case True
  then show ?thesis using assms sys_recv_received [of w n r d w' cb] by (auto simp: do_recv_def split: if_splits)
next
  case False
  have "if r \<le> 0 then recv_avail False (w_recv w) = [] \<and> d = [] \<and> w_out w' = w_out w
     else d \<noteq> [] \<and> r = int (length d) \<and> length d \<le> n \<and> received False w d w'" if "recv_retry w n = (r, d, w')"
    using that assms(2)
  proof (induction w n rule: recv_retry.induct)
    case (1 w n)
    obtain q e v where v: "sys_recv w n = (q, e, v)" by (metis prod_cases3)
    note rc = sys_recv_received [OF v "1.prems"(2), of False]
    show ?case
    proof (cases "q = -1 \<and> w_errno v = EINTR")
      case True
      then have "recv_retry v n = (r, d, w')" using "1.prems" v by (subst (asm) recv_retry.simps) auto
      from "1.IH" [OF v [symmetric] refl True this "1.prems"(2)] rc True show ?thesis by (auto simp: received_def split: if_splits)
    next
      case False
      then have "(r, d, w') = (q, e, v)" using "1.prems" v by (subst (asm) recv_retry.simps) auto
      then show ?thesis using rc False by (auto split: if_splits)
    qed
  qed
  then show ?thesis using assms False by (auto simp: do_recv_def)
qed

definition same_io :: "'sc tnt_stream_net \<Rightarrow> 'sc tnt_stream_net \<Rightarrow> bool" where
  "same_io s s' \<longleftrightarrow> nt_sbuf s' = nt_sbuf s \<and> w_out (nt_sys s') = w_out (nt_sys s) \<and> nt_opt s' = nt_opt s
     \<and> nt_fd s' = nt_fd s \<and> nt_connected s' = nt_connected s \<and> nt_schema s' = nt_schema s \<and> nt_greeting s' = nt_greeting s"

lemma same_io_trans: "same_io s s1 \<Longrightarrow> same_io s1 s2 \<Longrightarrow> same_io s s2"
  by (simp add: same_io_def)

lemma sys_error_fields: "nt_rbuf (sys_error s) = nt_rbuf s" "nt_sys (sys_error s) = nt_sys s"
  by (simp_all add: sys_error_def)

lemma recv_loop_all:
  assumes "recv_loop True s left got = (r, d, s')" and "0 < left"
  shows "nt_rbuf s' = nt_rbuf s \<and> same_io s s' \<and>
     (let av = recv_avail (ib_tx (nt_rbuf s)) (w_recv (nt_sys s)) in
      if left \<le> length av then r = int (length got + left) \<and> d = got @ take left av
         \<and> recv_avail (ib_tx (nt_rbuf s)) (w_recv (nt_sys s')) = drop left av
      else r = -1)"
  using assms
proof (induction "True" s left got rule: recv_loop.induct)
  case (1 s left got)
  let ?cb = "ib_tx (nt_rbuf s)"
  obtain q e w where q: "do_recv ?cb (nt_sys s) left = (q, e, w)" by (metis prod_cases3)
  note rc = do_recv_received [OF q "1.prems"(2)]
  consider "q \<le> 0" | "0 < q" "left - nat q \<noteq> 0" | "0 < q" "left - nat q = 0" by linarith
  then show ?case
  proof cases
    case 1
    then have "(r, d, s') = (-1, got @ e, sys_error (s\<lparr>nt_sys := w\<rparr>))" using "1.prems" q by (subst (asm) recv_loop.simps) auto
    then show ?thesis using rc 1 "1.prems"(2) by (auto simp: sys_error_def same_io_def)
  next
    case 2
    let ?s = "s\<lparr>nt_sys := w\<rparr>"
    have l: "recv_loop True ?s (left - nat q) (got @ e) = (r, d, s')"
      using "1.prems" q 2 by (subst (asm) recv_loop.simps) auto
    have e: "nat q = length e" "received ?cb (nt_sys s) e w" using rc 2 by (auto split: if_splits)
    have same: "same_io s ?s" using e(2) by (simp add: same_io_def received_def)
    note IH = "1.hyps" [OF q [symmetric] refl refl _ _ l]
    have "nt_rbuf s' = nt_rbuf ?s \<and> same_io ?s s' \<and>
     (let av = recv_avail ?cb (w_recv w) in
      if left - nat q \<le> length av then r = int (length (got @ e) + (left - nat q)) \<and> d = (got @ e) @ take (left - nat q) av
         \<and> recv_avail ?cb (w_recv (nt_sys s')) = drop (left - nat q) av
      else r = -1)"
      using IH 2 unfolding Let_def by (simp split: if_splits)
    moreover have "recv_avail ?cb (w_recv (nt_sys s)) = e @ recv_avail ?cb (w_recv w)" using e(2) by (simp add: received_def)
    ultimately show ?thesis using same_io_trans [OF same] e(1) 2 by (auto simp: Let_def split: if_splits)
  next
    case 3
    then have "(r, d, s') = (int (length (got @ e)), got @ e, s\<lparr>nt_sys := w\<rparr>)"
      using "1.prems" q by (subst (asm) recv_loop.simps) auto
    moreover have e: "nat q = length e" "received ?cb (nt_sys s) e w" "length e \<le> left" using rc 3 by (auto split: if_splits)
    ultimately show ?thesis using 3 by (auto simp: received_def same_io_def)
  qed
qed

text \<open>One refill of the buffer.\<close>

lemma recv_raw_once:
  assumes "tnt_io_recv_raw s n False = (r, d, s')" and "0 < n"
  shows "nt_rbuf s' = nt_rbuf s \<and> same_io s s' \<and>
     (if r \<le> 0 then recv_avail (ib_tx (nt_rbuf s)) (w_recv (nt_sys s)) = [] \<and> d = []
      else d \<noteq> [] \<and> r = int (length d) \<and> length d \<le> n
         \<and> recv_avail (ib_tx (nt_rbuf s)) (w_recv (nt_sys s)) = d @ recv_avail (ib_tx (nt_rbuf s)) (w_recv (nt_sys s')))"
proof -
  obtain q e w where q: "do_recv (ib_tx (nt_rbuf s)) (nt_sys s) n = (q, e, w)" by (metis prod_cases3)
  have "(r, d, s') = (if q \<le> 0 then (-1, e, sys_error (s\<lparr>nt_sys := w\<rparr>)) else (int (length e), e, s\<lparr>nt_sys := w\<rparr>))"
    using assms(1) q unfolding tnt_io_recv_raw_def by (subst (asm) recv_loop.simps) auto
  then show ?thesis using do_recv_received [OF q assms(2)]
    by (auto simp: sys_error_def same_io_def received_def split: if_splits)
qed

lemma unread_simps:
  "ib_buf b = Blk d \<Longrightarrow> unread b = take (ib_top b - ib_off b) (drop (ib_off b) d)"
  by (simp add: unread_def)

lemma recv_buffered_ok:
  assumes "recvbuf_wf (nt_rbuf s)" and "ib_buf (nt_rbuf s) \<noteq> NULLP"
  shows "\<exists>r d s'. recv_buffered s left got = Some (r, d, s') \<and> recvbuf_wf (nt_rbuf s') \<and> same_io s s' \<and>
     ib_buf (nt_rbuf s') \<noteq> NULLP \<and> ib_tx (nt_rbuf s') = ib_tx (nt_rbuf s) \<and>
     (if left \<le> length (io_in s) then r = int (length got + left) \<and> d = got @ take left (io_in s) \<and> io_in s' = drop left (io_in s)
      else r = -1)"
  using assms
proof (induction "recv_size (w_recv (nt_sys s))" arbitrary: s left got rule: less_induct)
  case less
  let ?b = "nt_rbuf s"
  from less.prems obtain d where d: "ib_buf ?b = Blk d" "length d = ib_size ?b" "0 < ib_size ?b" "ib_off ?b \<le> ib_top ?b"
    "ib_top ?b \<le> ib_size ?b" by (auto simp: recvbuf_wf_def split: cptr.splits)
  note ur = unread_simps [OF d(1)]
  show ?case
  proof (cases "ib_off ?b + left \<le> ib_top ?b")
    case True
    let ?s = "s\<lparr>nt_rbuf := ?b\<lparr>ib_off := ib_off ?b + left\<rparr>\<rparr>"
    have "recv_buffered s left got = Some (int (length got + left), got @ take left (drop (ib_off ?b) d), ?s)"
      using d True by (subst recv_buffered.simps) (simp add: Let_def)
    moreover have "unread (nt_rbuf ?s) = drop left (unread ?b)" "take left (unread ?b) = take left (drop (ib_off ?b) d)"
      using d True by (simp_all add: unread_simps ur drop_take add.commute min_def)
    moreover have "length (unread ?b) = ib_top ?b - ib_off ?b" using d by (simp add: ur)
    then have "left \<le> length (unread ?b)" using True by simp
    ultimately show ?thesis using d True
      by (auto simp: io_in_def recvbuf_wf_def same_io_def)
  next
    case False
    define lv where "lv = ib_top ?b - ib_off ?b"
    define g where "g = got @ take lv (drop (ib_off ?b) d)"
    define s0 where "s0 = s\<lparr>nt_rbuf := ?b\<lparr>ib_off := 0\<rparr>\<rparr>"
    obtain n e s1 where n: "tnt_io_recv_raw s0 (ib_size ?b) False = (n, e, s1)" by (metis prod_cases3)
    have g: "g = got @ unread ?b" "length (unread ?b) = lv" "lv < left" using d False by (simp_all add: g_def ur lv_def)
    note one = recv_raw_once [OF n d(3)]
    have one': "nt_rbuf s1 = ?b\<lparr>ib_off := 0\<rparr>" "same_io s s1" using one by (simp_all add: s0_def same_io_def)
    define s2 where "s2 = s1\<lparr>nt_rbuf := (nt_rbuf s1)\<lparr>ib_buf := Blk (blit d 0 e)\<rparr>\<rparr>"
    have unf: "recv_buffered s left got = (if n \<le> 0 then Some (-1, g, sys_error s2)
        else let s3 = s2\<lparr>nt_rbuf := (nt_rbuf s2)\<lparr>ib_top := nat n\<rparr>\<rparr> in
          if left - lv \<le> nat n then Some (int (length g + (left - lv)), g @ take (left - lv) (blit d 0 e),
             s3\<lparr>nt_rbuf := (nt_rbuf s3)\<lparr>ib_off := left - lv\<rparr>\<rparr>)
          else recv_buffered s3 (left - lv) g)"
      using d False n by (subst recv_buffered.simps) (simp add: Let_def lv_def g_def s0_def s2_def)
    have len: "length (blit d 0 e) = ib_size ?b" if "length e \<le> ib_size ?b" using that d(2) by simp
    have inn: "io_in s = unread ?b @ recv_avail (ib_tx ?b) (w_recv (nt_sys s0))" by (simp add: io_in_def s0_def)
    have tx: "ib_tx (nt_rbuf s0) = ib_tx ?b" by (simp add: s0_def)
    show ?thesis
    proof (cases "n \<le> 0")
      case True
      then have "recv_avail (ib_tx ?b) (w_recv (nt_sys s0)) = []" "e = []" using one tx by auto
      then show ?thesis using True unf one' g d len inn
        by (auto simp: s2_def sys_error_def recvbuf_wf_def same_io_def)
    next
      case pos: False
      let ?av = "recv_avail (ib_tx ?b) (w_recv (nt_sys s1))"
      have e: "nat n = length e" "length e \<le> ib_size ?b" "e \<noteq> []" "recv_avail (ib_tx ?b) (w_recv (nt_sys s0)) = e @ ?av"
        using one pos tx by auto
      define s3 where "s3 = s2\<lparr>nt_rbuf := (nt_rbuf s2)\<lparr>ib_top := nat n\<rparr>\<rparr>"
      have b3: "nt_rbuf s3 = ?b\<lparr>ib_off := 0, ib_buf := Blk (blit d 0 e), ib_top := length e\<rparr>" "nt_sys s3 = nt_sys s1"
        by (simp_all add: s3_def s2_def one'(1) e(1))
      have s3: "recvbuf_wf (nt_rbuf s3)" "ib_buf (nt_rbuf s3) \<noteq> NULLP" "ib_tx (nt_rbuf s3) = ib_tx ?b" "same_io s s3"
        "unread (nt_rbuf s3) = e" "io_in s3 = e @ ?av"
        using b3 len [OF e(2)] d e(2) one'(2)
        by (auto simp: recvbuf_wf_def s3_def s2_def same_io_def unread_def io_in_def blit_def)
      have in3: "io_in s = unread ?b @ io_in s3" using inn e(4) s3(6) by simp
      show ?thesis
      proof (cases "left - lv \<le> nat n")
        case True
        let ?s4 = "s3\<lparr>nt_rbuf := (nt_rbuf s3)\<lparr>ib_off := left - lv\<rparr>\<rparr>"
        have "recv_buffered s left got = Some (int (length g + (left - lv)), g @ take (left - lv) (blit d 0 e), ?s4)"
          using unf pos True by (simp add: s3_def)
        moreover have "recvbuf_wf (nt_rbuf ?s4)" "unread (nt_rbuf ?s4) = drop (left - lv) e" "same_io s ?s4"
          "take (left - lv) (blit d 0 e) = take (left - lv) e"
          using b3 s3(4) len [OF e(2)] d e(1,2) True by (auto simp: recvbuf_wf_def unread_def same_io_def blit_def drop_take)
        ultimately show ?thesis using in3 s3 g True e(1) b3 by (auto simp: io_in_def)
      next
        case False
        have "recv_size (w_recv (nt_sys s3)) < recv_size (w_recv (nt_sys s))"
          using recv_raw_shrinks [OF n] pos b3(2) by (simp add: s0_def)
        from less.hyps [OF this s3(1,2), of "left - lv" g] obtain r x s' where
          r: "recv_buffered s3 (left - lv) g = Some (r, x, s')" "recvbuf_wf (nt_rbuf s')" "same_io s3 s'"
          "ib_buf (nt_rbuf s') \<noteq> NULLP" "ib_tx (nt_rbuf s') = ib_tx (nt_rbuf s3)"
          "if left - lv \<le> length (io_in s3) then r = int (length g + (left - lv)) \<and> x = g @ take (left - lv) (io_in s3)
             \<and> io_in s' = drop (left - lv) (io_in s3) else r = -1" by blast
        moreover have "recv_buffered s left got = Some (r, x, s')" using unf pos False r(1) by (simp add: s3_def)
        ultimately show ?thesis using in3 s3(3) same_io_trans [OF s3(4)] g by (auto split: if_splits)
      qed
    qed
  qed
qed

lemma io_recv_ok:
  assumes "recvbuf_wf (nt_rbuf s)" and "0 < n"
  obtains r d s' where "tnt_io_recv s n = Some (r, d, s')" "recvbuf_wf (nt_rbuf s')" "same_io s s'"
    "if n \<le> length (io_in s) then r = int n \<and> d = take n (io_in s) \<and> io_in s' = drop n (io_in s) else r = -1"
proof (cases "ib_buf (nt_rbuf s) = NULLP")
  case True
  obtain r d s' where r: "recv_loop True s n [] = (r, d, s')" by (metis prod_cases3)
  have "io_in x = recv_avail (ib_tx (nt_rbuf x)) (w_recv (nt_sys x))" if "nt_rbuf x = nt_rbuf s" for x :: "'a tnt_stream_net"
    using True that by (simp add: io_in_def unread_def)
  then show thesis using recv_loop_all [OF r assms(2)] True assms(1) r
    by (intro that [of r d s']) (auto simp: tnt_io_recv_def tnt_io_recv_raw_def Let_def split: if_splits)
next
  case False
  from recv_buffered_ok [OF assms(1) False, of n "[]"] obtain r d s' where
    "recv_buffered s n [] = Some (r, d, s')" "recvbuf_wf (nt_rbuf s')" "same_io s s'"
    "if n \<le> length (io_in s) then r = int n \<and> d = take n (io_in s) \<and> io_in s' = drop n (io_in s) else r = -1" by auto
  then show thesis using False by (intro that [of r d s']) (simp_all add: tnt_io_recv_def)
qed

section \<open>Descriptors\<close>

definition keeps :: "'sc tnt_stream_net \<Rightarrow> 'sc tnt_stream_net \<Rightarrow> bool" where
  "keeps s s' \<longleftrightarrow> (\<exists>w n. s' = s\<lparr>nt_sys := w, nt_errno := n\<rparr> \<and> w_fds w = w_fds (nt_sys s))"

lemma keeps_refl [intro, simp]: "keeps s s"
  unfolding keeps_def by (rule exI [of _ "nt_sys s"], rule exI [of _ "nt_errno s"]) simp

lemma keeps_trans: "keeps s s1 \<Longrightarrow> keeps s1 s2 \<Longrightarrow> keeps s s2"
  unfolding keeps_def by (elim exE conjE) (rule exI, rule exI, auto)

lemma keeps_save [simp]: "keeps s s' \<Longrightarrow> keeps s (save_errno s')"
  unfolding keeps_def save_errno_def by (elim exE conjE) (rule exI, rule exI, auto)

lemma keeps_errno [simp]: "keeps s s' \<Longrightarrow> keeps s (s'\<lparr>nt_errno := e\<rparr>)"
  unfolding keeps_def by (elim exE conjE) (rule exI, rule exI, auto)

lemma ctl_sys: "ctl c s = (r, s') \<Longrightarrow> \<exists>w. s' = s\<lparr>nt_sys := w\<rparr> \<and> w_fds w = track c r (w_fds (nt_sys s))"
  by (auto simp: ctl_def sys_ctl_def split: list.splits ctl_ans.splits)

lemma ctl_keeps: "ctl c s = (r, s') \<Longrightarrow> (\<And>x r. c \<noteq> Csocket x \<and> c \<noteq> Cclose r) \<Longrightarrow> keeps s s'"
proof -
  assume a: "ctl c s = (r, s')" and c: "\<And>x r. c \<noteq> Csocket x \<and> c \<noteq> Cclose r"
  have "track c r fds = fds" for fds using c by (cases c) auto
  with ctl_sys [OF a] obtain w where "s' = s\<lparr>nt_sys := w\<rparr>" "w_fds w = w_fds (nt_sys s)" by auto
  then show ?thesis unfolding keeps_def by (intro exI [of _ w] exI [of _ "nt_errno s"]) simp
qed

lemma nonblock_keeps: "tnt_io_nonblock s nb = (e, s') \<Longrightarrow> keeps s s'"
  unfolding tnt_io_nonblock_def Let_def
  by (auto split: prod.splits if_splits dest!: ctl_keeps intro: keeps_trans)

lemma poll_keeps: "poll_loop s start timeout = (e, s') \<Longrightarrow> keeps s s'"
proof (induction s start timeout rule: poll_loop.induct)
  case (1 s start timeout)
  obtain ret s1 where r: "ctl (Cpoll (nt_fd s) timeout) s = (ret, s1)" by fastforce
  obtain t s2 where t: "ctl Cgettimeofday s1 = (t, s2)" by fastforce
  have k: "keeps s s1" "keeps s1 s2" using ctl_keeps [OF r] ctl_keeps [OF t] by auto
  show ?case
  proof (cases "ret = -1 \<and> (w_errno (nt_sys s1) = EINTR \<or> w_errno (nt_sys s1) = EAGAIN) \<and> t \<noteq> -1
      \<and> \<not> timeout \<le> to_cint (TIMEVAL_DIFF_MSEC (tv_of t) start)")
    case True
    then have "poll_loop s2 start timeout = (e, s')" using "1.prems" r t by (subst (asm) poll_loop.simps) auto
    with "1.IH" [OF r [symmetric] _ _ t [symmetric]] True have "keeps s2 s'" by auto
    then show ?thesis using keeps_trans [OF k(1) keeps_trans [OF k(2)]] by blast
  next
    case False
    then have "s' \<in> {s1, save_errno s1, s2, save_errno s2}"
      using "1.prems" r t by (subst (asm) poll_loop.simps) (auto split: if_splits)
    then show ?thesis using k keeps_trans [OF k] by auto
  qed
qed

lemma connect_do_keeps: "tnt_io_connect_do s addr = (e, s') \<Longrightarrow> keeps s s'"
  unfolding tnt_io_connect_do_def Let_def
  by (auto split: prod.splits if_splits dest!: ctl_keeps nonblock_keeps poll_keeps;
      blast intro: keeps_trans keeps_save keeps_errno)

lemma xbufmax_loop_keeps: "xbufmax_loop opt s lo hi = Some s' \<Longrightarrow> keeps s s'"
proof (rule xbufmax_loop.raw_induct [where P = "\<lambda>opt s lo hi s'. keeps s s'"], goal_cases)
  case (1 loop opt s lo hi s')
  let ?c = "ctl (Csetsockopt (nt_fd s) opt (uint (xbuf_avg lo hi))) s"
  have "keeps s (snd ?c)" by (rule ctl_keeps [of _ _ "fst ?c"]) auto
  then show ?case using 1 by (auto split: if_splits intro: keeps_trans)
qed

lemma setopts_keeps: "tnt_io_setopts s = Some (e, s') \<Longrightarrow> keeps s s'"
  unfolding tnt_io_setopts_def tnt_io_xbufmax_def Let_def
  by (auto split: prod.splits if_splits Option.bind_splits dest!: ctl_keeps xbufmax_loop_keeps;
      blast intro: keeps_trans keeps_save)

text \<open>The open descriptors other than 0, which \<open>tnt_io_close\<close> does not close.\<close>

definition held :: "'sc tnt_stream_net \<Rightarrow> int list" where
  "held s = filter (\<lambda>fd. fd \<noteq> 0) (w_fds (nt_sys s))"

definition connects :: "'sc tnt_stream_net \<Rightarrow> tnt_error \<Rightarrow> 'sc tnt_stream_net \<Rightarrow> bool" where
  "connects s e s' \<longleftrightarrow> (if e = TNT_EOK then 0 \<le> nt_fd s' \<and> held s' = (if nt_fd s' = 0 then [] else [nt_fd s']) @ held s
     else held s' = held s)"

lemma keeps_fields: "keeps s s' \<Longrightarrow> nt_fd s' = nt_fd s \<and> held s' = held s"
  by (auto simp: keeps_def held_def)

lemma close_held:
  assumes "0 \<le> nt_fd s" and "w_fds (nt_sys s) = nt_fd s # fds"
  shows "held (tnt_io_close s) = filter (\<lambda>fd. fd \<noteq> 0) fds"
proof -
  obtain r s' where c: "ctl (Cclose (nt_fd s)) s = (r, s')" by fastforce
  show ?thesis using ctl_sys [OF c] assms by (auto simp: tnt_io_close_def Let_def held_def c)
qed

text \<open>A socket that is opened is kept on success and closed on failure.\<close>

lemma after_socket:
  assumes "ctl (Csocket f) s = (fd, s1)" and "0 \<le> fd" and "keeps (s1\<lparr>nt_fd := fd\<rparr>) s2"
  shows "connects s TNT_EOK s2" "held (tnt_io_close s2) = held s" "held (tnt_io_close (save_errno s2)) = held s"
proof -
  from ctl_sys [OF assms(1)] assms(2) obtain w where w: "s1 = s\<lparr>nt_sys := w\<rparr>" "w_fds w = fd # w_fds (nt_sys s)" by auto
  from assms(3) obtain w' n where s2: "s2 = s1\<lparr>nt_fd := fd, nt_sys := w', nt_errno := n\<rparr>" "w_fds w' = fd # w_fds (nt_sys s)"
    unfolding keeps_def by (auto simp: w)
  show "connects s TNT_EOK s2" using assms(2) by (simp add: connects_def held_def s2)
  show "held (tnt_io_close s2) = held s"
    using close_held [of s2 "w_fds (nt_sys s)"] assms(2) by (simp add: s2 held_def)
  show "held (tnt_io_close (save_errno s2)) = held s"
    using close_held [of "save_errno s2" "w_fds (nt_sys s)"] assms(2) by (simp add: s2 held_def save_errno_def)
qed

lemma socket_failed:
  assumes "ctl (Csocket f) s = (fd, s1)" and "fd < 0"
  shows "held (save_errno (s1\<lparr>nt_fd := fd\<rparr>)) = held s"
  using ctl_sys [OF assms(1)] assms(2) by (auto simp: held_def save_errno_def)

lemma tcp_loop_connects:
  "tcp_loop s result as = Some (e, s') \<Longrightarrow> result = TNT_EOK \<longrightarrow> as \<noteq> [] \<Longrightarrow> connects s e s'"
proof (induction as arbitrary: s result)
  case Nil
  then show ?case by (simp add: connects_def)
next
  case (Cons a as)
  obtain fd s1 where fd: "ctl (Csocket (int a)) s = (fd, s1)" by fastforce
  let ?s1 = "s1\<lparr>nt_fd := fd\<rparr>"
  have step: ?case if "tcp_loop x res as = Some (e, s')" "res \<noteq> TNT_EOK" "held x = held s" for x res
    using Cons.IH [OF that(1)] that(2,3) by (simp add: connects_def)
  show ?case
  proof (cases "fd < 0")
    case True
    then show ?thesis using Cons.prems fd socket_failed [OF fd True] by (intro step [of "save_errno ?s1" TNT_ESYSTEM]) auto
  next
    case False
    then have "0 \<le> fd" by simp
    note sock = after_socket [OF fd this]
    from Cons.prems(1) fd False obtain r1 s2 where s2: "tnt_io_setopts ?s1 = Some (r1, s2)"
      by (auto split: Option.bind_splits)
    note k2 = setopts_keeps [OF s2]
    show ?thesis
    proof (cases "r1 = TNT_EOK")
      case False
      then show ?thesis using Cons.prems fd \<open>\<not> fd < 0\<close> s2 sock(2) [OF k2] by (intro step [of "tnt_io_close s2" r1]) auto
    next
      case True
      obtain r2 s3 where s3: "tnt_io_connect_do s2 (sockaddr a) = (r2, s3)" by fastforce
      note k3 = keeps_trans [OF k2 connect_do_keeps [OF s3]]
      show ?thesis
      proof (cases "r2 = TNT_EOK")
        case False
        then show ?thesis using Cons.prems fd \<open>\<not> fd < 0\<close> s2 True s3 sock(2) [OF k3] by (intro step [of "tnt_io_close s3" r2]) auto
      next
        case eok: True
        then have "(e, s') = (TNT_EOK, s3)" using Cons.prems fd \<open>\<not> fd < 0\<close> s2 True s3 by auto
        then show ?thesis using sock(1) [OF k3] by simp
      qed
    qed
  qed
qed

lemma connect_unix_connects: "tnt_io_connect_unix s path = Some (e, s') \<Longrightarrow> connects s e s'"
proof -
  assume a: "tnt_io_connect_unix s path = Some (e, s')"
  obtain fd s1 where fd: "ctl (Csocket PF_UNIX) s = (fd, s1)" by fastforce
  show ?thesis
  proof (cases "fd < 0")
    case True
    then show ?thesis using a fd socket_failed [OF fd True] by (auto simp: tnt_io_connect_unix_def connects_def)
  next
    case False
    then have "0 \<le> fd" by simp
    note sock = after_socket [OF fd this]
    from a fd False obtain r1 s2 where s2: "tnt_io_setopts (s1\<lparr>nt_fd := fd\<rparr>) = Some (r1, s2)"
      by (auto simp: tnt_io_connect_unix_def Let_def split: Option.bind_splits)
    note k2 = setopts_keeps [OF s2]
    show ?thesis
    proof (cases "r1 = TNT_EOK")
      case False
      then show ?thesis using a fd \<open>\<not> fd < 0\<close> s2 sock(2) [OF k2] by (auto simp: tnt_io_connect_unix_def connects_def)
    next
      case True
      obtain r s3 where s3: "ctl (Cconnect (nt_fd s2) (take (the (c_strlen path)) path)) s2 = (r, s3)" by fastforce
      note k3 = keeps_trans [OF k2 ctl_keeps [OF s3]]
      show ?thesis using a fd \<open>\<not> fd < 0\<close> s2 True s3 sock(1,3) [OF k3]
        by (auto simp: tnt_io_connect_unix_def connects_def split: Option.bind_splits if_splits)
    qed
  qed
qed

lemma held_log: "held (s\<lparr>nt_sys := (nt_sys s)\<lparr>w_log := l\<rparr>\<rparr>) = held s"
  by (simp add: held_def)

lemma connect_tcp_connects: "tnt_io_connect_tcp s host port = Some (e, s') \<Longrightarrow> connects s e s'"
  unfolding tnt_io_connect_tcp_def tnt_io_resolve_def Let_def
  by (auto simp: connects_def held_log split: option.splits list.splits if_splits dest!: tcp_loop_connects simp del: tcp_loop.simps)

lemma connects_connected: "connects s e (s'\<lparr>nt_connected := b\<rparr>) = connects s e s'"
  by (simp add: connects_def held_def)

lemma connect_connects:
  assumes "tnt_io_connect s = Some (e, s')"
  shows "connects s e s' \<and> (e = TNT_EOK \<longrightarrow> nt_connected s')"
proof -
  from assms obtain uri where u: "op_uri (nt_opt s) = Some uri" by (auto simp: tnt_io_connect_def split: Option.bind_splits)
  have "connects s TNT_EFAIL s" by (simp add: connects_def)
  then show ?thesis using assms u
    by (cases "u_host_hint uri") (auto simp: tnt_io_connect_def connects_connected split: if_splits option.splits Option.bind_splits
        dest!: connect_tcp_connects connect_unix_connects)
qed

section \<open>Tuning the socket buffers\<close>

lemma xbuf_avg_mid:
  assumes "0 \<le> lo" and "lo \<le> hi" and "hi \<le> 2 ^ 27"
  shows "sint (xbuf_avg lo hi + 1) = (lo + hi) div 2 + 1" "sint (xbuf_avg lo hi - 1) = (lo + hi) div 2 - 1"
proof -
  let ?a = "(lo + hi) div 2"
  have "uint (xbuf_avg lo hi) = ?a"
    using assms by (simp add: xbuf_avg_def uint_div uint_word_of_int mod_pos_pos_trivial del: of_int_add)
  then have "xbuf_avg lo hi = of_int ?a" by (metis word_of_int_uint)
  then have a: "xbuf_avg lo hi + 1 = of_int (?a + 1)" "xbuf_avg lo hi - 1 = of_int (?a - 1)" by simp_all
  have "0 \<le> ?a" "?a \<le> 2 ^ 27" using assms by auto
  then show "sint (xbuf_avg lo hi + 1) = ?a + 1" "sint (xbuf_avg lo hi - 1) = ?a - 1"
    by (simp_all only: a) (rule sint_of_int_fits; simp)+
qed

lemma xbufmax_returns:
  fixes s :: "'sc tnt_stream_net"
  shows "0 \<le> lo \<Longrightarrow> hi \<le> 2 ^ 27 \<Longrightarrow> \<exists>s'. xbufmax_loop opt s lo hi = Some s'"
proof (induction "nat (hi + 1 - lo)" arbitrary: s lo hi rule: less_induct)
  case less
  show ?case
  proof (cases "lo \<le> hi")
    case False
    then show ?thesis by (simp add: xbufmax_loop.simps)
  next
    case True
    note m = xbuf_avg_mid [OF less.prems(1) True less.prems(2)]
    let ?a = "(lo + hi) div 2"
    have a: "lo \<le> ?a" "?a \<le> hi" using True by auto
    have 1: "\<exists>s'. xbufmax_loop opt x (?a + 1) hi = Some s'" for x :: "'sc tnt_stream_net"
      by (rule less.hyps) (use a less.prems in auto)
    have 2: "\<exists>s'. xbufmax_loop opt x lo (?a - 1) = Some s'" for x :: "'sc tnt_stream_net"
      by (rule less.hyps) (use a less.prems in auto)
    show ?thesis using 1 2 True less.prems
      by (subst xbufmax_loop.simps) (simp add: m)
  qed
qed

section \<open>Properties\<close>

lemma send_retry_ok:
  "w_send w = SendOk m # xs \<Longrightarrow> send_retry w b = (int (min m (length b)), w\<lparr>w_send := xs, w_out := w_out w @ take m b\<rparr>)"
  by (subst send_retry.simps) (simp add: sys_send_def)

lemma send_loop_one:
  assumes "w_send (nt_sys s) = SendOk n # xs" and "ib_tx (nt_sbuf s) = False" and "b \<noteq> []" and "length b \<le> n"
  shows "send_loop True s b 0 = (int (length b), s\<lparr>nt_sys := (nt_sys s)\<lparr>w_send := xs, w_out := w_out (nt_sys s) @ b\<rparr>\<rparr>)"
  using assms send_retry_ok [OF assms(1), of b] by (subst send_loop.simps) (simp add: do_send_def Let_def)

text \<open>C12. Receiving is exact: whatever pieces the peer's bytes arrive in, and however often \<open>recv\<close> is
  interrupted, \<open>tnt_io_recv\<close> for \<open>n > 0\<close> bytes returns \<open>n\<close> with the next \<open>n\<close> bytes of the stream (those left in the
  receive buffer first) when that many arrive before the connection ends, and the rest stays to be read; otherwise
  it returns -1.  It is defined on every well-formed structure, and nothing is sent.\<close>

theorem io_recv_fifo:
  assumes "recvbuf_wf (nt_rbuf s)" and "0 < n"
  shows "\<exists>r d s'. tnt_io_recv s n = Some (r, d, s') \<and> recvbuf_wf (nt_rbuf s') \<and> w_out (nt_sys s') = w_out (nt_sys s) \<and>
     (if n \<le> length (io_in s) then r = int n \<and> d = take n (io_in s) \<and> io_in s' = drop n (io_in s) else r = -1)"
proof -
  obtain r d s' where "tnt_io_recv s n = Some (r, d, s')" "recvbuf_wf (nt_rbuf s')" "same_io s s'"
    "if n \<le> length (io_in s) then r = int n \<and> d = take n (io_in s) \<and> io_in s' = drop n (io_in s) else r = -1"
    by (rule io_recv_ok [OF assms])
  then show ?thesis unfolding same_io_def by blast
qed

definition demo_world :: world where
  "demo_world = \<lparr>w_send = [SendOk 2, SendErr EAGAIN, SendOk 100], w_out = [], w_recv = [RecvOk [1, 2], RecvErr EINTR, RecvOk [3, 4, 5]],
     w_ctl = [CtlOk 5, CtlOk 0, CtlOk 0, CtlErr 111, CtlOk 0], w_addrs = None, w_log = [], w_fds = [], w_errno = 0\<rparr>"

definition demo_iob :: "bytes \<Rightarrow> nat \<Rightarrow> tnt_iob" where
  "demo_iob d off = \<lparr>ib_buf = Blk d, ib_off = off, ib_top = off, ib_size = length d, ib_tx = False, ib_txv = False, ib_ptr = 0\<rparr>"

definition demo_net :: "unit tnt_stream_net" where
  "demo_net = \<lparr>nt_opt = zero_opt\<lparr>op_uri := Some (zero_uri\<lparr>u_host_hint := URI_UNIX, u_service := Some [0x2f, 0x61], u_service_len := 2\<rparr>),
      op_send_buf := 2147483647, op_recv_buf := 2147483647\<rparr>, nt_connected = False, nt_fd = -1,
     nt_sbuf = demo_iob [7, 8, 9, 0] 3, nt_rbuf = demo_iob [0, 0, 0] 0, nt_error = TNT_EOK, nt_errno = 0, nt_greeting = NULLP,
     nt_schema = None, nt_inited = True, nt_sys = demo_world\<rparr>"

theorem io_recv_fifo_witness:
  "\<exists>s'. tnt_io_recv demo_net 4 = Some (4, [1, 2, 3, 4], s')"
proof -
  have "recvbuf_wf (nt_rbuf demo_net)" "io_in demo_net = [1, 2, 3, 4, 5]"
    by (simp_all add: demo_net_def demo_iob_def recvbuf_wf_def io_in_def unread_def demo_world_def EINTR_def)
  with io_recv_fifo [of demo_net 4] show ?thesis by auto
qed

text \<open>C11. Sending is exact: on a well-formed structure \<open>tnt_io_sendv\<close> and \<open>tnt_io_flush\<close> are defined and keep it
  well formed, whatever the system accepts per call.  When \<open>tnt_io_sendv\<close> does not return -1 it returns the size of
  the message, and the bytes sent and still buffered have grown by exactly that message; when \<open>tnt_io_flush\<close> does
  not return -1 all of them have been sent.\<close>

theorem io_send_exact:
  assumes "sendbuf_wf (nt_sbuf s)"
  shows "\<exists>r s' q t. tnt_io_sendv s iov = Some (r, s') \<and> sendbuf_wf (nt_sbuf s')
     \<and> (r \<noteq> -1 \<longrightarrow> r = int (length (concat iov)) \<and> io_out s' = io_out s @ concat iov)
     \<and> tnt_io_flush s' = Some (q, t) \<and> sendbuf_wf (nt_sbuf t)
     \<and> (r \<noteq> -1 \<longrightarrow> q \<noteq> -1 \<longrightarrow> w_out (nt_sys t) = io_out s @ concat iov \<and> pending (nt_sbuf t) = [])"
proof -
  obtain r s' where s: "tnt_io_sendv s iov = Some (r, s')" "sendbuf_wf (nt_sbuf s')"
    "r \<noteq> -1 \<longrightarrow> r = int (length (concat iov)) \<and> io_out s' = io_out s @ concat iov"
    by (rule io_sendv_ok [OF assms, of iov])
  obtain q t where "tnt_io_flush s' = Some (q, t)" "sendbuf_wf (nt_sbuf t)"
    "q \<noteq> -1 \<longrightarrow> q = int (length (pending (nt_sbuf s'))) \<and> pending (nt_sbuf t) = [] \<and> w_out (nt_sys t) = io_out s'"
    by (rule io_flush_ok [OF s(2)])
  with s show ?thesis by auto
qed

theorem io_send_exact_witness:
  "\<exists>r s' q t. tnt_io_sendv (demo_net\<lparr>nt_sys := demo_world\<lparr>w_send := [SendErr EINTR, SendOk 1, SendOk 9]\<rparr>\<rparr>) [[1], []] = Some (r, s')
     \<and> (r \<noteq> -1 \<longrightarrow> io_out s' = [7, 8, 9, 1]) \<and> tnt_io_flush s' = Some (q, t)
     \<and> (r \<noteq> -1 \<longrightarrow> q \<noteq> -1 \<longrightarrow> w_out (nt_sys t) = [7, 8, 9, 1])"
proof -
  let ?s = "demo_net\<lparr>nt_sys := demo_world\<lparr>w_send := [SendErr EINTR, SendOk 1, SendOk 9]\<rparr>\<rparr>"
  have "sendbuf_wf (nt_sbuf ?s)" "io_out ?s = [7, 8, 9]"
    by (simp_all add: demo_net_def demo_iob_def sendbuf_wf_def io_out_def pending_def demo_world_def)
  with io_send_exact [of ?s "[[1], []]"] show ?thesis by auto
qed

text \<open>C26. Connecting leaks no descriptor: whatever the system answers, when \<open>tnt_io_connect\<close> fails every socket it
  opened has been closed again, and when it succeeds exactly the one in \<open>fd\<close> is left open and the structure is
  marked connected.  (Descriptor 0 is the exception: \<open>tnt_io_close\<close> only closes positive ones.)\<close>

theorem connect_leaks_nothing:
  assumes "tnt_io_connect s = Some (e, s')"
  shows "if e = TNT_EOK then nt_connected s' \<and> 0 \<le> nt_fd s' \<and> held s' = (if nt_fd s' = 0 then [] else [nt_fd s']) @ held s
     else held s' = held s"
  using connect_connects [OF assms] by (auto simp: connects_def split: if_splits)

theorem connect_leaks_nothing_witness:
  "\<exists>s'. tnt_io_connect demo_net = Some (TNT_ESYSTEM, s') \<and> held s' = []"
proof -
  obtain s' where s': "tnt_io_connect demo_net = Some (TNT_ESYSTEM, s')"
    by (simp add: tnt_io_connect_def tnt_io_connect_unix_def demo_net_def demo_world_def zero_opt_def zero_uri_def
        ctl_def sys_ctl_def tnt_io_setopts_def tnt_io_xbufmax_def xbufmax_loop.simps c_strlen_def Let_def)
  with connect_leaks_nothing [OF s'] show ?thesis
    by (simp add: held_def demo_net_def demo_world_def)
qed

text \<open>C27. Tuning the socket buffers terminates: for every non-negative size option the binary search of
  \<open>tnt_io_xbufmax\<close> returns, whatever \<open>setsockopt\<close> answers, without signed overflow.\<close>

theorem xbufmax_terminates:
  assumes "0 \<le> lo"
  shows "\<exists>s'. tnt_io_xbufmax s opt lo = Some (TNT_EOK, s')"
proof -
  obtain s' where "xbufmax_loop opt s (if lo = 0 then 16384 else lo) (128 * 1024 * 1024) = Some s'"
    using xbufmax_returns [of "if lo = 0 then 16384 else lo" "128 * 1024 * 1024" opt s] assms by (cases "lo = 0") auto
  then show ?thesis by (simp add: tnt_io_xbufmax_def)
qed

theorem xbufmax_terminates_witness:
  "\<exists>s'. tnt_io_xbufmax demo_net SO_SNDBUF 16384 = Some (TNT_EOK, s')"
  by (rule xbufmax_terminates) simp

text \<open>C35. A flush that is interrupted by an error repeats itself: after the system took only the first \<open>k\<close> of the
  buffered bytes and then failed, \<open>tnt_io_flush\<close> returns -1 but still holds all of them, so the next successful
  flush sends the first \<open>k\<close> bytes to the peer a second time.\<close>

theorem flush_retry_duplicates:
  assumes "ib_buf (nt_sbuf s) = Blk d" and "ib_off (nt_sbuf s) = length d" and "ib_tx (nt_sbuf s) = False"
    and "w_send (nt_sys s) = [SendOk k, SendErr e, SendOk n]" and "0 < k" and "k < length d" and "length d \<le> n" and "e \<noteq> EINTR"
  shows "\<exists>s1 s2. tnt_io_flush s = Some (-1, s1) \<and> tnt_io_flush s1 = Some (int (length d), s2)
     \<and> w_out (nt_sys s2) = w_out (nt_sys s) @ take k d @ d"
proof -
  have ne: "d \<noteq> []" using assms(6) by auto
  have f: "send_retry w b = (-1, w\<lparr>w_send := xs, w_errno := e\<rparr>)" if "w_send w = SendErr e # xs" for w b xs
    using that assms(8) by (subst send_retry.simps) (simp add: sys_send_def)
  note D = do_send_def assms(3) Let_def
  let ?w1 = "(nt_sys s)\<lparr>w_send := [SendErr e, SendOk n], w_out := w_out (nt_sys s) @ take k d\<rparr>"
  let ?w2 = "?w1\<lparr>w_send := [SendOk n], w_errno := e\<rparr>"
  let ?s1 = "sys_error (s\<lparr>nt_sys := ?w2\<rparr>)"
  have "send_loop True s d 0 = send_loop True (s\<lparr>nt_sys := ?w1\<rparr>) (drop k d) k"
    using assms(5,6) send_retry_ok [OF assms(4), of d] by (subst send_loop.simps) (simp add: D)
  also have "\<dots> = (-1, ?s1)"
    using f [of ?w1 "[SendOk n]" "drop k d"] by (subst send_loop.simps) (simp add: D)
  finally have 1: "tnt_io_flush s = Some (-1, ?s1)"
    using assms(1,2,5,6) ne by (simp add: tnt_io_flush_def iob_pending_def tnt_io_send_raw_def)
  define s1 where "s1 = ?s1"
  have b: "nt_sbuf s1 = nt_sbuf s" "nt_sys s1 = ?w2" by (simp_all add: s1_def sys_error_def)
  have "w_send (nt_sys s1) = SendOk n # []" by (simp add: b(2))
  from send_loop_one [OF this _ ne assms(7)] have
    "send_loop True s1 d 0 = (int (length d), s1\<lparr>nt_sys := ?w2\<lparr>w_send := [], w_out := w_out ?w2 @ d\<rparr>\<rparr>)"
    by (simp add: b assms(3))
  then have "\<exists>s2. tnt_io_flush s1 = Some (int (length d), s2) \<and> w_out (nt_sys s2) = w_out (nt_sys s) @ take k d @ d"
    using assms(1,2) ne by (simp add: tnt_io_flush_def iob_pending_def tnt_io_send_raw_def b)
  with 1 show ?thesis by (auto simp: s1_def)
qed

theorem flush_retry_duplicates_witness:
  "\<exists>s1 s2. tnt_io_flush (demo_net\<lparr>nt_sbuf := demo_iob [7, 8, 9] 3\<rparr>) = Some (-1, s1)
     \<and> tnt_io_flush s1 = Some (3, s2) \<and> w_out (nt_sys s2) = [7, 8, 7, 8, 9]"
  using flush_retry_duplicates [of "demo_net\<lparr>nt_sbuf := demo_iob [7, 8, 9] 3\<rparr>" "[7, 8, 9]" 2 EAGAIN 100]
  by (simp add: demo_net_def demo_iob_def demo_world_def EAGAIN_def EINTR_def)

text \<open>C36. A failed receive makes old bytes readable again: when the connection fails while \<open>tnt_io_recv\<close> waits for
  more than the buffer holds, it resets the read offset but keeps the old fill level, so the next call returns the
  first bytes of the buffer although they had been read before.\<close>

theorem recv_failure_replays:
  assumes "recvbuf_wf (nt_rbuf s)" and "ib_buf (nt_rbuf s) = Blk d" and "w_recv (nt_sys s) = []"
    and "ib_top (nt_rbuf s) - ib_off (nt_rbuf s) < n" and "m \<le> ib_top (nt_rbuf s)"
  shows "\<exists>g s1 s2. tnt_io_recv s n = Some (-1, g, s1) \<and> tnt_io_recv s1 m = Some (int m, take m d, s2)"
proof -
  let ?b = "nt_rbuf s"
  have wf: "length d = ib_size ?b" "0 < ib_size ?b" "ib_off ?b \<le> ib_top ?b" "ib_top ?b \<le> ib_size ?b"
    using assms(1,2) by (auto simp: recvbuf_wf_def)
  let ?s0 = "s\<lparr>nt_rbuf := ?b\<lparr>ib_off := 0\<rparr>\<rparr>"
  have sr: "sys_recv (nt_sys s) k = (0, [], nt_sys s)" for k using assms(3) by (simp add: sys_recv_def)
  have "do_recv cb (nt_sys s) k = (0, [], nt_sys s)" for cb k
    by (cases cb) (simp_all add: do_recv_def sr recv_retry.simps [of "nt_sys s"])
  then have "tnt_io_recv_raw ?s0 (ib_size ?b) False = (-1, [], sys_error ?s0)"
    by (simp add: tnt_io_recv_raw_def recv_loop.simps [of False ?s0] Let_def)
  then have "\<exists>g. recv_buffered s n [] = Some (-1, g, sys_error ((sys_error ?s0)\<lparr>nt_rbuf := ?b\<lparr>ib_off := 0, ib_buf := Blk d\<rparr>\<rparr>))"
    using wf assms(2,4) by (subst recv_buffered.simps) (simp add: Let_def sys_error_def blit_def)
  then obtain g s1 where 1: "recv_buffered s n [] = Some (-1, g, s1)" "nt_rbuf s1 = ?b\<lparr>ib_off := 0, ib_buf := Blk d\<rparr>"
    by (auto simp: sys_error_def)
  have "recv_buffered s1 m [] = Some (int m, take m d, s1\<lparr>nt_rbuf := (nt_rbuf s1)\<lparr>ib_off := m\<rparr>\<rparr>)"
    using wf assms(5) 1(2) by (subst recv_buffered.simps) (simp add: Let_def)
  with 1 assms(2) show ?thesis by (simp add: tnt_io_recv_def)
qed

theorem recv_failure_replays_witness:
  "\<exists>g s1 s2. tnt_io_recv (demo_net\<lparr>nt_rbuf := demo_iob [1, 2, 3] 3, nt_sys := demo_world\<lparr>w_recv := []\<rparr>\<rparr>) 1 = Some (-1, g, s1)
     \<and> tnt_io_recv s1 2 = Some (2, [1, 2], s2)"
  using recv_failure_replays [of "demo_net\<lparr>nt_rbuf := demo_iob [1, 2, 3] 3, nt_sys := demo_world\<lparr>w_recv := []\<rparr>\<rparr>" "[1, 2, 3]" 1 2]
  by (simp add: demo_iob_def recvbuf_wf_def)

end
