(* ===== verification/Tnt_Schema.thy ===== *)
theory Tnt_Schema
  imports Tnt_Reply
begin

text \<open>
  The schema cache, \<^verbatim>\<open>tnt/tnt_schema.c\<close>, with the structures of \<^verbatim>\<open>tnt_schema.h\<close> and \<^verbatim>\<open>tnt_assoc.h\<close>: names and
  numbers of spaces and indexes, read from the replies to two select requests.

  The hash table is the vendored \<^verbatim>\<open>third_party/mhash.h\<close>; the functions the cache calls are the fields of a
  record \<open>assoc_ops\<close>, an argument of every operation, and their documented contract is the locale
  \<open>assoc_table\<close>.  A node of a table is a \<open>struct assoc_val\<close>, here with its own address.  The keys of nodes
  are pointers into the object a node belongs to; these bytes never change while a node is in a table, so that
  the key is kept by value.

  The heap is split into regions: the space objects and the nodes of the space table, and for every space
  object the index objects and nodes of its own table.  An address names an object of its region; reading
  or freeing an address that holds no object is undefined (\<open>None\<close>).
\<close>

section \<open>Tables\<close>

record assoc_val =
  av_addr :: nat
  av_key :: bytes
  av_data :: nat

record 'h assoc_ops =
  mh_new :: "'h option"
  mh_end :: "'h \<Rightarrow> nat"
  mh_exist :: "'h \<Rightarrow> nat \<Rightarrow> bool"
  mh_node :: "'h \<Rightarrow> nat \<Rightarrow> assoc_val"
  mh_find :: "'h \<Rightarrow> bytes \<Rightarrow> nat"
  mh_put :: "'h \<Rightarrow> assoc_val \<Rightarrow> 'h"
  mh_del :: "'h \<Rightarrow> nat \<Rightarrow> 'h"

text \<open>The comparison functions a table is instantiated with.\<close>

definition mh_cmp_key_eq :: "bytes \<Rightarrow> assoc_val \<Rightarrow> bool" where
  "mh_cmp_key_eq key val = (if length key \<noteq> length (av_key val) then False else key = av_key val)"

definition mh_cmp_eq :: "assoc_val \<Rightarrow> assoc_val \<Rightarrow> bool" where
  "mh_cmp_eq lval rval = (if length (av_key lval) \<noteq> length (av_key rval) then False else av_key lval = av_key rval)"

text \<open>The macros \<open>mh_first\<close> and \<open>mh_next\<close> of \<open>mh_foreach\<close>.\<close>

definition mh_from :: "'h assoc_ops \<Rightarrow> 'h \<Rightarrow> nat \<Rightarrow> nat" where
  "mh_from T h i = (case List.find (mh_exist T h) [i..<mh_end T h] of Some j \<Rightarrow> j | None \<Rightarrow> mh_end T h)"

definition mh_first :: "'h assoc_ops \<Rightarrow> 'h \<Rightarrow> nat" where
  "mh_first T h = mh_from T h 0"

definition mh_next :: "'h assoc_ops \<Rightarrow> 'h \<Rightarrow> nat \<Rightarrow> nat" where
  "mh_next T h i = (if i < mh_end T h then mh_from T h (i + 1) else i)"

text \<open>A table with the heap region of its nodes and of the objects they point to.\<close>

record ('h, 'o) assoc =
  as_tab :: 'h
  as_objs :: "nat \<Rightarrow> 'o option"
  as_vals :: "nat set"
  as_next :: nat

definition as_empty :: "'h \<Rightarrow> ('h, 'o) assoc" where
  "as_empty h = \<lparr>as_tab = h, as_objs = Map.empty, as_vals = {}, as_next = 0\<rparr>"

definition new_obj :: "'o \<Rightarrow> ('h, 'o) assoc \<Rightarrow> ('h, 'o) assoc" where
  "new_obj x t = t\<lparr>as_objs := (as_objs t)(as_next t \<mapsto> x), as_next := as_next t + 1\<rparr>"

definition new_val :: "('h, 'o) assoc \<Rightarrow> ('h, 'o) assoc" where
  "new_val t = t\<lparr>as_vals := insert (as_next t) (as_vals t), as_next := as_next t + 1\<rparr>"

text \<open>\<open>tnt_mem_free\<close> of a node or of an object; a null pointer is \<open>None\<close>.\<close>

definition free_val :: "nat option \<Rightarrow> ('h, 'o) assoc \<Rightarrow> ('h, 'o) assoc option" where
  "free_val p t = (case p of None \<Rightarrow> Some t
     | Some a \<Rightarrow> if a \<in> as_vals t then Some (t\<lparr>as_vals := as_vals t - {a}\<rparr>) else None)"

definition free_obj :: "nat \<Rightarrow> ('h, 'o) assoc \<Rightarrow> ('h, 'o) assoc option" where
  "free_obj a t = (case as_objs t a of None \<Rightarrow> None | Some _ \<Rightarrow> Some (t\<lparr>as_objs := (as_objs t)(a := None)\<rparr>))"

text \<open>
  The \<open>do { ... } while (0)\<close> blocks of the free functions: find a node by key, take it out of the table and
  return its address; no node is \<open>None\<close>.
\<close>

definition take_key :: "'h assoc_ops \<Rightarrow> bytes \<Rightarrow> ('h, 'o) assoc \<Rightarrow> nat option \<times> ('h, 'o) assoc" where
  "take_key T k t = (
     let slot = mh_find T (as_tab t) k in
     if slot = mh_end T (as_tab t) then (None, t)
     else (Some (av_addr (mh_node T (as_tab t) slot)), t\<lparr>as_tab := mh_del T (as_tab t) slot\<rparr>))"

text \<open>
  The loop of \<open>tnt_schema_index_free\<close> and \<open>tnt_schema_space_free\<close>, which differ in the type of the objects: \<open>keys\<close>
  are the number and name keys of an object and \<open>rel\<close> releases what it owns.
\<close>

partial_function (option) free_loop :: "'h assoc_ops \<Rightarrow> ('o \<Rightarrow> (bytes \<times> bytes) option) \<Rightarrow> ('o \<Rightarrow> unit option) \<Rightarrow> nat
    \<Rightarrow> ('h, 'o) assoc \<Rightarrow> ('h, 'o) assoc option" where
  "free_loop T keys rel pos t =
     (if pos < mh_end T (as_tab t) then do {
        let a = av_data (mh_node T (as_tab t) pos);
        x \<leftarrow> as_objs t a;
        (k1, k2) \<leftarrow> keys x;
        let (av1, t) = take_key T k1 t;
        let (av2, t) = take_key T k2 t;
        _ \<leftarrow> rel x;
        t \<leftarrow> free_obj a t;
        t \<leftarrow> free_val av1 t;
        t \<leftarrow> free_val av2 t;
        free_loop T keys rel (mh_next T (as_tab t) pos) t }
      else Some t)"

section \<open>Index and space objects\<close>

text \<open>The bytes of a \<open>uint32_t\<close> in memory, used as a key.\<close>

definition num_key :: "u32 \<Rightarrow> bytes" where
  "num_key n = rev (be_bytes 4 (unat n))"

text \<open>The bytes a (name, name_len) pair denotes.\<close>

definition name_of :: "cptr \<Rightarrow> u32 \<Rightarrow> bytes option" where
  "name_of p l = (case p of Blk d \<Rightarrow> if unat l \<le> length d then Some (take (unat l) d) else None | _ \<Rightarrow> None)"

record tnt_schema_ival =
  iv_name :: cptr
  iv_name_len :: u32
  iv_number :: u32

type_synonym 'h index_tab = "('h, tnt_schema_ival) assoc"

record 'h tnt_schema_sval =
  sv_name :: cptr
  sv_name_len :: u32
  sv_number :: u32
  sv_index :: "'h index_tab option"

type_synonym 'h space_tab = "('h, 'h tnt_schema_sval) assoc"

record 'h tnt_schema =
  space_hash :: "'h space_tab"
  sch_alloc :: bool

definition ival_keys :: "tnt_schema_ival \<Rightarrow> (bytes \<times> bytes) option" where
  "ival_keys v = map_option (\<lambda>s. (num_key (iv_number v), s)) (name_of (iv_name v) (iv_name_len v))"

definition sval_keys :: "'h tnt_schema_sval \<Rightarrow> (bytes \<times> bytes) option" where
  "sval_keys v = map_option (\<lambda>s. (num_key (sv_number v), s)) (name_of (sv_name v) (sv_name_len v))"

text \<open>Releasing what an object owns; the object itself is freed in its region.\<close>

definition tnt_schema_ival_free :: "realloc_fn \<Rightarrow> tnt_schema_ival \<Rightarrow> unit option" where
  "tnt_schema_ival_free ra v = map_option (\<lambda>_. ()) (tnt_mem_free ra (iv_name v))"

definition tnt_schema_index_free :: "realloc_fn \<Rightarrow> 'h assoc_ops \<Rightarrow> 'h index_tab \<Rightarrow> 'h index_tab option" where
  "tnt_schema_index_free ra T t = free_loop T ival_keys (tnt_schema_ival_free ra) (mh_first T (as_tab t)) t"

definition tnt_schema_sval_free :: "realloc_fn \<Rightarrow> 'h assoc_ops \<Rightarrow> 'h tnt_schema_sval \<Rightarrow> unit option" where
  "tnt_schema_sval_free ra T v = do {
     _ \<leftarrow> tnt_mem_free ra (sv_name v);
     (case sv_index v of
        None \<Rightarrow> Some ()
      | Some t \<Rightarrow> map_option (\<lambda>_. ()) (tnt_schema_index_free ra T t)) }"

definition tnt_schema_space_free :: "realloc_fn \<Rightarrow> 'h assoc_ops \<Rightarrow> 'h space_tab \<Rightarrow> 'h space_tab option" where
  "tnt_schema_space_free ra T t = free_loop T sval_keys (tnt_schema_sval_free ra T) (mh_first T (as_tab t)) t"

section \<open>Adding definitions\<close>

definition sizeof_sval :: nat where "sizeof_sval = 24"
definition sizeof_ival :: nat where "sizeof_ival = 16"
definition sizeof_assoc_val :: nat where "sizeof_assoc_val = 24"
definition sizeof_schema :: nat where "sizeof_schema = 16"

text \<open>
  Reading a name: \<open>mp_decode_str\<close>, \<open>tnt_mem_alloc\<close> and \<open>memcpy\<close>.  The result is the copy (\<open>NULLP\<close> when memory was
  refused), the length, and the advanced pointer.
\<close>

definition copy_name :: "msgpuck \<Rightarrow> realloc_fn \<Rightarrow> bytes \<Rightarrow> (cptr \<times> u32 \<times> bytes) option" where
  "copy_name mp ra tuple = do {
     ((name_tmp, len), tuple) \<leftarrow> mp_decode_str mp tuple;
     p \<leftarrow> tnt_mem_alloc ra (unat len);
     (case p of
        NULLP \<Rightarrow> Some (NULLP, len, tuple)
      | Freed \<Rightarrow> None
      | Blk d \<Rightarrow> if unat len \<le> length name_tmp \<and> unat len \<le> length d
                then Some (Blk (blit d 0 (take (unat len) name_tmp)), len, tuple) else None) }"

text \<open>
  The last part of both functions: allocate the two nodes of the object \<open>a\<close> and put them into the table, the
  name first.  \<open>Inl\<close> is a failed allocation, with the node that was allocated before, if any.
\<close>

definition put_nodes :: "realloc_fn \<Rightarrow> 'h assoc_ops \<Rightarrow> nat \<Rightarrow> bytes \<Rightarrow> bytes \<Rightarrow> ('h, 'o) assoc
    \<Rightarrow> (nat option \<times> ('h, 'o) assoc + ('h, 'o) assoc) option" where
  "put_nodes ra T a name nkey t = do {
     p \<leftarrow> tnt_mem_alloc ra sizeof_assoc_val;
     if p = NULLP then Some (Inl (None, t))
     else do {
       let s = as_next t; let t1 = new_val t;
       p \<leftarrow> tnt_mem_alloc ra sizeof_assoc_val;
       if p = NULLP then Some (Inl (Some s, t1))
       else do {
         let n = as_next t1; let t2 = new_val t1;
         let h1 = mh_put T (as_tab t2) \<lparr>av_addr = s, av_key = name, av_data = a\<rparr>;
         let h2 = mh_put T h1 \<lparr>av_addr = n, av_key = nkey, av_data = a\<rparr>;
         Some (Inr (t2\<lparr>as_tab := h2\<rparr>)) } } }"

text \<open>The label \<open>error\<close> of \<open>tnt_schema_add_space\<close>; \<open>sp\<close> is the address of the space object or null.\<close>

definition space_error :: "msgpuck \<Rightarrow> realloc_fn \<Rightarrow> 'h assoc_ops \<Rightarrow> bytes \<Rightarrow> nat option \<Rightarrow> nat option \<Rightarrow> 'h space_tab
    \<Rightarrow> (int \<times> 'h space_tab \<times> bytes) option" where
  "space_error mp ra T data sp str t = do {
     data \<leftarrow> msgpuck.mp_next mp data;
     t \<leftarrow> (case sp of None \<Rightarrow> Some t
       | Some a \<Rightarrow> do { x \<leftarrow> as_objs t a; _ \<leftarrow> tnt_schema_sval_free ra T x; free_obj a t });
     t \<leftarrow> free_val str t;
     Some (-1, t, data) }"

definition set_obj :: "nat \<Rightarrow> 'o \<Rightarrow> ('h, 'o) assoc \<Rightarrow> ('h, 'o) assoc" where
  "set_obj a x t = t\<lparr>as_objs := (as_objs t)(a \<mapsto> x)\<rparr>"

definition zero_sval :: "'h tnt_schema_sval" where
  "zero_sval = \<lparr>sv_name = NULLP, sv_name_len = 0, sv_number = 0, sv_index = None\<rparr>"

definition tnt_schema_add_space :: "msgpuck \<Rightarrow> realloc_fn \<Rightarrow> 'h assoc_ops \<Rightarrow> 'h space_tab \<Rightarrow> bytes
    \<Rightarrow> (int \<times> 'h space_tab \<times> bytes) option" where
  "tnt_schema_add_space mp ra T t data = do {
     ty \<leftarrow> peek mp data;
     if ty \<noteq> MP_ARRAY then space_error mp ra T data None None t
     else do {
       (_, tuple) \<leftarrow> mp_decode_array mp data;
       p \<leftarrow> tnt_mem_alloc ra sizeof_sval;
       if p = NULLP then space_error mp ra T data None None t
       else do {
         let a = as_next t; let v = zero_sval; let t = new_obj v t;
         ty \<leftarrow> peek mp tuple;
         if ty \<noteq> MP_UINT then space_error mp ra T data (Some a) None t
         else do {
           (no, tuple) \<leftarrow> mp_decode_uint mp tuple;
           let v = v\<lparr>sv_number := ucast no\<rparr>; let t = set_obj a v t;
           tuple \<leftarrow> msgpuck.mp_next mp tuple;
           ty \<leftarrow> peek mp tuple;
           if ty \<noteq> MP_STR then space_error mp ra T data (Some a) None t
           else do {
             (name, len, tuple) \<leftarrow> copy_name mp ra tuple;
             let v = v\<lparr>sv_name := name, sv_name_len := len\<rparr>; let t = set_obj a v t;
             if name = NULLP then space_error mp ra T data (Some a) None t
             else (case mh_new T of
                None \<Rightarrow> space_error mp ra T data (Some a) None t
              | Some h \<Rightarrow> do {
                  let v = v\<lparr>sv_index := Some (as_empty h)\<rparr>; let t = set_obj a v t;
                  str \<leftarrow> name_of name len;
                  res \<leftarrow> put_nodes ra T a str (num_key (sv_number v)) t;
                  (case res of
                     Inl (s, t) \<Rightarrow> space_error mp ra T data (Some a) s t
                   | Inr t \<Rightarrow> do { data \<leftarrow> msgpuck.mp_next mp data; Some (0, t, data) }) }) } } } } }"

fun spaces_loop :: "msgpuck \<Rightarrow> realloc_fn \<Rightarrow> 'h assoc_ops \<Rightarrow> nat \<Rightarrow> 'h space_tab \<Rightarrow> bytes \<Rightarrow> (int \<times> 'h space_tab) option" where
  "spaces_loop mp ra T 0 t tuple = Some (0, t)"
| "spaces_loop mp ra T (Suc n) t tuple = do {
     (rc, t, tuple) \<leftarrow> tnt_schema_add_space mp ra T t tuple;
     if rc \<noteq> 0 then Some (-1, t) else spaces_loop mp ra T n t tuple }"

text \<open>The reply's data; a null pointer is the empty string, which \<open>mp_check\<close> rejects.\<close>

definition reply_bytes :: "reply_struct \<Rightarrow> bytes" where
  "reply_bytes r = (case rp_data r of None \<Rightarrow> [] | Some d \<Rightarrow> d)"

definition tnt_schema_add_spaces :: "msgpuck \<Rightarrow> realloc_fn \<Rightarrow> 'h assoc_ops \<Rightarrow> 'h tnt_schema \<Rightarrow> reply_struct
    \<Rightarrow> (int \<times> 'h tnt_schema) option" where
  "tnt_schema_add_spaces mp ra T sch r = (case mp_check mp (reply_bytes r) of
      None \<Rightarrow> Some (-1, sch)
    | Some _ \<Rightarrow> do {
        ty \<leftarrow> peek mp (reply_bytes r);
        if ty \<noteq> MP_ARRAY then Some (-1, sch)
        else do {
          (n, tuple) \<leftarrow> mp_decode_array mp (reply_bytes r);
          (rc, t) \<leftarrow> spaces_loop mp ra T (unat n) (space_hash sch) tuple;
          Some (rc, sch\<lparr>space_hash := t\<rparr>) } })"

definition index_error :: "msgpuck \<Rightarrow> realloc_fn \<Rightarrow> bytes \<Rightarrow> nat option \<Rightarrow> nat option \<Rightarrow> 'h index_tab
    \<Rightarrow> (int \<times> 'h index_tab \<times> bytes) option" where
  "index_error mp ra data ix str t = do {
     data \<leftarrow> msgpuck.mp_next mp data;
     t \<leftarrow> free_val str t;
     t \<leftarrow> (case ix of None \<Rightarrow> Some t
       | Some a \<Rightarrow> do { x \<leftarrow> as_objs t a; _ \<leftarrow> tnt_schema_ival_free ra x; free_obj a t });
     Some (-1, t, data) }"

definition zero_ival :: tnt_schema_ival where
  "zero_ival = \<lparr>iv_name = NULLP, iv_name_len = 0, iv_number = 0\<rparr>"

text \<open>The part of \<open>tnt_schema_add_index\<close> after the space was found; \<open>t\<close> is the index table of the space.\<close>

definition add_index_to :: "msgpuck \<Rightarrow> realloc_fn \<Rightarrow> 'h assoc_ops \<Rightarrow> 'h index_tab \<Rightarrow> bytes \<Rightarrow> bytes
    \<Rightarrow> (int \<times> 'h index_tab \<times> bytes) option" where
  "add_index_to mp ra T t data tuple = do {
     p \<leftarrow> tnt_mem_alloc ra sizeof_ival;
     if p = NULLP then index_error mp ra data None None t
     else do {
       let a = as_next t; let v = zero_ival; let t = new_obj v t;
       ty \<leftarrow> peek mp tuple;
       if ty \<noteq> MP_UINT then index_error mp ra data (Some a) None t
       else do {
         (no, tuple) \<leftarrow> mp_decode_uint mp tuple;
         let v = v\<lparr>iv_number := ucast no\<rparr>; let t = set_obj a v t;
         ty \<leftarrow> peek mp tuple;
         if ty \<noteq> MP_STR then index_error mp ra data (Some a) None t
         else do {
           (name, len, tuple) \<leftarrow> copy_name mp ra tuple;
           let v = v\<lparr>iv_name := name, iv_name_len := len\<rparr>; let t = set_obj a v t;
           if name = NULLP then index_error mp ra data (Some a) None t
           else do {
             str \<leftarrow> name_of name len;
             res \<leftarrow> put_nodes ra T a str (num_key (iv_number v)) t;
             (case res of
                Inl (s, t) \<Rightarrow> index_error mp ra data (Some a) s t
              | Inr t \<Rightarrow> do { data \<leftarrow> msgpuck.mp_next mp data; Some (0, t, data) }) } } } } }"

text \<open>
  \<open>tnt_schema_add_index\<close>.  The number of the space is decoded before its type is looked at: the test that follows
  looks at the next field.  On an unknown space the function returns without moving \<open>*data\<close>.
\<close>

definition tnt_schema_add_index :: "msgpuck \<Rightarrow> realloc_fn \<Rightarrow> 'h assoc_ops \<Rightarrow> 'h space_tab \<Rightarrow> bytes
    \<Rightarrow> (int \<times> 'h space_tab \<times> bytes) option" where
  "tnt_schema_add_index mp ra T t data = do {
     ty \<leftarrow> peek mp data;
     if ty \<noteq> MP_ARRAY then do { data \<leftarrow> msgpuck.mp_next mp data; Some (-1, t, data) }
     else do {
       (_, tuple) \<leftarrow> mp_decode_array mp data;
       (no, tuple) \<leftarrow> mp_decode_uint mp tuple;
       ty \<leftarrow> peek mp tuple;
       if ty \<noteq> MP_UINT then do { data \<leftarrow> msgpuck.mp_next mp data; Some (-1, t, data) }
       else do {
         let slot = mh_find T (as_tab t) (num_key (ucast no));
         if slot = mh_end T (as_tab t) then Some (-1, t, data)
         else do {
           let a = av_data (mh_node T (as_tab t) slot);
           space \<leftarrow> as_objs t a;
           index \<leftarrow> sv_index space;
           (rc, index, data) \<leftarrow> add_index_to mp ra T index data tuple;
           Some (rc, set_obj a (space\<lparr>sv_index := Some index\<rparr>) t, data) } } } }"

fun indexes_loop :: "msgpuck \<Rightarrow> realloc_fn \<Rightarrow> 'h assoc_ops \<Rightarrow> nat \<Rightarrow> 'h space_tab \<Rightarrow> bytes \<Rightarrow> (int \<times> 'h space_tab) option" where
  "indexes_loop mp ra T 0 t tuple = Some (0, t)"
| "indexes_loop mp ra T (Suc n) t tuple = do {
     (rc, t, tuple) \<leftarrow> tnt_schema_add_index mp ra T t tuple;
     if rc \<noteq> 0 then Some (-1, t) else indexes_loop mp ra T n t tuple }"

definition tnt_schema_add_indexes :: "msgpuck \<Rightarrow> realloc_fn \<Rightarrow> 'h assoc_ops \<Rightarrow> 'h tnt_schema \<Rightarrow> reply_struct
    \<Rightarrow> (int \<times> 'h tnt_schema) option" where
  "tnt_schema_add_indexes mp ra T sch r = (case mp_check mp (reply_bytes r) of
      None \<Rightarrow> Some (-1, sch)
    | Some _ \<Rightarrow> do {
        ty \<leftarrow> peek mp (reply_bytes r);
        if ty \<noteq> MP_ARRAY then Some (-1, sch)
        else do {
          (n, tuple) \<leftarrow> mp_decode_array mp (reply_bytes r);
          (rc, t) \<leftarrow> indexes_loop mp ra T (unat n) (space_hash sch) tuple;
          Some (rc, sch\<lparr>space_hash := t\<rparr>) } })"

section \<open>Looking up, creating and freeing\<close>

text \<open>The numbers are \<open>uint32_t\<close> and the results \<open>int32_t\<close>.\<close>

definition tnt_schema_stosid :: "'h assoc_ops \<Rightarrow> 'h tnt_schema \<Rightarrow> bytes \<Rightarrow> int option" where
  "tnt_schema_stosid T sch name = (
     let t = space_hash sch; slot = mh_find T (as_tab t) name in
     if slot = mh_end T (as_tab t) then Some (-1)
     else do {
       space \<leftarrow> as_objs t (av_data (mh_node T (as_tab t) slot));
       Some (sint (sv_number space)) })"

definition tnt_schema_stoiid :: "'h assoc_ops \<Rightarrow> 'h tnt_schema \<Rightarrow> u32 \<Rightarrow> bytes \<Rightarrow> int option" where
  "tnt_schema_stoiid T sch sid name = (
     let t = space_hash sch; slot = mh_find T (as_tab t) (num_key sid) in
     if slot = mh_end T (as_tab t) then Some (-1)
     else do {
       space \<leftarrow> as_objs t (av_data (mh_node T (as_tab t) slot));
       i \<leftarrow> sv_index space;
       let slot = mh_find T (as_tab i) name;
       if slot = mh_end T (as_tab i) then Some (-1)
       else do {
         index \<leftarrow> as_objs i (av_data (mh_node T (as_tab i) slot));
         Some (sint (iv_number index)) } })"

text \<open>
  \<open>tnt_schema_new\<close> of a null pointer; the hash of the new schema may itself be null when memory was refused,
  which is the inner \<open>None\<close> (every later use of it is undefined).
\<close>

definition tnt_schema_new :: "realloc_fn \<Rightarrow> 'h assoc_ops \<Rightarrow> bool \<Rightarrow> 'h tnt_schema option option option" where
  "tnt_schema_new ra T given = do {
     ok \<leftarrow> (if given then Some True else map_option (\<lambda>p. p \<noteq> NULLP) (tnt_mem_alloc ra sizeof_schema));
     Some (if \<not> ok then None
       else Some (map_option (\<lambda>h. \<lparr>space_hash = as_empty h, sch_alloc = \<not> given\<rparr>) (mh_new T))) }"

definition tnt_schema_flush :: "realloc_fn \<Rightarrow> 'h assoc_ops \<Rightarrow> 'h tnt_schema \<Rightarrow> 'h tnt_schema option" where
  "tnt_schema_flush ra T sch = do {
     t \<leftarrow> tnt_schema_space_free ra T (space_hash sch);
     Some (sch\<lparr>space_hash := t\<rparr>) }"

text \<open>\<open>tnt_schema_free\<close>: the table is deleted, what is left is the region of the space objects.\<close>

definition tnt_schema_free :: "realloc_fn \<Rightarrow> 'h assoc_ops \<Rightarrow> 'h tnt_schema option \<Rightarrow> 'h space_tab option option" where
  "tnt_schema_free ra T sch = (case sch of
      None \<Rightarrow> Some None
    | Some s \<Rightarrow> do { t \<leftarrow> tnt_schema_space_free ra T (space_hash s); Some (Some t) })"

text \<open>The select requests for the schema.\<close>

definition tnt_vsp_space :: u32 where "tnt_vsp_space = 281"
definition tnt_vsp_index :: u32 where "tnt_vsp_index = 289"
definition tnt_vin_name :: u32 where "tnt_vin_name = 2"
definition TNT_ITER_ALL :: u8 where "TNT_ITER_ALL = 2"

definition tnt_get_space :: "msgpuck \<Rightarrow> realloc_fn \<Rightarrow> 'd writev_fn \<Rightarrow> 'd tnt_stream \<Rightarrow> (int \<times> 'd tnt_stream) option" where
  "tnt_get_space mp ra wv s = do {
     obj \<leftarrow> tnt_object ra None;
     (case obj of
        None \<Rightarrow> Some (-1, s)
      | Some obj \<Rightarrow> do {
          (_, obj) \<leftarrow> tnt_object_add_array mp ra obj 0;
          (retval, s) \<leftarrow> tnt_select mp wv s tnt_vsp_space tnt_vin_name 0xffffffff 0 TNT_ITER_ALL obj;
          _ \<leftarrow> tnt_stream_free (Some (tnt_buf_free ra)) (Some obj);
          Some (retval, s) }) }"

definition tnt_get_index :: "msgpuck \<Rightarrow> realloc_fn \<Rightarrow> 'd writev_fn \<Rightarrow> 'd tnt_stream \<Rightarrow> (int \<times> 'd tnt_stream) option" where
  "tnt_get_index mp ra wv s = do {
     obj \<leftarrow> tnt_object ra None;
     (case obj of
        None \<Rightarrow> Some (-1, s)
      | Some obj \<Rightarrow> do {
          (_, obj) \<leftarrow> tnt_object_add_array mp ra obj 0;
          (retval, s) \<leftarrow> tnt_select mp wv s tnt_vsp_index tnt_vin_name 0xffffffff 0 TNT_ITER_ALL obj;
          _ \<leftarrow> tnt_stream_free (Some (tnt_buf_free ra)) (Some obj);
          Some (retval, s) }) }"

end
