(* ===== verification/Tnt_Crypto.thy ===== *)
theory Tnt_Crypto
  imports Tnt_Prelude "HOL-Library.Monad_Syntax"
begin

unbundle bit_operations_syntax

text \<open>
  The two vendored routines authentication uses: SHA-1 (\<^verbatim>\<open>third_party/sha1.c\<close>) with its streaming context, and
  the base64 decoder (\<^verbatim>\<open>third_party/base64.c\<close>).  The 80 rounds of \<open>SHA1Transform\<close> are unrolled in the source with
  the roles of the five working variables rotating; here they are a loop that rotates the variables.  The
  in-place schedule \<open>blk(i)\<close> is a list of the last sixteen words.
\<close>

section \<open>SHA-1\<close>

record SHA1_CTX =
  cx_state :: "u32 list"
  cx_count0 :: u32
  cx_count1 :: u32
  cx_buffer :: bytes

definition rol :: "u32 \<Rightarrow> nat \<Rightarrow> u32" where
  "rol v n = push_bit n v OR drop_bit (32 - n) v"

text \<open>The sixteen words of a block, big endian.\<close>

definition block_words :: "bytes \<Rightarrow> u32 list" where
  "block_words b = map (\<lambda>i. of_nat (be_nat (take 4 (drop (4 * i) b)))) [0..<16]"

text \<open>\<open>blk(i)\<close> on the window of the last sixteen words: the new word.\<close>

definition sha_blk :: "u32 list \<Rightarrow> u32" where
  "sha_blk w = rol (w ! 13 XOR w ! 8 XOR w ! 2 XOR w ! 0) 1"

definition sha_f :: "nat \<Rightarrow> u32 \<Rightarrow> u32 \<Rightarrow> u32 \<Rightarrow> u32" where
  "sha_f i w x y = (if i < 20 then ((w AND (x XOR y)) XOR y) + 0x5A827999
     else if i < 40 then (w XOR x XOR y) + 0x6ED9EBA1
     else if i < 60 then (((w OR x) AND y) OR (w AND x)) + 0x8F1BBCDC
     else (w XOR x XOR y) + 0xCA62C1D6)"

type_synonym sha_vars = "u32 \<times> u32 \<times> u32 \<times> u32 \<times> u32"

text \<open>One macro \<open>R0\<close> to \<open>R4\<close>: the word of the round, the window after it, the variables with their next roles.\<close>

fun sha_round :: "nat \<Rightarrow> sha_vars \<times> u32 list \<Rightarrow> sha_vars \<times> u32 list" where
  "sha_round i ((v, w, x, y, z), ws) = (
     let word = (if i < 16 then ws ! 0 else sha_blk ws); z = z + sha_f i w x y + word + rol v 5 in
     ((z, v, rol w 30, x, y), tl ws @ [word]))"

text \<open>In rounds 0 to 15 the window is the block itself, read in order and put back.\<close>

definition SHA1Transform :: "u32 list \<Rightarrow> bytes \<Rightarrow> u32 list" where
  "SHA1Transform state buffer = (
     case fst (fold sha_round [0..<80] ((state ! 0, state ! 1, state ! 2, state ! 3, state ! 4), block_words buffer)) of
       (a, b, c, d, e) \<Rightarrow> [state ! 0 + a, state ! 1 + b, state ! 2 + c, state ! 3 + d, state ! 4 + e])"

text \<open>The buffer of a new context is not initialised; no byte of it is read before it is written.\<close>

definition SHA1Init :: SHA1_CTX where
  "SHA1Init = \<lparr>cx_state = [0x67452301, 0xEFCDAB89, 0x98BADCFE, 0x10325476, 0xC3D2E1F0], cx_count0 = 0, cx_count1 = 0,
     cx_buffer = replicate 64 0\<rparr>"

text \<open>The loop over whole blocks: the state and what is left of the data.\<close>

fun sha_blocks :: "nat \<Rightarrow> u32 list \<Rightarrow> bytes \<Rightarrow> u32 list \<times> bytes" where
  "sha_blocks 0 st data = (st, data)"
| "sha_blocks (Suc n) st data = sha_blocks n (SHA1Transform st (take 64 data)) (drop 64 data)"

definition SHA1Update :: "SHA1_CTX \<Rightarrow> bytes \<Rightarrow> SHA1_CTX" where
  "SHA1Update cx data = (
     let len = of_nat (length data) :: u32; j0 = cx_count0 cx; c0 = j0 + push_bit 3 len;
         c1 = (if c0 < j0 then cx_count1 cx + 1 else cx_count1 cx) + drop_bit 29 len;
         cx = cx\<lparr>cx_count0 := c0, cx_count1 := c1\<rparr>; j = unat (drop_bit 3 j0 AND 63) in
     if j + length data > 63 then
       let i = 64 - j; buf = blit (cx_buffer cx) j (take i data); st = SHA1Transform (cx_state cx) buf;
           (st, rest) = sha_blocks ((length data - i) div 64) st (drop i data) in
       cx\<lparr>cx_state := st, cx_buffer := blit buf 0 rest\<rparr>
     else cx\<lparr>cx_buffer := blit (cx_buffer cx) j data\<rparr>)"

text \<open>The padding loop of \<open>SHA1Final\<close>.\<close>

lemma and_504: "unat (x AND 504 :: u32) = 8 * (unat x div 8 mod 64)"
proof -
  have m: "(504 :: nat) = push_bit 3 (mask 6)" by (simp add: mask_eq_exp_minus_1 push_bit_eq_mult)
  have "n AND push_bit 3 (mask 6) = push_bit 3 (take_bit 6 (drop_bit 3 n))" for n :: nat
    by (rule bit_eqI) (auto simp: bit_simps)
  then have "n AND 504 = 8 * (n div 8 mod 64)" for n :: nat
    unfolding m by (simp add: push_bit_eq_mult take_bit_eq_mod drop_bit_eq_div)
  then show ?thesis by (simp only: unsigned_and_eq unsigned_numeral) simp
qed

lemma and_504_step: "unat ((x + 8) AND 504 :: u32) = (unat (x AND 504) + 8) mod 512"
proof -
  have sh: "n div 8 mod 64 = n mod 512 div 8" for n :: nat
    using div_mult2_eq [of "n mod 512"] mod_mult2_eq [of n 8 64] by simp
  have "unat (x + 8) mod 512 = (unat x + 8) mod 512"
    using mod_mod_cancel [of 512 4294967296 "unat x + 8"] by (simp add: unat_word_ariths)
  then have "unat (x + 8) div 8 mod 64 = (unat x + 8) div 8 mod 64" by (simp add: sh)
  also have "\<dots> = (unat x div 8 mod 64 + 1) mod 64"
    using div_add_self2 [of 8 "unat x"] by (simp add: mod_Suc_eq)
  finally have "8 * (unat (x + 8) div 8 mod 64) = 8 * ((unat x div 8 mod 64 + 1) mod 64)" by simp
  also have "\<dots> = (8 * (unat x div 8 mod 64) + 8) mod 512" using mod_mult_mult1 [of 8 "unat x div 8 mod 64 + 1" 64] by (simp add: add.commute)
  finally show ?thesis by (simp add: and_504)
qed

lemma update_count: "cx_count0 (SHA1Update cx [c]) = cx_count0 cx + 8"
  by (simp add: SHA1Update_def Let_def split: prod.splits)

lemma unat_448: "unat (448 :: u32) = 448"
  by simp

function sha_pad :: "SHA1_CTX \<Rightarrow> SHA1_CTX" where
  "sha_pad cx = (if cx_count0 cx AND 504 \<noteq> 448 then sha_pad (SHA1Update cx [0]) else cx)"
  by pat_completeness auto
termination
proof (relation "measure (\<lambda>cx. let r = unat (cx_count0 cx AND 504) in if r \<le> 448 then 448 - r else 960 - r)", simp, goal_cases)
  case (1 cx)
  define r where "r = unat (cx_count0 cx AND 504)"
  have n: "r \<noteq> 448" using 1 unfolding r_def by (metis unat_448 word_unat_eq_iff)
  obtain q where q: "q < 64" "r = 8 * q" unfolding r_def and_504 by (metis mod_less_divisor zero_less_numeral)
  define r' where "r' = unat (cx_count0 (SHA1Update cx [0]) AND 504)"
  have "r' = (8 * q + 8) mod 512" unfolding r'_def update_count and_504_step r_def [symmetric] q(2) ..
  then have "r' = (if q = 63 then 0 else 8 * q + 8)" using q(1) by (cases "q = 63") simp_all
  then have "(if r' \<le> 448 then 448 - r' else 960 - r') < (if r \<le> 448 then 448 - r else 960 - r)"
    using n q by (auto split: if_splits)
  then show ?case unfolding Let_def r_def r'_def by simp
qed

declare sha_pad.simps [simp del]

text \<open>The digest, the bytes of the state, most significant first.\<close>

definition SHA1Final :: "SHA1_CTX \<Rightarrow> bytes" where
  "SHA1Final cx = (
     let finalcount = be_bytes 4 (unat (cx_count1 cx)) @ be_bytes 4 (unat (cx_count0 cx));
         cx = SHA1Update (sha_pad (SHA1Update cx [0x80])) finalcount in
     concat (map (\<lambda>i. be_bytes 4 (unat (cx_state cx ! i))) [0..<5]))"

lemma length_SHA1Final [simp]: "length (SHA1Final cx) = 20"
  by (simp add: SHA1Final_def Let_def length_concat comp_def sum_list_triv)

section \<open>Base64 decoding\<close>

definition b64_table :: "int list" where
  "b64_table = [62, -1, -1, -1, 63, 52, 53, 54, 55, 56, 57, 58, 59, 60, 61, -1, -1, -1, -2, -1, -1, -1, 0, 1, 2, 3, 4, 5, 6, 7, 8, 9, 10, 11,
     12, 13, 14, 15, 16, 17, 18, 19, 20, 21, 22, 23, 24, 25, -1, -1, -1, -1, -1, -1, 26, 27, 28, 29, 30, 31, 32, 33, 34, 35, 36, 37, 38, 39,
     40, 41, 42, 43, 44, 45, 46, 47, 48, 49, 50, 51]"

text \<open>The bound test lets the index 80 through, one past the table; that read is undefined.\<close>

definition base64_decode_value :: "byte \<Rightarrow> int option" where
  "base64_decode_value value = (
     let codepos = sint value - 43 in
     if codepos < 0 \<or> codepos > int (length b64_table) then Some (-1)
     else if nat codepos < length b64_table then Some (b64_table ! nat codepos) else None)"

datatype base64_decodestep = step_a | step_b | step_c | step_d

text \<open>\<open>out\<close> is the output array and \<open>pos\<close> the index of \<open>out_pos\<close>.\<close>

fun base64_decode_block :: "base64_decodestep \<Rightarrow> bytes \<Rightarrow> bytes \<Rightarrow> nat \<Rightarrow> (nat \<times> bytes) option" where
  "base64_decode_block step [] out pos = Some (pos, out)"
| "base64_decode_block step (c # cs) out pos =
     (if pos \<ge> length out then Some (pos, out)
      else do {
        f \<leftarrow> base64_decode_value c;
        if f < 0 then base64_decode_block step cs out pos
        else
          let fr = of_int f :: byte in
          (case step of
             step_a \<Rightarrow> base64_decode_block step_b cs (out[pos := push_bit 2 (fr AND 0x3f)]) pos
           | step_b \<Rightarrow> base64_decode_block step_c cs
               ((out[pos := out ! pos OR drop_bit 4 (fr AND 0x30)])[pos + 1 := push_bit 4 (fr AND 0x0f)]) (pos + 1)
           | step_c \<Rightarrow> base64_decode_block step_d cs
               ((out[pos := out ! pos OR drop_bit 2 (fr AND 0x3c)])[pos + 1 := push_bit 6 (fr AND 0x03)]) (pos + 1)
           | step_d \<Rightarrow> base64_decode_block step_a cs (out[pos := out ! pos OR (fr AND 0x3f)]) (pos + 1)) })"

definition base64_decode :: "bytes \<Rightarrow> bytes \<Rightarrow> (nat \<times> bytes) option" where
  "base64_decode in_base64 out = (if out = [] then None else base64_decode_block step_a in_base64 (out[0 := 0]) 0)"

end
