(* ===== verification/Tnt_Auth.thy ===== *)
theory Tnt_Auth
  imports Tnt_Proto Tnt_Crypto
begin

unbundle bit_operations_syntax

text \<open>
  Authentication, \<^verbatim>\<open>tnt/tnt_auth.c\<close>: the \<open>chap-sha1\<close> scramble and the authentication request.  The salt is the
  base64 text after the version line of the server's greeting.  \<open>tnt_auth\<close> and \<open>tnt_deauth\<close>, which take it from a
  network stream, are in the theory of network streams.
\<close>

definition TNT_SCRAMBLE_SIZE :: nat where "TNT_SCRAMBLE_SIZE = 20"
definition TNT_GREETING_SIZE :: nat where "TNT_GREETING_SIZE = 128"
definition TNT_VERSION_SIZE :: nat where "TNT_VERSION_SIZE = 64"
definition TNT_SALT_SIZE :: nat where "TNT_SALT_SIZE = 44"

lemmas auth_sizes = TNT_SCRAMBLE_SIZE_def TNT_GREETING_SIZE_def TNT_VERSION_SIZE_def TNT_SALT_SIZE_def

definition tnt_xor :: "bytes \<Rightarrow> bytes \<Rightarrow> nat \<Rightarrow> bytes" where
  "tnt_xor left right len = map2 (XOR) (take len left) (take len right)"

definition tnt_scramble_prepare :: "bytes \<Rightarrow> bytes \<Rightarrow> bytes" where
  "tnt_scramble_prepare salt pass = (
     let hash1 = SHA1Final (SHA1Update SHA1Init pass);
         hash2 = SHA1Final (SHA1Update SHA1Init (take TNT_SCRAMBLE_SIZE hash1));
         out = SHA1Final (SHA1Update (SHA1Update SHA1Init (take TNT_SCRAMBLE_SIZE salt)) (take TNT_SCRAMBLE_SIZE hash2)) in
     tnt_xor hash1 out TNT_SCRAMBLE_SIZE)"

text \<open>''guest'' and ''chap-sha1''\<close>

definition guest_name :: bytes where "guest_name = [0x67, 0x75, 0x65, 0x73, 0x74]"
definition chap_sha1 :: bytes where "chap_sha1 = [0x63, 0x68, 0x61, 0x70, 0x2d, 0x73, 0x68, 0x61, 0x31]"

text \<open>
  \<open>tnt_auth_raw\<close>.  The user is \<open>None\<close> for a null pointer, otherwise the \<open>ulen\<close> bytes at \<open>user\<close>.  A salt of which less
  than \<open>TNT_SCRAMBLE_SIZE\<close> bytes were decoded is read where it was never written, which is undefined.
\<close>

definition tnt_auth_raw :: "msgpuck \<Rightarrow> 'd writev_fn \<Rightarrow> 'd tnt_stream \<Rightarrow> bytes option \<Rightarrow> bytes \<Rightarrow> bytes
    \<Rightarrow> (int \<times> 'd tnt_stream) option" where
  "tnt_auth_raw mp wv s user pass base64_salt = (
     let guest = (user = None \<or> user = Some guest_name);
         user = (case user of None \<Rightarrow> guest_name | Some u \<Rightarrow> u) in do {
     hdr \<leftarrow> encode_header mp TNT_OP_AUTH (s_reqid s);
     let b1 = mp_encode_map mp 2 @ mp_encode_uint mp TNT_USERNAME @ mp_encode_strl mp (of_nat (length user));
     if \<not> guest then do {
       let b2 = mp_encode_uint mp TNT_TUPLE @ mp_encode_array mp 2 @ mp_encode_str mp chap_sha1
         @ mp_encode_strl mp (of_nat TNT_SCRAMBLE_SIZE);
       _ \<leftarrow> in_array 64 (b1 @ b2);
       (n, salt) \<leftarrow> (if length base64_salt < TNT_SALT_SIZE then None
          else base64_decode (take TNT_SALT_SIZE base64_salt) (replicate 64 0));
       if n < TNT_SCRAMBLE_SIZE then None
       else do {
         v \<leftarrow> with_len mp [hdr, b1, user, b2, tnt_scramble_prepare salt pass];
         wv (next_reqid s) v } }
     else do {
       let b2 = mp_encode_uint mp TNT_TUPLE @ mp_encode_array mp 0;
       _ \<leftarrow> in_array 64 (b1 @ b2);
       v \<leftarrow> with_len mp [hdr, b1, user, b2];
       wv (next_reqid s) v } })"

section \<open>The scramble\<close>

lemma length_tnt_xor [simp]: "length (tnt_xor a b n) = min n (min (length a) (length b))"
  by (simp add: tnt_xor_def)

lemma length_scramble [simp]: "length (tnt_scramble_prepare salt pass) = 20"
  by (simp add: tnt_scramble_prepare_def Let_def TNT_SCRAMBLE_SIZE_def)

lemma map2_xor_cancel: "length a = length b \<Longrightarrow> map2 (XOR) (map2 (XOR) a b) b = (a :: bytes)"
  by (induction a b rule: list_induct2) (simp_all add: xor.assoc)

lemma xor_cancel: "length a = n \<Longrightarrow> length b = n \<Longrightarrow> tnt_xor (tnt_xor a b n) b n = a"
  by (simp add: tnt_xor_def map2_xor_cancel)

text \<open>
  What the server does with a scramble: it keeps \<open>h2\<close>, the double hash of the password, recovers the single hash and
  compares its hash with \<open>h2\<close>.
\<close>

definition server_accepts :: "bytes \<Rightarrow> bytes \<Rightarrow> bytes \<Rightarrow> bool" where
  "server_accepts salt h2 scramble \<longleftrightarrow>
     SHA1Final (SHA1Update SHA1Init (tnt_xor scramble (SHA1Final (SHA1Update (SHA1Update SHA1Init (take 20 salt)) h2)) 20)) = h2"

lemma scramble_accepted: "server_accepts salt (SHA1Final (SHA1Update SHA1Init (SHA1Final (SHA1Update SHA1Init pass)))) (tnt_scramble_prepare salt pass)"
  by (simp add: server_accepts_def tnt_scramble_prepare_def Let_def TNT_SCRAMBLE_SIZE_def xor_cancel)

section \<open>The request\<close>

definition auth_body :: "bytes \<Rightarrow> bytes \<Rightarrow> item list" where
  "auth_body user tup = Tok (TMap 2) # field TNT_USERNAME (Tok (TStr user)) @ field TNT_TUPLE (Raw tup)"

text \<open>The authentication data of a request: the method and the scramble, or nothing for the guest.\<close>

definition auth_data :: "bytes option \<Rightarrow> bytes \<Rightarrow> bytes \<Rightarrow> mval" where
  "auth_data user salt pass = VArr (if user = None \<or> user = Some guest_name then []
     else [VStr chap_sha1, VStr (tnt_scramble_prepare salt pass)])"

definition auth_user :: "bytes option \<Rightarrow> bytes" where
  "auth_user user = (case user of None \<Rightarrow> guest_name | Some u \<Rightarrow> u)"

context client
begin

lemma auth_emit:
  assumes "wf s" and "length user < 2 ^ 32" and "encodes (toks v) tup" and "vwf v"
    and "concat pieces = mp_encode_map mp 2 @ mp_encode_uint mp TNT_USERNAME @ mp_encode_strl mp (of_nat (length user)) @ user
        @ mp_encode_uint mp TNT_TUPLE @ tup"
    and "encode_header mp TNT_OP_AUTH (s_reqid s) = Some hdr"
  shows "sent TNT_OP_AUTH (auth_body user tup) s (do { w \<leftarrow> with_len mp (hdr # pieces); wv (next_reqid s) w })"
proof (rule emit [OF assms(1) _ _ assms(6)])
  have "mp_skip 1 tup = Some []" using mp_skip_value [OF assms(4)] assms(3) unfolding encodes_def .
  then show "body_items (auth_body user tup)" by (simp add: auth_body_def field_def)
  show "matches (auth_body user tup) (concat pieces)" using assms(2) unfolding assms(5) by (simp add: auth_body_def field_def)
qed

lemma auth_pieces:
  "encodes (toks (VArr [VStr chap_sha1, VStr (tnt_scramble_prepare salt pass)]))
     (mp_encode_array mp 2 @ mp_encode_str mp chap_sha1 @ mp_encode_strl mp (of_nat TNT_SCRAMBLE_SIZE) @ tnt_scramble_prepare salt pass)"
proof -
  have "encodes [TStr (tnt_scramble_prepare salt pass)] (mp_encode_strl mp (of_nat TNT_SCRAMBLE_SIZE) @ tnt_scramble_prepare salt pass)"
    by (rule enc_strl) (simp add: TNT_SCRAMBLE_SIZE_def)
  moreover have "encodes [TStr chap_sha1] (mp_encode_str mp chap_sha1)" by (rule enc_str_toks) (simp add: chap_sha1_def)
  moreover have "encodes [TArr 2] (mp_encode_array mp 2)" by (rule enc_array)
  ultimately show ?thesis using encodes_Cons by fastforce
qed

lemma len_str_chap: "length (mp_encode_str mp chap_sha1) \<le> 14"
  using sizeof_strl [of "of_nat (length chap_sha1)"] by (simp add: enc_str chap_sha1_def)

text \<open>The salt decodes to enough bytes.\<close>

lemma auth_ok:
  assumes "wf s" and "length (auth_user user) < 2 ^ 32"
    and "length b64 \<ge> TNT_SALT_SIZE" and "base64_decode (take TNT_SALT_SIZE b64) (replicate 64 0) = Some (n, salt)" and "TNT_SCRAMBLE_SIZE \<le> n"
  shows "\<exists>tup. encodes (toks (auth_data user salt pass)) tup \<and> sent TNT_OP_AUTH (auth_body (auth_user user) tup) s (tnt_auth_raw mp wv s user pass b64)"
proof -
  obtain hdr where h: "encode_header mp TNT_OP_AUTH (s_reqid s) = Some hdr" using encode_header_ok by blast
  note l = sizeof_strl [of "of_nat (length (auth_user user))"] sizeof_strl [of "of_nat TNT_SCRAMBLE_SIZE"] len_str_chap
    enc_array_one [of 2] enc_array_one [of 0]
  show ?thesis
  proof (cases "user = None \<or> user = Some guest_name")
    case True
    have "encodes (toks (auth_data user salt pass)) (mp_encode_array mp 0)"
      using True enc_array [of 0] by (simp add: auth_data_def)
    moreover from auth_emit [OF assms(1,2) this _ _ h, of "[mp_encode_map mp 2 @ mp_encode_uint mp TNT_USERNAME @ mp_encode_strl mp (of_nat (length (auth_user user))),
        auth_user user, mp_encode_uint mp TNT_TUPLE @ mp_encode_array mp 0]"]
    have "sent TNT_OP_AUTH (auth_body (auth_user user) (mp_encode_array mp 0)) s (tnt_auth_raw mp wv s user pass b64)"
      using True h l by (simp add: tnt_auth_raw_def auth_user_def [symmetric] auth_data_def in_array_def Let_def)
    ultimately show ?thesis by blast
  next
    case False
    let ?tup = "mp_encode_array mp 2 @ mp_encode_str mp chap_sha1 @ mp_encode_strl mp (of_nat TNT_SCRAMBLE_SIZE) @ tnt_scramble_prepare salt pass"
    have "encodes (toks (auth_data user salt pass)) ?tup" using False auth_pieces by (auto simp: auth_data_def)
    moreover from auth_emit [OF assms(1,2) this _ _ h, of "[mp_encode_map mp 2 @ mp_encode_uint mp TNT_USERNAME @ mp_encode_strl mp (of_nat (length (auth_user user))),
        auth_user user, mp_encode_uint mp TNT_TUPLE @ mp_encode_array mp 2 @ mp_encode_str mp chap_sha1 @ mp_encode_strl mp (of_nat TNT_SCRAMBLE_SIZE),
        tnt_scramble_prepare salt pass]"]
    have "sent TNT_OP_AUTH (auth_body (auth_user user) ?tup) s (tnt_auth_raw mp wv s user pass b64)"
      using False h l assms(3-5) by (simp add: tnt_auth_raw_def auth_user_def [symmetric] auth_data_def in_array_def Let_def)
    ultimately show ?thesis by blast
  qed
qed

end

section \<open>Properties\<close>

text \<open>C17. Authentication works: with a salt that decodes to at least twenty bytes, \<open>tnt_auth_raw\<close> writes one
  well-formed frame with the code of an authentication request, the user name (''guest'' for a null user) and the
  authentication data, which are empty for the guest and otherwise the method name and a twenty-byte scramble; a
  server that holds the double SHA-1 hash of the password and the same salt accepts this scramble.\<close>

theorem auth_request_accepted:
  assumes "msgpuck_laws mp" and "stream_writer ok out wv" and "ok s" and "length (auth_user user) < 2 ^ 32"
    and "length b64 \<ge> TNT_SALT_SIZE" and "base64_decode (take TNT_SALT_SIZE b64) (replicate 64 0) = Some (n, salt)" and "TNT_SCRAMBLE_SIZE \<le> n"
  shows "server_accepts salt (SHA1Final (SHA1Update SHA1Init (SHA1Final (SHA1Update SHA1Init pass)))) (tnt_scramble_prepare salt pass)
     \<and> (\<exists>r s' tup. tnt_auth_raw mp wv s user pass b64 = Some (r, s') \<and> encodes (toks (auth_data user salt pass)) tup
       \<and> (if r = -1 then (\<exists>v. concat v \<noteq> [] \<and> map_option fst (wv (next_reqid s) v) = Some (-1))
          else ok s' \<and> s_reqid s' = s_reqid s + 1
            \<and> (\<exists>fr. is_frame TNT_OP_AUTH (s_reqid s) (auth_body (auth_user user) tup) fr \<and> out s' = out s @ fr \<and> r = int (length fr))))"
proof -
  have c: "client mp ok out wv" using assms(1,2) by (rule client.intro)
  obtain tup where "encodes (toks (auth_data user salt pass)) tup"
    "client.sent ok out wv TNT_OP_AUTH (auth_body (auth_user user) tup) s (tnt_auth_raw mp wv s user pass b64)"
    using client.auth_ok [OF c assms(3-7)] by blast
  then show ?thesis using scramble_accepted unfolding client.sent_def [OF c] by metis
qed

text \<open>''MDEyMzQ1Njc4OWFiY2RlZjAxMjM0NTY3ODlhYmNkZWY='', the base64 text of thirty-two characters.\<close>

definition demo_salt64 :: bytes where
  "demo_salt64 = [0x4d, 0x44, 0x45, 0x79, 0x4d, 0x7a, 0x51, 0x31, 0x4e, 0x6a, 0x63, 0x34, 0x4f, 0x57, 0x46, 0x69, 0x59, 0x32, 0x52, 0x6c, 0x5a, 0x6a,
     0x41, 0x78, 0x4d, 0x6a, 0x4d, 0x30, 0x4e, 0x54, 0x59, 0x33, 0x4f, 0x44, 0x6c, 0x68, 0x59, 0x6d, 0x4e, 0x6b, 0x5a, 0x57, 0x59, 0x3d]"

lemma demo_salt_decodes: "map_option fst (base64_decode demo_salt64 (replicate 64 0)) = Some 32"
  by code_simp

theorem auth_request_accepted_witness:
  "\<exists>n salt. base64_decode demo_salt64 (replicate 64 0) = Some (n, salt)
     \<and> server_accepts salt (SHA1Final (SHA1Update SHA1Init (SHA1Final (SHA1Update SHA1Init [0x70])))) (tnt_scramble_prepare salt [0x70])
     \<and> (\<exists>r s'. tnt_auth_raw mp_ref (tnt_buf_writev (custom_realloc os_ok)) demo_buf (Some [0x75]) [0x70] demo_salt64 = Some (r, s'))"
proof -
  have len: "TNT_SALT_SIZE \<le> length demo_salt64" "take TNT_SALT_SIZE demo_salt64 = demo_salt64"
    by (simp_all add: demo_salt64_def TNT_SALT_SIZE_def)
  obtain n salt where d: "base64_decode demo_salt64 (replicate 64 0) = Some (n, salt)" "20 \<le> n"
    using demo_salt_decodes by fastforce
  have wf: "buf_wf demo_buf" by (auto simp: buf_wf_def sbuf_wf_def demo_buf_def)
  from auth_request_accepted [OF ref.msgpuck_laws_axioms libc_alloc.bufw.stream_writer_axioms wf, of "Some [0x75]" demo_salt64 n salt "[0x70]" os_ok] d len
  show ?thesis by (auto simp: auth_user_def TNT_SCRAMBLE_SIZE_def)
qed

end
