(* ===== verification/Tnt_Net.thy ===== *)
theory Tnt_Net
  imports Tnt_Schema Tnt_Auth Tnt_Iter Tnt_Io
begin

unbundle bit_operations_syntax

text \<open>
  Network streams, \<^verbatim>\<open>tnt/tnt_net.c\<close>, and the two functions of \<^verbatim>\<open>tnt/tnt_auth.c\<close> that take the salt from a network
  stream.  A network stream is a stream whose data is the network structure; the schema of a structure is absent
  (null), or present with a hash that may itself be null after a failed allocation.  The operations on the
  counter \<open>wrcnt\<close> are atomic in the source; the model is sequential.  The functions the stream's virtual table holds
  are called by name.
\<close>

type_synonym 'h net = "'h tnt_schema option tnt_stream_net"
type_synonym 'h net_stream = "'h net tnt_stream"

text \<open>Running an operation of the network layer on the structure behind a stream.\<close>

definition on_net :: "('h net \<Rightarrow> ('r \<times> 'h net) option) \<Rightarrow> 'h net_stream \<Rightarrow> ('r \<times> 'h net_stream) option" where
  "on_net f s = do { sn \<leftarrow> s_data s; (r, sn) \<leftarrow> f sn; Some (r, s\<lparr>s_data := Some sn\<rparr>) }"

section \<open>The virtual functions\<close>

text \<open>\<open>tnt_net_free\<close> returns what is left of the stream and the state of the system.\<close>

definition tnt_net_free :: "realloc_fn \<Rightarrow> 'h assoc_ops \<Rightarrow> 'h net_stream \<Rightarrow> ('h net_stream \<times> world) option" where
  "tnt_net_free ra T s = do {
     sn \<leftarrow> s_data s;
     let sn = tnt_io_close sn;
     _ \<leftarrow> tnt_mem_free ra (nt_greeting sn);
     _ \<leftarrow> tnt_iob_free ra (nt_sbuf sn);
     _ \<leftarrow> tnt_iob_free ra (nt_rbuf sn);
     _ \<leftarrow> tnt_opt_free ra (nt_opt sn);
     _ \<leftarrow> (case nt_schema sn of
         None \<Rightarrow> tnt_schema_free ra T None
       | Some None \<Rightarrow> None
       | Some (Some sch) \<Rightarrow> tnt_schema_free ra T (Some sch));
     Some (s\<lparr>s_data := None\<rparr>, nt_sys sn) }"

definition tnt_net_read :: "'h net_stream \<Rightarrow> nat \<Rightarrow> (int \<times> bytes \<times> 'h net_stream) option" where
  "tnt_net_read s n = do {
     sn \<leftarrow> s_data s;
     (rc, d, sn) \<leftarrow> tnt_io_recv sn n;
     Some (rc, d, s\<lparr>s_data := Some sn\<rparr>) }"

definition tnt_net_write :: "'h net_stream \<Rightarrow> bytes \<Rightarrow> (int \<times> 'h net_stream) option" where
  "tnt_net_write s buf = do {
     (rc, s) \<leftarrow> on_net (\<lambda>sn. tnt_io_send sn buf) s;
     Some (rc, if rc \<noteq> -1 then s\<lparr>s_wrcnt := s_wrcnt s + 1\<rparr> else s) }"

definition tnt_net_writev :: "'h net_stream \<Rightarrow> bytes list \<Rightarrow> (int \<times> 'h net_stream) option" where
  "tnt_net_writev s iov = do {
     (rc, s) \<leftarrow> on_net (\<lambda>sn. tnt_io_sendv sn iov) s;
     Some (rc, if rc \<noteq> -1 then s\<lparr>s_wrcnt := s_wrcnt s + 1\<rparr> else s) }"

definition tnt_net_recv_cb :: "'h net_stream \<Rightarrow> nat \<Rightarrow> (int \<times> bytes \<times> 'h net_stream) option" where
  "tnt_net_recv_cb s n = do {
     sn \<leftarrow> s_data s;
     (rc, d, sn) \<leftarrow> tnt_io_recv sn n;
     Some (rc, d, s\<lparr>s_data := Some sn\<rparr>) }"

text \<open>The callback as \<open>tnt_reply_from\<close> sees it: -1 is failure.\<close>

definition net_recv :: "'h net_stream recv_fn" where
  "net_recv s n = do { (rc, d, s) \<leftarrow> tnt_net_recv_cb s n; Some (if rc = -1 then None else Some d, s) }"

definition TNT_CHUNK :: u64 where "TNT_CHUNK = 0x80"

definition tnt_net_reply :: "msgpuck \<Rightarrow> realloc_fn \<Rightarrow> 'h net_stream read_reply_fn" where
  "tnt_net_reply mp ra s r =
     (if s_wrcnt s = 0 then Some (1, s, r)
      else do {
        (rv, r, s) \<leftarrow> tnt_reply_from mp ra r net_recv s;
        Some (rv, if rp_error r \<noteq> None \<or> rp_code r AND TNT_CHUNK = 0 then s\<lparr>s_wrcnt := s_wrcnt s - 1\<rparr> else s, r) })"

section \<open>Creating and configuring\<close>

definition zero_iob :: tnt_iob where
  "zero_iob = \<lparr>ib_buf = NULLP, ib_off = 0, ib_top = 0, ib_size = 0, ib_tx = False, ib_txv = False, ib_ptr = 0\<rparr>"

definition sizeof_stream_net :: nat where "sizeof_stream_net = 280"

text \<open>\<open>memset(s->data, 0, ...)\<close> in a system in state \<open>w\<close>.\<close>

definition zero_net :: "world \<Rightarrow> 'h net" where
  "zero_net w = \<lparr>nt_opt = zero_opt, nt_connected = False, nt_fd = 0, nt_sbuf = zero_iob, nt_rbuf = zero_iob, nt_error = TNT_EOK,
     nt_errno = 0, nt_greeting = NULLP, nt_schema = None, nt_inited = False, nt_sys = w\<rparr>"

text \<open>\<open>tnt_stream_free\<close> on a network stream.\<close>

definition net_stream_free :: "realloc_fn \<Rightarrow> 'h assoc_ops \<Rightarrow> 'h net_stream \<Rightarrow> ('h net_stream option \<times> world) option" where
  "net_stream_free ra T s = do {
     (s, w) \<leftarrow> tnt_net_free ra T s;
     Some (if s_alloc s then None else Some s, w) }"

text \<open>
  \<open>tnt_net\<close>.  When the greeting cannot be allocated the stream is freed and then used again, which is undefined.
  When the options cannot be initialised the freed stream is returned: a dangling pointer if the stream had been
  allocated (undefined), the caller's structure without data otherwise.
\<close>

definition tnt_net :: "realloc_fn \<Rightarrow> 'h assoc_ops \<Rightarrow> world \<Rightarrow> 'h net_stream option \<Rightarrow> 'h net_stream option option" where
  "tnt_net ra T w s = do {
     s \<leftarrow> tnt_stream_init ra s;
     (case s of
        None \<Rightarrow> Some None
      | Some s \<Rightarrow> do {
          p \<leftarrow> tnt_mem_alloc ra sizeof_stream_net;
          if p = NULLP then Some None
          else do {
            let s = s\<lparr>s_ops := VT_NET\<rparr>;
            let sn = (zero_net w)\<lparr>nt_fd := -1\<rparr>;
            g \<leftarrow> tnt_mem_alloc ra TNT_GREETING_SIZE;
            if g = NULLP then None
            else do {
              (rc, opt) \<leftarrow> tnt_opt_init ra;
              let s = s\<lparr>s_data := Some (sn\<lparr>nt_greeting := g, nt_opt := opt\<rparr>)\<rparr>;
              if rc = -1 then do {
                (left, _) \<leftarrow> net_stream_free ra T s;
                (case left of None \<Rightarrow> None | Some s \<Rightarrow> Some (Some s)) }
              else Some (Some s) } } }) }"

definition tnt_set :: "realloc_fn \<Rightarrow> uri_parse_fn \<Rightarrow> 'h net_stream \<Rightarrow> tnt_opt_type \<Rightarrow> (int \<times> 'h net_stream) option" where
  "tnt_set ra uri_parse s opt = on_net (\<lambda>sn. do {
     (e, o1) \<leftarrow> tnt_opt_set ra uri_parse (nt_opt sn) opt;
     Some (if e = TNT_EOK then 0 else -1, sn\<lparr>nt_opt := o1, nt_error := e\<rparr>) }) s"

text \<open>An \<open>int\<close> passed as \<open>size_t\<close>.\<close>

definition size_of_int :: "int \<Rightarrow> nat" where
  "size_of_int n = unat (of_int n :: u64)"

definition init_net :: "realloc_fn \<Rightarrow> 'h assoc_ops \<Rightarrow> 'h net \<Rightarrow> (int \<times> 'h net) option" where
  "init_net ra T sn = do {
     sch \<leftarrow> tnt_schema_new ra T False;
     (case sch of
        None \<Rightarrow> Some (-1, sn\<lparr>nt_schema := None, nt_error := TNT_EMEMORY\<rparr>)
      | Some sch \<Rightarrow> do {
          let sn = sn\<lparr>nt_schema := Some sch\<rparr>;
          let opt = nt_opt sn;
          (rc, b) \<leftarrow> tnt_iob_init ra (size_of_int (op_send_buf opt)) (op_send_cb opt) (op_send_cbv opt) (op_send_cb_arg opt);
          let sn = sn\<lparr>nt_sbuf := b\<rparr>;
          if rc = -1 then Some (-1, sn\<lparr>nt_error := TNT_EMEMORY\<rparr>)
          else do {
            (rc, b) \<leftarrow> tnt_iob_init ra (size_of_int (op_recv_buf opt)) (op_recv_cb opt) False (op_recv_cb_arg opt);
            let sn = sn\<lparr>nt_rbuf := b\<rparr>;
            if rc = -1 then Some (-1, sn\<lparr>nt_error := TNT_EMEMORY\<rparr>)
            else Some (0, sn\<lparr>nt_inited := True\<rparr>) } }) }"

definition tnt_init :: "realloc_fn \<Rightarrow> 'h assoc_ops \<Rightarrow> 'h net_stream \<Rightarrow> (int \<times> 'h net_stream) option" where
  "tnt_init ra T s = on_net (init_net ra T) s"

section \<open>Closing, flushing, errors\<close>

definition tnt_close :: "'h net_stream \<Rightarrow> 'h net_stream option" where
  "tnt_close s = do {
     sn \<leftarrow> s_data s;
     let sn = sn\<lparr>nt_sbuf := tnt_iob_clear (nt_sbuf sn), nt_rbuf := tnt_iob_clear (nt_rbuf sn)\<rparr>;
     Some (s\<lparr>s_data := Some (tnt_io_close sn), s_wrcnt := 0, s_reqid := 0\<rparr>) }"

definition tnt_flush :: "'h net_stream \<Rightarrow> (int \<times> 'h net_stream) option" where
  "tnt_flush s = on_net tnt_io_flush s"

definition tnt_fd :: "'h net_stream \<Rightarrow> int option" where
  "tnt_fd s = map_option nt_fd (s_data s)"

definition tnt_error_of :: "'h net_stream \<Rightarrow> tnt_error option" where
  "tnt_error_of s = map_option nt_error (s_data s)"

definition tnt_errno :: "'h net_stream \<Rightarrow> int option" where
  "tnt_errno s = map_option nt_errno (s_data s)"

definition tnt_error_list :: "(tnt_error \<times> string option) list" where
  "tnt_error_list = [(TNT_EOK, Some ''ok''), (TNT_EFAIL, Some ''fail''), (TNT_EMEMORY, Some ''memory allocation failed''),
     (TNT_ESYSTEM, Some ''system error''), (TNT_EBIG, Some ''buffer is too big''), (TNT_ESIZE, Some ''bad buffer size''),
     (TNT_ERESOLVE, Some ''gethostbyname(2) failed''), (TNT_ETMOUT, Some ''operation timeout''), (TNT_EBADVAL, Some ''bad argument''),
     (TNT_ELOGIN, Some ''failed to login''), (TNT_LAST, None)]"

text \<open>The number of an enumerator.\<close>

fun error_num :: "tnt_error \<Rightarrow> nat" where
  "error_num TNT_EOK = 0"
| "error_num TNT_EFAIL = 1"
| "error_num TNT_EMEMORY = 2"
| "error_num TNT_ESYSTEM = 3"
| "error_num TNT_EBIG = 4"
| "error_num TNT_ESIZE = 5"
| "error_num TNT_ERESOLVE = 6"
| "error_num TNT_ETMOUT = 7"
| "error_num TNT_EBADVAL = 8"
| "error_num TNT_ELOGIN = 9"
| "error_num TNT_LAST = 10"

text \<open>Decimal output of \<open>%d\<close>.\<close>

fun dec_nat :: "nat \<Rightarrow> string" where
  "dec_nat n = (if n < 10 then [char_of (48 + n)] else dec_nat (n div 10) @ [char_of (48 + n mod 10)])"

declare dec_nat.simps [simp del]

definition dec_int :: "int \<Rightarrow> string" where
  "dec_int i = (if i < 0 then CHR ''-'' # dec_nat (nat (- i)) else dec_nat (nat i))"

text \<open>\<open>strerror\<close> is the C library's; the message is cut to the 255 characters that fit.\<close>

definition tnt_strerror :: "(int \<Rightarrow> string) \<Rightarrow> 'h net_stream \<Rightarrow> string option option" where
  "tnt_strerror strerror s = do {
     sn \<leftarrow> s_data s;
     Some (if nt_error sn = TNT_ESYSTEM
       then Some (take 255 (strerror (nt_errno sn) @ '' (errno: '' @ dec_int (nt_errno sn) @ '')''))
       else snd (tnt_error_list ! error_num (nt_error sn))) }"

definition the_schema :: "'h net_stream \<Rightarrow> 'h tnt_schema option" where
  "the_schema s = do { sn \<leftarrow> s_data s; sch \<leftarrow> nt_schema sn; sch }"

definition tnt_get_spaceno :: "'h assoc_ops \<Rightarrow> 'h net_stream \<Rightarrow> bytes \<Rightarrow> int option" where
  "tnt_get_spaceno T s space = do { sch \<leftarrow> the_schema s; tnt_schema_stosid T sch space }"

definition tnt_get_indexno :: "'h assoc_ops \<Rightarrow> 'h net_stream \<Rightarrow> int \<Rightarrow> bytes \<Rightarrow> int option" where
  "tnt_get_indexno T s spaceno index = do { sch \<leftarrow> the_schema s; tnt_schema_stoiid T sch (of_int spaceno) index }"

section \<open>Loading the schema\<close>

definition set_schema :: "'h tnt_schema \<Rightarrow> 'h net_stream \<Rightarrow> 'h net_stream" where
  "set_schema sch s = s\<lparr>s_data := map_option (\<lambda>sn. sn\<lparr>nt_schema := Some (Some sch)\<rparr>) (s_data s)\<rparr>"

text \<open>
  The loop of \<open>tnt_reload_schema\<close>: the iterator (which holds the stream), the reply kept for later and the marks of
  what was loaded.  \<open>Inl\<close> is the jump to the label \<open>error\<close>.
\<close>

type_synonym 'h reload_st = "'h net_stream tnt_iter \<times> reply_struct \<times> nat"

definition reload_step :: "msgpuck \<Rightarrow> realloc_fn \<Rightarrow> 'h assoc_ops \<Rightarrow> 'h net_stream iter_reply_st \<Rightarrow> 'h reload_st
    \<Rightarrow> ('h net_stream tnt_iter + 'h reload_st) option" where
  "reload_step mp ra T ir st = (case st of (it, bkp, sloaded) \<Rightarrow>
     let r = ir_r ir in
     if rp_sync r = 127 then
       if rp_error r \<noteq> None then Some (Inl it)
       else do {
         sch \<leftarrow> the_schema (ir_s ir);
         (_, sch) \<leftarrow> tnt_schema_add_spaces mp ra T sch r;
         Some (Inr (it\<lparr>it_data := IterReply (ir\<lparr>ir_s := set_schema sch (ir_s ir)\<rparr>)\<rparr>, bkp, sloaded + 1)) }
     else if rp_sync r = 128 then
       if rp_error r \<noteq> None then Some (Inl it)
       else if even sloaded then Some (Inr (it\<lparr>it_data := IterReply (ir\<lparr>ir_r := r\<lparr>rp_buf := NULLP\<rparr>\<rparr>)\<rparr>, r, sloaded))
       else do {
         sch \<leftarrow> the_schema (ir_s ir);
         (_, sch) \<leftarrow> tnt_schema_add_indexes mp ra T sch r;
         Some (Inr (it\<lparr>it_data := IterReply (ir\<lparr>ir_s := set_schema sch (ir_s ir)\<rparr>)\<rparr>, bkp, sloaded + 2)) }
     else Some (Inl it))"

partial_function (option) reload_loop :: "msgpuck \<Rightarrow> realloc_fn \<Rightarrow> 'h assoc_ops \<Rightarrow> 'h reload_st
    \<Rightarrow> ('h net_stream tnt_iter + 'h reload_st) option" where
  "reload_loop mp ra T st = do {
     (rc, it) \<leftarrow> tnt_next mp ra (tnt_net_reply mp ra) (fst st);
     if rc = 0 then Some (Inr (it, snd st))
     else (case it_data it of
        IterReply ir \<Rightarrow> do {
          res \<leftarrow> reload_step mp ra T ir (it, snd st);
          (case res of Inl it \<Rightarrow> Some (Inl it) | Inr st \<Rightarrow> reload_loop mp ra T st) }
      | _ \<Rightarrow> None) }"

text \<open>The stream inside a reply iterator.\<close>

definition iter_stream :: "'s tnt_iter \<Rightarrow> 's option" where
  "iter_stream it = (case it_data it of IterReply ir \<Rightarrow> Some (ir_s ir) | _ \<Rightarrow> None)"

definition reload_end :: "realloc_fn \<Rightarrow> 'h net_stream tnt_iter \<Rightarrow> int \<Rightarrow> (int \<times> 'h net_stream) option" where
  "reload_end ra it rc = do {
     s \<leftarrow> iter_stream it;
     _ \<leftarrow> tnt_iter_free ra it;
     Some (rc, s) }"

text \<open>After the loop: the indexes of a reply that came first are added last.\<close>

definition reload_finish :: "msgpuck \<Rightarrow> realloc_fn \<Rightarrow> 'h assoc_ops \<Rightarrow> 'h reload_st \<Rightarrow> (int \<times> 'h net_stream) option" where
  "reload_finish mp ra T st = (case st of (it, bkp, sloaded) \<Rightarrow> do {
     (it, sloaded) \<leftarrow> (if rp_buf bkp \<noteq> NULLP then (case it_data it of
           IterReply ir \<Rightarrow> do {
             sch \<leftarrow> the_schema (ir_s ir);
             (_, sch) \<leftarrow> tnt_schema_add_indexes mp ra T sch bkp;
             _ \<leftarrow> tnt_reply_free ra bkp;
             Some (it\<lparr>it_data := IterReply (ir\<lparr>ir_s := set_schema sch (ir_s ir)\<rparr>)\<rparr>, sloaded + 2) }
         | _ \<Rightarrow> None)
       else Some (it, sloaded));
     reload_end ra it (if sloaded = 3 then 0 else -1) })"

definition tnt_reload_schema :: "msgpuck \<Rightarrow> realloc_fn \<Rightarrow> 'h assoc_ops \<Rightarrow> 'h net_stream \<Rightarrow> (int \<times> 'h net_stream) option" where
  "tnt_reload_schema mp ra T s = do {
     sn \<leftarrow> s_data s;
     if \<not> nt_connected sn \<or> s_wrcnt s \<noteq> 0 then Some (-1, s)
     else do {
       let (oldsync, s) = tnt_stream_reqid s 127;
       (_, s) \<leftarrow> tnt_get_space mp ra tnt_net_writev s;
       (_, s) \<leftarrow> tnt_get_index mp ra tnt_net_writev s;
       let (_, s) = tnt_stream_reqid s oldsync;
       (_, s) \<leftarrow> tnt_flush s;
       it \<leftarrow> tnt_iter_reply ra (Some \<lparr>it_type = TNT_ITER_ARRAY, it_status = TNT_ITER_OK, it_alloc = False, it_next = None,
          it_rewind = None, it_free = None, it_data = IterZero\<rparr>) s;
       it \<leftarrow> it;
       res \<leftarrow> reload_loop mp ra T (it, zero_reply False, 0);
       (case res of
          Inl it \<Rightarrow> reload_end ra it (-1)
        | Inr st \<Rightarrow> reload_finish mp ra T st) } }"

section \<open>Connecting and authenticating\<close>

definition tnt_auth :: "msgpuck \<Rightarrow> 'h net_stream \<Rightarrow> bytes option \<Rightarrow> bytes \<Rightarrow> (int \<times> 'h net_stream) option" where
  "tnt_auth mp s user pass = do {
     sn \<leftarrow> s_data s;
     (case nt_greeting sn of
        Blk g \<Rightarrow> if TNT_VERSION_SIZE \<le> length g then tnt_auth_raw mp tnt_net_writev s user pass (drop TNT_VERSION_SIZE g) else None
      | _ \<Rightarrow> None) }"

definition tnt_deauth :: "msgpuck \<Rightarrow> 'h net_stream \<Rightarrow> (int \<times> 'h net_stream) option" where
  "tnt_deauth mp s = tnt_auth mp s None []"

definition TNT_ER_PASSWORD_MISMATCH :: u64 where "TNT_ER_PASSWORD_MISMATCH = 47"

definition tnt_authenticate :: "msgpuck \<Rightarrow> realloc_fn \<Rightarrow> 'h assoc_ops \<Rightarrow> 'h net_stream \<Rightarrow> (int \<times> 'h net_stream) option" where
  "tnt_authenticate mp ra T s = do {
     sn \<leftarrow> s_data s;
     if \<not> nt_connected sn \<or> s_wrcnt s \<noteq> 0 then Some (-1, s)
     else do {
       uri \<leftarrow> op_uri (nt_opt sn);
       (_, s) \<leftarrow> tnt_auth mp s (u_login uri) (case u_password uri of None \<Rightarrow> [] | Some p \<Rightarrow> p);
       (_, s) \<leftarrow> tnt_flush s;
       (rc, s, rep) \<leftarrow> tnt_net_reply mp ra s (zero_reply False);
       if rc = -1 then Some (-1, s)
       else if rp_error rep \<noteq> None
       then Some (-1, if rp_code rep = TNT_ER_PASSWORD_MISMATCH
          then s\<lparr>s_data := map_option (\<lambda>sn. sn\<lparr>nt_error := TNT_ELOGIN\<rparr>) (s_data s)\<rparr> else s)
       else do {
         _ \<leftarrow> tnt_reply_free ra rep;
         (_, s) \<leftarrow> tnt_reload_schema mp ra T s;
         Some (0, s) } } }"

text \<open>Reading the greeting into its block.\<close>

definition read_greeting :: "'h net_stream \<Rightarrow> (int \<times> 'h net_stream) option" where
  "read_greeting s = do {
     (rc, d, s) \<leftarrow> tnt_net_read s TNT_GREETING_SIZE;
     sn \<leftarrow> s_data s;
     (case nt_greeting sn of
        Blk g \<Rightarrow> if TNT_GREETING_SIZE \<le> length g then Some (rc, s\<lparr>s_data := Some (sn\<lparr>nt_greeting := Blk (blit g 0 d)\<rparr>)\<rparr>) else None
      | _ \<Rightarrow> None) }"

definition tnt_connect :: "msgpuck \<Rightarrow> realloc_fn \<Rightarrow> 'h assoc_ops \<Rightarrow> 'h net_stream \<Rightarrow> (int \<times> 'h net_stream) option" where
  "tnt_connect mp ra T s = do {
     sn \<leftarrow> s_data s;
     s \<leftarrow> (if \<not> nt_inited sn then map_option snd (tnt_init ra T s) else Some s);
     sn \<leftarrow> s_data s;
     s \<leftarrow> (if nt_connected sn then tnt_close s else Some s);
     (e, s) \<leftarrow> on_net (\<lambda>sn. do { (e, sn) \<leftarrow> tnt_io_connect sn; Some (e, sn\<lparr>nt_error := e\<rparr>) }) s;
     if e \<noteq> TNT_EOK then Some (-1, s)
     else do {
       (rc, s) \<leftarrow> read_greeting s;
       sn \<leftarrow> s_data s;
       if rc = -1 \<or> nt_error sn \<noteq> TNT_EOK then Some (-1, s)
       else do {
         uri \<leftarrow> op_uri (nt_opt sn);
         if u_login uri \<noteq> None \<and> u_password uri \<noteq> None then do {
           (rc, s) \<leftarrow> tnt_authenticate mp ra T s;
           Some (if rc = -1 then (-1, s) else (0, s)) }
         else Some (0, s) } } }"

end
