(* ===== verification/Tnt_Murmur.thy ===== *)
theory Tnt_Murmur
  imports Tnt_Prelude
begin

unbundle bit_operations_syntax

text \<open>
  The hash function of the schema cache, \<^verbatim>\<open>third_party/PMurHash.c\<close>.  A key may be hashed in pieces: \<open>PMurHash32_Process\<close> keeps up to three
  bytes of an unfinished block in the top of the carry and their number in its two low bits.  The source has two bodies for it, one for
  machines that may read words anywhere and one that first aligns the pointer, here at address \<open>ptr\<close>; both are modelled.  The macro
  \<open>DOBLOCK\<close> overwrites the word it is given, also when this is the carry.  Both bodies, over any pieces, compute the same function, \<open>murmur3\<close>.
\<close>

section \<open>The hash function\<close>

definition ROTL32 :: "u32 \<Rightarrow> nat \<Rightarrow> u32" where
  "ROTL32 x r = push_bit r x OR drop_bit (32 - r) x"

definition pm_C1 :: u32 where "pm_C1 = 0xcc9e2d51"
definition pm_C2 :: u32 where "pm_C2 = 0x1b873593"

text \<open>What \<open>DOBLOCK\<close> leaves in \<open>k1\<close>, and in \<open>h1\<close>.\<close>

definition pm_mix :: "u32 \<Rightarrow> u32" where
  "pm_mix k1 = ROTL32 (k1 * pm_C1) 15 * pm_C2"

definition DOBLOCK :: "u32 \<Rightarrow> u32 \<Rightarrow> u32" where
  "DOBLOCK h1 k1 = ROTL32 (h1 XOR pm_mix k1) 13 * 5 + 0xe6546b64"

definition READ_UINT32 :: "byte \<Rightarrow> byte \<Rightarrow> byte \<Rightarrow> byte \<Rightarrow> u32" where
  "READ_UINT32 b0 b1 b2 b3 = ucast b0 OR push_bit 8 (ucast b1) OR push_bit 16 (ucast b2) OR push_bit 24 (ucast b3)"

fun DOBYTES :: "u32 \<Rightarrow> u32 \<Rightarrow> nat \<Rightarrow> bytes \<Rightarrow> u32 \<times> u32 \<times> nat" where
  "DOBYTES h1 c n [] = (h1, c, n)"
| "DOBYTES h1 c n (b # ptr) = (
     let c = drop_bit 8 c OR push_bit 24 (ucast b); n = n + 1
     in if n = 4 then DOBYTES (DOBLOCK h1 c) (pm_mix c) 0 ptr else DOBYTES h1 c n ptr)"

text \<open>Whole blocks, with the bytes that remain.\<close>

fun pm_blocks :: "u32 \<Rightarrow> bytes \<Rightarrow> u32 \<times> bytes" where
  "pm_blocks h1 (b0 # b1 # b2 # b3 # ptr) = pm_blocks (DOBLOCK h1 (READ_UINT32 b0 b1 b2 b3)) ptr"
| "pm_blocks h1 ptr = (h1, ptr)"

definition PMurHash32_Process :: "u32 \<Rightarrow> u32 \<Rightarrow> bytes \<Rightarrow> u32 \<times> u32" where
  "PMurHash32_Process ph1 pcarry key = (
     let n = unat (pcarry AND 3); i = (4 - n) mod 4;
         (h1, c, n, ptr) = (if i \<noteq> 0 \<and> i \<le> length key
            then let (h1, c, n) = DOBYTES ph1 pcarry n (take i key) in (h1, c, n, drop i key)
            else (ph1, pcarry, n, key));
         (h1, ptr) = pm_blocks h1 ptr;
         (h1, c, n) = DOBYTES h1 c n ptr
     in (h1, (c AND NOT 0xff) OR of_nat n))"

text \<open>The loops over aligned words, one for every number of bytes in the carry.\<close>

fun pm_aligned :: "nat \<Rightarrow> u32 \<Rightarrow> u32 \<Rightarrow> bytes \<Rightarrow> u32 \<times> u32 \<times> bytes" where
  "pm_aligned n h1 c (b0 # b1 # b2 # b3 # ptr) = (let w = READ_UINT32 b0 b1 b2 b3 in
     if n = 0 then pm_aligned n (DOBLOCK h1 w) c ptr
     else if n = 1 then pm_aligned n (DOBLOCK h1 (drop_bit 24 c OR push_bit 8 w)) w ptr
     else if n = 2 then pm_aligned n (DOBLOCK h1 (drop_bit 16 c OR push_bit 16 w)) w ptr
     else pm_aligned n (DOBLOCK h1 (drop_bit 8 c OR push_bit 24 w)) w ptr)"
| "pm_aligned n h1 c ptr = (h1, c, ptr)"

definition PMurHash32_Process_aligned :: "nat \<Rightarrow> u32 \<Rightarrow> u32 \<Rightarrow> bytes \<Rightarrow> u32 \<times> u32" where
  "PMurHash32_Process_aligned ptr ph1 pcarry key = (
     let n = unat (pcarry AND 3); i = (4 - ptr mod 4) mod 4;
         (h1, c, n, ptr) = (if i \<noteq> 0 \<and> i \<le> length key
            then let (h1, c, n) = DOBYTES ph1 pcarry n (take i key) in (h1, c, n, drop i key)
            else (ph1, pcarry, n, key));
         (h1, c, ptr) = pm_aligned n h1 c ptr;
         (h1, c, n) = DOBYTES h1 c n ptr
     in (h1, (c AND NOT 0xff) OR of_nat n))"

definition PMurHash32_Result :: "u32 \<Rightarrow> u32 \<Rightarrow> u32 \<Rightarrow> u32" where
  "PMurHash32_Result h carry total_length = (
     let n = unat (carry AND 3);
         h = (if n \<noteq> 0 then h XOR pm_mix (drop_bit ((4 - n) * 8) carry) else h);
         h = h XOR total_length;
         h = (h XOR drop_bit 16 h) * 0x85ebca6b;
         h = (h XOR drop_bit 13 h) * 0xc2b2ae35
     in h XOR drop_bit 16 h)"

definition PMurHash32 :: "u32 \<Rightarrow> bytes \<Rightarrow> u32" where
  "PMurHash32 seed key = (case PMurHash32_Process seed 0 key of (h1, carry) \<Rightarrow> PMurHash32_Result h1 carry (of_nat (length key)))"

text \<open>What it stores at \<open>out\<close>.\<close>

definition PMurHash32_test :: "bytes \<Rightarrow> u32 \<Rightarrow> u32" where
  "PMurHash32_test key seed = (case PMurHash32_Process seed 0 key of (h1, carry) \<Rightarrow> PMurHash32_Result h1 carry (of_nat (length key)))"

section \<open>The function it computes\<close>

text \<open>Up to four bytes as a number.\<close>

fun le_word :: "bytes \<Rightarrow> u32" where
  "le_word [] = 0"
| "le_word (b # bs) = ucast b OR push_bit 8 (le_word bs)"

definition murmur3 :: "u32 \<Rightarrow> bytes \<Rightarrow> u32" where
  "murmur3 seed key = (case pm_blocks seed key of (h, tail) \<Rightarrow>
     let h = (if tail \<noteq> [] then h XOR pm_mix (le_word tail) else h) XOR of_nat (length key);
         h = (h XOR drop_bit 16 h) * 0x85ebca6b;
         h = (h XOR drop_bit 13 h) * 0xc2b2ae35
     in h XOR drop_bit 16 h)"

text \<open>The carry holds the bytes, the last ones read in its top.\<close>

definition carries :: "u32 \<Rightarrow> bytes \<Rightarrow> bool" where
  "carries c ps \<longleftrightarrow> length ps < 4 \<and> (\<forall>i < 8 * length ps. bit c (32 - 8 * length ps + i) = bit (ps ! (i div 8)) (i mod 8))"

lemma bit_le_word: "length bs \<le> 4 \<Longrightarrow> bit (le_word bs) i \<longleftrightarrow> i < 8 * length bs \<and> bit (bs ! (i div 8)) (i mod 8)"
proof (induction bs arbitrary: i)
  case (Cons b bs)
  show ?case
  proof (cases "i < 8")
    case True
    then show ?thesis by (auto simp: bit_or_iff bit_push_bit_iff bit_ucast_iff)
  next
    case False
    then obtain j where j: "i = j + 8" using le_Suc_ex [of 8 i] by (auto simp: add.commute)
    have "\<not> bit (ucast b :: u32) (j + 8)" by (simp add: bit_ucast_iff) (auto dest: bit_imp_le_length)
    moreover have "(j + 8) div 8 = Suc (j div 8)" by simp
    ultimately show ?thesis using Cons.prems Cons.IH [of j] by (auto simp: j bit_or_iff bit_push_bit_iff)
  qed
qed simp

lemma read_word: "READ_UINT32 b0 b1 b2 b3 = le_word [b0, b1, b2, b3]"
  by (simp add: READ_UINT32_def push_bit_or ac_simps)

lemma carry_step:
  fixes b :: byte
  assumes "carries c ps"
  defines "c' \<equiv> drop_bit 8 c OR push_bit 24 (ucast b)"
  shows "length ps < 3 \<Longrightarrow> carries c' (ps @ [b])" "length ps = 3 \<Longrightarrow> c' = le_word (ps @ [b])"
proof -
  have bits: "bit c' (32 - 8 * Suc (length ps) + i) = bit ((ps @ [b]) ! (i div 8)) (i mod 8)" if i8: "i < 8 * Suc (length ps)" for i
  proof (cases "i < 8 * length ps")
    case True
    then have "i div 8 < length ps" by (simp add: less_mult_imp_div_less mult.commute)
    have "bit c' (32 - 8 * Suc (length ps) + i) = bit c (32 - 8 * length ps + i)"
      using True assms(1) by (auto simp: c'_def carries_def bit_or_iff bit_push_bit_iff bit_drop_bit_eq)
    also have "\<dots> = bit (ps ! (i div 8)) (i mod 8)" using True assms(1) unfolding carries_def by blast
    finally show ?thesis using \<open>i div 8 < length ps\<close> by (simp only: nth_append if_True)
  next
    case False
    then obtain j where j: "i = j + 8 * length ps" "j < 8" using i8 le_Suc_ex [of "8 * length ps" i] by (auto simp: add.commute)
    have "\<not> bit c (32 + j)" by (auto dest: bit_imp_le_length)
    moreover have "32 - 8 * Suc (length ps) + i = 24 + j" using j assms(1) by (simp add: carries_def)
    ultimately show ?thesis using j by (simp add: c'_def bit_or_iff bit_push_bit_iff bit_drop_bit_eq bit_ucast_iff nth_append)
  qed
  show "carries c' (ps @ [b])" if "length ps < 3" using bits that by (simp add: carries_def)
  show "c' = le_word (ps @ [b])" if "length ps = 3"
  proof (rule bit_word_eqI)
    fix n assume "n < LENGTH(32)"
    then show "bit c' n = bit (le_word (ps @ [b])) n" using bits [of n] that by (simp add: bit_le_word)
  qed
qed

lemma carry_top: "carries c ps \<Longrightarrow> ps \<noteq> [] \<Longrightarrow> drop_bit ((4 - length ps) * 8) c = le_word ps"
proof (rule bit_word_eqI)
  fix n assume c: "carries c ps" "ps \<noteq> []" and "n < LENGTH(32)"
  then have l: "(4 - length ps) * 8 = 32 - 8 * length ps" "length ps < 4" by (auto simp: carries_def)
  show "bit (drop_bit ((4 - length ps) * 8) c) n = bit (le_word ps) n"
    using c l by (cases "n < 8 * length ps") (auto simp: carries_def bit_drop_bit_eq bit_le_word dest!: bit_imp_le_length)
qed

lemma blocks_short: "length ps < 4 \<Longrightarrow> pm_blocks h ps = (h, ps)"
  by (cases "(h, ps)" rule: pm_blocks.cases) auto

lemma blocks_four: 
  assumes "length ps = 4"
  shows "pm_blocks h (ps @ bs) = pm_blocks (DOBLOCK h (le_word ps)) bs"
proof -
  obtain p0 p1 p2 p3 where "ps = [p0, p1, p2, p3]" using assms by (auto simp: numeral_eq_Suc length_Suc_conv)
  then show ?thesis by (simp only: append_Cons append_Nil pm_blocks.simps read_word)
qed

text \<open>Hashing block by block, a tail and what follows it may be hashed later.\<close>

lemma blocks_append: "pm_blocks h (a @ b) = (case pm_blocks h a of (h', t) \<Rightarrow> pm_blocks h' (t @ b))"
  by (induction h a rule: pm_blocks.induct) auto

lemma blocks_tail: "length (snd (pm_blocks h a)) < 4"
  by (induction h a rule: pm_blocks.induct) auto

text \<open>Reading single bytes, from a carry that holds \<open>ps\<close>.\<close>

definition pm_state :: "u32 \<Rightarrow> bytes \<Rightarrow> u32 \<times> u32 \<times> nat \<Rightarrow> bool" where
  "pm_state h ps st \<longleftrightarrow> (case st of (h', c, n) \<Rightarrow> h' = h \<and> carries c ps \<and> n = length ps)"

lemma DOBYTES_blocks:
  assumes "carries c ps"
  shows "pm_state (fst (pm_blocks h (ps @ bs))) (snd (pm_blocks h (ps @ bs))) (DOBYTES h c (length ps) bs)"
  using assms
proof (induction bs arbitrary: h c ps)
  case Nil
  then have "length ps < 4" by (simp add: carries_def)
  then show ?case using Nil by (simp add: blocks_short pm_state_def)
next
  case (Cons b bs)
  let ?c = "drop_bit 8 c OR push_bit 24 (ucast b) :: u32"
  show ?case
  proof (cases "length ps < 3")
    case True
    then show ?thesis using Cons.IH [of ?c "ps @ [b]" h] carry_step(1) [OF Cons.prems True] by (simp add: Let_def)
  next
    case False
    then have l: "length ps = 3" using Cons.prems by (simp add: carries_def)
    have "pm_blocks h (ps @ b # bs) = pm_blocks (DOBLOCK h ?c) bs"
      using blocks_four [of "ps @ [b]" h bs] l carry_step(2) [OF Cons.prems l] by simp
    moreover have "carries (pm_mix ?c) []" by (simp add: carries_def)
    ultimately show ?thesis using Cons.IH [of "pm_mix ?c" "[]" "DOBLOCK h ?c"] l by (simp add: Let_def)
  qed
qed

lemma aligned_word:
  assumes "carries c ps" and "ps \<noteq> []" and w: "length w = 4"
  shows "drop_bit (32 - 8 * length ps) c OR push_bit (8 * length ps) (le_word w) = le_word (ps @ take (4 - length ps) w)"
    and "carries (le_word w) (drop (4 - length ps) w)"
proof -
  have l: "length ps < 4" using assms(1) by (simp add: carries_def)
  show "drop_bit (32 - 8 * length ps) c OR push_bit (8 * length ps) (le_word w) = le_word (ps @ take (4 - length ps) w)"
  proof (rule bit_word_eqI)
    fix n assume n: "n < LENGTH(32)"
    have "(4 - length ps) * 8 = 32 - 8 * length ps" by simp
    then have d: "drop_bit (32 - 8 * length ps) c = le_word ps" using carry_top [OF assms(1,2)] by (simp only:)
    show "bit (drop_bit (32 - 8 * length ps) c OR push_bit (8 * length ps) (le_word w)) n = bit (le_word (ps @ take (4 - length ps) w)) n"
    proof (cases "n < 8 * length ps")
      case True
      then have "n div 8 < length ps" by (simp add: less_mult_imp_div_less mult.commute)
      then show ?thesis using True l w d by (simp add: bit_or_iff bit_push_bit_iff bit_le_word nth_append)
    next
      case False
      then obtain j where j: "n = j + 8 * length ps" using le_Suc_ex [of "8 * length ps" n] by (auto simp: add.commute)
      then have "j div 8 < 4 - length ps" using n l by (simp add: less_mult_imp_div_less mult.commute diff_mult_distrib)
      then show ?thesis using n l w d by (simp add: j bit_or_iff bit_push_bit_iff bit_le_word nth_append)
    qed
  qed
  have "bit w' (32 - 8 * length ps + i) = bit (drop (4 - length ps) w ! (i div 8)) (i mod 8)" if "w' = le_word w" "i < 8 * length ps" for i w'
  proof -
    have e: "32 - 8 * length ps + i = i + (4 - length ps) * 8" using l by simp
    have "i + (4 - length ps) * 8 < 32" using that(2) l by linarith
    then show ?thesis using that l w unfolding e by (simp add: bit_le_word nth_drop add.commute)
  qed
  then show "carries (le_word w) (drop (4 - length ps) w)" unfolding carries_def using l w assms(2) by auto
qed

lemma aligned_step:
  assumes "carries c ps"
  obtains h1 c1 ps1 where "pm_aligned (length ps) h c (b0 # b1 # b2 # b3 # bs) = pm_aligned (length ps) h1 c1 bs"
    "carries c1 ps1" "length ps1 = length ps" "pm_blocks h (ps @ b0 # b1 # b2 # b3 # bs) = pm_blocks h1 (ps1 @ bs)"
proof (cases "ps = []")
  case True
  then show ?thesis using that [of "DOBLOCK h (READ_UINT32 b0 b1 b2 b3)" c "[]"] assms by (simp add: Let_def)
next
  case False
  define w where "w = [b0, b1, b2, b3]"
  let ?n = "length ps" let ?k = "le_word (ps @ take (4 - ?n) w)"
  have l: "?n < 4" using assms by (simp add: carries_def)
  have w: "length w = 4" "b0 # b1 # b2 # b3 # bs = w @ bs" "READ_UINT32 b0 b1 b2 b3 = le_word w" by (simp_all add: w_def read_word)
  have tk: "take (4 - ?n) w @ drop (4 - ?n) w @ bs = w @ bs" by (simp flip: append_assoc)
  have four: "pm_blocks h (ps @ w @ bs) = pm_blocks (DOBLOCK h ?k) (drop (4 - ?n) w @ bs)"
    using blocks_four [of "ps @ take (4 - ?n) w" h "drop (4 - ?n) w @ bs"] l w(1) unfolding append_assoc tk by simp
  note al = aligned_word [OF assms False w(1)]
  have "?n \<noteq> 0" using False by simp
  then have "?n = 1 \<or> ?n = 2 \<or> ?n = 3" using l by linarith
  then have "pm_aligned ?n h c (b0 # b1 # b2 # b3 # bs) = pm_aligned ?n (DOBLOCK h ?k) (le_word w) bs"
    using al(1) unfolding pm_aligned.simps Let_def w(3) by (elim disjE) simp_all
  then show ?thesis using that [of "DOBLOCK h ?k" "le_word w" "drop (4 - ?n) w"] al(2) l w four by simp
qed

lemma aligned_blocks:
  assumes "carries c ps"
  obtains h' c' bs' ps' where "pm_aligned (length ps) h c bs = (h', c', bs')" "carries c' ps'" "length ps' = length ps"
    "pm_blocks h (ps @ bs) = pm_blocks h' (ps' @ bs')"
  using assms
proof (induction "length bs" arbitrary: bs h c ps thesis rule: less_induct)
  case less
  show ?case
  proof (cases "(length ps, h, c, bs)" rule: pm_aligned.cases)
    case (1 n h0 c0 b0 b1 b2 b3 bs0)
    then have bs: "bs = b0 # b1 # b2 # b3 # bs0" by simp
    obtain h1 c1 ps1 where s: "pm_aligned (length ps) h c bs = pm_aligned (length ps1) h1 c1 bs0" "carries c1 ps1" "length ps1 = length ps"
      "pm_blocks h (ps @ bs) = pm_blocks h1 (ps1 @ bs0)" using aligned_step [OF less.prems(2), of h b0 b1 b2 b3 bs0] unfolding bs by metis
    show ?thesis
      by (rule less.hyps [OF _ _ s(2), of bs0 h1]) (use bs s less.prems(1) in auto)
  qed (use less.prems in auto)
qed

text \<open>A hash and a carry between two calls.\<close>

definition pm_rep :: "u32 \<times> bytes \<Rightarrow> u32 \<times> u32 \<Rightarrow> bool" where
  "pm_rep a st \<longleftrightarrow> fst st = fst a \<and> carries (snd st) (snd a) \<and> unat (snd st AND 3) = length (snd a)"

lemma carry_out:
  assumes "pm_state h ps (h', c, n)"
  shows "pm_rep (h, ps) (h', (c AND NOT 0xff) OR of_nat n)"
proof -
  let ?c = "(c AND NOT 0xff) OR of_nat n :: u32"
  have s: "h' = h" "carries c ps" "n = length ps" "n < 4" using assms by (auto simp: pm_state_def carries_def)
  then have n: "n = 0 \<or> n = 1 \<or> n = 2 \<or> n = 3" by linarith
  have ff: "bit (0xff :: u32) i \<longleftrightarrow> i < 8" if "i < 32" for i
  proof -
    have m: "mask 8 = (0xff :: u32)" by (simp add: mask_eq_exp_minus_1)
    show ?thesis using that bit_mask_iff [of 8 i, where ?'a = u32] unfolding m by simp
  qed
  have high: "bit ?c i = bit c i" if "8 \<le> i" "i < 32" for i
  proof -
    have "n < 2 ^ i" using s(4) power_increasing [of 2 i "2 :: nat"] that by simp
    then have "\<not> bit (of_nat n :: u32) i" by (simp only: bit_of_nat_iff) (simp add: bit_iff_odd)
    then show ?thesis using that ff [of i] unfolding bit_or_iff bit_and_iff bit_not_iff by simp
  qed
  have "carries ?c ps" using s(2,3,4) high unfolding carries_def by auto
  moreover have "(c AND NOT 0xff) AND 3 = 0"
  proof -
    have "NOT 0xff AND (3 :: u32) = 0" by code_simp
    then show ?thesis by (simp only: and.assoc and_zero_eq)
  qed
  then have "?c AND 3 = of_nat n" using n by (auto simp: bit.conj_disj_distrib2)
  ultimately show ?thesis using s by (simp add: pm_rep_def unat_of_nat)
qed

lemma head_ok:
  assumes "carries c ps"
  obtains ps1 h1 c1 where "(let (h1, c, n) = DOBYTES h c (length ps) (take i key) in (h1, c, n, drop i key)) = (h1, c1, length ps1, drop i key)"
    "carries c1 ps1" "pm_blocks h (ps @ key) = pm_blocks h1 (ps1 @ drop i key)" "ps1 = snd (pm_blocks h (ps @ take i key))"
proof -
  let ?p = "pm_blocks h (ps @ take i key)"
  obtain h1 c1 n1 where d: "DOBYTES h c (length ps) (take i key) = (h1, c1, n1)" by (cases "DOBYTES h c (length ps) (take i key)")
  then have "h1 = fst ?p" "carries c1 (snd ?p)" "n1 = length (snd ?p)" using DOBYTES_blocks [OF assms, of h "take i key"] by (auto simp: pm_state_def)
  moreover have "pm_blocks h (ps @ key) = pm_blocks (fst ?p) (snd ?p @ drop i key)"
    using blocks_append [of h "ps @ take i key" "drop i key"] by (simp add: case_prod_beta)
  ultimately show ?thesis using that [of h1 c1 "snd ?p"] d by simp
qed

lemma tail_ok:
  assumes "carries c ps" and "pm_blocks h0 xs = pm_blocks h (ps @ bs)" and "DOBYTES h c (length ps) bs = (h', c', n')"
  shows "pm_rep (pm_blocks h0 xs) (h', (c' AND NOT 0xff) OR of_nat n')"
  using carry_out [of "fst (pm_blocks h0 xs)" "snd (pm_blocks h0 xs)"] DOBYTES_blocks [OF assms(1), of h bs] unfolding assms(2,3) by simp

lemma process_ok:
  assumes "pm_rep (h, ps) st"
  shows "pm_rep (pm_blocks h (ps @ key)) (PMurHash32_Process (fst st) (snd st) key)"
proof -
  have st: "fst st = h" "carries (snd st) ps" "unat (snd st AND 3) = length ps" and l: "length ps < 4" using assms by (auto simp: pm_rep_def carries_def)
  let ?i = "(4 - length ps) mod 4"
  have fin: "pm_rep (pm_blocks h (ps @ key)) (let (h1, ptr) = pm_blocks h1 ptr; (h1, c, n) = DOBYTES h1 c1 (length ps1) ptr in (h1, (c AND NOT 0xff) OR of_nat n))"
    if "carries c1 ps1" "pm_blocks h (ps @ key) = pm_blocks h1 (ps1 @ ptr)" "ps1 = [] \<or> length ptr < 4" for h1 c1 ps1 ptr
  proof -
    obtain h2 rest where r: "pm_blocks h1 ptr = (h2, rest)" by (cases "pm_blocks h1 ptr")
    have "pm_blocks h1 (ps1 @ ptr) = pm_blocks h2 (ps1 @ rest)"
    proof (cases "ps1 = []")
      case True
      then show ?thesis using r blocks_short [of rest h2] blocks_tail [of h1 ptr] by simp
    next
      case False
      then show ?thesis using r that(3) blocks_short [of ptr h1] by simp
    qed
    then show ?thesis using tail_ok [OF that(1), of h "ps @ key" h2 rest] that(2) r by (simp add: case_prod_beta)
  qed
  show ?thesis
  proof (cases "?i \<noteq> 0 \<and> ?i \<le> length key")
    case True
    obtain ps1 h1 c1 where d: "(let (h1, c, n) = DOBYTES h (snd st) (length ps) (take ?i key) in (h1, c, n, drop ?i key)) = (h1, c1, length ps1, drop ?i key)"
      "carries c1 ps1" "pm_blocks h (ps @ key) = pm_blocks h1 (ps1 @ drop ?i key)" "ps1 = snd (pm_blocks h (ps @ take ?i key))" by (rule head_ok [OF st(2)]) (rule that)
    have "length (ps @ take ?i key) = 4" using True l by (cases "length ps") auto
    then have "ps1 = []" using d(4) blocks_four [of "ps @ take ?i key" h "[]"] by simp
    then show ?thesis using fin [OF d(2,3)] True d(1) by (simp add: PMurHash32_Process_def st Let_def)
  next
    case False
    have "ps = [] \<or> length key < 4"
    proof (cases "ps = []")
      case False
      then have "?i = 4 - length ps" by (cases ps) auto
      then show ?thesis using \<open>\<not> (?i \<noteq> 0 \<and> ?i \<le> length key)\<close> l by auto
    qed simp
    then show ?thesis using fin [OF st(2) refl] False by (auto simp: PMurHash32_Process_def st Let_def)
  qed
qed

lemma process_aligned_ok:
  assumes "pm_rep (h, ps) st"
  shows "pm_rep (pm_blocks h (ps @ key)) (PMurHash32_Process_aligned p (fst st) (snd st) key)"
proof -
  have st: "fst st = h" "carries (snd st) ps" "unat (snd st AND 3) = length ps" using assms by (auto simp: pm_rep_def)
  let ?i = "(4 - p mod 4) mod 4"
  have fin: "pm_rep (pm_blocks h (ps @ key)) (let (h1, c, ptr) = pm_aligned (length ps1) h1 c1 ptr; (h1, c, n) = DOBYTES h1 c (length ps1) ptr in (h1, (c AND NOT 0xff) OR of_nat n))"
    if car: "carries c1 ps1" and bl: "pm_blocks h (ps @ key) = pm_blocks h1 (ps1 @ ptr)" for h1 c1 ps1 ptr
  proof -
    obtain h2 c2 rest ps2 where r: "pm_aligned (length ps1) h1 c1 ptr = (h2, c2, rest)" "carries c2 ps2" "length ps2 = length ps1"
      "pm_blocks h1 (ps1 @ ptr) = pm_blocks h2 (ps2 @ rest)" by (rule aligned_blocks [OF car]) (rule that)
    then show ?thesis using tail_ok [OF r(2), of h "ps @ key" h2 rest] bl by (simp add: case_prod_beta)
  qed
  obtain ps1 h1 c1 where d: "(let (h1, c, n) = DOBYTES h (snd st) (length ps) (take ?i key) in (h1, c, n, drop ?i key)) = (h1, c1, length ps1, drop ?i key)"
    "carries c1 ps1" "pm_blocks h (ps @ key) = pm_blocks h1 (ps1 @ drop ?i key)" by (rule head_ok [OF st(2)]) (rule that)
  show ?thesis
    using fin [OF d(2,3)] fin [OF st(2) refl] d(1) by (simp add: PMurHash32_Process_aligned_def st Let_def)
qed

lemma result_ok:
  assumes "pm_rep (pm_blocks seed key) st"
  shows "PMurHash32_Result (fst st) (snd st) (of_nat (length key)) = murmur3 seed key"
  using assms carry_top [of "snd st" "snd (pm_blocks seed key)"]
  by (simp add: pm_rep_def PMurHash32_Result_def murmur3_def case_prod_beta Let_def)

text \<open>One call of \<open>PMurHash32_Process\<close>, with or without the address of the bytes.\<close>

definition pm_process :: "nat option \<times> bytes \<Rightarrow> u32 \<times> u32 \<Rightarrow> u32 \<times> u32" where
  "pm_process piece st = (case piece of
     (None, key) \<Rightarrow> PMurHash32_Process (fst st) (snd st) key
   | (Some ptr, key) \<Rightarrow> PMurHash32_Process_aligned ptr (fst st) (snd st) key)"

lemma pieces_ok:
  "pm_rep (pm_blocks seed key) st \<Longrightarrow> pm_rep (pm_blocks seed (key @ concat (map snd pieces))) (fold pm_process pieces st)"
proof (induction pieces arbitrary: key st)
  case (Cons piece pieces)
  obtain h ps where p: "pm_blocks seed key = (h, ps)" by (cases "pm_blocks seed key")
  have "pm_rep (pm_blocks h (ps @ snd piece)) (pm_process piece st)"
    using process_ok [of h ps st] process_aligned_ok [of h ps st] Cons.prems p by (simp add: pm_process_def split: prod.split option.split)
  then have "pm_rep (pm_blocks seed (key @ snd piece)) (pm_process piece st)" using blocks_append [of seed key "snd piece"] p by simp
  then show ?case using Cons.IH [of "key @ snd piece"] by simp
qed simp

lemma PMurHash32_murmur3: "PMurHash32 seed key = murmur3 seed key"
proof -
  have "pm_rep (pm_blocks seed []) (seed, 0)" by (simp add: pm_rep_def carries_def)
  then have "pm_rep (pm_blocks seed key) (PMurHash32_Process seed 0 key)" using process_ok [of seed "[]" "(seed, 0)" key] by simp
  from result_ok [OF this] show ?thesis by (simp add: PMurHash32_def case_prod_beta)
qed

text \<open>Published values of Murmur3A.\<close>

lemma murmur3_vectors: "PMurHash32 1 [] = 0x514E28B7" "PMurHash32 0 [0x68, 0x65, 0x6c, 0x6c, 0x6f] = 0x248bfa47"
  by code_simp+

text \<open>C23. Progressive hashing.  A key hashed in any pieces, each by either body of \<open>PMurHash32_Process\<close> and at any address, has the hash \<open>PMurHash32\<close>
  computes of it at once.
\<close>

theorem hash_in_pieces:
  "case fold pm_process pieces (seed, 0) of (h1, carry) \<Rightarrow>
     PMurHash32_Result h1 carry (of_nat (length (concat (map snd pieces)))) = PMurHash32 seed (concat (map snd pieces))"
proof -
  have "pm_rep (pm_blocks seed []) (seed, 0)" by (simp add: pm_rep_def carries_def)
  from result_ok [OF pieces_ok [OF this, of pieces, unfolded append_Nil]] show ?thesis by (simp add: PMurHash32_murmur3 case_prod_beta)
qed

end
