(* ===== verification/Tnt_Mhash.thy ===== *)
theory Tnt_Mhash
  imports Tnt_Schema Tnt_Murmur
begin

unbundle bit_operations_syntax

text \<open>
  The hash table of the schema cache: \<^verbatim>\<open>third_party/mhash.h\<close> as \<^verbatim>\<open>tnt_assoc.h\<close> instantiates it, with the hash function of
  \<open>Tnt_Murmur\<close>.  Collisions are resolved by double hashing over a prime number of slots; a table that is 70 percent
  full grows to the next prime, moving at least 256 slots with every later insertion or deletion.

  A \<open>struct mh_assoc_t\<close> is a record \<open>mh_t\<close>, its \<open>shadow\<close> the second one of a \<open>mhash\<close>; the shadow points to itself as its own shadow.
  The counters are numbers: they stay far below \<open>2 ^ 32\<close>, only the sum in \<open>next_slot\<close> could wrap for the two largest primes and is
  written modulo.  Words of the bit array \<open>b\<close> hold sixteen \<open>exist\<close> bits and sixteen \<open>dirty\<close> bits.  A null node is \<open>None\<close>.  The probe
  loops have no bound of their own; a loop that does not end, an access outside an array and a comparison with a null node give
  \<open>None\<close>.  \<open>MH_CALLOC\<close> is \<open>tnt_mem_calloc\<close> over the allocator \<open>ra\<close>; blocks that are freed are dropped.
\<close>

section \<open>The hash of a node\<close>

definition MUR_SEED :: u32 where "MUR_SEED = 13"

text \<open>\<open>mh_hash\<close> and \<open>mh_hash_key\<close> of \<^verbatim>\<open>tnt_assoc.h\<close>.\<close>

definition mh_hash_key :: "bytes \<Rightarrow> nat" where
  "mh_hash_key key = unat (PMurHash32 MUR_SEED key)"

definition mh_hash :: "assoc_val \<Rightarrow> nat" where
  "mh_hash node = mh_hash_key (av_key node)"

section \<open>Tables\<close>

definition ac_prime_list :: "nat list" where
  "ac_prime_list = [3, 11, 23, 53, 97, 193, 389, 769, 1543, 3079, 6151, 12289, 24593, 49157, 98317, 196613, 393241, 786433, 1572869,
     3145739, 6291469, 12582917, 25165843, 50331653, 100663319, 201326611, 402653189, 805306457, 1610612741, 3221225473, 4294967291]"

definition ac_HASH_PRIME_SIZE :: nat where "ac_HASH_PRIME_SIZE = 31"

record mh_t =
  mt_p :: "assoc_val option list"
  mt_b :: "u32 list"
  mt_n_buckets :: nat
  mt_n_dirty :: nat
  mt_size :: nat
  mt_upper_bound :: nat
  mt_prime :: nat
  mt_resize_cnt :: nat
  mt_resize_position :: nat
  mt_batch :: nat

record mhash =
  mh_h :: mh_t
  mh_shadow :: mh_t

definition mt_exist :: "mh_t \<Rightarrow> nat \<Rightarrow> bool" where
  "mt_exist h i = (mt_b h ! (i div 16) AND push_bit (i mod 16) 1 \<noteq> 0)"

definition mt_dirty :: "mh_t \<Rightarrow> nat \<Rightarrow> bool" where
  "mt_dirty h i = (mt_b h ! (i div 16) AND push_bit (i mod 16 + 16) 1 \<noteq> 0)"

definition mt_setfree :: "mh_t \<Rightarrow> nat \<Rightarrow> mh_t" where
  "mt_setfree h i = h\<lparr>mt_b := (mt_b h)[i div 16 := mt_b h ! (i div 16) AND NOT (push_bit (i mod 16) 1)]\<rparr>"

definition mt_setexist :: "mh_t \<Rightarrow> nat \<Rightarrow> mh_t" where
  "mt_setexist h i = h\<lparr>mt_b := (mt_b h)[i div 16 := mt_b h ! (i div 16) OR push_bit (i mod 16) 1]\<rparr>"

definition mt_setdirty :: "mh_t \<Rightarrow> nat \<Rightarrow> mh_t" where
  "mt_setdirty h i = h\<lparr>mt_b := (mt_b h)[i div 16 := mt_b h ! (i div 16) OR push_bit (i mod 16 + 16) 1]\<rparr>"

text \<open>The slot lies in both arrays.\<close>

definition slot_ok :: "mh_t \<Rightarrow> nat \<Rightarrow> bool" where
  "slot_ok h i = (i < length (mt_p h) \<and> i div 16 < length (mt_b h))"

definition mh_density :: "nat \<Rightarrow> nat" where
  "mh_density n = n * 7 div 10"

definition next_slot :: "nat \<Rightarrow> nat \<Rightarrow> nat \<Rightarrow> nat" where
  "next_slot slot inc sz = (let slot = (slot + inc) mod 2 ^ 32 in if slot \<ge> sz then slot - sz else slot)"

section \<open>Probing\<close>

text \<open>Does the slot hold a node with the property?\<close>

definition slot_hit :: "(assoc_val \<Rightarrow> bool) \<Rightarrow> mh_t \<Rightarrow> nat \<Rightarrow> bool option" where
  "slot_hit eq h i = (if mt_exist h i then map_option eq (mt_p h ! i) else Some False)"

partial_function (option) probe_loop :: "(assoc_val \<Rightarrow> bool) \<Rightarrow> mh_t \<Rightarrow> nat \<Rightarrow> nat \<Rightarrow> nat option" where
  "probe_loop eq h inc i =
     (if \<not> slot_ok h i then None
      else do {
        hit \<leftarrow> slot_hit eq h i;
        if hit then Some i
        else if \<not> mt_dirty h i then Some (mt_n_buckets h)
        else probe_loop eq h inc (next_slot i inc (mt_n_buckets h)) })"

definition mh_assoc_find :: "mh_t \<Rightarrow> bytes \<Rightarrow> nat option" where
  "mh_assoc_find h key = (let k = mh_hash_key key in
     probe_loop (mh_cmp_key_eq key) h (1 + k mod (mt_n_buckets h - 1)) (k mod mt_n_buckets h))"

definition mh_assoc_get :: "mh_t \<Rightarrow> assoc_val \<Rightarrow> nat option" where
  "mh_assoc_get h node = (let k = mh_hash node in
     probe_loop (mh_cmp_eq node) h (1 + k mod (mt_n_buckets h - 1)) (k mod mt_n_buckets h))"

text \<open>The two loops of \<open>put_slot\<close>: over existing nodes, marking them dirty (true for a duplicate), and down a dirty chain.\<close>

partial_function (option) skip_loop :: "assoc_val \<Rightarrow> nat \<Rightarrow> mh_t \<Rightarrow> nat \<Rightarrow> (bool \<times> nat \<times> mh_t) option" where
  "skip_loop node inc h i =
     (if \<not> slot_ok h i then None
      else if \<not> mt_exist h i then Some (False, i, h)
      else do {
        v \<leftarrow> mt_p h ! i;
        if mh_cmp_eq node v then Some (True, i, h)
        else skip_loop node inc (mt_setdirty h i) (next_slot i inc (mt_n_buckets h)) })"

partial_function (option) dup_loop :: "assoc_val \<Rightarrow> mh_t \<Rightarrow> nat \<Rightarrow> nat \<Rightarrow> nat option option" where
  "dup_loop node h inc i =
     (if \<not> slot_ok h i then None
      else if \<not> mt_dirty h i then Some None
      else do {
        let i = next_slot i inc (mt_n_buckets h);
        if \<not> slot_ok h i then None
        else do {
          hit \<leftarrow> slot_hit (\<lambda>v. mh_cmp_eq v node) h i;
          if hit then Some (Some i) else dup_loop node h inc i } })"

definition mh_assoc_put_slot :: "mh_t \<Rightarrow> assoc_val \<Rightarrow> (nat \<times> mh_t) option" where
  "mh_assoc_put_slot h node = do {
     let k = mh_hash node;
     let inc = 1 + k mod (mt_n_buckets h - 1);
     (dup, i, h) \<leftarrow> skip_loop node inc h (k mod mt_n_buckets h);
     if dup then Some (i, h)
     else do {
       d \<leftarrow> dup_loop node h inc i;
       Some (case d of Some j \<Rightarrow> j | None \<Rightarrow> i, h) } }"

section \<open>Growing\<close>

text \<open>The loop of \<open>resize\<close> from slot \<open>i\<close>: where it stopped for want of batch, or \<open>None\<close> at the end.\<close>

function resize_loop :: "mh_t \<Rightarrow> mh_t \<Rightarrow> nat \<Rightarrow> nat \<Rightarrow> (nat option \<times> mh_t) option" where
  "resize_loop h s batch i =
     (if i < mt_n_buckets h then
        if batch = 0 then Some (Some i, s)
        else if \<not> slot_ok h i then None
        else if \<not> mt_exist h i then resize_loop h s (batch - 1) (i + 1)
        else (case mt_p h ! i of
           None \<Rightarrow> None
         | Some v \<Rightarrow> (case mh_assoc_put_slot s v of
             None \<Rightarrow> None
           | Some (n, s) \<Rightarrow>
               resize_loop h ((mt_setexist (s\<lparr>mt_p := (mt_p s)[n := Some v]\<rparr>) n)\<lparr>mt_n_dirty := mt_n_dirty s + 1\<rparr>) (batch - 1) (i + 1)))
      else Some (None, s))"
  by pat_completeness auto
termination
  by (relation "measure (\<lambda>(h, s, batch, i). mt_n_buckets h - i)") auto

definition mh_assoc_resize :: "mhash \<Rightarrow> mhash option" where
  "mh_assoc_resize hs = do {
     let h = mh_h hs;
     (stop, s) \<leftarrow> resize_loop h (mh_shadow hs) (mt_batch h) (mt_resize_position h);
     Some (case stop of
        Some i \<Rightarrow> \<lparr>mh_h = h\<lparr>mt_resize_position := i\<rparr>, mh_shadow = s\<rparr>
      | None \<Rightarrow> (let s = s\<lparr>mt_size := mt_size h\<rparr> in \<lparr>mh_h = s\<lparr>mt_resize_cnt := mt_resize_cnt s + 1\<rparr>, mh_shadow = s\<rparr>)) }"

text \<open>\<open>MH_CALLOC\<close>: is the zeroed block granted?\<close>

definition mh_calloc :: "realloc_fn \<Rightarrow> nat \<Rightarrow> nat \<Rightarrow> bool option" where
  "mh_calloc ra count sz = map_option (\<lambda>p. p \<noteq> NULLP) (tnt_mem_alloc ra (count * sz))"

fun prime_from :: "nat \<Rightarrow> nat \<Rightarrow> nat \<Rightarrow> nat" where
  "prime_from buckets prime 0 = prime"
| "prime_from buckets prime (Suc left) = (if ac_prime_list ! prime \<ge> buckets then prime else prime_from buckets (prime + 1) left)"

definition mh_assoc_start_resize :: "realloc_fn \<Rightarrow> mhash \<Rightarrow> nat \<Rightarrow> nat \<Rightarrow> (int \<times> mhash) option" where
  "mh_assoc_start_resize ra hs buckets batch = (let h = mh_h hs in
     if mt_resize_position h \<noteq> 0 then Some (0, hs)
     else if buckets < mt_n_buckets h then Some (0, hs)
     else do {
       let prime = prime_from buckets (mt_prime h) (ac_HASH_PRIME_SIZE - mt_prime h);
       let batch = (if batch > 0 then batch else mt_n_buckets h div (256 * 1024));
       let h = h\<lparr>mt_prime := prime, mt_batch := (if batch < 256 then 256 else batch)\<rparr>;
       if prime \<ge> ac_HASH_PRIME_SIZE then None
       else do {
         let n = ac_prime_list ! prime;
         let s = h\<lparr>mt_resize_position := 0, mt_n_buckets := n, mt_upper_bound := mh_density n, mt_n_dirty := 0\<rparr>;
         ok \<leftarrow> mh_calloc ra n 8;
         if \<not> ok then Some (-1, \<lparr>mh_h = h, mh_shadow = s\<lparr>mt_p := []\<rparr>\<rparr>)
         else do {
           let s = s\<lparr>mt_p := replicate n None\<rparr>;
           ok \<leftarrow> mh_calloc ra (n div 16 + 1) 4;
           if \<not> ok then Some (-1, \<lparr>mh_h = h, mh_shadow = s\<lparr>mt_p := [], mt_b := []\<rparr>\<rparr>)
           else do {
             hs \<leftarrow> mh_assoc_resize \<lparr>mh_h = h, mh_shadow = s\<lparr>mt_b := replicate (n div 16 + 1) 0\<rparr>\<rparr>;
             Some (0, hs) } } } })"

section \<open>Operations\<close>

text \<open>What \<open>put\<close> does with the slot it has found; the old node is not wanted (\<open>ret\<close> is null).\<close>

definition put_at :: "mh_t \<Rightarrow> nat \<Rightarrow> assoc_val \<Rightarrow> mh_t" where
  "put_at h x node = (let p = (mt_p h)[x := Some node] in
     if mt_exist h x then h\<lparr>mt_p := p\<rparr>
     else (mt_setexist h x)\<lparr>mt_size := mt_size h + 1, mt_n_dirty := (if mt_dirty h x then mt_n_dirty h else mt_n_dirty h + 1), mt_p := p\<rparr>)"

text \<open>\<open>put\<close> on the shadow, which is never being resized; growing it would be a resize with itself as the shadow.\<close>

definition put_shadow :: "mh_t \<Rightarrow> assoc_val \<Rightarrow> mh_t option" where
  "put_shadow s node =
     (if mt_size s = mt_n_buckets s then Some s
      else if mt_resize_position s > 0 \<or> mt_n_dirty s \<ge> mt_upper_bound s then None
      else do { (x, s) \<leftarrow> mh_assoc_put_slot s node; Some (put_at s x node) })"

definition mh_assoc_put :: "realloc_fn \<Rightarrow> mhash \<Rightarrow> assoc_val \<Rightarrow> (nat \<times> mhash) option" where
  "mh_assoc_put ra hs node = (let x = mt_n_buckets (mh_h hs) in
     if mt_size (mh_h hs) = mt_n_buckets (mh_h hs) then Some (x, hs)
     else do {
       (rc, hs) \<leftarrow> (if mt_resize_position (mh_h hs) > 0 then map_option (\<lambda>hs. (0, hs)) (mh_assoc_resize hs)
          else if mt_n_dirty (mh_h hs) \<ge> mt_upper_bound (mh_h hs) then mh_assoc_start_resize ra hs (mt_n_buckets (mh_h hs) + 1) 0
          else Some (0, hs));
       if rc \<noteq> 0 then Some (x, hs)
       else do {
         s \<leftarrow> (if mt_resize_position (mh_h hs) > 0 then put_shadow (mh_shadow hs) node else Some (mh_shadow hs));
         (x, h) \<leftarrow> mh_assoc_put_slot (mh_h hs) node;
         Some (x, \<lparr>mh_h = put_at h x node, mh_shadow = s\<rparr>) } })"

definition del_at :: "mh_t \<Rightarrow> nat \<Rightarrow> mh_t" where
  "del_at h x = (mt_setfree h x)\<lparr>mt_size := mt_size h - 1, mt_n_dirty := (if mt_dirty h x then mt_n_dirty h else mt_n_dirty h - 1)\<rparr>"

text \<open>\<open>del\<close> on the shadow.\<close>

definition del_shadow :: "mh_t \<Rightarrow> nat \<Rightarrow> mh_t option" where
  "del_shadow s y =
     (if y = mt_n_buckets s then Some s
      else if \<not> slot_ok s y then None
      else if mt_exist s y then Some (del_at s y)
      else Some s)"

definition mh_assoc_del_resize :: "mhash \<Rightarrow> nat \<Rightarrow> mhash option" where
  "mh_assoc_del_resize hs x = do {
     node \<leftarrow> mt_p (mh_h hs) ! x;
     y \<leftarrow> mh_assoc_get (mh_shadow hs) node;
     s \<leftarrow> del_shadow (mh_shadow hs) y;
     mh_assoc_resize (hs\<lparr>mh_shadow := s\<rparr>) }"

definition mh_assoc_del :: "mhash \<Rightarrow> nat \<Rightarrow> mhash option" where
  "mh_assoc_del hs x =
     (if x = mt_n_buckets (mh_h hs) then Some hs
      else if \<not> slot_ok (mh_h hs) x then None
      else if mt_exist (mh_h hs) x then
        let hs = hs\<lparr>mh_h := del_at (mh_h hs) x\<rparr>
        in if mt_resize_position (mh_h hs) > 0 then mh_assoc_del_resize hs x else Some hs
      else Some hs)"

definition mh_assoc_remove :: "mhash \<Rightarrow> assoc_val \<Rightarrow> mhash option" where
  "mh_assoc_remove hs node = do {
     k \<leftarrow> mh_assoc_get (mh_h hs) node;
     if k \<noteq> mt_n_buckets (mh_h hs) then mh_assoc_del hs k else Some hs }"

definition zero_mh :: mh_t where
  "zero_mh = \<lparr>mt_p = [], mt_b = [], mt_n_buckets = 0, mt_n_dirty = 0, mt_size = 0, mt_upper_bound = 0, mt_prime = 0, mt_resize_cnt = 0,
     mt_resize_position = 0, mt_batch = 0\<rparr>"

definition sizeof_mh :: nat where "sizeof_mh = 56"

definition mh_assoc_new :: "realloc_fn \<Rightarrow> mhash option option" where
  "mh_assoc_new ra = do {
     ok \<leftarrow> mh_calloc ra 1 sizeof_mh;
     if \<not> ok then Some None
     else do {
       ok \<leftarrow> mh_calloc ra 1 sizeof_mh;
       if \<not> ok then Some None
       else do {
         let n = ac_prime_list ! 0;
         ok \<leftarrow> mh_calloc ra n 8;
         if \<not> ok then Some None
         else do {
           ok \<leftarrow> mh_calloc ra (n div 16 + 1) 4;
           if \<not> ok then Some None
           else Some (Some \<lparr>mh_h = zero_mh\<lparr>mt_n_buckets := n, mt_p := replicate n None, mt_b := replicate (n div 16 + 1) 0,
              mt_upper_bound := mh_density n\<rparr>, mh_shadow = zero_mh\<rparr>) } } } }"

text \<open>\<open>clear\<close>, which leaves the bits, the counters and the shadow as they are.\<close>

definition mh_assoc_clear :: "realloc_fn \<Rightarrow> mhash \<Rightarrow> mhash option" where
  "mh_assoc_clear ra hs = do {
     let n = ac_prime_list ! 0;
     ok \<leftarrow> mh_calloc ra n 8;
     Some (hs\<lparr>mh_h := (mh_h hs)\<lparr>mt_prime := 0, mt_n_buckets := n, mt_p := (if ok then replicate n None else []), mt_upper_bound := mh_density n\<rparr>\<rparr>) }"

definition mh_assoc_reserve :: "realloc_fn \<Rightarrow> mhash \<Rightarrow> nat \<Rightarrow> mhash option" where
  "mh_assoc_reserve ra hs sz = map_option snd (mh_assoc_start_resize ra hs (sz * 10 div 7) (mt_size (mh_h hs)))"

text \<open>\<open>random\<close> looks at as many slots as there are nodes.\<close>

fun random_loop :: "mh_t \<Rightarrow> nat \<Rightarrow> nat \<Rightarrow> nat" where
  "random_loop h 0 rnd = mt_n_buckets h"
| "random_loop h (Suc left) rnd = (let rnd = rnd mod mt_n_buckets h in if mt_exist h rnd then rnd else random_loop h left (rnd + 1))"

definition mh_assoc_random :: "mh_t \<Rightarrow> nat \<Rightarrow> nat" where
  "mh_assoc_random h rnd = random_loop h (mt_size h) rnd"

definition mh_assoc_memsize :: "mhash \<Rightarrow> nat" where
  "mh_assoc_memsize hs = (let
     arrays = \<lambda>h. mt_n_buckets h * 8 + (mt_n_buckets h div 16 + 1) * 4;
     sz = 2 * sizeof_mh + arrays (mh_h hs)
     in if mt_resize_position (mh_h hs) \<noteq> 0 then sz + arrays (mh_shadow hs) else sz)"

section \<open>The operations of the schema cache\<close>

definition mhash_ops :: "realloc_fn \<Rightarrow> mhash assoc_ops" where
  "mhash_ops ra = \<lparr>
     mh_new = (case mh_assoc_new ra of Some r \<Rightarrow> r | None \<Rightarrow> None),
     mh_end = (\<lambda>hs. mt_n_buckets (mh_h hs)),
     mh_exist = (\<lambda>hs. mt_exist (mh_h hs)),
     mh_node = (\<lambda>hs x. the (mt_p (mh_h hs) ! x)),
     mh_find = (\<lambda>hs key. case mh_assoc_find (mh_h hs) key of Some x \<Rightarrow> x | None \<Rightarrow> 0),
     mh_put = (\<lambda>hs node. case mh_assoc_put ra hs node of Some (x, hs') \<Rightarrow> hs' | None \<Rightarrow> hs),
     mh_del = (\<lambda>hs x. case mh_assoc_del hs x of Some hs' \<Rightarrow> hs' | None \<Rightarrow> hs)\<rparr>"

end
