(* ===== verification/Tnt_Schema_Spec.thy ===== *)
theory Tnt_Schema_Spec
  imports Tnt_Schema
begin

text \<open>
  Correctness of the schema cache.  The contract of the hash table is the locale \<open>assoc_table\<close>: \<open>look h\<close> is the
  finite map a table stands for, and insertions may be refused.  \<open>assoc_room\<close> adds a number of insertions that will
  succeed, \<open>assoc_stable\<close> that a deletion leaves the other slots where they are.  All three are interpreted for the
  hash table of the library in \<open>Tnt_Mhash_Map\<close>; \<open>Tnt_Schema_Load\<close> has the theorems on the two together.
\<close>

section \<open>The contract of the table\<close>

locale assoc_table =
  fixes T :: "'h assoc_ops" and tinv :: "'h \<Rightarrow> bool" and look :: "'h \<Rightarrow> bytes \<Rightarrow> assoc_val option"
  assumes new_ok: "mh_new T = Some h \<Longrightarrow> tinv h \<and> look h = Map.empty"
    and find_end: "tinv h \<Longrightarrow> mh_find T h k = mh_end T h \<longleftrightarrow> look h k = None"
    and find_node: "tinv h \<Longrightarrow> look h k = Some n \<Longrightarrow> mh_find T h k < mh_end T h \<and> mh_exist T h (mh_find T h k)
       \<and> mh_node T h (mh_find T h k) = n"
    and slot_node: "tinv h \<Longrightarrow> x < mh_end T h \<Longrightarrow> mh_exist T h x \<Longrightarrow> look h (av_key (mh_node T h x)) = Some (mh_node T h x)"
    and look_key: "tinv h \<Longrightarrow> look h k = Some n \<Longrightarrow> mh_cmp_key_eq k n"
    and put_ok: "tinv h \<Longrightarrow> tinv (mh_put T h n) \<and> (look (mh_put T h n) = (look h)(av_key n \<mapsto> n) \<or> look (mh_put T h n) = look h)"
    and del_ok: "tinv h \<Longrightarrow> look h k = Some n \<Longrightarrow> tinv (mh_del T h (mh_find T h k))
       \<and> look (mh_del T h (mh_find T h k)) = (look h)(k := None)"
    and look_finite: "tinv h \<Longrightarrow> finite (dom (look h))"

text \<open>
  Without memory for the next size a full table refuses insertions.  \<open>left h\<close> is a number of insertions that will
  still succeed on \<open>h\<close>; a new table has at least \<open>cap\<close>, and an insertion uses up at most one.
\<close>

locale assoc_room = assoc_table T tinv look
  for T :: "'h assoc_ops" and tinv :: "'h \<Rightarrow> bool" and look :: "'h \<Rightarrow> bytes \<Rightarrow> assoc_val option" +
  fixes left :: "'h \<Rightarrow> nat" and cap :: nat
  assumes new_some: "mh_new T \<noteq> None"
    and new_left: "mh_new T = Some h \<Longrightarrow> cap \<le> left h"
    and put_some: "tinv h \<Longrightarrow> 0 < left h \<Longrightarrow> look (mh_put T h n) = (look h)(av_key n \<mapsto> n)"
    and put_left: "tinv h \<Longrightarrow> 0 < left h \<Longrightarrow> left h \<le> Suc (left (mh_put T h n))"

text \<open>While no resize is under way, which \<open>calm\<close> says, a deletion leaves the other slots where they are.\<close>

locale assoc_stable = assoc_table T tinv look
  for T :: "'h assoc_ops" and tinv :: "'h \<Rightarrow> bool" and look :: "'h \<Rightarrow> bytes \<Rightarrow> assoc_val option" +
  fixes calm :: "'h \<Rightarrow> bool"
  assumes del_slots: "tinv h \<Longrightarrow> calm h \<Longrightarrow> mh_end T (mh_del T h x) = mh_end T h \<and> (mh_exist T (mh_del T h x) y
       \<longrightarrow> mh_exist T h y \<and> mh_node T (mh_del T h x) y = mh_node T h y)"
    and del_calm: "tinv h \<Longrightarrow> calm h \<Longrightarrow> calm (mh_del T h x)"

text \<open>
  The invariant of a table with its region: every node is a live block whose object is live and has the node's key
  as one of its two keys; no two nodes share a block; addresses are below the next one.
\<close>

definition tab_ok :: "('h \<Rightarrow> bool) \<Rightarrow> ('h \<Rightarrow> bytes \<Rightarrow> assoc_val option) \<Rightarrow> ('o \<Rightarrow> (bytes \<times> bytes) option) \<Rightarrow> ('h, 'o) assoc \<Rightarrow> bool" where
  "tab_ok tinv look keys t \<longleftrightarrow> tinv (as_tab t)
     \<and> (\<forall>k n. look (as_tab t) k = Some n \<longrightarrow> av_addr n \<in> as_vals t
          \<and> (\<exists>x k1 k2. as_objs t (av_data n) = Some x \<and> keys x = Some (k1, k2) \<and> (k = k1 \<or> k = k2)))
     \<and> (\<forall>k n k' n'. look (as_tab t) k = Some n \<longrightarrow> look (as_tab t) k' = Some n' \<longrightarrow> av_addr n = av_addr n' \<longrightarrow> k = k')
     \<and> (\<forall>a \<in> as_vals t. a < as_next t) \<and> (\<forall>a. as_objs t a \<noteq> None \<longrightarrow> a < as_next t)"

lemma tab_okI:
  assumes "tinv (as_tab t)" and "\<And>k n. look (as_tab t) k = Some n \<Longrightarrow> av_addr n \<in> as_vals t"
    and "\<And>k n. look (as_tab t) k = Some n \<Longrightarrow> \<exists>x k1 k2. as_objs t (av_data n) = Some x \<and> keys x = Some (k1, k2) \<and> (k = k1 \<or> k = k2)"
    and "\<And>k n k' n'. look (as_tab t) k = Some n \<Longrightarrow> look (as_tab t) k' = Some n' \<Longrightarrow> av_addr n = av_addr n' \<Longrightarrow> k = k'"
    and "\<And>a. a \<in> as_vals t \<Longrightarrow> a < as_next t" and "\<And>a x. as_objs t a = Some x \<Longrightarrow> a < as_next t"
  shows "tab_ok tinv look keys t"
  unfolding tab_ok_def using assms by blast

lemma tab_okD:
  assumes "tab_ok tinv look keys t"
  shows "tinv (as_tab t)" and "look (as_tab t) k = Some n \<Longrightarrow> av_addr n \<in> as_vals t"
    and "look (as_tab t) k = Some n \<Longrightarrow> \<exists>x k1 k2. as_objs t (av_data n) = Some x \<and> keys x = Some (k1, k2) \<and> (k = k1 \<or> k = k2)"
    and "look (as_tab t) k = Some n \<Longrightarrow> look (as_tab t) k' = Some n' \<Longrightarrow> av_addr n = av_addr n' \<Longrightarrow> k = k'"
    and "a \<in> as_vals t \<Longrightarrow> a < as_next t" and "as_objs t a = Some x \<Longrightarrow> a < as_next t"
  using assms unfolding tab_ok_def by blast+

text \<open>Nothing in the region is lost: every object is found under both its keys, every block is a node.\<close>

definition tight :: "('h \<Rightarrow> bytes \<Rightarrow> assoc_val option) \<Rightarrow> ('o \<Rightarrow> (bytes \<times> bytes) option) \<Rightarrow> ('h, 'o) assoc \<Rightarrow> bool" where
  "tight look keys t \<longleftrightarrow>
     (\<forall>a x. as_objs t a = Some x \<longrightarrow> (\<exists>k1 k2 n1 n2. keys x = Some (k1, k2) \<and> look (as_tab t) k1 = Some n1 \<and> av_data n1 = a
         \<and> look (as_tab t) k2 = Some n2 \<and> av_data n2 = a))
     \<and> (\<forall>v \<in> as_vals t. \<exists>k n. look (as_tab t) k = Some n \<and> av_addr n = v)"

context assoc_table
begin

lemma look_key': "tinv h \<Longrightarrow> look h k = Some n \<Longrightarrow> av_key n = k"
  by (auto dest!: look_key simp: mh_cmp_key_eq_def split: if_splits)

lemma mh_from_cases:
  obtains "mh_from T h i = mh_end T h" "\<forall>x. i \<le> x \<longrightarrow> x < mh_end T h \<longrightarrow> \<not> mh_exist T h x"
    | "i \<le> mh_from T h i" "mh_from T h i < mh_end T h" "mh_exist T h (mh_from T h i)"
      "\<forall>x. i \<le> x \<longrightarrow> x < mh_from T h i \<longrightarrow> \<not> mh_exist T h x"
proof (cases "List.find (mh_exist T h) [i..<mh_end T h]")
  case None
  then have "mh_from T h i = mh_end T h" by (simp add: mh_from_def)
  moreover have "\<forall>x. i \<le> x \<longrightarrow> x < mh_end T h \<longrightarrow> \<not> mh_exist T h x" using None by (auto simp: find_None_iff)
  ultimately show ?thesis by (rule that(1))
next
  case (Some j)
  then obtain m where m: "m < length [i..<mh_end T h]" "mh_exist T h ([i..<mh_end T h] ! m)" "j = [i..<mh_end T h] ! m"
    "\<forall>l<m. \<not> mh_exist T h ([i..<mh_end T h] ! l)" by (auto simp: find_Some_iff)
  have j: "j = i + m" "m < mh_end T h - i" using m by auto
  have "\<not> mh_exist T h x" if "i \<le> x" "x < j" for x
  proof -
    have "x - i < m" using that j by linarith
    then have "\<not> mh_exist T h ([i..<mh_end T h] ! (x - i))" using m(4) by blast
    moreover have "[i..<mh_end T h] ! (x - i) = x" using that j by (subst nth_upt) auto
    ultimately show ?thesis by simp
  qed
  then show ?thesis using that(2) Some m j by (simp add: mh_from_def)
qed

lemma take_key_ok:
  assumes "tinv (as_tab t)"
  obtains h where "take_key T k t = (map_option av_addr (look (as_tab t) k), t\<lparr>as_tab := h\<rparr>)" "tinv h"
    "look h = (look (as_tab t))(k := None)" "h = as_tab t \<or> (\<exists>x. h = mh_del T (as_tab t) x)"
proof (cases "look (as_tab t) k")
  case None
  then have "take_key T k t = (None, t\<lparr>as_tab := as_tab t\<rparr>)" using find_end [OF assms] by (simp add: take_key_def)
  then show ?thesis using that [of "as_tab t"] None assms by (auto simp: fun_upd_idem)
next
  case (Some n)
  from find_node [OF assms Some] have "take_key T k t = (Some (av_addr n), t\<lparr>as_tab := mh_del T (as_tab t) (mh_find T (as_tab t) k)\<rparr>)"
    by (simp add: take_key_def Let_def)
  then show ?thesis using that [of "mh_del T (as_tab t) (mh_find T (as_tab t) k)"] del_ok [OF assms Some] Some by auto
qed

text \<open>One round of the loop.\<close>

lemma free_round:
  assumes ok: "tab_ok tinv look keys t" and pos: "pos < mh_end T (as_tab t)" "mh_exist T (as_tab t) pos"
    and rel: "\<forall>a x. as_objs t a = Some x \<longrightarrow> rel x \<noteq> None"
  obtains t' where "free_loop T keys rel pos t = free_loop T keys rel (mh_next T (as_tab t') pos) t'"
    "tab_ok tinv look keys t'" "card (dom (look (as_tab t'))) < card (dom (look (as_tab t)))"
    "\<forall>a. as_objs t' a = None \<or> as_objs t' a = as_objs t a" "tight look keys t \<longrightarrow> tight look keys t'"
    "look (as_tab t') (av_key (mh_node T (as_tab t) pos)) = None"
    "\<exists>h1. (h1 = as_tab t \<or> (\<exists>x. h1 = mh_del T (as_tab t) x)) \<and> (as_tab t' = h1 \<or> (\<exists>x. as_tab t' = mh_del T h1 x)) \<and> tinv h1"
proof -
  let ?n = "mh_node T (as_tab t) pos" let ?k = "av_key ?n" let ?a = "av_data ?n" let ?L = "look (as_tab t)"
  have ti: "tinv (as_tab t)" using ok by (simp add: tab_ok_def)
  have Ln: "?L ?k = Some ?n" by (rule slot_node [OF ti pos])
  obtain x k1 k2 where x: "as_objs t ?a = Some x" "keys x = Some (k1, k2)" "?k = k1 \<or> ?k = k2"
    using ok Ln unfolding tab_ok_def by blast
  obtain h1 where h1: "take_key T k1 t = (map_option av_addr (?L k1), t\<lparr>as_tab := h1\<rparr>)" "tinv h1" "look h1 = ?L(k1 := None)"
    "h1 = as_tab t \<or> (\<exists>x. h1 = mh_del T (as_tab t) x)" by (rule take_key_ok [OF ti])
  have ti1: "tinv (as_tab (t\<lparr>as_tab := h1\<rparr>))" using h1(2) by simp
  obtain h2 where h2: "take_key T k2 (t\<lparr>as_tab := h1\<rparr>) = (map_option av_addr (look h1 k2), t\<lparr>as_tab := h2\<rparr>)" "tinv h2"
    "look h2 = (look h1)(k2 := None)" "h2 = h1 \<or> (\<exists>x. h2 = mh_del T h1 x)"
    using take_key_ok [OF ti1, of k2] by auto
  obtain u where u: "rel x = Some u" using rel x(1) by blast
  let ?A = "set_option (map_option av_addr (?L k1)) \<union> set_option (map_option av_addr (look h1 k2))"
  define t' where "t' = t\<lparr>as_tab := h2, as_objs := (as_objs t)(?a := None), 
     as_vals := as_vals t - set_option (map_option av_addr (?L k1)) - set_option (map_option av_addr (look h1 k2))\<rparr>"
  let ?t1 = "t\<lparr>as_tab := h2, as_objs := (as_objs t)(?a := None)\<rparr>"
  let ?t2 = "?t1\<lparr>as_vals := as_vals t - set_option (map_option av_addr (?L k1))\<rparr>"
  have v1: "free_val (map_option av_addr (?L k1)) ?t1 = Some ?t2"
    using ok unfolding tab_ok_def by (cases "?L k1") (auto simp: free_val_def)
  have v2: "free_val (map_option av_addr (look h1 k2)) ?t2 = Some t'"
  proof (cases "look h1 k2")
    case (Some n2)
    then have L2: "?L k2 = Some n2" "k2 \<noteq> k1" using h1(3) by (auto split: if_splits)
    have "av_addr n2 \<noteq> av_addr n1" if "?L k1 = Some n1" for n1
      using ok L2 that unfolding tab_ok_def by blast
    moreover have "av_addr n2 \<in> as_vals t" using ok L2 unfolding tab_ok_def by blast
    ultimately show ?thesis using Some by (cases "?L k1") (auto simp: free_val_def t'_def)
  qed (simp add: free_val_def t'_def)
  have "free_loop T keys rel pos t = free_val (map_option av_addr (?L k1)) ?t1 \<bind>
      (\<lambda>t. free_val (map_option av_addr (look h1 k2)) t \<bind> (\<lambda>t. free_loop T keys rel (mh_next T (as_tab t) pos) t))"
    using pos(1) x(1,2) h1(1) h2(1) u by (subst free_loop.simps) (simp add: Let_def free_obj_def)
  then have eq: "free_loop T keys rel pos t = free_loop T keys rel (mh_next T (as_tab t') pos) t'"
    by (simp add: v1 v2)
  have L': "look (as_tab t') = ?L(k1 := None, k2 := None)" by (simp add: t'_def h1 h2)
  have sub: "?L k = Some n \<and> k \<noteq> k1 \<and> k \<noteq> k2" if "look (as_tab t') k = Some n" for k n
    using that by (auto simp: L' split: if_splits)
  have other: "av_data n \<noteq> ?a" if lk: "look (as_tab t') k = Some n" for k n
  proof
    assume "av_data n = ?a"
    moreover obtain y j1 j2 where "as_objs t (av_data n) = Some y" "keys y = Some (j1, j2)" "k = j1 \<or> k = j2"
      using ok sub [OF lk] unfolding tab_ok_def by blast
    ultimately show False using x sub [OF lk] by auto
  qed
  have live: "av_addr n \<notin> ?A" if "look (as_tab t') k = Some n" for k n
  proof -
    have "av_addr n \<noteq> av_addr m" if "?L j = Some m" "j = k1 \<or> j = k2" for j m
      using ok sub [OF \<open>look (as_tab t') k = Some n\<close>] that unfolding tab_ok_def by blast
    then show ?thesis using h1(3) by (fastforce split: if_splits)
  qed
  have ok': "tab_ok tinv look keys t'"
    unfolding tab_ok_def
  proof (intro conjI allI impI ballI)
    show "tinv (as_tab t')" using h2(2) by (simp add: t'_def)
    show "av_addr n \<in> as_vals t'" if "look (as_tab t') k = Some n" for k n
      using ok sub [OF that] live [OF that] unfolding tab_ok_def by (auto simp: t'_def)
    show "\<exists>x k1 k2. as_objs t' (av_data n) = Some x \<and> keys x = Some (k1, k2) \<and> (k = k1 \<or> k = k2)"
      if "look (as_tab t') k = Some n" for k n
      using ok sub [OF that] other [OF that] unfolding tab_ok_def by (simp add: t'_def)
    show "k = k'" if "look (as_tab t') k = Some n" "look (as_tab t') k' = Some n'" "av_addr n = av_addr n'" for k n k' n'
      using ok sub [OF that(1)] sub [OF that(2)] that(3) unfolding tab_ok_def by blast
  qed (use ok in \<open>auto simp: tab_ok_def t'_def split: if_splits\<close>)
  have fin: "finite (dom ?L)" by (rule look_finite [OF ti])
  have "dom (look (as_tab t')) \<subset> dom ?L" using L' Ln x(3) by (auto split: if_splits)
  then have card: "card (dom (look (as_tab t'))) < card (dom ?L)" by (rule psubset_card_mono [OF fin])
  have tight: "tight look keys t'" if tg: "tight look keys t"
  proof -
    have mine: "?L j = Some m \<Longrightarrow> av_data m = ?a" if "j = k1 \<or> j = k2" for j m
      using tg x(1,2) that unfolding tight_def by fastforce
    have "\<exists>j1 j2 n1 n2. keys y = Some (j1, j2) \<and> look (as_tab t') j1 = Some n1 \<and> av_data n1 = b
         \<and> look (as_tab t') j2 = Some n2 \<and> av_data n2 = b" if y: "as_objs t' b = Some y" for b y
    proof -
      have b: "as_objs t b = Some y" "b \<noteq> ?a" using y by (auto simp: t'_def split: if_splits)
      then obtain j1 j2 n1 n2 where j: "keys y = Some (j1, j2)" "?L j1 = Some n1" "av_data n1 = b" "?L j2 = Some n2" "av_data n2 = b"
        using tg unfolding tight_def by blast
      have "j1 \<noteq> k1" "j1 \<noteq> k2" "j2 \<noteq> k1" "j2 \<noteq> k2" using mine b(2) j(2-5) by metis+
      then show ?thesis using j by (simp add: L')
    qed
    moreover have "\<exists>k n. look (as_tab t') k = Some n \<and> av_addr n = v" if v: "v \<in> as_vals t'" for v
    proof -
      obtain k n where kn: "?L k = Some n" "av_addr n = v" using tg v unfolding tight_def by (auto simp: t'_def)
      have "k \<noteq> k1" using kn v by (auto simp: t'_def)
      moreover have "k \<noteq> k2" using kn v \<open>k \<noteq> k1\<close> h1(3) by (auto simp: t'_def)
      ultimately show ?thesis using kn by (auto simp: L')
    qed
    ultimately show ?thesis unfolding tight_def by blast
  qed
  show ?thesis
  proof (rule that [OF eq ok' card])
    show "\<forall>a. as_objs t' a = None \<or> as_objs t' a = as_objs t a" by (simp add: t'_def)
    show "tight look keys t \<longrightarrow> tight look keys t'" using tight by simp
    show "look (as_tab t') ?k = None" using L' x(3) by auto
    show "\<exists>h1. (h1 = as_tab t \<or> (\<exists>x. h1 = mh_del T (as_tab t) x)) \<and> (as_tab t' = h1 \<or> (\<exists>x. as_tab t' = mh_del T h1 x)) \<and> tinv h1"
      using h1 h2 by (auto simp: t'_def)
  qed
qed

text \<open>
  The loop returns, and frees without error, on every table in the invariant; what the table did not lose before
  it does not lose now.
\<close>

lemma free_loop_safe:
  assumes "tab_ok tinv look keys t" and "\<forall>a x. as_objs t a = Some x \<longrightarrow> rel x \<noteq> None"
    and "pos < mh_end T (as_tab t) \<longrightarrow> mh_exist T (as_tab t) pos"
  shows "\<exists>t'. free_loop T keys rel pos t = Some t' \<and> tab_ok tinv look keys t' \<and> (tight look keys t \<longrightarrow> tight look keys t')
     \<and> (\<forall>a. as_objs t' a = None \<or> as_objs t' a = as_objs t a)"
  using assms
proof (induction "card (dom (look (as_tab t)))" arbitrary: t pos rule: less_induct)
  case less
  show ?case
  proof (cases "pos < mh_end T (as_tab t)")
    case False
    then show ?thesis using less.prems(1) by (subst free_loop.simps) simp
  next
    case True
    then have ex: "mh_exist T (as_tab t) pos" using less.prems(3) by simp
    obtain t' where t': "free_loop T keys rel pos t = free_loop T keys rel (mh_next T (as_tab t') pos) t'"
      "tab_ok tinv look keys t'" "card (dom (look (as_tab t'))) < card (dom (look (as_tab t)))"
      "\<forall>a. as_objs t' a = None \<or> as_objs t' a = as_objs t a" "tight look keys t \<longrightarrow> tight look keys t'"
      by (rule free_round [OF less.prems(1) True ex less.prems(2)])
    have "mh_next T (as_tab t') pos < mh_end T (as_tab t') \<longrightarrow> mh_exist T (as_tab t') (mh_next T (as_tab t') pos)"
      by (rule mh_from_cases [of "as_tab t'" "pos + 1"]) (auto simp: mh_next_def)
    moreover have "\<forall>a x. as_objs t' a = Some x \<longrightarrow> rel x \<noteq> None" using t'(4) less.prems(2) by (metis option.distinct(1))
    ultimately obtain t'' where "free_loop T keys rel (mh_next T (as_tab t') pos) t' = Some t''" "tab_ok tinv look keys t''"
      "tight look keys t' \<longrightarrow> tight look keys t''" "\<forall>a. as_objs t'' a = None \<or> as_objs t'' a = as_objs t' a"
      using less.hyps [OF t'(3,2)] by blast
    then show ?thesis using t'(1,4,5) by metis
  qed
qed

lemma first_exists: "mh_first T h < mh_end T h \<longrightarrow> mh_exist T h (mh_first T h)"
  by (rule mh_from_cases [of h 0]) (auto simp: mh_first_def)

lemma empty_tight: "tight look keys t \<Longrightarrow> look (as_tab t) = Map.empty \<Longrightarrow> as_objs t = Map.empty \<and> as_vals t = {}"
  unfolding tight_def by (auto simp: fun_eq_iff)

end

context assoc_stable
begin

lemma del_stays:
  assumes "tinv h" and "calm h" and "\<exists>h1. (h1 = h \<or> (\<exists>x. h1 = mh_del T h x)) \<and> (h' = h1 \<or> (\<exists>x. h' = mh_del T h1 x)) \<and> tinv h1"
  shows "mh_end T h' = mh_end T h" and "mh_exist T h' y \<Longrightarrow> mh_exist T h y" and "mh_exist T h' y \<Longrightarrow> mh_node T h' y = mh_node T h y"
    and "calm h'"
  using assms del_slots del_calm by metis+

text \<open>With stable slots the loop visits everything.\<close>

lemma free_loop_empties:
  assumes "tab_ok tinv look keys t" and "calm (as_tab t)" and "\<forall>a x. as_objs t a = Some x \<longrightarrow> rel x \<noteq> None"
    and "pos < mh_end T (as_tab t) \<longrightarrow> mh_exist T (as_tab t) pos" and "\<forall>x<pos. x < mh_end T (as_tab t) \<longrightarrow> \<not> mh_exist T (as_tab t) x"
  shows "\<exists>t'. free_loop T keys rel pos t = Some t' \<and> look (as_tab t') = Map.empty"
  using assms
proof (induction "card (dom (look (as_tab t)))" arbitrary: t pos rule: less_induct)
  case less
  have ti: "tinv (as_tab t)" using less.prems(1) by (simp add: tab_ok_def)
  show ?case
  proof (cases "pos < mh_end T (as_tab t)")
    case False
    have "look (as_tab t) k = None" for k
    proof (rule ccontr)
      assume "look (as_tab t) k \<noteq> None"
      then obtain n where "look (as_tab t) k = Some n" by blast
      from find_node [OF ti this] show False using less.prems(5) False by auto
    qed
    then show ?thesis using False by (subst free_loop.simps) auto
  next
    case True
    then have ex: "mh_exist T (as_tab t) pos" using less.prems(4) by simp
    obtain t' where t': "free_loop T keys rel pos t = free_loop T keys rel (mh_next T (as_tab t') pos) t'"
      "tab_ok tinv look keys t'" "card (dom (look (as_tab t'))) < card (dom (look (as_tab t)))"
      "\<forall>a. as_objs t' a = None \<or> as_objs t' a = as_objs t a"
      and gone: "look (as_tab t') (av_key (mh_node T (as_tab t) pos)) = None"
      and dels: "\<exists>h1. (h1 = as_tab t \<or> (\<exists>x. h1 = mh_del T (as_tab t) x)) \<and> (as_tab t' = h1 \<or> (\<exists>x. as_tab t' = mh_del T h1 x)) \<and> tinv h1"
      by (rule free_round [OF less.prems(1) True ex less.prems(3)])
    note st = del_stays [OF ti less.prems(2) dels]
    have "\<forall>a x. as_objs t' a = Some x \<longrightarrow> rel x \<noteq> None" using t'(4) less.prems(3) by (metis option.distinct(1))
    moreover have "mh_next T (as_tab t') pos < mh_end T (as_tab t') \<longrightarrow> mh_exist T (as_tab t') (mh_next T (as_tab t') pos)"
      by (rule mh_from_cases [of "as_tab t'" "pos + 1"]) (auto simp: mh_next_def)
    moreover have "\<not> mh_exist T (as_tab t') pos"
      using slot_node [of "as_tab t'" pos] t'(2) gone st True by (auto simp: tab_ok_def)
    ultimately have "\<exists>t''. free_loop T keys rel (mh_next T (as_tab t') pos) t' = Some t'' \<and> look (as_tab t'') = Map.empty"
    proof (intro less.hyps [OF t'(3,2) st(4)], goal_cases)
      case 3
      have "\<not> mh_exist T (as_tab t') x" if "x < mh_next T (as_tab t') pos" "x < mh_end T (as_tab t')" for x
      proof (cases "x < pos")
        case True
        then show ?thesis using less.prems(5) st that(2) by metis
      next
        case False
        then consider "x = pos" | "pos + 1 \<le> x" by linarith
        then show ?thesis
        proof cases
          case 2
          then show ?thesis using that True st(1)
            by (cases rule: mh_from_cases [of "as_tab t'" "pos + 1"]) (auto simp: mh_next_def)
        qed (use \<open>\<not> mh_exist T (as_tab t') pos\<close> in simp)
      qed
      then show ?case by blast
    qed auto
    then show ?thesis using t'(1) by simp
  qed
qed

end

section \<open>Inserting an object\<close>

text \<open>The region after an object was allocated and put into the table under its two keys.\<close>

definition ins :: "'h assoc_ops \<Rightarrow> 'o \<Rightarrow> bytes \<Rightarrow> bytes \<Rightarrow> ('h, 'o) assoc \<Rightarrow> ('h, 'o) assoc" where
  "ins T v name nkey t = (let a = as_next t in
     \<lparr>as_tab = mh_put T (mh_put T (as_tab t) \<lparr>av_addr = a + 1, av_key = name, av_data = a\<rparr>) \<lparr>av_addr = a + 2, av_key = nkey, av_data = a\<rparr>,
      as_objs = (as_objs t)(a \<mapsto> v), as_vals = insert (a + 2) (insert (a + 1) (as_vals t)), as_next = a + 3\<rparr>)"

text \<open>Nothing but the next address has changed.\<close>

definition same_tab :: "('h, 'o) assoc \<Rightarrow> ('h, 'o) assoc \<Rightarrow> bool" where
  "same_tab t t' \<longleftrightarrow> as_tab t' = as_tab t \<and> as_objs t' = as_objs t \<and> as_vals t' = as_vals t \<and> as_next t \<le> as_next t'"

lemma same_tab_refl [simp]: "same_tab t t"
  by (simp add: same_tab_def)

lemma same_tab_ok:
  assumes "same_tab t t'" and "tab_ok tinv look keys t"
  shows "tab_ok tinv look keys t'"
proof -
  note d = tab_okD [OF assms(2)]
  have e: "as_tab t' = as_tab t" "as_objs t' = as_objs t" "as_vals t' = as_vals t" "as_next t \<le> as_next t'"
    using assms(1) by (simp_all add: same_tab_def)
  show ?thesis
  proof (rule tab_okI, goal_cases)
    case (5 a) then show ?case using d(5) [of a] e by simp
  next
    case (6 a x) then show ?case using d(6) [of a x] e by simp
  qed (use d(1-4) e in auto)
qed

lemma set_new_obj: "set_obj (as_next t) v (new_obj w t) = new_obj v t"
  by (simp add: set_obj_def new_obj_def)

lemma new_obj_simps [simp]: "as_objs (new_obj v t) (as_next t) = Some v" "as_next (new_obj v t) = Suc (as_next t)"
  by (simp_all add: new_obj_def)

context assoc_table
begin

lemma put_keeps:
  assumes "tab_ok tinv look keys t" and "av_addr n \<in> as_vals t" and "as_objs t (av_data n) = Some x"
    and "keys x = Some (k1, k2)" and "av_key n = k1 \<or> av_key n = k2"
    and "\<And>k m. look (as_tab t) k = Some m \<Longrightarrow> av_addr m \<noteq> av_addr n"
  shows "tab_ok tinv look keys (t\<lparr>as_tab := mh_put T (as_tab t) n\<rparr>)"
proof -
  note d = tab_okD [OF assms(1)]
  let ?h = "mh_put T (as_tab t) n"
  have m: "k = av_key n \<and> m = n \<or> look (as_tab t) k = Some m" if "look ?h k = Some m" for k m
    using that put_ok [OF d(1), of n] by (auto split: if_splits)
  show ?thesis
  proof (rule tab_okI, goal_cases)
    case 1 then show ?case using put_ok [OF d(1)] by simp
  next
    case (2 k m) then show ?case using m [of k m] d(2) assms(2) by auto
  next
    case (3 k m) then show ?case using m [of k m] d(3) assms(3-5) by auto
  next
    case (4 k m k' m') then show ?case using m [of k m] m [of k' m'] d(4) assms(6) by simp metis
  qed (use d(5,6) in simp_all)
qed

lemma ins_ok:
  assumes "tab_ok tinv look keys t" and "keys v = Some (nkey, name)"
  shows "tab_ok tinv look keys (ins T v name nkey t)"
proof -
  note d = tab_okD [OF assms(1)]
  let ?a = "as_next t" let ?n1 = "\<lparr>av_addr = ?a + 1, av_key = name, av_data = ?a\<rparr>" let ?n2 = "\<lparr>av_addr = ?a + 2, av_key = nkey, av_data = ?a\<rparr>"
  let ?t0 = "\<lparr>as_tab = as_tab t, as_objs = (as_objs t)(?a \<mapsto> v), as_vals = insert (?a + 2) (insert (?a + 1) (as_vals t)), as_next = ?a + 3\<rparr>"
  have used: "av_addr m < ?a" if "look (as_tab t) k = Some m" for k m using d(2,5) that by blast
  have data: "av_data m \<noteq> ?a" if "look (as_tab t) k = Some m" for k m using d(3) [OF that] d(6) by (metis less_irrefl)
  have t0: "tab_ok tinv look keys ?t0"
  proof (rule tab_okI, goal_cases)
    case (3 k n) then show ?case using d(3) [of k n] data [of k n] by simp
  next
    case (5 a) then show ?case using d(5) [of a] by auto
  next
    case (6 a x) then show ?case using d(6) [of a x] by (auto split: if_splits)
  qed (use d(1,2,4) in auto)
  let ?t1 = "?t0\<lparr>as_tab := mh_put T (as_tab ?t0) ?n1\<rparr>"
  have t1: "tab_ok tinv look keys ?t1"
    by (rule put_keeps [OF t0, where x = v and ?k1.0 = nkey and ?k2.0 = name]) (use assms(2) in \<open>auto dest: used\<close>)
  have used1: "av_addr m < ?a + 2" if m: "look (as_tab ?t1) k = Some m" for k m
  proof -
    have "m = ?n1 \<or> look (as_tab t) k = Some m"
      using put_ok [OF d(1), of ?n1] m by (auto split: if_splits)
    then show ?thesis using used by (auto dest: used)
  qed
  have "tab_ok tinv look keys (?t1\<lparr>as_tab := mh_put T (as_tab ?t1) ?n2\<rparr>)"
    by (rule put_keeps [OF t1, where x = v and ?k1.0 = nkey and ?k2.0 = name]) (use assms(2) used1 in \<open>simp_all, fastforce\<close>)
  then show ?thesis by (simp add: ins_def Let_def)
qed

end

context assoc_room
begin

lemma ins_look:
  assumes "tinv (as_tab t)" and "2 \<le> left (as_tab t)"
  shows "look (as_tab (ins T v name nkey t)) = (look (as_tab t))(name \<mapsto> \<lparr>av_addr = as_next t + 1, av_key = name, av_data = as_next t\<rparr>,
     nkey \<mapsto> \<lparr>av_addr = as_next t + 2, av_key = nkey, av_data = as_next t\<rparr>)"
proof -
  let ?n1 = "\<lparr>av_addr = as_next t + 1, av_key = name, av_data = as_next t\<rparr>"
  have "tinv (mh_put T (as_tab t) ?n1)" "0 < left (mh_put T (as_tab t) ?n1)"
    using put_ok [OF assms(1)] put_left [OF assms(1), of ?n1] assms(2) by auto
  then show ?thesis using put_some [OF assms(1), of ?n1] put_some assms(2) by (simp add: ins_def Let_def)
qed

lemma ins_left:
  assumes "tinv (as_tab t)" and "2 \<le> left (as_tab t)"
  shows "left (as_tab t) \<le> left (as_tab (ins T v name nkey t)) + 2"
proof -
  let ?n1 = "\<lparr>av_addr = as_next t + 1, av_key = name, av_data = as_next t\<rparr>"
  let ?n2 = "\<lparr>av_addr = as_next t + 2, av_key = nkey, av_data = as_next t\<rparr>"
  have h: "tinv (mh_put T (as_tab t) ?n1)" "left (as_tab t) \<le> Suc (left (mh_put T (as_tab t) ?n1))"
    using put_ok [OF assms(1)] put_left [OF assms(1), of ?n1] assms(2) by auto
  have "left (mh_put T (as_tab t) ?n1) \<le> Suc (left (mh_put T (mh_put T (as_tab t) ?n1) ?n2))"
    by (rule put_left [OF h(1)]) (use h(2) assms(2) in linarith)
  then show ?thesis using h(2) by (simp add: ins_def Let_def)
qed

lemma ins_tight:
  assumes "tab_ok tinv look keys t" and "2 \<le> left (as_tab t)" and "tight look keys t" and "keys v = Some (nkey, name)"
    and "look (as_tab t) name = None" and "look (as_tab t) nkey = None" and "name \<noteq> nkey"
  shows "tight look keys (ins T v name nkey t)"
proof -
  let ?t = "ins T v name nkey t"
  note L = ins_look [OF tab_okD(1) [OF assms(1)] assms(2), of v name nkey]
  have keep: "look (as_tab ?t) k = Some n" if "look (as_tab t) k = Some n" for k n
    using that assms(5,6) by (auto simp: L)
  have "\<exists>k1 k2 n1 n2. keys x = Some (k1, k2) \<and> look (as_tab ?t) k1 = Some n1 \<and> av_data n1 = a
         \<and> look (as_tab ?t) k2 = Some n2 \<and> av_data n2 = a" if x: "as_objs ?t a = Some x" for a x
  proof (cases "a = as_next t")
    case True
    then have "x = v" using x by (simp add: ins_def Let_def)
    then show ?thesis using True assms(4,7)
      by (intro exI [of _ nkey] exI [of _ name] exI [of _ "the (look (as_tab ?t) nkey)"] exI [of _ "the (look (as_tab ?t) name)"])
        (simp add: L)
  next
    case False
    then have "as_objs t a = Some x" using x by (simp add: ins_def Let_def)
    then show ?thesis using assms(3) keep unfolding tight_def by meson
  qed
  moreover have "\<exists>k n. look (as_tab ?t) k = Some n \<and> av_addr n = w" if w: "w \<in> as_vals ?t" for w
  proof -
    consider "w = as_next t + 1" | "w = as_next t + 2" | "w \<in> as_vals t" using w by (auto simp: ins_def Let_def)
    then show ?thesis
    proof cases
      case 1
      then show ?thesis using assms(7) by (intro exI [of _ name]) (simp add: L)
    next
      case 2
      then show ?thesis by (intro exI [of _ nkey]) (simp add: L)
    next
      case 3
      then show ?thesis using assms(3) keep unfolding tight_def by meson
    qed
  qed
  ultimately show ?thesis unfolding tight_def by blast
qed

end

section \<open>The operations\<close>

text \<open>The invariant of an index table and of the space table.\<close>

definition index_ok :: "('h \<Rightarrow> bool) \<Rightarrow> ('h \<Rightarrow> bytes \<Rightarrow> assoc_val option) \<Rightarrow> 'h index_tab \<Rightarrow> bool" where
  "index_ok tinv look i \<longleftrightarrow> tab_ok tinv look ival_keys i \<and> (\<forall>a x. as_objs i a = Some x \<longrightarrow> iv_name x \<noteq> Freed)"

definition space_ok :: "('h \<Rightarrow> bool) \<Rightarrow> ('h \<Rightarrow> bytes \<Rightarrow> assoc_val option) \<Rightarrow> 'h space_tab \<Rightarrow> bool" where
  "space_ok tinv look t \<longleftrightarrow> tab_ok tinv look sval_keys t
     \<and> (\<forall>a x. as_objs t a = Some x \<longrightarrow> sv_name x \<noteq> Freed \<and> (\<exists>i. sv_index x = Some i \<and> index_ok tinv look i))"

locale schema_env = builder_env mp ra + assoc_table T tinv look
  for mp :: msgpuck and ra :: realloc_fn and T :: "'h assoc_ops" and tinv :: "'h \<Rightarrow> bool"
    and look :: "'h \<Rightarrow> bytes \<Rightarrow> assoc_val option"
begin

lemma alloc_some: "\<exists>p. tnt_mem_alloc ra n = Some p"
  using alloc_ok [of n] alloc_0 by (cases "n = 0") (auto simp: tnt_mem_alloc_def)

lemma free_some: "p \<noteq> Freed \<Longrightarrow> \<exists>q. tnt_mem_free ra p = Some q"
  by (cases p) auto

lemma empty_tab_ok: "mh_new T = Some h \<Longrightarrow> tab_ok tinv look keys (as_empty h)"
  using new_ok by (simp add: tab_ok_def as_empty_def)

lemma empty_index_ok: "mh_new T = Some h \<Longrightarrow> index_ok tinv look (as_empty h)"
  using empty_tab_ok [of h ival_keys] by (auto simp: index_ok_def as_empty_def)

lemma index_free_some: "index_ok tinv look i \<Longrightarrow> \<exists>i'. tnt_schema_index_free ra T i = Some i'"
  unfolding tnt_schema_index_free_def index_ok_def
  using free_loop_safe [OF _ _ first_exists, of ival_keys i "tnt_schema_ival_free ra"] free_some
  by (fastforce simp: tnt_schema_ival_free_def)

lemma sval_free_some:
  assumes "sv_name v \<noteq> Freed" and "\<forall>i. sv_index v = Some i \<longrightarrow> index_ok tinv look i"
  shows "tnt_schema_sval_free ra T v = Some ()"
  using free_some [OF assms(1)] assms(2) index_free_some
  by (cases "sv_index v") (auto simp: tnt_schema_sval_free_def)

lemma put_nodes_cases:
  obtains "put_nodes ra T (as_next t) name nkey (new_obj v t) = Some (Inl (None, new_obj v t))"
    | "put_nodes ra T (as_next t) name nkey (new_obj v t) = Some (Inr (ins T v name nkey t))"
proof -
  obtain p where p: "tnt_mem_alloc ra sizeof_assoc_val = Some p" using alloc_some by blast
  show ?thesis
  proof (cases "p = NULLP")
    case True
    then show ?thesis using that(1) p by (simp add: put_nodes_def)
  next
    case False
    then show ?thesis using that(2) p
      by (simp add: put_nodes_def new_val_def new_obj_def ins_def Let_def)
  qed
qed

lemma free_new_obj:
  assumes "tab_ok tinv look keys t"
  shows "free_obj (as_next t) (new_obj v t) = Some (t\<lparr>as_next := Suc (as_next t)\<rparr>)"
proof -
  have "as_objs t (as_next t) = None" using tab_okD(6) [OF assms, of "as_next t"] by fastforce
  then show ?thesis by (simp add: free_obj_def new_obj_def fun_upd_idem)
qed

lemma space_error_none: "space_error mp ra T data None None t = map_option (\<lambda>d. (-1, t, d)) (msgpuck.mp_next mp data)"
  by (cases "msgpuck.mp_next mp data") (simp_all add: space_error_def free_val_def)

lemma space_error_obj:
  assumes "tab_ok tinv look sval_keys t" and "sv_name v \<noteq> Freed" and "\<forall>i. sv_index v = Some i \<longrightarrow> index_ok tinv look i"
  shows "space_error mp ra T data (Some (as_next t)) None (new_obj v t)
     = map_option (\<lambda>d. (-1, t\<lparr>as_next := Suc (as_next t)\<rparr>, d)) (msgpuck.mp_next mp data)"
  using sval_free_some [OF assms(2,3)] free_new_obj [OF assms(1)]
  by (cases "msgpuck.mp_next mp data") (simp_all add: space_error_def free_val_def)

lemma index_error_none: "index_error mp ra data None None t = map_option (\<lambda>d. (-1, t, d)) (msgpuck.mp_next mp data)"
  by (cases "msgpuck.mp_next mp data") (simp_all add: index_error_def free_val_def)

lemma index_error_obj:
  assumes "tab_ok tinv look ival_keys t" and "iv_name v \<noteq> Freed"
  shows "index_error mp ra data (Some (as_next t)) None (new_obj v t)
     = map_option (\<lambda>d. (-1, t\<lparr>as_next := Suc (as_next t)\<rparr>, d)) (msgpuck.mp_next mp data)"
  using free_some [OF assms(2)] free_new_obj [OF assms(1)]
  by (cases "msgpuck.mp_next mp data") (auto simp: index_error_def free_val_def tnt_schema_ival_free_def)

lemma copy_name_cases:
  assumes "copy_name mp ra p = Some (nm, len, q)"
  shows "nm = NULLP \<or> (\<exists>s. nm = Blk s \<and> name_of nm len = Some s)"
proof -
  obtain str where d: "mp_decode_str mp p = Some ((str, len), q)"
    using assms by (auto simp: copy_name_def split: Option.bind_splits cptr.splits if_splits)
  obtain m where m: "tnt_mem_alloc ra (unat len) = Some m" using alloc_some by blast
  show ?thesis
  proof (cases "unat len = 0")
    case True
    then have "m = NULLP" using m alloc_0 by (simp add: tnt_mem_alloc_def)
    then show ?thesis using assms d m by (simp add: copy_name_def)
  next
    case False
    then have "m = NULLP \<or> (\<exists>b. m = Blk b \<and> length b = unat len)" using m alloc_ok [of "unat len"] by (auto simp: tnt_mem_alloc_def)
    then show ?thesis
      using assms d m by (auto simp: copy_name_def name_of_def blit_def split: if_splits)
  qed
qed

text \<open>
  What adding a definition does on any input on which it is defined: it fails and changes nothing but the next
  address, or it inserts one object.
\<close>

definition space_added :: "'h space_tab \<Rightarrow> int \<Rightarrow> 'h space_tab \<Rightarrow> bool" where
  "space_added t rc t' \<longleftrightarrow> rc = -1 \<and> same_tab t t'
     \<or> rc = 0 \<and> (\<exists>s len no h. mh_new T = Some h \<and> name_of (Blk s) len = Some s
          \<and> t' = ins T \<lparr>sv_name = Blk s, sv_name_len = len, sv_number = no, sv_index = Some (as_empty h)\<rparr> s (num_key no) t)"

definition index_added :: "'h index_tab \<Rightarrow> int \<Rightarrow> 'h index_tab \<Rightarrow> bool" where
  "index_added t rc t' \<longleftrightarrow> rc = -1 \<and> same_tab t t'
     \<or> rc = 0 \<and> (\<exists>s len no. name_of (Blk s) len = Some s
          \<and> t' = ins T \<lparr>iv_name = Blk s, iv_name_len = len, iv_number = no\<rparr> s (num_key no) t)"

lemma next_same [simp]: "same_tab t (t\<lparr>as_next := Suc (as_next t)\<rparr>)"
  by (simp add: same_tab_def)

lemma space_failed [simp]: "space_added t (-1) (t\<lparr>as_next := Suc (as_next t)\<rparr>)" "space_added t (-1) t"
  by (simp_all add: space_added_def)

lemma index_failed [simp]: "index_added t (-1) (t\<lparr>as_next := Suc (as_next t)\<rparr>)" "index_added t (-1) t"
  by (simp_all add: index_added_def)

lemma index_inserted:
  "name_of (Blk s) len = Some s \<Longrightarrow> index_added t 0 (ins T \<lparr>iv_name = Blk s, iv_name_len = len, iv_number = no\<rparr> s (num_key no) t)"
  unfolding index_added_def by blast

lemma add_space_added:
  assumes add: "tnt_schema_add_space mp ra T t data = Some (rc, t', data')" and ok: "tab_ok tinv look sval_keys t"
  shows "space_added t rc t'"
proof -
  note e = space_error_none space_error_obj [OF ok]
  have tail: "space_added t rc t'"
    if c: "copy_name mp ra p = Some (nm, len, q)" "nm \<noteq> NULLP"
      and "(case mh_new T of None \<Rightarrow> space_error mp ra T data (Some (as_next t)) None
            (new_obj \<lparr>sv_name = nm, sv_name_len = len, sv_number = no, sv_index = None\<rparr> t)
          | Some h \<Rightarrow> (let v = \<lparr>sv_name = nm, sv_name_len = len, sv_number = no, sv_index = None\<rparr>\<lparr>sv_index := Some (as_empty h)\<rparr>;
             ta = set_obj (as_next t) v (new_obj \<lparr>sv_name = nm, sv_name_len = len, sv_number = no, sv_index = None\<rparr> t) in
             name_of nm len \<bind> (\<lambda>str. put_nodes ra T (as_next t) str (num_key (sv_number v)) ta \<bind>
             (\<lambda>res. case res of Inl (s, y) \<Rightarrow> space_error mp ra T data (Some (as_next t)) s y
                | Inr t \<Rightarrow> msgpuck.mp_next mp data \<bind> (\<lambda>data. Some (0, t, data)))))) = Some (rc, t', data')"
    for p q nm len no
  proof -
    from copy_name_cases [OF c(1)] c(2) obtain s where s: "nm = Blk s" "name_of nm len = Some s" by auto
    show ?thesis
    proof (cases "mh_new T")
      case None
      then show ?thesis using that(3) s by (auto simp: e)
    next
      case (Some h)
      let ?v = "\<lparr>sv_name = Blk s, sv_name_len = len, sv_number = no, sv_index = Some (as_empty h)\<rparr>"
      show ?thesis
      proof (cases rule: put_nodes_cases [where t = t and name = s and nkey = "num_key no" and v = ?v])
        case 1
        then show ?thesis using that(3) s Some empty_index_ok [OF Some] by (auto simp: e set_new_obj Let_def)
      next
        case 2
        then show ?thesis using that(3) s Some
          by (auto simp: set_new_obj Let_def space_added_def split: Option.bind_splits)
      qed
    qed
  qed
  show ?thesis
    using add unfolding tnt_schema_add_space_def
    by (auto simp: Let_def set_new_obj e zero_sval_def split: Option.bind_splits if_splits prod.splits intro: tail)
qed

lemma add_index_added:
  assumes add: "add_index_to mp ra T t data p = Some (rc, t', data')" and ok: "tab_ok tinv look ival_keys t"
  shows "index_added t rc t'"
proof -
  note e = index_error_none index_error_obj [OF ok]
  have tail: "index_added t rc t'"
    if c: "copy_name mp ra p = Some (nm, len, q)" "nm \<noteq> NULLP"
      and "name_of nm len = Some str"
        "put_nodes ra T (as_next t) str (num_key no) (new_obj \<lparr>iv_name = nm, iv_name_len = len, iv_number = no\<rparr> t) = Some res"
        "(case res of Inl (s, y) \<Rightarrow> index_error mp ra data (Some (as_next t)) s y
                | Inr t \<Rightarrow> msgpuck.mp_next mp data \<bind> (\<lambda>data. Some (0, t, data))) = Some (rc, t', data')"
    for p q nm len no str res
  proof -
    from copy_name_cases [OF c(1)] c(2) obtain s where s: "nm = Blk s" "name_of nm len = Some s" by auto
    show ?thesis
    proof (cases rule: put_nodes_cases [where t = t and name = s and nkey = "num_key no"
          and v = "\<lparr>iv_name = Blk s, iv_name_len = len, iv_number = no\<rparr>"])
      case 1
      then show ?thesis using that(3-5) s by (auto simp: e)
    next
      case 2
      then show ?thesis using that(3-5) s by (auto simp: index_inserted split: Option.bind_splits)
    qed
  qed
  show ?thesis
    using add unfolding add_index_to_def
    by (auto simp: Let_def set_new_obj e zero_ival_def split: Option.bind_splits if_splits prod.splits intro: tail)
qed

lemma index_added_ok:
  assumes "index_ok tinv look t" and "index_added t rc t'"
  shows "index_ok tinv look t'"
proof -
  have ok: "tab_ok tinv look ival_keys t" "\<forall>a x. as_objs t a = Some x \<longrightarrow> iv_name x \<noteq> Freed" using assms(1) by (auto simp: index_ok_def)
  from assms(2) consider "same_tab t t'"
    | s len no where "name_of (Blk s) len = Some s" "t' = ins T \<lparr>iv_name = Blk s, iv_name_len = len, iv_number = no\<rparr> s (num_key no) t"
    by (auto simp: index_added_def)
  then show ?thesis
  proof cases
    case 1
    then show ?thesis using same_tab_ok [OF 1 ok(1)] ok(2) by (simp add: index_ok_def same_tab_def)
  next
    case 2
    have "tab_ok tinv look ival_keys t'" unfolding 2(2) by (rule ins_ok [OF ok(1)]) (simp add: ival_keys_def 2(1))
    then show ?thesis using ok(2) by (auto simp: index_ok_def 2(2) ins_def Let_def split: if_splits)
  qed
qed

lemma space_added_ok:
  assumes "space_ok tinv look t" and "space_added t rc t'"
  shows "space_ok tinv look t'"
proof -
  have ok: "tab_ok tinv look sval_keys t" using assms(1) by (simp add: space_ok_def)
  from assms(2) consider "same_tab t t'"
    | s len no h where "mh_new T = Some h" "name_of (Blk s) len = Some s"
        "t' = ins T \<lparr>sv_name = Blk s, sv_name_len = len, sv_number = no, sv_index = Some (as_empty h)\<rparr> s (num_key no) t"
    by (auto simp: space_added_def)
  then show ?thesis
  proof cases
    case 1
    then show ?thesis using same_tab_ok [OF 1 ok] assms(1) by (simp add: space_ok_def same_tab_def)
  next
    case 2
    have "tab_ok tinv look sval_keys t'" unfolding 2(3) by (rule ins_ok [OF ok]) (simp add: sval_keys_def 2(2))
    then show ?thesis using assms(1) empty_index_ok [OF 2(1)] by (auto simp: space_ok_def 2(3) ins_def Let_def split: if_splits)
  qed
qed

lemma set_obj_ok:
  assumes "tab_ok tinv look keys t" and "as_objs t a = Some x" and "keys y = keys x"
  shows "tab_ok tinv look keys (set_obj a y t)"
proof -
  note d = tab_okD [OF assms(1)]
  show ?thesis
  proof (rule tab_okI, goal_cases)
    case (3 k n)
    then show ?case using d(3) [of k n] assms(2,3) by (auto simp: set_obj_def)
  next
    case (6 b z) then show ?case using d(6) [of b] assms(2) by (auto simp: set_obj_def split: if_splits)
  qed (use d(1,2,4,5) in \<open>auto simp: set_obj_def\<close>)
qed

lemma add_index_ok:
  assumes "tnt_schema_add_index mp ra T t data = Some (rc, t', data')" and "space_ok tinv look t"
  shows "space_ok tinv look t'"
proof -
  have ok: "tab_ok tinv look sval_keys t" using assms(2) by (simp add: space_ok_def)
  have "space_ok tinv look (set_obj a (x\<lparr>sv_index := Some j\<rparr>) t)"
    if "as_objs t a = Some x" "sv_index x = Some i" "add_index_to mp ra T i d p = Some (rc, j, d')" for a x i j d p d'
  proof -
    have i: "index_ok tinv look i" using assms(2) that(1,2) by (fastforce simp: space_ok_def)
    then have "index_ok tinv look j" using add_index_added [OF that(3)] index_added_ok [OF i] by (simp add: index_ok_def)
    moreover have "tab_ok tinv look sval_keys (set_obj a (x\<lparr>sv_index := Some j\<rparr>) t)"
      by (rule set_obj_ok [OF ok that(1)]) (simp add: sval_keys_def)
    ultimately show ?thesis using assms(2) that(1) by (auto simp: space_ok_def set_obj_def split: if_splits)
  qed
  then show ?thesis using assms
    unfolding tnt_schema_add_index_def by (auto simp: Let_def split: Option.bind_splits if_splits prod.splits)
qed

lemma spaces_loop_ok: "spaces_loop mp ra T n t p = Some (rc, t') \<Longrightarrow> space_ok tinv look t \<Longrightarrow> space_ok tinv look t'"
proof (induction n arbitrary: t p)
  case (Suc n)
  then obtain c u q where u: "tnt_schema_add_space mp ra T t p = Some (c, u, q)"
    by (auto split: Option.bind_splits)
  have "space_ok tinv look u" using space_added_ok [OF Suc.prems(2) add_space_added [OF u]] Suc.prems(2) by (simp add: space_ok_def)
  then show ?case using Suc u by (auto split: if_splits)
qed simp

lemma indexes_loop_ok: "indexes_loop mp ra T n t p = Some (rc, t') \<Longrightarrow> space_ok tinv look t \<Longrightarrow> space_ok tinv look t'"
proof (induction n arbitrary: t p)
  case (Suc n)
  then obtain c u q where u: "tnt_schema_add_index mp ra T t p = Some (c, u, q)"
    by (auto split: Option.bind_splits)
  have "space_ok tinv look u" by (rule add_index_ok [OF u Suc.prems(2)])
  then show ?case using Suc u by (auto split: if_splits)
qed simp

lemma add_spaces_ok:
  assumes "tnt_schema_add_spaces mp ra T sch r = Some (rc, sch')" and "space_ok tinv look (space_hash sch)"
  shows "space_ok tinv look (space_hash sch')"
proof -
  have "sch' = sch \<or> (\<exists>n p t c. spaces_loop mp ra T n (space_hash sch) p = Some (c, t) \<and> sch' = sch\<lparr>space_hash := t\<rparr>)"
    using assms(1) unfolding tnt_schema_add_spaces_def by (auto split: option.splits Option.bind_splits if_splits) metis+
  then show ?thesis using assms(2) spaces_loop_ok by auto
qed

lemma add_indexes_ok:
  assumes "tnt_schema_add_indexes mp ra T sch r = Some (rc, sch')" and "space_ok tinv look (space_hash sch)"
  shows "space_ok tinv look (space_hash sch')"
proof -
  have "sch' = sch \<or> (\<exists>n p t c. indexes_loop mp ra T n (space_hash sch) p = Some (c, t) \<and> sch' = sch\<lparr>space_hash := t\<rparr>)"
    using assms(1) unfolding tnt_schema_add_indexes_def by (auto split: option.splits Option.bind_splits if_splits) metis+
  then show ?thesis using assms(2) indexes_loop_ok by auto
qed

lemma sval_rel: "space_ok tinv look t \<Longrightarrow> \<forall>a x. as_objs t a = Some x \<longrightarrow> tnt_schema_sval_free ra T x \<noteq> None"
  using sval_free_some by (fastforce simp: space_ok_def)

lemma space_free_ok:
  assumes "space_ok tinv look t"
  shows "\<exists>t'. tnt_schema_space_free ra T t = Some t' \<and> space_ok tinv look t' \<and> (tight look sval_keys t \<longrightarrow> tight look sval_keys t')"
proof -
  have "tab_ok tinv look sval_keys t" using assms by (simp add: space_ok_def)
  from free_loop_safe [OF this sval_rel [OF assms] first_exists] obtain t' where
    t': "tnt_schema_space_free ra T t = Some t'" "tab_ok tinv look sval_keys t'" "tight look sval_keys t \<longrightarrow> tight look sval_keys t'"
    "\<forall>a. as_objs t' a = None \<or> as_objs t' a = as_objs t a" by (auto simp: tnt_schema_space_free_def)
  then show ?thesis using assms unfolding space_ok_def by (metis option.distinct(1))
qed

lemma space_free_empties:
  assumes "assoc_stable T tinv look calm" and "space_ok tinv look t" and "calm (as_tab t)"
  shows "\<exists>t'. tnt_schema_space_free ra T t = Some t' \<and> look (as_tab t') = Map.empty"
  unfolding tnt_schema_space_free_def
proof (rule assoc_stable.free_loop_empties [OF assms(1)])
  show "calm (as_tab t)" by (rule assms(3))
  show "tab_ok tinv look sval_keys t" using assms(2) by (simp add: space_ok_def)
  show "\<forall>x<mh_first T (as_tab t). x < mh_end T (as_tab t) \<longrightarrow> \<not> mh_exist T (as_tab t) x"
    by (rule mh_from_cases [of "as_tab t" 0]) (auto simp: mh_first_def)
qed (use sval_rel [OF assms(2)] first_exists in auto)

end

text \<open>The schemas a client can have.\<close>

inductive schema_reach :: "msgpuck \<Rightarrow> realloc_fn \<Rightarrow> 'h assoc_ops \<Rightarrow> 'h tnt_schema \<Rightarrow> bool" for mp ra T where
  reach_new: "tnt_schema_new ra T given = Some (Some (Some sch)) \<Longrightarrow> schema_reach mp ra T sch"
| reach_spaces: "schema_reach mp ra T sch \<Longrightarrow> tnt_schema_add_spaces mp ra T sch r = Some (rc, sch') \<Longrightarrow> schema_reach mp ra T sch'"
| reach_indexes: "schema_reach mp ra T sch \<Longrightarrow> tnt_schema_add_indexes mp ra T sch r = Some (rc, sch') \<Longrightarrow> schema_reach mp ra T sch'"
| reach_flush: "schema_reach mp ra T sch \<Longrightarrow> tnt_schema_flush ra T sch = Some sch' \<Longrightarrow> schema_reach mp ra T sch'"

context schema_env
begin

lemma reach_ok: "schema_reach mp ra T sch \<Longrightarrow> space_ok tinv look (space_hash sch)"
proof (induction rule: schema_reach.induct)
  case (reach_new given sch)
  then obtain h where "mh_new T = Some h" "space_hash sch = as_empty h"
    by (auto simp: tnt_schema_new_def split: Option.bind_splits if_splits)
  then show ?case using empty_tab_ok [of h sval_keys] by (simp add: space_ok_def) (simp add: as_empty_def)
next
  case (reach_flush sch sch')
  then show ?case using space_free_ok [of "space_hash sch"] by (auto simp: tnt_schema_flush_def)
qed (auto dest: add_spaces_ok add_indexes_ok)

end

section \<open>Loading definitions\<close>

text \<open>
  Rows of the system spaces: a space has its number, an owner, its name and more fields; an index has the number of
  its space, its own number, its name and more fields.
\<close>

type_synonym space_def = "u32 \<times> mval \<times> bytes \<times> mval list"
type_synonym index_def = "u32 \<times> u32 \<times> bytes \<times> mval list"

fun space_val :: "space_def \<Rightarrow> mval" where
  "space_val (no, owner, name, rest) = VArr (VUint (ucast no) # owner # VStr name # rest)"

fun index_val :: "index_def \<Rightarrow> mval" where
  "index_val (sid, iid, name, rest) = VArr (VUint (ucast sid) # VUint (ucast iid) # VStr name # rest)"

definition row_name_ok :: "bytes \<Rightarrow> bool" where
  "row_name_ok s \<longleftrightarrow> s \<noteq> [] \<and> length s < 2 ^ 24"

definition space_def_ok :: "space_def \<Rightarrow> bool" where
  "space_def_ok d \<longleftrightarrow> vwf (space_val d) \<and> row_name_ok (fst (snd (snd d)))"

definition index_def_ok :: "index_def \<Rightarrow> bool" where
  "index_def_ok d \<longleftrightarrow> vwf (index_val d) \<and> row_name_ok (fst (snd (snd d)))"

text \<open>
  The abstract schema: under every key (a name, or the bytes of a number) the identity of a space, its number, and
  the numbers of its indexes by key.
\<close>

type_synonym schema_map = "bytes \<Rightarrow> (nat \<times> u32 \<times> (bytes \<Rightarrow> u32 option)) option"

definition index_abs :: "('h \<Rightarrow> bytes \<Rightarrow> assoc_val option) \<Rightarrow> 'h index_tab \<Rightarrow> bytes \<Rightarrow> u32 option" where
  "index_abs look i k = (case look (as_tab i) k of None \<Rightarrow> None | Some n \<Rightarrow> map_option iv_number (as_objs i (av_data n)))"

definition space_abs :: "('h \<Rightarrow> bytes \<Rightarrow> assoc_val option) \<Rightarrow> 'h space_tab \<Rightarrow> schema_map" where
  "space_abs look t k = (case look (as_tab t) k of None \<Rightarrow> None | Some n \<Rightarrow>
     map_option (\<lambda>x. (av_data n, sv_number x, case sv_index x of None \<Rightarrow> Map.empty | Some i \<Rightarrow> index_abs look i)) (as_objs t (av_data n)))"

fun spec_space :: "nat \<Rightarrow> space_def \<Rightarrow> schema_map \<Rightarrow> schema_map" where
  "spec_space a (no, owner, name, rest) m = m(name \<mapsto> (a, no, Map.empty), num_key no \<mapsto> (a, no, Map.empty))"

fun spec_index :: "index_def \<Rightarrow> schema_map \<Rightarrow> schema_map" where
  "spec_index (sid, iid, name, rest) m = (case m (num_key sid) of None \<Rightarrow> m
     | Some (a, _) \<Rightarrow> (\<lambda>k. map_option (\<lambda>(b, no, f). (b, no, if b = a then f(name \<mapsto> iid, num_key iid \<mapsto> iid) else f)) (m k)))"

text \<open>Every insertion takes three addresses: the object and its two nodes.\<close>

fun spec_spaces :: "nat \<Rightarrow> space_def list \<Rightarrow> schema_map \<Rightarrow> schema_map" where
  "spec_spaces a [] m = m"
| "spec_spaces a (d # ds) m = spec_spaces (a + 3) ds (spec_space a d m)"

definition new_sval :: "u32 \<Rightarrow> bytes \<Rightarrow> 'h \<Rightarrow> 'h tnt_schema_sval" where
  "new_sval no name h = \<lparr>sv_name = Blk name, sv_name_len = of_nat (length name), sv_number = no, sv_index = Some (as_empty h)\<rparr>"

definition new_ival :: "u32 \<Rightarrow> bytes \<Rightarrow> tnt_schema_ival" where
  "new_ival no name = \<lparr>iv_name = Blk name, iv_name_len = of_nat (length name), iv_number = no\<rparr>"

lemma new_obj_fields [simp]:
  "sv_number (new_sval no name h) = no" "sv_index (new_sval no name h) = Some (as_empty h)" "iv_number (new_ival no name) = no"
  by (simp_all add: new_sval_def new_ival_def)

text \<open>The space table has room for \<open>n\<close> insertions, each of the index tables for \<open>m\<close>.\<close>

definition rooms_for :: "('h \<Rightarrow> nat) \<Rightarrow> nat \<Rightarrow> nat \<Rightarrow> 'h space_tab \<Rightarrow> bool" where
  "rooms_for left n m t \<longleftrightarrow> n \<le> left (as_tab t)
     \<and> (\<forall>a x i. as_objs t a = Some x \<longrightarrow> sv_index x = Some i \<longrightarrow> m \<le> left (as_tab i))"

lemma rooms_forD:
  "rooms_for left n m t \<Longrightarrow> n \<le> left (as_tab t)"
  "rooms_for left n m t \<Longrightarrow> as_objs t a = Some x \<Longrightarrow> sv_index x = Some i \<Longrightarrow> m \<le> left (as_tab i)"
  by (simp_all add: rooms_for_def)

lemma rooms_for_mono: "rooms_for left n m t \<Longrightarrow> n' \<le> n \<Longrightarrow> m' \<le> m \<Longrightarrow> rooms_for left n' m' t"
  unfolding rooms_for_def using order_trans by blast

text \<open>Every definition is stored under two keys.\<close>

locale schema_room = schema_env mp ra T tinv look + assoc_room T tinv look left cap
  for mp :: msgpuck and ra :: realloc_fn and T :: "'h assoc_ops" and tinv :: "'h \<Rightarrow> bool"
    and look :: "'h \<Rightarrow> bytes \<Rightarrow> assoc_val option" and left :: "'h \<Rightarrow> nat" and cap :: nat +
  assumes grants: "grants_below (2 ^ 24) ra"
begin

lemma alloc_blk: "0 < n \<Longrightarrow> n < 2 ^ 24 \<Longrightarrow> \<exists>d. tnt_mem_alloc ra n = Some (Blk d) \<and> length d = n"
  using mem_alloc_below [OF grants, of n] by metis

lemma copy_name_reads:
  assumes "mp_tok p = Some (TStr s, q)" and "row_name_ok s"
  shows "copy_name mp ra p = Some (Blk s, of_nat (length s), q)"
proof -
  have l: "unat (of_nat (length s) :: u32) = length s" using assms(2) by (simp add: row_name_ok_def unat_of_nat_small)
  obtain d where "tnt_mem_alloc ra (length s) = Some (Blk d)" "length d = length s"
    using alloc_blk [of "length s"] assms(2) by (auto simp: row_name_ok_def)
  then show ?thesis using assms(1) l by (simp add: copy_name_def dec_str blit_def)
qed

lemma put_nodes_some: "put_nodes ra T (as_next t) name nkey (new_obj v t) = Some (Inr (ins T v name nkey t))"
proof (cases rule: put_nodes_cases [where t = t and name = name and nkey = nkey and v = v])
  case 1
  obtain d where "tnt_mem_alloc ra sizeof_assoc_val = Some (Blk d)" using alloc_blk [of sizeof_assoc_val] by (auto simp: sizeof_assoc_val_def)
  then show ?thesis by (simp add: put_nodes_def new_val_def new_obj_def ins_def Let_def)
qed

lemma name_of_blk: "row_name_ok s \<Longrightarrow> name_of (Blk s) (of_nat (length s)) = Some s"
  by (simp add: name_of_def row_name_ok_def unat_of_nat_small)

lemma row_next: "vwf v \<Longrightarrow> reads (toks v) p = Some q \<Longrightarrow> msgpuck.mp_next mp p = Some q"
  unfolding next_val by (rule mp_skip_value)

lemma ucast_no: "(ucast (ucast (no :: u32) :: u64) :: u32) = no"
  by (rule bit_word_eqI) (simp add: bit_simps)

lemma add_space_reads:
  assumes "reads (toks (space_val (no, owner, name, rest))) p = Some q" and "space_def_ok (no, owner, name, rest)" and "mh_new T = Some h"
  shows "tnt_schema_add_space mp ra T t p = Some (0, ins T (new_sval no name h) name (num_key no) t, q)"
proof -
  let ?v = "space_val (no, owner, name, rest)"
  have ok: "vwf ?v" "vwf owner" "row_name_ok name" using assms(2) by (auto simp: space_def_ok_def)
  obtain n p1 where p1: "mp_tok p = Some (TArr n, p1)" "reads (TUint (ucast no) # toks owner @ TStr name # concat (map toks rest)) p1 = Some q"
    using assms(1) by (auto split: option.splits if_splits)
  obtain p2 where p2: "mp_tok p1 = Some (TUint (ucast no), p2)" "reads (toks owner @ TStr name # concat (map toks rest)) p2 = Some q"
    using p1(2) by (auto split: option.splits if_splits)
  obtain p3 where p3: "reads (toks owner) p2 = Some p3" "reads (TStr name # concat (map toks rest)) p3 = Some q"
    using p2(2) by (auto simp: reads_append split: option.splits)
  obtain p4 where p4: "mp_tok p3 = Some (TStr name, p4)" using p3(2) by (auto split: option.splits if_splits)
  obtain d where d: "tnt_mem_alloc ra sizeof_sval = Some (Blk d)" using alloc_blk [of sizeof_sval] by (auto simp: sizeof_sval_def)
  show ?thesis
    using d p1(1) p2(1) row_next [OF ok(2) p3(1)] row_next [OF ok(1) assms(1)] copy_name_reads [OF p4 ok(3)] assms(3)
    by (simp add: tnt_schema_add_space_def peek_tok [OF p1(1)] peek_tok [OF p2(1)] peek_tok [OF p4] dec_array dec_uint Let_def
        set_new_obj zero_sval_def name_of_blk [OF ok(3)] put_nodes_some new_sval_def ucast_no)
qed

lemma add_index_to_reads:
  assumes "mp_tok p1 = Some (TUint (ucast iid), p2)" and "mp_tok p2 = Some (TStr name, p3)" and "row_name_ok name"
    and "msgpuck.mp_next mp p = Some q"
  shows "add_index_to mp ra T i p p1 = Some (0, ins T (new_ival iid name) name (num_key iid) i, q)"
proof -
  obtain d where d: "tnt_mem_alloc ra sizeof_ival = Some (Blk d)" using alloc_blk [of sizeof_ival] by (auto simp: sizeof_ival_def)
  show ?thesis
    using d assms copy_name_reads [OF assms(2,3)]
    by (simp add: add_index_to_def peek_tok [OF assms(1)] peek_tok [OF assms(2)] dec_uint Let_def
        set_new_obj zero_ival_def name_of_blk [OF assms(3)] put_nodes_some new_ival_def ucast_no)
qed

lemma space_abs_ins:
  assumes "tab_ok tinv look sval_keys t" and "mh_new T = Some h" and "2 \<le> left (as_tab t)"
  shows "space_abs look (ins T (new_sval no name h) name (num_key no) t) = spec_space (as_next t) (no, owner, name, rest) (space_abs look t)"
proof
  fix k
  let ?t = "ins T (new_sval no name h) name (num_key no) t"
  have o: "as_objs ?t = (as_objs t)(as_next t \<mapsto> new_sval no name h)" by (simp add: ins_def Let_def)
  have e: "index_abs look (as_empty h) = Map.empty" using new_ok [OF assms(2)] by (simp add: index_abs_def as_empty_def fun_eq_iff)
  have old: "av_data n \<noteq> as_next t" if "look (as_tab t) k = Some n" for n
    using tab_okD(3) [OF assms(1) that] tab_okD(6) [OF assms(1)] by (metis less_irrefl)
  show "space_abs look ?t k = spec_space (as_next t) (no, owner, name, rest) (space_abs look t) k"
    using old by (cases "look (as_tab t) k")
      (auto simp: space_abs_def ins_look [OF tab_okD(1) [OF assms(1)] assms(3)] o e)
qed

lemma index_abs_ins:
  assumes "tab_ok tinv look ival_keys i" and "2 \<le> left (as_tab i)"
  shows "index_abs look (ins T (new_ival no name) name (num_key no) i) = (index_abs look i)(name \<mapsto> no, num_key no \<mapsto> no)"
proof
  fix k
  let ?i = "ins T (new_ival no name) name (num_key no) i"
  have o: "as_objs ?i = (as_objs i)(as_next i \<mapsto> new_ival no name)" by (simp add: ins_def Let_def)
  have old: "av_data n \<noteq> as_next i" if "look (as_tab i) k = Some n" for n
    using tab_okD(3) [OF assms(1) that] tab_okD(6) [OF assms(1)] by (metis less_irrefl)
  show "index_abs look ?i k = ((index_abs look i)(name \<mapsto> no, num_key no \<mapsto> no)) k"
    using old by (cases "look (as_tab i) k")
      (auto simp: index_abs_def ins_look [OF tab_okD(1) [OF assms(1)] assms(2)] o)
qed

text \<open>Adding an index to a known space.\<close>

lemma add_index_reads:
  assumes "reads (toks (index_val (sid, iid, name, rest))) p = Some q" and "index_def_ok (sid, iid, name, rest)"
    and ok: "space_ok tinv look t" and known: "space_abs look t (num_key sid) \<noteq> None" and room: "rooms_for left n (m + 2) t"
  shows "\<exists>t'. tnt_schema_add_index mp ra T t p = Some (0, t', q) \<and> space_ok tinv look t' \<and> rooms_for left n m t'
     \<and> space_abs look t' = spec_index (sid, iid, name, rest) (space_abs look t)"
proof -
  let ?v = "index_val (sid, iid, name, rest)"
  have vok: "vwf ?v" "row_name_ok name" using assms(2) by (auto simp: index_def_ok_def)
  have tab: "tab_ok tinv look sval_keys t" using ok by (simp add: space_ok_def)
  obtain l p1 where p1: "mp_tok p = Some (TArr l, p1)" "reads (TUint (ucast sid) # TUint (ucast iid) # TStr name # concat (map toks rest)) p1 = Some q"
    using assms(1) by (auto split: option.splits if_splits)
  obtain p2 where p2: "mp_tok p1 = Some (TUint (ucast sid), p2)" "reads (TUint (ucast iid) # TStr name # concat (map toks rest)) p2 = Some q"
    using p1(2) by (auto split: option.splits if_splits)
  obtain p3 where p3: "mp_tok p2 = Some (TUint (ucast iid), p3)" "reads (TStr name # concat (map toks rest)) p3 = Some q"
    using p2(2) by (auto split: option.splits if_splits)
  obtain p4 where p4: "mp_tok p3 = Some (TStr name, p4)" using p3(2) by (auto split: option.splits if_splits)
  obtain nd x where nd: "look (as_tab t) (num_key sid) = Some nd" "as_objs t (av_data nd) = Some x"
    using known by (auto simp: space_abs_def split: option.splits)
  obtain i where i: "sv_index x = Some i" "index_ok tinv look i" using ok nd(2) unfolding space_ok_def by blast
  have itab: "tab_ok tinv look ival_keys i" using i(2) by (simp add: index_ok_def)
  have il: "2 \<le> left (as_tab i)" using rooms_forD(2) [OF room nd(2) i(1)] by simp
  let ?j = "ins T (new_ival iid name) name (num_key iid) i"
  let ?t = "set_obj (av_data nd) (x\<lparr>sv_index := Some ?j\<rparr>) t"
  have "tnt_schema_add_index mp ra T t p = Some (0, ?t, q)"
    using p1(1) p2(1) nd i(1) find_node [OF tab_okD(1) [OF tab] nd(1)]
      add_index_to_reads [OF p3(1) p4 vok(2) row_next [OF vok(1) assms(1)], of i]
    by (simp add: tnt_schema_add_index_def peek_tok [OF p1(1)] peek_tok [OF p3(1)] dec_array dec_uint Let_def ucast_no)
  moreover have "space_abs look ?t k = spec_index (sid, iid, name, rest) (space_abs look t) k" for k
  proof (cases "look (as_tab t) k")
    case (Some m)
    then show ?thesis using nd i index_abs_ins [OF itab il, of iid name]
      by (cases "as_objs t (av_data m)") (auto simp: space_abs_def set_obj_def index_ok_def)
  qed (simp add: space_abs_def set_obj_def nd)
  moreover have "rooms_for left n m ?t"
    using rooms_for_mono [OF room order_refl, of m] ins_left [OF tab_okD(1) [OF itab] il, of "new_ival iid name" name "num_key iid"]
      rooms_forD(2) [OF room nd(2) i(1)]
    by (auto simp: rooms_for_def set_obj_def nd(2) split: if_splits)
  ultimately show ?thesis using add_index_ok [OF _ ok] by blast
qed

text \<open>Every key that was known stays known.\<close>

lemma spec_index_known: "m k \<noteq> None \<Longrightarrow> spec_index d m k \<noteq> None"
  by (cases d) (auto split: option.splits)

lemma spaces_loop_reads:
  assumes "reads (concat (map (\<lambda>d. toks (space_val d)) ds)) p = Some q" and "\<forall>d \<in> set ds. space_def_ok d" and "space_ok tinv look t"
    and "rooms_for left (2 * length ds) m t" and "m \<le> cap"
  shows "\<exists>t'. spaces_loop mp ra T (length ds) t p = Some (0, t') \<and> space_ok tinv look t' \<and> rooms_for left 0 m t'
     \<and> space_abs look t' = spec_spaces (as_next t) ds (space_abs look t)"
  using assms
proof (induction ds arbitrary: t p)
  case (Cons d ds)
  obtain no owner name rest where d: "d = (no, owner, name, rest)" by (cases d)
  obtain h where h: "mh_new T = Some h" using new_some by blast
  obtain p1 where p1: "reads (toks (space_val d)) p = Some p1" "reads (concat (map (\<lambda>d. toks (space_val d)) ds)) p1 = Some q"
    using Cons.prems(1) by (auto simp: reads_append simp del: space_val.simps split: option.splits)
  let ?t = "ins T (new_sval no name h) name (num_key no) t"
  have tab: "tab_ok tinv look sval_keys t" using Cons.prems(3) by (simp add: space_ok_def)
  have add: "tnt_schema_add_space mp ra T t p = Some (0, ?t, p1)"
    using p1(1) Cons.prems(2) h unfolding d by (intro add_space_reads) auto
  have ok: "space_ok tinv look ?t" by (rule space_added_ok [OF Cons.prems(3) add_space_added [OF add tab]])
  have l: "2 + 2 * length ds \<le> left (as_tab t)" using rooms_forD(1) [OF Cons.prems(4)] by simp
  then have l2: "2 \<le> left (as_tab t)" by simp
  have rm: "rooms_for left (2 * length ds) m ?t"
    using Cons.prems(4) l ins_left [OF tab_okD(1) [OF tab] l2, of "new_sval no name h" name "num_key no"] new_left [OF h] Cons.prems(5)
    by (auto simp: rooms_for_def ins_def Let_def as_empty_def split: if_splits)
  have "as_next ?t = as_next t + 3" by (simp add: ins_def Let_def)
  then show ?case using Cons.IH [OF p1(2) _ ok rm Cons.prems(5)] Cons.prems(2) add space_abs_ins [OF tab h l2, of no name owner rest]
    by (simp add: d del: spec_space.simps)
qed simp

lemma indexes_loop_reads:
  assumes "reads (concat (map (\<lambda>d. toks (index_val d)) ds)) p = Some q" and "\<forall>d \<in> set ds. index_def_ok d" and "space_ok tinv look t"
    and "\<forall>d \<in> set ds. space_abs look t (num_key (fst d)) \<noteq> None" and "rooms_for left n (2 * length ds) t"
  shows "\<exists>t'. indexes_loop mp ra T (length ds) t p = Some (0, t') \<and> space_ok tinv look t'
     \<and> space_abs look t' = fold spec_index ds (space_abs look t)"
  using assms
proof (induction ds arbitrary: t p)
  case (Cons d ds)
  obtain sid iid name rest where d: "d = (sid, iid, name, rest)" by (cases d)
  obtain p1 where p1: "reads (toks (index_val d)) p = Some p1" "reads (concat (map (\<lambda>d. toks (index_val d)) ds)) p1 = Some q"
    using Cons.prems(1) by (auto simp: reads_append simp del: index_val.simps split: option.splits)
  obtain t1 where t1: "tnt_schema_add_index mp ra T t p = Some (0, t1, p1)" "space_ok tinv look t1"
    "space_abs look t1 = spec_index d (space_abs look t)" "rooms_for left n (2 * length ds) t1"
    using add_index_reads [of sid iid name rest p p1 t n "2 * length ds"] p1(1) Cons.prems(2-5) unfolding d by auto
  have "\<forall>e \<in> set ds. space_abs look t1 (num_key (fst e)) \<noteq> None"
    using Cons.prems(4) spec_index_known [of "space_abs look t"] unfolding t1(3) by simp
  then show ?case using Cons.IH [OF p1(2) _ t1(2) _ t1(4)] Cons.prems(2) t1 by (simp add: d)
qed simp

end

section \<open>Looking up loaded definitions\<close>

text \<open>What the lookups return for an abstract schema.\<close>

definition spec_sid :: "schema_map \<Rightarrow> bytes \<Rightarrow> int" where
  "spec_sid m name = (case m name of None \<Rightarrow> -1 | Some (_, no, _) \<Rightarrow> sint no)"

definition spec_iid :: "schema_map \<Rightarrow> u32 \<Rightarrow> bytes \<Rightarrow> int" where
  "spec_iid m sid name = (case m (num_key sid) of None \<Rightarrow> -1
     | Some (_, _, f) \<Rightarrow> (case f name of None \<Rightarrow> -1 | Some i \<Rightarrow> sint i))"

text \<open>A reply whose data are the rows \<open>vs\<close>.\<close>

definition rows :: "reply_struct \<Rightarrow> mval list \<Rightarrow> bool" where
  "rows r vs \<longleftrightarrow> (\<exists>d. rp_data r = Some d \<and> encodes (toks (VArr vs)) d \<and> vwf (VArr vs))"

context schema_env
begin

lemma lookup_abs:
  assumes "space_ok tinv look (space_hash sch)"
  shows "tnt_schema_stosid T sch name = Some (spec_sid (space_abs look (space_hash sch)) name)"
    and "tnt_schema_stoiid T sch sid name = Some (spec_iid (space_abs look (space_hash sch)) sid name)"
proof -
  have tab: "tab_ok tinv look sval_keys (space_hash sch)" using assms by (simp add: space_ok_def)
  note d = tab_okD [OF tab]
  have space: "\<exists>x i. as_objs (space_hash sch) (av_data n) = Some x \<and> sv_index x = Some i \<and> index_ok tinv look i"
    if "look (as_tab (space_hash sch)) k = Some n" for k n
    using d(3) [OF that] assms unfolding space_ok_def by blast
  show "tnt_schema_stosid T sch name = Some (spec_sid (space_abs look (space_hash sch)) name)"
  proof (cases "look (as_tab (space_hash sch)) name")
    case (Some n)
    then show ?thesis using find_node [OF d(1) Some] space [OF Some]
      by (auto simp: tnt_schema_stosid_def Let_def spec_sid_def space_abs_def)
  qed (use find_end [OF d(1)] in \<open>simp add: tnt_schema_stosid_def Let_def spec_sid_def space_abs_def\<close>)
  show "tnt_schema_stoiid T sch sid name = Some (spec_iid (space_abs look (space_hash sch)) sid name)"
  proof (cases "look (as_tab (space_hash sch)) (num_key sid)")
    case (Some n)
    obtain x i where x: "as_objs (space_hash sch) (av_data n) = Some x" "sv_index x = Some i" "index_ok tinv look i"
      using space [OF Some] by blast
    have i: "tab_ok tinv look ival_keys i" using x(3) by (simp add: index_ok_def)
    note n = find_node [OF d(1) Some]
    show ?thesis
    proof (cases "look (as_tab i) name")
      case None
      then show ?thesis using n x find_end [OF tab_okD(1) [OF i]] Some
        by (simp add: tnt_schema_stoiid_def Let_def spec_iid_def space_abs_def index_abs_def)
    next
      case (Some m)
      then show ?thesis using n x find_node [OF tab_okD(1) [OF i] Some] tab_okD(3) [OF i Some] \<open>look _ (num_key sid) = Some n\<close>
        by (auto simp: tnt_schema_stoiid_def Let_def spec_iid_def space_abs_def index_abs_def)
    qed
  qed (use find_end [OF d(1)] in \<open>simp add: tnt_schema_stoiid_def Let_def spec_iid_def space_abs_def\<close>)
qed

end

context schema_room
begin

lemma rows_array:
  assumes "rows r vs"
  obtains p where "mp_check mp (reply_bytes r) = Some []" "peek mp (reply_bytes r) = Some MP_ARRAY"
    "mp_decode_array mp (reply_bytes r) = Some (of_nat (length vs), p)" "unat (of_nat (length vs) :: u32) = length vs"
    "reads (concat (map toks vs)) p = Some []"
proof -
  obtain d where d: "reply_bytes r = d" "encodes (toks (VArr vs)) d" "vwf (VArr vs)" using assms by (auto simp: rows_def reply_bytes_def)
  have c: "mp_check mp d = Some []" using mp_skip_value [OF d(3), of d "[]"] d(2) unfolding check encodes_def by simp
  obtain p where p: "mp_tok d = Some (TArr (of_nat (length vs)), p)" "reads (concat (map toks vs)) p = Some []"
    using d(2) by (auto simp: encodes_def split: option.splits if_splits)
  show ?thesis using that [of p] c p d peek_tok [OF p(1)] by (simp add: dec_array unat_of_nat_small)
qed

lemma load_spaces:
  assumes "rows r (map space_val ss)" and "\<forall>d \<in> set ss. space_def_ok d" and "space_ok tinv look (space_hash sch)"
    and "rooms_for left (2 * length ss) m (space_hash sch)" and "m \<le> cap"
  shows "\<exists>sch'. tnt_schema_add_spaces mp ra T sch r = Some (0, sch') \<and> space_ok tinv look (space_hash sch') \<and> rooms_for left 0 m (space_hash sch')
     \<and> space_abs look (space_hash sch') = spec_spaces (as_next (space_hash sch)) ss (space_abs look (space_hash sch))"
proof -
  obtain p where p: "mp_check mp (reply_bytes r) = Some []" "peek mp (reply_bytes r) = Some MP_ARRAY"
    "mp_decode_array mp (reply_bytes r) = Some (of_nat (length (map space_val ss)), p)"
    "unat (of_nat (length (map space_val ss)) :: u32) = length (map space_val ss)"
    "reads (concat (map toks (map space_val ss))) p = Some []" by (rule rows_array [OF assms(1)])
  have "reads (concat (map (\<lambda>d. toks (space_val d)) ss)) p = Some []" using p(5) by (simp add: comp_def)
  from spaces_loop_reads [OF this assms(2-5)] p(1-4) show ?thesis
    by (auto simp: tnt_schema_add_spaces_def)
qed

lemma load_indexes:
  assumes "rows r (map index_val is)" and "\<forall>d \<in> set is. index_def_ok d" and "space_ok tinv look (space_hash sch)"
    and "\<forall>d \<in> set is. space_abs look (space_hash sch) (num_key (fst d)) \<noteq> None" and "rooms_for left n (2 * length is) (space_hash sch)"
  shows "\<exists>sch'. tnt_schema_add_indexes mp ra T sch r = Some (0, sch') \<and> space_ok tinv look (space_hash sch')
     \<and> space_abs look (space_hash sch') = fold spec_index is (space_abs look (space_hash sch))"
proof -
  obtain p where p: "mp_check mp (reply_bytes r) = Some []" "peek mp (reply_bytes r) = Some MP_ARRAY"
    "mp_decode_array mp (reply_bytes r) = Some (of_nat (length (map index_val is)), p)"
    "unat (of_nat (length (map index_val is)) :: u32) = length (map index_val is)"
    "reads (concat (map toks (map index_val is))) p = Some []" by (rule rows_array [OF assms(1)])
  have "reads (concat (map (\<lambda>d. toks (index_val d)) is)) p = Some []" using p(5) by (simp add: comp_def)
  from indexes_loop_reads [OF this assms(2-5)] p(1-4) show ?thesis
    by (auto simp: tnt_schema_add_indexes_def)
qed

end

text \<open>The keys a list of spaces uses, and what the specification holds under them.\<close>

definition space_keys :: "space_def \<Rightarrow> bytes list" where
  "space_keys d = [fst (snd (snd d)), num_key (fst d)]"

lemma spec_spaces_other: "k \<notin> set (concat (map space_keys ss)) \<Longrightarrow> spec_spaces a ss m k = m k"
proof (induction ss arbitrary: a m)
  case (Cons d ss)
  then show ?case by (cases d) (auto simp: space_keys_def)
qed simp

lemma spec_spaces_finds:
  "distinct (concat (map space_keys ss)) \<Longrightarrow> d \<in> set ss \<Longrightarrow> k \<in> set (space_keys d)
   \<Longrightarrow> \<exists>b. spec_spaces a ss m k = Some (b, fst d, Map.empty)"
proof (induction ss arbitrary: a m)
  case (Cons e ss)
  show ?case
  proof (cases "d \<in> set ss")
    case True
    then show ?thesis using Cons by simp
  next
    case False
    then have e: "d = e" using Cons.prems(2) by simp
    then have "k \<notin> set (concat (map space_keys ss))" using Cons.prems(1,3) by auto
    then show ?thesis using Cons.prems(3) e spec_spaces_other [of k ss] by (cases e) (auto simp: space_keys_def)
  qed
qed simp

end
