(* ===== verification/Tnt_Mhash_Spec.thy ===== *)
theory Tnt_Mhash_Spec
  imports Tnt_Mhash Tnt_Schema_Spec
begin

unbundle bit_operations_syntax

text \<open>
  The hash table is a finite map: it satisfies the contract \<open>assoc_table\<close> of the schema cache, also while it is being resized, and its
  probe loops end.  Slots are reached along the probe sequence of a key, which visits every slot because the number of slots is
  prime.
\<close>

section \<open>Bits\<close>

lemma mt_exist_bit: "mt_exist h i = bit (mt_b h ! (i div 16)) (i mod 16)"
  and mt_dirty_bit: "mt_dirty h i = bit (mt_b h ! (i div 16)) (i mod 16 + 16)"
  by (simp_all only: mt_exist_def mt_dirty_def bit_iff_and_push_bit_not_eq_0)

lemma bit_set_one: "a < 32 \<Longrightarrow> bit (w OR 2 ^ a) b = (bit w b \<or> a = b)" for w :: u32
  by (auto simp: bit_or_iff bit_exp_iff possible_bit_word)

lemma bit_clear_one: "a < 32 \<Longrightarrow> bit (w AND NOT (2 ^ a)) b = (bit w b \<and> a \<noteq> b)" for w :: u32
  by (auto simp: bit_and_iff bit_not_iff bit_exp_iff possible_bit_word dest: bit_imp_le_length)

lemma slot_eq: "i = j \<longleftrightarrow> i div 16 = j div 16 \<and> i mod 16 = j mod (16 :: nat)"
  by (metis div_mult_mod_eq)

definition in_bits :: "mh_t \<Rightarrow> nat \<Rightarrow> bool" where
  "in_bits h i \<longleftrightarrow> i div 16 < length (mt_b h)"

lemma set_bits:
  assumes "in_bits h i"
  shows "mt_exist (mt_setexist h i) j = (i = j \<or> mt_exist h j)" "mt_dirty (mt_setexist h i) j = mt_dirty h j"
    "mt_exist (mt_setdirty h i) j = mt_exist h j" "mt_dirty (mt_setdirty h i) j = (i = j \<or> mt_dirty h j)"
    "mt_exist (mt_setfree h i) j = (i \<noteq> j \<and> mt_exist h j)" "mt_dirty (mt_setfree h i) j = mt_dirty h j"
proof -
  have m: "i mod 16 < 32" "i mod 16 + 16 < 32" "j mod 16 < 16" "i mod 16 < 16"
    using mod_less_divisor [of 16 i] mod_less_divisor [of 16 j] by linarith+
  note d = mt_exist_bit mt_dirty_bit mt_setexist_def mt_setdirty_def mt_setfree_def nth_list_update push_bit_eq_mult mult_1 bit_set_one [OF m(1)] bit_set_one [OF m(2)]
    bit_clear_one [OF m(1)] slot_eq [of i j]
  show "mt_exist (mt_setexist h i) j = (i = j \<or> mt_exist h j)" "mt_dirty (mt_setexist h i) j = mt_dirty h j"
    "mt_exist (mt_setdirty h i) j = mt_exist h j" "mt_dirty (mt_setdirty h i) j = (i = j \<or> mt_dirty h j)"
    "mt_exist (mt_setfree h i) j = (i \<noteq> j \<and> mt_exist h j)" "mt_dirty (mt_setfree h i) j = mt_dirty h j"
    using assms m(3,4) by (auto simp: d in_bits_def)
qed

lemma set_fields [simp]:
  "mt_p (mt_setexist h i) = mt_p h" "mt_p (mt_setdirty h i) = mt_p h" "mt_p (mt_setfree h i) = mt_p h"
  "mt_n_buckets (mt_setexist h i) = mt_n_buckets h" "mt_n_buckets (mt_setdirty h i) = mt_n_buckets h" "mt_n_buckets (mt_setfree h i) = mt_n_buckets h"
  "length (mt_b (mt_setexist h i)) = length (mt_b h)" "length (mt_b (mt_setdirty h i)) = length (mt_b h)" "length (mt_b (mt_setfree h i)) = length (mt_b h)"
  by (simp_all add: mt_setexist_def mt_setdirty_def mt_setfree_def)

lemma bits_other [simp]:
  "mt_exist (h\<lparr>mt_p := a0\<rparr>) = mt_exist h" "mt_dirty (h\<lparr>mt_p := a0\<rparr>) = mt_dirty h"
  "mt_exist (h\<lparr>mt_n_buckets := a1\<rparr>) = mt_exist h" "mt_dirty (h\<lparr>mt_n_buckets := a1\<rparr>) = mt_dirty h"
  "mt_exist (h\<lparr>mt_n_dirty := a2\<rparr>) = mt_exist h" "mt_dirty (h\<lparr>mt_n_dirty := a2\<rparr>) = mt_dirty h"
  "mt_exist (h\<lparr>mt_size := a3\<rparr>) = mt_exist h" "mt_dirty (h\<lparr>mt_size := a3\<rparr>) = mt_dirty h"
  "mt_exist (h\<lparr>mt_upper_bound := a4\<rparr>) = mt_exist h" "mt_dirty (h\<lparr>mt_upper_bound := a4\<rparr>) = mt_dirty h"
  "mt_exist (h\<lparr>mt_prime := a5\<rparr>) = mt_exist h" "mt_dirty (h\<lparr>mt_prime := a5\<rparr>) = mt_dirty h"
  "mt_exist (h\<lparr>mt_resize_cnt := a6\<rparr>) = mt_exist h" "mt_dirty (h\<lparr>mt_resize_cnt := a6\<rparr>) = mt_dirty h"
  "mt_exist (h\<lparr>mt_resize_position := a7\<rparr>) = mt_exist h" "mt_dirty (h\<lparr>mt_resize_position := a7\<rparr>) = mt_dirty h"
  "mt_exist (h\<lparr>mt_batch := a8\<rparr>) = mt_exist h" "mt_dirty (h\<lparr>mt_batch := a8\<rparr>) = mt_dirty h"
  by (intro ext; simp add: mt_exist_def mt_dirty_def)+

section \<open>Prime numbers of slots\<close>

text \<open>Trial division by \<open>d\<close>, \<open>d + 2\<close>, and so on in steps of six.\<close>

fun undivided :: "int \<Rightarrow> int \<Rightarrow> nat \<Rightarrow> bool" where
  "undivided n d 0 = True"
| "undivided n d (Suc k) = (n mod d \<noteq> 0 \<and> n mod (d + 2) \<noteq> 0 \<and> undivided n (d + 6) k)"

definition indivisible :: "nat \<Rightarrow> bool" where
  "indivisible n \<longleftrightarrow> (\<forall>d. 2 \<le> d \<longrightarrow> d * d \<le> n \<longrightarrow> \<not> d dvd n)"

lemma undivided_steps: "undivided n d k \<Longrightarrow> j < k \<Longrightarrow> \<not> d + 6 * int j dvd n \<and> \<not> d + 6 * int j + 2 dvd n"
proof (induction n d k arbitrary: j rule: undivided.induct)
  case (2 n d k)
  show ?case
  proof (cases j)
    case 0
    then show ?thesis using "2.prems"(1) by (simp add: dvd_eq_mod_eq_0)
  next
    case (Suc m)
    then have "\<not> (d + 6) + 6 * int m dvd n \<and> \<not> (d + 6) + 6 * int m + 2 dvd n" using "2.IH" "2.prems" by simp
    then show ?thesis using Suc by (simp add: algebra_simps)
  qed
qed simp

lemma indivisibleI:
  assumes "undivided m 5 k" and "m = int n" and "n mod 2 \<noteq> 0" and "n mod 3 \<noteq> 0" and "n < (6 * k + 5) * (6 * k + 5)"
  shows "indivisible n"
  unfolding indivisible_def
proof (intro allI impI notI)
  fix d assume d: "2 \<le> d" "d * d \<le> n" "d dvd n"
  have "\<not> 2 dvd n" "\<not> 3 dvd n" using assms(3,4) by (simp_all add: dvd_eq_mod_eq_0)
  then have no: "\<not> 2 dvd d" "\<not> 3 dvd d" using dvd_trans [OF _ d(3)] by blast+
  have "d < 6 * k + 5" using d(2) assms(5) by (metis le_less_trans less_le_not_le linorder_not_less mult_le_mono)
  moreover obtain q r where qr: "d = 6 * q + r" "r < 6" using that [of "d div 6" "d mod 6"] by simp
  moreover have "r \<noteq> 0" "r \<noteq> 2" "r \<noteq> 4" using no(1) unfolding qr(1) by (auto intro!: Nat.gr0I)
  moreover have "r \<noteq> 3" using no(2) unfolding qr(1) by auto
  ultimately have "r = 1 \<or> r = 5" "d < 6 * k + 5" by auto
  then obtain j where j: "j < k" "d = 5 + 6 * j \<or> d = 5 + 6 * j + 2"
    using that [of q] that [of "q - 1"] qr(1) d(1) by fastforce
  moreover have "int d dvd int n" using d(3) by simp
  ultimately show False using undivided_steps [OF assms(1) j(1)] assms(2) by auto
qed

lemma indivisible_coprime:
  assumes "indivisible n" and "0 < m" and "m < n"
  shows "coprime m n"
proof (rule ccontr)
  assume "\<not> coprime m n"
  then have g: "gcd m n \<noteq> 1" by (simp add: coprime_iff_gcd_eq_1)
  let ?g = "gcd m n"
  have g2: "2 \<le> ?g" using g assms(2) gcd_pos_nat [of m n] by linarith
  have gn: "?g dvd n" "?g < n" using assms(2,3) by (auto intro: le_less_trans [OF gcd_le1_nat])
  then obtain q where q: "n = ?g * q" by blast
  have q2: "2 \<le> q" using q gn(2) g2 by (cases q; cases "q - 1") auto
  have "?g * ?g \<le> n \<or> q * q \<le> n" using q by (metis le_cases mult_le_mono1 mult_le_mono2)
  then show False using assms(1) g2 gn(1) q2 q unfolding indivisible_def by (metis dvd_triv_right)
qed

lemma primes_indivisible:
  "\<forall>n \<in> set (take 19 ac_prime_list). indivisible n"
proof -
  have "indivisible 3" unfolding indivisible_def using mult_le_mono [of 2 _ 2] by fastforce
  moreover have "indivisible 11" by (rule indivisibleI [of 11 0]) (code_simp, simp_all)
  moreover have "indivisible 23" by (rule indivisibleI [of 23 0]) (code_simp, simp_all)
  moreover have "indivisible 53" by (rule indivisibleI [of 53 1]) (code_simp, simp_all)
  moreover have "indivisible 97" by (rule indivisibleI [of 97 1]) (code_simp, simp_all)
  moreover have "indivisible 193" by (rule indivisibleI [of 193 2]) (code_simp, simp_all)
  moreover have "indivisible 389" by (rule indivisibleI [of 389 13]) (code_simp, simp_all)
  moreover have "indivisible 769" by (rule indivisibleI [of 769 13]) (code_simp, simp_all)
  moreover have "indivisible 1543" by (rule indivisibleI [of 1543 13]) (code_simp, simp_all)
  moreover have "indivisible 3079" by (rule indivisibleI [of 3079 13]) (code_simp, simp_all)
  moreover have "indivisible 6151" by (rule indivisibleI [of 6151 13]) (code_simp, simp_all)
  moreover have "indivisible 12289" by (rule indivisibleI [of 12289 37]) (code_simp, simp_all)
  moreover have "indivisible 24593" by (rule indivisibleI [of 24593 37]) (code_simp, simp_all)
  moreover have "indivisible 49157" by (rule indivisibleI [of 49157 37]) (code_simp, simp_all)
  moreover have "indivisible 98317" by (rule indivisibleI [of 98317 74]) (code_simp, simp_all)
  moreover have "indivisible 196613" by (rule indivisibleI [of 196613 74]) (code_simp, simp_all)
  moreover have "indivisible 393241" by (rule indivisibleI [of 393241 104]) (code_simp, simp_all)
  moreover have "indivisible 786433" by (rule indivisibleI [of 786433 148]) (code_simp, simp_all)
  moreover have "indivisible 1572869" by (rule indivisibleI [of 1572869 209]) (code_simp, simp_all)
  ultimately show ?thesis by (simp add: ac_prime_list_def)
qed

section \<open>The probe sequence\<close>

definition slot_counts :: "nat set" where
  "slot_counts = set (take 19 ac_prime_list)"

lemma slot_counts_range: "n \<in> slot_counts \<Longrightarrow> 3 \<le> n \<and> n \<le> 1572869"
  by (auto simp: slot_counts_def ac_prime_list_def)

definition probe_inc :: "nat \<Rightarrow> nat \<Rightarrow> nat" where
  "probe_inc k n = 1 + k mod (n - 1)"

definition probe :: "nat \<Rightarrow> nat \<Rightarrow> nat \<Rightarrow> nat" where
  "probe k n j = (k mod n + j * probe_inc k n) mod n"

lemma probe_less: "n \<in> slot_counts \<Longrightarrow> probe k n j < n"
  using slot_counts_range [of n] by (simp add: probe_def)

lemma probe_0 [simp]: "probe k n 0 = k mod n"
  by (simp add: probe_def)

lemma probe_inc_less: "n \<in> slot_counts \<Longrightarrow> 0 < probe_inc k n \<and> probe_inc k n < n"
proof -
  assume n: "n \<in> slot_counts"
  then have "k mod (n - 1) < n - 1" using slot_counts_range [OF n] by (intro mod_less_divisor) linarith
  then show ?thesis unfolding probe_inc_def by linarith
qed

lemma next_slot_probe: 
  assumes "n \<in> slot_counts"
  shows "next_slot (probe k n j) (probe_inc k n) n = probe k n (Suc j)"
proof -
  have r: "probe k n j < n" "probe_inc k n < n" "n \<le> 1572869"
    using probe_less [OF assms] probe_inc_less [OF assms] slot_counts_range [OF assms] by auto
  then have "(probe k n j + probe_inc k n) mod 2 ^ 32 = probe k n j + probe_inc k n" by simp
  then have "next_slot (probe k n j) (probe_inc k n) n = (probe k n j + probe_inc k n) mod n"
    using r by (simp add: next_slot_def mod_if)
  also have "\<dots> = probe k n (Suc j)" by (simp add: probe_def mod_simps algebra_simps)
  finally show ?thesis .
qed

text \<open>Every slot is reached, since the increment has no divisor in common with the number of slots.\<close>

lemma probe_covers:
  assumes "n \<in> slot_counts" and "x < n"
  obtains j where "probe k n j = x"
proof -
  let ?f = "probe k n"
  have c: "coprime (probe_inc k n) n"
    using indivisible_coprime [of n] primes_indivisible assms(1) probe_inc_less [OF assms(1)] unfolding slot_counts_def by blast
  have "inj_on ?f {..<n}"
  proof (rule linorder_inj_onI)
    fix a b assume ab: "a < b" "a \<in> {..<n}" "b \<in> {..<n}"
    show "?f a \<noteq> ?f b"
    proof
      assume "?f a = ?f b"
      then have "n dvd (k mod n + b * probe_inc k n) - (k mod n + a * probe_inc k n)"
        using ab(1) unfolding probe_def by (metis mod_eq_dvd_iff_nat add_le_cancel_left less_imp_le mult_le_mono1)
      then have "n dvd (b - a) * probe_inc k n" by (simp add: diff_mult_distrib)
      then have "n dvd b - a" using c by (simp add: coprime_dvd_mult_left_iff coprime_commute)
      then show False using ab by (auto dest: dvd_imp_le)
    qed
  qed auto
  then have "?f ` {..<n} = {..<n}"
    using probe_less [OF assms(1)] by (intro endo_inj_surj) auto
  then show ?thesis using that assms(2) by (metis imageE lessThan_iff)
qed

section \<open>Well-formed tables\<close>

definition shape :: "mh_t \<Rightarrow> bool" where
  "shape h \<longleftrightarrow> mt_n_buckets h \<in> slot_counts \<and> length (mt_p h) = mt_n_buckets h \<and> length (mt_b h) = mt_n_buckets h div 16 + 1"

text \<open>The slot lies on the chain of the key: the slots the key probes before are all dirty.\<close>

definition on_chain :: "mh_t \<Rightarrow> bytes \<Rightarrow> nat \<Rightarrow> bool" where
  "on_chain h key x \<longleftrightarrow> (\<exists>j. x = probe (mh_hash_key key) (mt_n_buckets h) j \<and> (\<forall>l < j. mt_dirty h (probe (mh_hash_key key) (mt_n_buckets h) l)))"

definition holds :: "mh_t \<Rightarrow> nat \<Rightarrow> assoc_val \<Rightarrow> bool" where
  "holds h x v \<longleftrightarrow> x < mt_n_buckets h \<and> mt_exist h x \<and> mt_p h ! x = Some v"

definition core :: "mh_t \<Rightarrow> bool" where
  "core h \<longleftrightarrow> shape h
     \<and> (\<forall>x < mt_n_buckets h. mt_exist h x \<longrightarrow> (\<exists>v. mt_p h ! x = Some v \<and> on_chain h (av_key v) x))
     \<and> (\<forall>x y v w. holds h x v \<longrightarrow> holds h y w \<longrightarrow> av_key v = av_key w \<longrightarrow> x = y)"

text \<open>Slots that are not free for a new chain; \<open>n_dirty\<close> is a bound of their number.\<close>

definition used :: "mh_t \<Rightarrow> nat set" where
  "used h = {x. x < mt_n_buckets h \<and> (mt_exist h x \<or> mt_dirty h x)}"

definition roomy :: "mh_t \<Rightarrow> bool" where
  "roomy h \<longleftrightarrow> card (used h) \<le> mt_n_dirty h \<and> mt_n_dirty h < mt_n_buckets h"

definition mt_nodes :: "mh_t \<Rightarrow> assoc_val list" where
  "mt_nodes h = List.map_filter (\<lambda>x. if mt_exist h x then mt_p h ! x else None) [0..<mt_n_buckets h]"

text \<open>The finite map a table stands for.\<close>

definition mt_look :: "mh_t \<Rightarrow> bytes \<Rightarrow> assoc_val option" where
  "mt_look h key = List.find (\<lambda>v. av_key v = key) (mt_nodes h)"

lemma nodes_holds: "v \<in> set (mt_nodes h) \<longleftrightarrow> (\<exists>x. holds h x v)"
  unfolding mt_nodes_def holds_def by (force simp: List.map_filter_def split: if_splits)

lemma look_None: "mt_look h key = None \<longleftrightarrow> (\<forall>x v. holds h x v \<longrightarrow> av_key v \<noteq> key)"
  unfolding mt_look_def find_None_iff nodes_holds by blast

lemma core_inj: "core h \<Longrightarrow> holds h x v \<Longrightarrow> holds h y w \<Longrightarrow> av_key v = av_key w \<Longrightarrow> x = y \<and> v = w"
  unfolding core_def holds_def by (metis option.inject)

lemma look_Some: 
  assumes "core h"
  shows "mt_look h key = Some v \<longleftrightarrow> (\<exists>x. holds h x v \<and> av_key v = key)"
proof
  assume "mt_look h key = Some v"
  then show "\<exists>x. holds h x v \<and> av_key v = key"
    unfolding mt_look_def find_Some_iff using nodes_holds [of v h] by (metis nth_mem)
next
  assume "\<exists>x. holds h x v \<and> av_key v = key"
  then obtain x where x: "holds h x v" "av_key v = key" by blast
  show "mt_look h key = Some v"
  proof (cases "mt_look h key")
    case None
    then show ?thesis using look_None [of h key] x by blast
  next
    case (Some w)
    then have "w \<in> set (mt_nodes h)" "av_key w = key" unfolding mt_look_def find_Some_iff by (auto dest: nth_mem)
    then obtain y where "holds h y w" using nodes_holds [of w h] by blast
    then have "w = v" using core_inj [OF assms _ x(1), of y w] x(2) \<open>av_key w = key\<close> by blast
    then show ?thesis using Some by simp
  qed
qed

lemma coreD:
  assumes "core h"
  shows "shape h" "mt_n_buckets h \<in> slot_counts" "x < mt_n_buckets h \<Longrightarrow> slot_ok h x \<and> in_bits h x"
    "x < mt_n_buckets h \<Longrightarrow> mt_exist h x \<Longrightarrow> \<exists>v. holds h x v" "holds h x v \<Longrightarrow> on_chain h (av_key v) x"
proof -
  show s: "shape h" using assms by (simp add: core_def)
  then show "mt_n_buckets h \<in> slot_counts" by (simp add: shape_def)
  have "x div 16 \<le> mt_n_buckets h div 16" if "x < mt_n_buckets h" using that by (intro div_le_mono) simp
  then show "x < mt_n_buckets h \<Longrightarrow> slot_ok h x \<and> in_bits h x" using s by (simp add: shape_def slot_ok_def in_bits_def)
  show "x < mt_n_buckets h \<Longrightarrow> mt_exist h x \<Longrightarrow> \<exists>v. holds h x v" using assms unfolding core_def holds_def by blast
  show "holds h x v \<Longrightarrow> on_chain h (av_key v) x" using assms unfolding core_def holds_def by (metis option.inject)
qed

lemma coreI:
  assumes "shape h" and "\<And>x. x < mt_n_buckets h \<Longrightarrow> mt_exist h x \<Longrightarrow> \<exists>v. mt_p h ! x = Some v"
    and "\<And>x v. holds h x v \<Longrightarrow> on_chain h (av_key v) x"
    and "\<And>x y v w. holds h x v \<Longrightarrow> holds h y w \<Longrightarrow> av_key v = av_key w \<Longrightarrow> x = y"
  shows "core h"
proof -
  have "\<exists>v. mt_p h ! x = Some v \<and> on_chain h (av_key v) x" if "x < mt_n_buckets h" "mt_exist h x" for x
    using assms(2) [OF that] assms(3) [of x] that by (auto simp: holds_def)
  then show ?thesis unfolding core_def using assms(1,4) by blast
qed

lemma used_finite [simp]: "finite (used h)" "used h \<subseteq> {..<mt_n_buckets h}"
  unfolding used_def by auto

text \<open>A table with room has a slot that ends every chain.\<close>

lemma roomy_clean:
  assumes "roomy h" and "core h"
  obtains j where "\<not> mt_exist h (probe k (mt_n_buckets h) (a + j))" "\<not> mt_dirty h (probe k (mt_n_buckets h) (a + j))"
proof -
  have "card (used h) \<noteq> mt_n_buckets h" using assms(1) unfolding roomy_def by linarith
  then have "used h \<noteq> {..<mt_n_buckets h}" by (metis card_lessThan)
  then obtain x where x: "x < mt_n_buckets h" "\<not> mt_exist h x" "\<not> mt_dirty h x" unfolding used_def by blast
  obtain i where i: "probe k (mt_n_buckets h) i = x" using probe_covers [OF coreD(2) [OF assms(2)] x(1)] by blast
  have n: "0 < mt_n_buckets h" using x(1) by simp
  have per: "probe k (mt_n_buckets h) (i + m * mt_n_buckets h) = x" for m
  proof -
    have "b + (i + m * n) * c = (b + i * c) + n * (m * c)" for b c n :: nat by (simp add: algebra_simps)
    then show ?thesis using i unfolding probe_def by (simp only: mod_mult_self2)
  qed
  have "a \<le> i + a * mt_n_buckets h" using n by (simp add: trans_le_add2)
  then show ?thesis using that [of "i + a * mt_n_buckets h - a"] per [of a] x by simp
qed

section \<open>Searching\<close>

text \<open>Does slot \<open>x\<close> hold a node with the property?\<close>

definition hit_at :: "(assoc_val \<Rightarrow> bool) \<Rightarrow> mh_t \<Rightarrow> nat \<Rightarrow> bool" where
  "hit_at eq h x \<longleftrightarrow> (\<exists>v. holds h x v \<and> eq v)"

lemma slot_hit_eq: "core h \<Longrightarrow> x < mt_n_buckets h \<Longrightarrow> slot_hit eq h x = Some (hit_at eq h x)"
  using coreD(4) [of h x] unfolding slot_hit_def hit_at_def holds_def by auto

lemma probe_loop_stops:
  assumes "core h" and "d \<le> j" and "\<forall>l. d \<le> l \<longrightarrow> l < j \<longrightarrow> mt_dirty h (probe k (mt_n_buckets h) l) \<and> \<not> hit_at eq h (probe k (mt_n_buckets h) l)"
    and "hit_at eq h (probe k (mt_n_buckets h) j) \<or> \<not> mt_dirty h (probe k (mt_n_buckets h) j)"
  shows "probe_loop eq h (probe_inc k (mt_n_buckets h)) (probe k (mt_n_buckets h) d)
     = Some (if hit_at eq h (probe k (mt_n_buckets h) j) then probe k (mt_n_buckets h) j else mt_n_buckets h)"
  using assms(2,3)
proof (induction "j - d" arbitrary: d)
  note n = coreD(2) [OF assms(1)]
  note step = probe_loop.simps [of eq h _ "probe k (mt_n_buckets h) _"] coreD(3) [OF assms(1) probe_less [OF n]]
    slot_hit_eq [OF assms(1) probe_less [OF n]]
  case 0
  then have "d = j" by simp
  then show ?case using assms(4) by (subst step(1)) (auto simp: step(2,3))
next
  note n = coreD(2) [OF assms(1)]
  note step = probe_loop.simps [of eq h _ "probe k (mt_n_buckets h) _"] coreD(3) [OF assms(1) probe_less [OF n]]
    slot_hit_eq [OF assms(1) probe_less [OF n]]
  case (Suc m)
  then have "m = j - Suc d" "Suc d \<le> j" "d < j" by auto
  then have "probe_loop eq h (probe_inc k (mt_n_buckets h)) (probe k (mt_n_buckets h) (Suc d))
     = Some (if hit_at eq h (probe k (mt_n_buckets h) j) then probe k (mt_n_buckets h) j else mt_n_buckets h)"
    using Suc(1) [of "Suc d"] Suc(4) by simp
  then show ?case using Suc(4) \<open>d < j\<close> by (subst step(1)) (simp add: step(2,3) next_slot_probe [OF n])
qed

lemma probe_stop:
  assumes "core h" and "roomy h"
  obtains j where "\<forall>l < j. mt_dirty h (probe k (mt_n_buckets h) l) \<and> \<not> hit_at eq h (probe k (mt_n_buckets h) l)"
    and "hit_at eq h (probe k (mt_n_buckets h) j) \<or> \<not> mt_dirty h (probe k (mt_n_buckets h) j)"
proof -
  let ?stop = "\<lambda>j. hit_at eq h (probe k (mt_n_buckets h) j) \<or> \<not> mt_dirty h (probe k (mt_n_buckets h) j)"
  obtain i where "?stop (0 + i)" using roomy_clean [OF assms(2,1), of k 0] by blast
  then have "?stop (LEAST j. ?stop j)" by (rule LeastI)
  moreover have "\<not> ?stop l" if "l < (LEAST j. ?stop j)" for l using not_less_Least [OF that] .
  ultimately show ?thesis using that by blast
qed

text \<open>The loop ends; it finds the slot of a key, or the end.\<close>

lemma probe_loop_finds:
  assumes "core h" and "roomy h" and eq: "\<And>v. eq v \<longleftrightarrow> av_key v = key"
  obtains x where "probe_loop eq h (probe_inc (mh_hash_key key) (mt_n_buckets h)) (mh_hash_key key mod mt_n_buckets h) = Some x"
    and "case mt_look h key of None \<Rightarrow> x = mt_n_buckets h | Some v \<Rightarrow> holds h x v"
proof -
  let ?n = "mt_n_buckets h" let ?P = "probe (mh_hash_key key) ?n"
  obtain j where j: "\<forall>l < j. mt_dirty h (?P l) \<and> \<not> hit_at eq h (?P l)" "hit_at eq h (?P j) \<or> \<not> mt_dirty h (?P j)"
    using probe_stop [OF assms(1,2)] by blast
  have loop: "probe_loop eq h (probe_inc (mh_hash_key key) ?n) (mh_hash_key key mod ?n) = Some (if hit_at eq h (?P j) then ?P j else ?n)"
    using probe_loop_stops [OF assms(1), of 0 j "mh_hash_key key" eq] j by simp
  have "case mt_look h key of None \<Rightarrow> (if hit_at eq h (?P j) then ?P j else ?n) = ?n | Some v \<Rightarrow> holds h (if hit_at eq h (?P j) then ?P j else ?n) v"
  proof (cases "mt_look h key")
    case None
    then have "\<not> hit_at eq h (?P j)" using eq look_None [of h key] unfolding hit_at_def by blast
    then show ?thesis using None by simp
  next
    case (Some v)
    then obtain x where xv: "holds h x v" "av_key v = key" using look_Some [OF assms(1)] by blast
    then obtain i where i: "x = ?P i" "\<forall>l < i. mt_dirty h (?P l)" using coreD(5) [OF assms(1)] unfolding on_chain_def by blast
    have hit: "hit_at eq h (?P i)" using xv i(1) eq unfolding hit_at_def by blast
    then have "\<not> i < j" using j(1) by blast
    then have hj: "hit_at eq h (?P j)" using j(2) i(2) hit by (metis linorder_neqE_nat)
    then obtain w where "holds h (?P j) w" "av_key w = key" using eq unfolding hit_at_def by blast
    then show ?thesis using core_inj [OF assms(1) xv(1)] xv hj Some by auto
  qed
  then show ?thesis using that loop by blast
qed

lemma cmp_key_eq [simp]: "mh_cmp_key_eq key v \<longleftrightarrow> av_key v = key" "mh_cmp_eq v w \<longleftrightarrow> av_key v = av_key w"
  by (auto simp: mh_cmp_key_eq_def mh_cmp_eq_def)

lemma find_ok:
  assumes "core h" and "roomy h"
  obtains x where "mh_assoc_find h key = Some x" and "case mt_look h key of None \<Rightarrow> x = mt_n_buckets h | Some v \<Rightarrow> holds h x v"
  using probe_loop_finds [OF assms, of "mh_cmp_key_eq key" key] unfolding mh_assoc_find_def probe_inc_def Let_def by auto

lemma get_ok:
  assumes "core h" and "roomy h"
  obtains x where "mh_assoc_get h node = Some x" and "case mt_look h (av_key node) of None \<Rightarrow> x = mt_n_buckets h | Some v \<Rightarrow> holds h x v"
proof -
  have "mh_cmp_eq node v \<longleftrightarrow> av_key v = av_key node" for v by auto
  from probe_loop_finds [OF assms this] that show ?thesis unfolding mh_assoc_get_def mh_hash_def probe_inc_def Let_def by blast
qed

section \<open>The slot for a node\<close>

text \<open>The table with the slots of \<open>D\<close> marked dirty.\<close>

definition marked :: "mh_t \<Rightarrow> nat set \<Rightarrow> mh_t \<Rightarrow> bool" where
  "marked h D h' \<longleftrightarrow> (\<exists>b. h' = h\<lparr>mt_b := b\<rparr> \<and> length b = length (mt_b h))
     \<and> (\<forall>x < mt_n_buckets h. mt_exist h' x = mt_exist h x \<and> mt_dirty h' x = (x \<in> D \<or> mt_dirty h x))"

lemma marked_fields:
  assumes "marked h D h'"
  shows "mt_p h' = mt_p h" "mt_n_buckets h' = mt_n_buckets h" "mt_n_dirty h' = mt_n_dirty h" "mt_size h' = mt_size h"
    "mt_upper_bound h' = mt_upper_bound h" "mt_prime h' = mt_prime h" "mt_resize_position h' = mt_resize_position h" "mt_batch h' = mt_batch h"
    "shape h' = shape h"
  using assms unfolding marked_def shape_def by auto

lemma marked_bits:
  assumes "marked h D h'" and "x < mt_n_buckets h"
  shows "mt_exist h' x = mt_exist h x" "mt_dirty h' x = (x \<in> D \<or> mt_dirty h x)"
  using assms unfolding marked_def by blast+

lemma marked_refl: "marked h {} h"
  unfolding marked_def by (intro conjI exI [of _ "mt_b h"]) auto

lemma marked_setdirty:
  assumes "in_bits h i" and "marked (mt_setdirty h i) D h'"
  shows "marked h (insert i D) h'"
proof -
  have "\<exists>b. h' = h\<lparr>mt_b := b\<rparr> \<and> length b = length (mt_b h)" using assms(2) unfolding marked_def mt_setdirty_def by auto
  then show ?thesis using assms(2) unfolding marked_def by (auto simp: set_bits [OF assms(1)])
qed

lemma marked_holds: "marked h D h' \<Longrightarrow> holds h' = holds h"
  by (intro ext) (auto simp: holds_def marked_fields marked_bits)

lemma marked_chain:
  assumes "marked h D h'" and "core h" and "on_chain h key x"
  shows "on_chain h' key x"
  using assms(3) marked_bits(2) [OF assms(1) probe_less [OF coreD(2) [OF assms(2)]]]
  unfolding on_chain_def marked_fields [OF assms(1)] by blast

lemma marked_core:
  assumes "marked h D h'" and "core h"
  shows "core h'"
proof (rule coreI, goal_cases)
  case (2 x)
  then show ?case using coreD(4) [OF assms(2), of x] marked_bits [OF assms(1), of x] by (auto simp: marked_fields [OF assms(1)] holds_def)
qed (use assms coreD(1,5) [OF assms(2)] core_inj [OF assms(2)] marked_chain [OF assms] in \<open>auto simp: marked_fields [OF assms(1)] marked_holds [OF assms(1)]\<close>)

lemma marked_look: "marked h D h' \<Longrightarrow> core h \<Longrightarrow> mt_look h' = mt_look h"
  unfolding mt_look_def mt_nodes_def
  by (intro ext arg_cong [where f = "List.find _"]) (auto simp: List.map_filter_def marked_fields marked_bits intro!: map_cong filter_cong)

lemma marked_roomy:
  assumes "marked h D h'" and "\<forall>x \<in> D. mt_exist h x" and "roomy h"
  shows "roomy h'"
proof -
  have "used h' = used h" using assms(2) marked_bits [OF assms(1)] unfolding used_def marked_fields [OF assms(1)] by auto
  then show ?thesis using assms(3) by (simp add: roomy_def marked_fields [OF assms(1)])
qed

lemma skip_loop_ends:
  assumes "core h" and "\<not> mt_exist h (probe k (mt_n_buckets h) e)" and "d \<le> e"
  shows "\<exists>dup i D h'. skip_loop node (probe_inc k (mt_n_buckets h)) h (probe k (mt_n_buckets h) d) = Some (dup, probe k (mt_n_buckets h) i, h')
     \<and> d \<le> i \<and> marked h D h' \<and> (\<forall>x \<in> D. mt_exist h x)
     \<and> (\<forall>l. d \<le> l \<longrightarrow> l < i \<longrightarrow> probe k (mt_n_buckets h) l \<in> D \<and> \<not> hit_at (mh_cmp_eq node) h (probe k (mt_n_buckets h) l))
     \<and> (if dup then hit_at (mh_cmp_eq node) h (probe k (mt_n_buckets h) i) else \<not> mt_exist h (probe k (mt_n_buckets h) i))"
    (is "?goal h d")
  using assms
proof (induction "e - d" arbitrary: h d)
  case 0
  then have "d = e" by simp
  have "skip_loop node (probe_inc k (mt_n_buckets h)) h (probe k (mt_n_buckets h) d) = Some (False, probe k (mt_n_buckets h) d, h)"
    using coreD(3) [OF 0(2) probe_less [OF coreD(2) [OF 0(2)]]] 0(3) \<open>d = e\<close> by (subst skip_loop.simps) simp
  then show ?case using marked_refl [of h] 0(3) \<open>d = e\<close> by (intro exI [of _ False] exI [of _ d] exI [of _ "{}"] exI [of _ h]) auto
next
  case (Suc m)
  let ?n = "mt_n_buckets h" let ?P = "probe k (mt_n_buckets h)" let ?h = "mt_setdirty h (?P d)"
  note n = coreD(2) [OF Suc(3)] note x = probe_less [OF n, of k d] note ok = coreD(3) [OF Suc(3) x]
  note step = skip_loop.simps [of node "probe_inc k ?n" h "?P d"]
  consider "\<not> mt_exist h (?P d)" | "mt_exist h (?P d)" "hit_at (mh_cmp_eq node) h (?P d)" | "mt_exist h (?P d)" "\<not> hit_at (mh_cmp_eq node) h (?P d)" by blast
  then show ?case
  proof cases
    case 1
    then have "skip_loop node (probe_inc k ?n) h (?P d) = Some (False, ?P d, h)" using ok by (subst step) simp
    then show ?thesis using marked_refl [of h] 1 by (intro exI [of _ False] exI [of _ d] exI [of _ "{}"] exI [of _ h]) auto
  next
    case 2
    then have "skip_loop node (probe_inc k ?n) h (?P d) = Some (True, ?P d, h)"
      using ok by (subst step) (auto simp: hit_at_def holds_def)
    then show ?thesis using marked_refl [of h] 2 by (intro exI [of _ True] exI [of _ d] exI [of _ "{}"] exI [of _ h]) auto
  next
    case 3
    have mk: "marked h {?P d} ?h" using marked_setdirty [OF _ marked_refl] ok by blast
    have "skip_loop node (probe_inc k ?n) h (?P d) = skip_loop node (probe_inc k ?n) ?h (?P (Suc d))"
      using ok 3 coreD(4) [OF Suc(3) x] by (subst step) (auto simp: hit_at_def holds_def next_slot_probe [OF n])
    moreover have "?goal ?h (Suc d)"
      using Suc(2,4,5) by (intro Suc(1) marked_core [OF mk Suc(3)]) (auto simp: marked_bits [OF mk probe_less [OF n]])
    ultimately obtain dup i D h' where g: "skip_loop node (probe_inc k ?n) h (?P d) = Some (dup, ?P i, h')" "Suc d \<le> i" "marked ?h D h'"
      "\<forall>x \<in> D. mt_exist ?h x" "\<forall>l. Suc d \<le> l \<longrightarrow> l < i \<longrightarrow> ?P l \<in> D \<and> \<not> hit_at (mh_cmp_eq node) ?h (?P l)"
      "if dup then hit_at (mh_cmp_eq node) ?h (?P i) else \<not> mt_exist ?h (?P i)"
      unfolding set_fields by (elim exE conjE) (rule that, simp_all only: set_fields)
    have hit: "hit_at (mh_cmp_eq node) ?h = hit_at (mh_cmp_eq node) h" by (intro ext) (simp add: hit_at_def marked_holds [OF mk])
    have "marked h (insert (?P d) D) h'" using marked_setdirty [OF _ g(3)] ok by blast
    moreover have "\<forall>x \<in> insert (?P d) D. mt_exist h x" using g(4) 3(1) ok by (auto simp: set_bits)
    moreover have "\<forall>l. d \<le> l \<longrightarrow> l < i \<longrightarrow> ?P l \<in> insert (?P d) D \<and> \<not> hit_at (mh_cmp_eq node) h (?P l)"
      using g(5) 3(2) unfolding hit by (metis insertCI le_neq_implies_less Suc_leI)
    moreover have "if dup then hit_at (mh_cmp_eq node) h (?P i) else \<not> mt_exist h (?P i)"
      using g(6) marked_bits(1) [OF mk probe_less [OF n]] unfolding hit by (auto split: if_splits)
    ultimately show ?thesis using g(1,2) by (metis Suc_leD)
  qed
qed

lemma dup_loop_ends:
  assumes "core h" and "\<not> mt_dirty h (probe k (mt_n_buckets h) e)" and "d \<le> e"
  shows "\<exists>r. dup_loop node h (probe_inc k (mt_n_buckets h)) (probe k (mt_n_buckets h) d) = Some r
     \<and> (case r of Some x \<Rightarrow> hit_at (mh_cmp_eq node) h x
        | None \<Rightarrow> \<exists>m \<ge> d. \<not> mt_dirty h (probe k (mt_n_buckets h) m) \<and> (\<forall>l. d < l \<longrightarrow> l \<le> m \<longrightarrow> \<not> hit_at (mh_cmp_eq node) h (probe k (mt_n_buckets h) l)))"
    (is "?goal d")
  using assms(3)
proof (induction "e - d" arbitrary: d)
  case 0
  then show ?case using assms(2) coreD(3) [OF assms(1) probe_less [OF coreD(2) [OF assms(1)]]]
    by (subst dup_loop.simps) (auto intro!: exI [of _ d])
next
  case (Suc m)
  let ?n = "mt_n_buckets h" let ?P = "probe k (mt_n_buckets h)"
  note n = coreD(2) [OF assms(1)] note x = probe_less [OF n] note ok = coreD(3) [OF assms(1) x]
  have hit: "slot_hit (\<lambda>v. mh_cmp_eq v node) h (?P l) = Some (hit_at (mh_cmp_eq node) h (?P l))" for l
    using slot_hit_eq [OF assms(1) x] by (auto simp: hit_at_def)
  note step = dup_loop.simps [of node h "probe_inc k ?n" "?P d"]
  consider "\<not> mt_dirty h (?P d)" | "mt_dirty h (?P d)" "hit_at (mh_cmp_eq node) h (?P (Suc d))" | "mt_dirty h (?P d)" "\<not> hit_at (mh_cmp_eq node) h (?P (Suc d))"
    by blast
  then show ?case
  proof cases
    case 3
    have "dup_loop node h (probe_inc k ?n) (?P d) = dup_loop node h (probe_inc k ?n) (?P (Suc d))"
      using ok 3 by (subst step) (simp add: next_slot_probe [OF n] hit Let_def del: cmp_key_eq)
    moreover have "?goal (Suc d)" using Suc by (intro Suc(1)) auto
    ultimately obtain r where r: "dup_loop node h (probe_inc k ?n) (?P d) = Some r" "case r of Some x \<Rightarrow> hit_at (mh_cmp_eq node) h x
        | None \<Rightarrow> \<exists>m \<ge> Suc d. \<not> mt_dirty h (?P m) \<and> (\<forall>l. Suc d < l \<longrightarrow> l \<le> m \<longrightarrow> \<not> hit_at (mh_cmp_eq node) h (?P l))" by auto
    show ?thesis
    proof (cases r)
      case None
      then obtain m where "Suc d \<le> m" "\<not> mt_dirty h (?P m)" "\<forall>l. Suc d < l \<longrightarrow> l \<le> m \<longrightarrow> \<not> hit_at (mh_cmp_eq node) h (?P l)" using r(2) by auto
      then have "\<forall>l. d < l \<longrightarrow> l \<le> m \<longrightarrow> \<not> hit_at (mh_cmp_eq node) h (?P l)" using 3(2) by (metis Suc_leI le_neq_implies_less)
      then show ?thesis using r(1) None \<open>\<not> mt_dirty h (?P m)\<close> \<open>Suc d \<le> m\<close> by (intro exI [of _ r]) (auto intro!: exI [of _ m])
    qed (use r in auto)
  next
    case 1
    then have "dup_loop node h (probe_inc k ?n) (?P d) = Some None" using ok by (subst step) simp
    then show ?thesis using 1 by (auto intro!: exI [of _ d])
  next
    case 2
    then have "dup_loop node h (probe_inc k ?n) (?P d) = Some (Some (?P (Suc d)))" using ok by (subst step) (simp add: next_slot_probe [OF n] hit Let_def del: cmp_key_eq)
    then show ?thesis using 2 by auto
  qed
qed

text \<open>A slot in which a node with the key can be stored.\<close>

definition fits :: "mh_t \<Rightarrow> bytes \<Rightarrow> nat \<Rightarrow> bool" where
  "fits h key x \<longleftrightarrow> x < mt_n_buckets h \<and> on_chain h key x \<and> (\<forall>y w. holds h y w \<longrightarrow> av_key w = key \<longrightarrow> y = x)
     \<and> (\<forall>w. holds h x w \<longrightarrow> av_key w = key)"

lemma fitsD: "fits h key x \<Longrightarrow> x < mt_n_buckets h"
  unfolding fits_def by blast

lemma fits_hit:
  assumes "core h" and "hit_at (mh_cmp_eq node) h x"
  shows "fits h (av_key node) x"
proof -
  obtain w where w: "holds h x w" "av_key w = av_key node" using assms(2) by (auto simp: hit_at_def)
  then have "x < mt_n_buckets h" "on_chain h (av_key node) x" using coreD(5) [OF assms(1) w(1)] by (simp_all add: holds_def)
  moreover have "y = x" if "holds h y w'" "av_key w' = av_key node" for y w' using core_inj [OF assms(1) that(1) w(1)] that(2) w(2) by simp
  moreover have "w' = w" if "holds h x w'" for w' using that w(1) by (simp add: holds_def)
  ultimately show ?thesis using w(2) unfolding fits_def by blast
qed

lemma fits_free:
  assumes "core h" and "\<not> mt_exist h (probe (mh_hash_key key) (mt_n_buckets h) i)"
    and "\<forall>l < i. mt_dirty h (probe (mh_hash_key key) (mt_n_buckets h) l) \<and> \<not> hit_at (\<lambda>v. av_key v = key) h (probe (mh_hash_key key) (mt_n_buckets h) l)"
    and "\<not> mt_dirty h (probe (mh_hash_key key) (mt_n_buckets h) m)"
    and "\<forall>l. i < l \<longrightarrow> l \<le> m \<longrightarrow> \<not> hit_at (\<lambda>v. av_key v = key) h (probe (mh_hash_key key) (mt_n_buckets h) l)"
  shows "fits h key (probe (mh_hash_key key) (mt_n_buckets h) i)"
proof -
  let ?P = "probe (mh_hash_key key) (mt_n_buckets h)"
  have no: False if w: "holds h y w" "av_key w = key" for y w
  proof -
    obtain c where c: "y = ?P c" "\<forall>l < c. mt_dirty h (?P l)" using coreD(5) [OF assms(1) w(1)] w(2) unfolding on_chain_def by blast
    have hit: "hit_at (\<lambda>v. av_key v = key) h (?P c)" using w c(1) unfolding hit_at_def by blast
    have "c \<noteq> i" using w(1) c(1) assms(2) by (auto simp: holds_def)
    moreover have "\<not> c < i" using assms(3) hit by blast
    moreover have "\<not> m < c" using assms(4) c(2) by blast
    ultimately show False using assms(5) hit by (metis linorder_neqE_nat not_less)
  qed
  have "on_chain h key (?P i)" using assms(3) unfolding on_chain_def by blast
  moreover have "\<not> holds h (?P i) w" for w using assms(2) by (simp add: holds_def)
  ultimately show ?thesis using no probe_less [OF coreD(2) [OF assms(1)]] unfolding fits_def by blast
qed

lemma put_slot_ok:
  assumes "core h" and "roomy h"
  obtains x D h' where "mh_assoc_put_slot h node = Some (x, h')" "marked h D h'" "\<forall>y \<in> D. mt_exist h y" "fits h' (av_key node) x"
proof -
  let ?k = "mh_hash_key (av_key node)" let ?n = "mt_n_buckets h" let ?P = "probe ?k ?n"
  have cmp: "mh_cmp_eq node = (\<lambda>v. av_key v = av_key node)" by (intro ext) auto
  obtain e where e: "\<not> mt_exist h (?P (0 + e))" using roomy_clean [OF assms(2,1), of ?k 0] by blast
  obtain dup i D h' where s: "skip_loop node (probe_inc ?k ?n) h (?P 0) = Some (dup, ?P i, h')" "marked h D h'" "\<forall>y \<in> D. mt_exist h y"
    "\<forall>l. l < i \<longrightarrow> ?P l \<in> D \<and> \<not> hit_at (mh_cmp_eq node) h (?P l)" "if dup then hit_at (mh_cmp_eq node) h (?P i) else \<not> mt_exist h (?P i)"
    using skip_loop_ends [OF assms(1), of ?k e 0 node] e by auto
  note core' = marked_core [OF s(2) assms(1)] and roomy' = marked_roomy [OF s(2,3) assms(2)] and f = marked_fields [OF s(2)]
  note bits = marked_bits [OF s(2) probe_less [OF coreD(2) [OF assms(1)]]]
  have hit: "hit_at eq h' = hit_at eq h" for eq by (intro ext) (simp add: hit_at_def marked_holds [OF s(2)])
  have put: "mh_assoc_put_slot h node = (if dup then Some (?P i, h') else do {
       d \<leftarrow> dup_loop node h' (probe_inc ?k ?n) (?P i);
       Some (case d of Some j \<Rightarrow> j | None \<Rightarrow> ?P i, h') })"
    using s(1) by (simp add: mh_assoc_put_slot_def mh_hash_def probe_inc_def Let_def)
  show ?thesis
  proof (cases dup)
    case True
    then show ?thesis using that [OF _ s(2,3), of "?P i"] put fits_hit [OF core', of node "?P i"] s(5) hit by simp
  next
    case False
    obtain e' where "\<not> mt_dirty h' (?P (i + e'))" using roomy_clean [OF roomy' core', of ?k i] f(2) by auto
    then obtain r where r: "dup_loop node h' (probe_inc ?k ?n) (?P i) = Some r" "case r of Some x \<Rightarrow> hit_at (mh_cmp_eq node) h' x
        | None \<Rightarrow> \<exists>m \<ge> i. \<not> mt_dirty h' (?P m) \<and> (\<forall>l. i < l \<longrightarrow> l \<le> m \<longrightarrow> \<not> hit_at (mh_cmp_eq node) h' (?P l))"
      using dup_loop_ends [OF core', of ?k "i + e'" i node] unfolding f(2) by auto
    show ?thesis
    proof (cases r)
      case (Some x)
      then show ?thesis using that [OF _ s(2,3), of x] put r False fits_hit [OF core', of node x] by simp
    next
      case None
      then obtain m where m: "\<not> mt_dirty h' (?P m)" "\<forall>l. i < l \<longrightarrow> l \<le> m \<longrightarrow> \<not> hit_at (mh_cmp_eq node) h' (?P l)" using r(2) by auto
      have "fits h' (av_key node) (?P i)"
        using fits_free [OF core', of "av_key node" i m] s(4,5) False m bits unfolding f(2) hit cmp by simp
      then show ?thesis using that [OF _ s(2,3), of "?P i"] put r(1) False None by simp
    qed
  qed
qed

section \<open>Storing and deleting\<close>

definition stored :: "mh_t \<Rightarrow> nat \<Rightarrow> assoc_val \<Rightarrow> mh_t \<Rightarrow> bool" where
  "stored h x node h' \<longleftrightarrow> mt_p h' = (mt_p h)[x := Some node] \<and> mt_n_buckets h' = mt_n_buckets h \<and> length (mt_b h') = length (mt_b h)
     \<and> (\<forall>y < mt_n_buckets h. mt_exist h' y = (y = x \<or> mt_exist h y) \<and> mt_dirty h' y = mt_dirty h y)"

lemma on_chain_cong:
  assumes "core h" and "mt_n_buckets h' = mt_n_buckets h" and "\<forall>y < mt_n_buckets h. mt_dirty h' y = mt_dirty h y"
  shows "on_chain h' key x = on_chain h key x"
  using assms(3) probe_less [OF coreD(2) [OF assms(1)]] unfolding on_chain_def assms(2) by simp

lemma stored_ok:
  assumes "core h" and "fits h (av_key node) x" and "stored h x node h'"
  shows "core h'" "mt_look h' = (mt_look h)(av_key node \<mapsto> node)" "used h' = insert x (used h)" "holds h' y v \<longleftrightarrow> (if y = x then v = node else holds h y v)"
proof -
  note s = assms(3) [unfolded stored_def] 
  have fit: "x < mt_n_buckets h" "on_chain h (av_key node) x" and same: "holds h y w \<Longrightarrow> av_key w = av_key node \<Longrightarrow> y = x"
    and at_x: "holds h x w \<Longrightarrow> av_key w = av_key node" for y w using assms(2) unfolding fits_def by blast+
  have len: "length (mt_p h) = mt_n_buckets h" using coreD(1) [OF assms(1)] by (simp add: shape_def)
  have hd: "holds h' y v \<longleftrightarrow> (if y = x then v = node else holds h y v)" for y v
    using s fit len by (auto simp: holds_def)
  then show "holds h' y v \<longleftrightarrow> (if y = x then v = node else holds h y v)" .
  have ch: "on_chain h' = on_chain h" using on_chain_cong [OF assms(1), of h'] s by (intro ext) blast
  show c: "core h'"
  proof (rule coreI, goal_cases)
    case 1
    then show ?case using coreD(1) [OF assms(1)] s by (simp add: shape_def)
  next
    case (2 y)
    then show ?case using coreD(4) [OF assms(1), of y] s len by (cases "y = x") (auto simp: holds_def)
  next
    case (3 y v)
    from 3 [unfolded hd] show ?case using fit coreD(5) [OF assms(1), of y v] unfolding ch by (cases "y = x") simp_all
  next
    case (4 y z v w)
    note a = 4 [unfolded hd]
    have "y = x" if "z = x" using a that same [of y v] by metis
    moreover have "z = x" if "y = x" using a that same [of z w] by metis
    ultimately show ?case using a core_inj [OF assms(1), of y v z w] by (metis (full_types))
  qed
  show "mt_look h' = (mt_look h)(av_key node \<mapsto> node)"
  proof
    fix key
    show "mt_look h' key = ((mt_look h)(av_key node \<mapsto> node)) key"
    proof (cases "key = av_key node")
      case True
      then show ?thesis using look_Some [OF c, of key node] hd by auto
    next
      case False
      have "mt_look h' key = Some v \<longleftrightarrow> mt_look h key = Some v" for v
        unfolding look_Some [OF c] look_Some [OF assms(1)] hd using False at_x by metis
      then have "mt_look h' key = mt_look h key" by (metis option.exhaust)
      then show ?thesis using False by simp
    qed
  qed
  show "used h' = insert x (used h)" using s fit unfolding used_def by auto
qed

definition hdr :: "mh_t \<Rightarrow> nat \<times> nat \<times> nat \<times> nat \<times> nat" where
  "hdr h = (mt_n_buckets h, mt_upper_bound h, mt_prime h, mt_resize_position h, mt_batch h)"

lemma hdrD: "hdr h = hdr h' \<Longrightarrow> mt_n_buckets h = mt_n_buckets h' \<and> mt_upper_bound h = mt_upper_bound h' \<and> mt_prime h = mt_prime h'
     \<and> mt_resize_position h = mt_resize_position h' \<and> mt_batch h = mt_batch h'"
  by (simp add: hdr_def)

text \<open>The table \<open>h'\<close> is \<open>h\<close> with the node.\<close>

definition took :: "mh_t \<Rightarrow> assoc_val \<Rightarrow> mh_t \<Rightarrow> bool" where
  "took h node h' \<longleftrightarrow> core h' \<and> mt_look h' = (mt_look h)(av_key node \<mapsto> node) \<and> hdr h' = hdr h
     \<and> card (used h') \<le> mt_n_dirty h' \<and> mt_n_dirty h' \<le> mt_n_dirty h + 1 \<and> mt_size h \<le> mt_size h' \<and> mt_size h' \<le> mt_size h + 1
     \<and> (\<forall>y v. holds h' y v \<longrightarrow> v = node \<or> holds h y v \<and> av_key v \<noteq> av_key node)"

lemma tookI:
  assumes "core h" and "marked h D h1" and "\<forall>y \<in> D. mt_exist h y" and "card (used h) \<le> mt_n_dirty h" and fit: "fits h1 (av_key node) x"
    and st: "stored h1 x node h2" and "hdr h2 = hdr h1" and "mt_size h1 \<le> mt_size h2" "mt_size h2 \<le> mt_size h1 + 1"
    and "mt_n_dirty h2 = (if x \<in> used h1 then mt_n_dirty h1 else mt_n_dirty h1 + 1) \<or> mt_n_dirty h2 = mt_n_dirty h1 + 1"
  shows "took h node h2"
proof -
  note c1 = marked_core [OF assms(2,1)] note f = marked_fields [OF assms(2)] note ok = stored_ok [OF c1 fit st]
  have "used h1 = used h" using assms(3) marked_bits [OF assms(2)] unfolding used_def f by auto
  then have "card (used h2) \<le> mt_n_dirty h2" using assms(4,10) by (auto simp: ok(3) f card_insert_if)
  moreover have "v = node \<or> holds h y v \<and> av_key v \<noteq> av_key node" if "holds h2 y v" for y v
    using that fit marked_holds [OF assms(2)] unfolding ok(4) fits_def by (metis (full_types))
  moreover have "hdr h1 = hdr h" by (simp add: hdr_def f)
  ultimately show ?thesis unfolding took_def using ok(1,2) marked_look [OF assms(2,1)] assms(7-10) f by (auto split: if_splits)
qed

lemma put_at_took:
  assumes "core h" and "roomy h"
  obtains x h1 where "mh_assoc_put_slot h node = Some (x, h1)" "x < mt_n_buckets h" "took h node (put_at h1 x node)" "holds (put_at h1 x node) x node"
    "mt_size (put_at h1 x node) = (if mt_look h (av_key node) = None then mt_size h + 1 else mt_size h)"
proof -
  obtain x D h1 where s: "mh_assoc_put_slot h node = Some (x, h1)" "marked h D h1" "\<forall>y \<in> D. mt_exist h y" "fits h1 (av_key node) x"
    by (rule put_slot_ok [OF assms]) (rule that)
  note c1 = marked_core [OF s(2) assms(1)] note f = marked_fields [OF s(2)]
  have x: "x < mt_n_buckets h" "x < mt_n_buckets h1" "in_bits h1 x" using fitsD [OF s(4)] coreD(3) [OF c1, of x] f by simp_all
  let ?h2 = "put_at h1 x node"
  have st: "stored h1 x node ?h2" using x(3) by (auto simp: stored_def put_at_def Let_def set_bits)
  have h: "hdr ?h2 = hdr h1" by (simp add: hdr_def put_at_def Let_def mt_setexist_def)
  have nd: "mt_n_dirty ?h2 = (if x \<in> used h1 then mt_n_dirty h1 else mt_n_dirty h1 + 1)"
    using x(2) by (auto simp: put_at_def Let_def used_def mt_setexist_def)
  have sz: "mt_size h1 \<le> mt_size ?h2" "mt_size ?h2 \<le> mt_size h1 + 1" by (simp_all add: put_at_def Let_def mt_setexist_def)
  have "took h node ?h2"
    by (rule tookI [OF assms(1) s(2,3) _ s(4) st h sz]) (use assms(2) nd in \<open>simp_all add: roomy_def\<close>)
  moreover have "holds ?h2 x node" using stored_ok(4) [OF c1 s(4) st] by simp
  moreover have "mt_exist h1 x \<longleftrightarrow> mt_look h (av_key node) \<noteq> None"
  proof -
    have "mt_exist h1 x \<longleftrightarrow> (\<exists>y w. holds h1 y w \<and> av_key w = av_key node)"
      using coreD(4) [OF c1 x(2)] s(4) unfolding fits_def holds_def by blast
    then show ?thesis unfolding marked_holds [OF s(2)] look_None by simp
  qed
  then have "mt_size ?h2 = (if mt_look h (av_key node) = None then mt_size h + 1 else mt_size h)"
    by (simp add: put_at_def Let_def mt_setexist_def f)
  ultimately show ?thesis using that [OF s(1) x(1)] by blast
qed

text \<open>What \<open>resize\<close> writes into the shadow.\<close>

lemma move_took:
  assumes "core h" and "roomy h"
  obtains x h1 where "mh_assoc_put_slot h v = Some (x, h1)"
    "took h v ((mt_setexist (h1\<lparr>mt_p := (mt_p h1)[x := Some v]\<rparr>) x)\<lparr>mt_n_dirty := mt_n_dirty h1 + 1\<rparr>)" "mt_size h1 = mt_size h"
proof -
  obtain x D h1 where s: "mh_assoc_put_slot h v = Some (x, h1)" "marked h D h1" "\<forall>y \<in> D. mt_exist h y" "fits h1 (av_key v) x"
    by (rule put_slot_ok [OF assms]) (rule that)
  note c1 = marked_core [OF s(2) assms(1)] note f = marked_fields [OF s(2)]
  let ?h = "h1\<lparr>mt_p := (mt_p h1)[x := Some v]\<rparr>" let ?h2 = "(mt_setexist ?h x)\<lparr>mt_n_dirty := mt_n_dirty h1 + 1\<rparr>"
  have x: "in_bits ?h x" using coreD(3) [OF c1 fitsD [OF s(4)]] by (simp add: in_bits_def)
  have st: "stored h1 x v ?h2" using x by (auto simp: stored_def set_bits)
  have h: "hdr ?h2 = hdr h1" "mt_size ?h2 = mt_size h1" "mt_n_dirty ?h2 = mt_n_dirty h1 + 1" by (simp_all add: hdr_def mt_setexist_def)
  have "took h v ?h2"
    by (rule tookI [OF assms(1) s(2,3) _ s(4) st h(1)]) (use assms(2) h in \<open>simp_all add: roomy_def\<close>)
  then show ?thesis using that [OF s(1)] f by blast
qed

text \<open>The table \<open>h'\<close> is \<open>h\<close> without the node.\<close>

definition lost :: "mh_t \<Rightarrow> bytes \<Rightarrow> mh_t \<Rightarrow> bool" where
  "lost h key h' \<longleftrightarrow> core h' \<and> mt_look h' = (mt_look h)(key := None) \<and> hdr h' = hdr h
     \<and> card (used h') \<le> mt_n_dirty h' \<and> mt_n_dirty h' \<le> mt_n_dirty h \<and> mt_size h' \<le> mt_size h
     \<and> (\<forall>y v. holds h' y v \<longrightarrow> holds h y v \<and> av_key v \<noteq> key)"

lemma lost_refl: "core h \<Longrightarrow> card (used h) \<le> mt_n_dirty h \<Longrightarrow> mt_look h key = None \<Longrightarrow> lost h key h"
  unfolding lost_def using look_None [of h key] by auto

lemma del_at_lost:
  assumes "core h" and "card (used h) \<le> mt_n_dirty h" and xv: "holds h x v"
  shows "lost h (av_key v) (del_at h x)"
proof -
  let ?h = "del_at h x"
  have x: "x < mt_n_buckets h" "in_bits h x" "mt_exist h x" using xv coreD(3) [OF assms(1), of x] by (auto simp: holds_def)
  have e: "mt_exist ?h y \<longleftrightarrow> x \<noteq> y \<and> mt_exist h y" and d: "mt_dirty ?h y \<longleftrightarrow> mt_dirty h y" for y
    using x(2) by (auto simp: del_at_def set_bits)
  have f: "mt_p ?h = mt_p h" "mt_n_buckets ?h = mt_n_buckets h" "hdr ?h = hdr h" "shape ?h = shape h" "mt_size ?h \<le> mt_size h"
    by (auto simp: del_at_def hdr_def shape_def mt_setfree_def)
  have hd: "holds ?h y w \<longleftrightarrow> x \<noteq> y \<and> holds h y w" for y w by (auto simp: holds_def e f)
  have ch: "on_chain ?h = on_chain h" using on_chain_cong [OF assms(1), of ?h] f d by (intro ext) blast
  have c: "core ?h"
  proof (rule coreI, goal_cases)
    case (2 y)
    then show ?case using coreD(4) [OF assms(1), of y] by (auto simp: e f holds_def)
  qed (use coreD(1,5) [OF assms(1)] core_inj [OF assms(1)] in \<open>auto simp: f ch hd\<close>)
  have key: "av_key w \<noteq> av_key v" if "holds ?h y w" for y w using core_inj [OF assms(1) _ xv, of y w] that unfolding hd by blast
  have "mt_look ?h = (mt_look h)(av_key v := None)"
  proof
    fix key
    show "mt_look ?h key = ((mt_look h)(av_key v := None)) key"
    proof (cases "key = av_key v")
      case True
      then show ?thesis using look_None [of ?h key] key by simp
    next
      case False
      have "x \<noteq> y" if "holds h y w" "av_key w = key" for y w using that xv False by (auto simp: holds_def)
      then have "mt_look ?h key = Some w \<longleftrightarrow> mt_look h key = Some w" for w
        unfolding look_Some [OF c] look_Some [OF assms(1)] hd by blast
      then have "mt_look ?h key = mt_look h key" by (metis option.exhaust)
      then show ?thesis using False by simp
    qed
  qed
  moreover have "used ?h = (if mt_dirty h x then used h else used h - {x})" using x by (auto simp: used_def e d f)
  then have "card (used ?h) \<le> mt_n_dirty ?h"
    using assms(2) x by (auto simp: del_at_def used_def card_Diff_singleton_if split: if_splits)
  moreover have "mt_n_dirty ?h \<le> mt_n_dirty h" by (simp add: del_at_def)
  ultimately show ?thesis unfolding lost_def using c f key hd by blast
qed

section \<open>Counting the nodes\<close>

lemma look_dom: "core h \<Longrightarrow> dom (mt_look h) = (\<lambda>x. av_key (the (mt_p h ! x))) ` {x. \<exists>v. holds h x v}"
  unfolding dom_def look_Some by (force simp: look_Some holds_def)

lemma look_count:
  assumes "core h"
  shows "finite (dom (mt_look h))" "card (dom (mt_look h)) \<le> card (used h)"
proof -
  have u: "{x. \<exists>v. holds h x v} \<subseteq> used h" by (auto simp: holds_def used_def)
  then have f: "finite {x. \<exists>v. holds h x v}" by (rule finite_subset) simp
  show "finite (dom (mt_look h))" unfolding look_dom [OF assms] using f by simp
  show "card (dom (mt_look h)) \<le> card (used h)"
    unfolding look_dom [OF assms] by (rule le_trans [OF card_image_le [OF f] card_mono [OF used_finite(1) u]])
qed

end
