(* ===== verification/Tnt_Mhash_Map.thy ===== *)
theory Tnt_Mhash_Map
  imports Tnt_Mhash_Spec
begin

text \<open>
  The hash table with its shadow, the table it is moving to, is a finite map: whatever the state of a resize, the operations end, never
  step outside an array and act as the update of a map.  Under \<open>bounded_allocator\<close> it provides \<open>assoc_table\<close>, the contract of the schema
  cache, and \<open>assoc_stable\<close> while no resize is under way.  Under \<open>granting_allocator\<close>, where blocks below 16 MiB are granted, it also
  provides \<open>assoc_room\<close>: \<open>mh_left\<close> counts the insertions that will still succeed.
\<close>

section \<open>Moving the nodes\<close>

text \<open>Neither map nor shape depend on the other fields.\<close>

lemma fields_other [simp]:
  "holds (h\<lparr>mt_size := a0\<rparr>) = holds h" "core (h\<lparr>mt_size := a0\<rparr>) = core h" "used (h\<lparr>mt_size := a0\<rparr>) = used h" "mt_look (h\<lparr>mt_size := a0\<rparr>) = mt_look h"
  "holds (h\<lparr>mt_prime := a1\<rparr>) = holds h" "core (h\<lparr>mt_prime := a1\<rparr>) = core h" "used (h\<lparr>mt_prime := a1\<rparr>) = used h" "mt_look (h\<lparr>mt_prime := a1\<rparr>) = mt_look h"
  "holds (h\<lparr>mt_resize_cnt := a2\<rparr>) = holds h" "core (h\<lparr>mt_resize_cnt := a2\<rparr>) = core h" "used (h\<lparr>mt_resize_cnt := a2\<rparr>) = used h" "mt_look (h\<lparr>mt_resize_cnt := a2\<rparr>) = mt_look h"
  "holds (h\<lparr>mt_resize_position := a3\<rparr>) = holds h" "core (h\<lparr>mt_resize_position := a3\<rparr>) = core h" "used (h\<lparr>mt_resize_position := a3\<rparr>) = used h" "mt_look (h\<lparr>mt_resize_position := a3\<rparr>) = mt_look h"
  "holds (h\<lparr>mt_batch := a4\<rparr>) = holds h" "core (h\<lparr>mt_batch := a4\<rparr>) = core h" "used (h\<lparr>mt_batch := a4\<rparr>) = used h" "mt_look (h\<lparr>mt_batch := a4\<rparr>) = mt_look h"
  by (simp_all add: fun_eq_iff holds_def core_def shape_def on_chain_def used_def mt_look_def mt_nodes_def cong: if_cong)

text \<open>The slots below \<open>r\<close> have been moved, and \<open>c\<close> nodes inserted meanwhile.\<close>

definition moving :: "mh_t \<Rightarrow> mh_t \<Rightarrow> nat \<Rightarrow> nat \<Rightarrow> bool" where
  "moving h s r c \<longleftrightarrow> core s \<and> card (used s) \<le> mt_n_dirty s \<and> mt_n_dirty s \<le> r + c \<and> mt_look s \<subseteq>\<^sub>m mt_look h
     \<and> (\<forall>x v. x < r \<longrightarrow> holds h x v \<longrightarrow> mt_look s (av_key v) = Some v)"

lemma moving_skip: "moving h s r c \<Longrightarrow> \<not> mt_exist h r \<Longrightarrow> moving h s (Suc r) c"
  unfolding moving_def by (auto simp: less_Suc_eq holds_def)

lemma moving_move:
  assumes "moving h s r c" and "core h" and "holds h r v" and "took s v s'"
  shows "moving h s' (Suc r) c"
proof -
  have l: "mt_look s' = (mt_look s)(av_key v \<mapsto> v)" using assms(4) by (simp add: took_def)
  have "mt_look h (av_key v) = Some v" using look_Some [OF assms(2)] assms(3) by blast
  then have "mt_look s' \<subseteq>\<^sub>m mt_look h" using assms(1) unfolding l moving_def map_le_def by (auto split: if_splits)
  moreover have "mt_look s' (av_key w) = Some w" if "x < Suc r" "holds h x w" for x w
  proof (cases "x = r")
    case True
    then show ?thesis using that(2) assms(3) by (simp add: l holds_def)
  next
    case False
    then have "x < r" using that(1) by simp
    then have "mt_look s (av_key w) = Some w" using assms(1) that(2) unfolding moving_def by blast
    moreover have "w = v" if "av_key w = av_key v" using core_inj [OF assms(2) \<open>holds h x w\<close> assms(3) that] by simp
    ultimately show ?thesis by (auto simp: l)
  qed
  moreover have "core s'" "card (used s') \<le> mt_n_dirty s'" "mt_n_dirty s' \<le> Suc r + c" using assms(1,4) by (auto simp: took_def moving_def)
  ultimately show ?thesis unfolding moving_def by blast
qed

declare resize_loop.simps [simp del]

lemma resize_loop_ok:
  assumes "core h" and "moving h s i c" and "i \<le> mt_n_buckets h" and "mt_n_buckets h + c < mt_n_buckets s"
  shows "\<exists>s'. hdr s' = hdr s \<and> mt_size s' = mt_size s \<and> (if i + b < mt_n_buckets h
     then resize_loop h s b i = Some (Some (i + b), s') \<and> moving h s' (i + b) c
     else resize_loop h s b i = Some (None, s') \<and> moving h s' (mt_n_buckets h) c)"
    (is "?goal s b i")
  using assms(2-4)
proof (induction "mt_n_buckets h - i" arbitrary: s b i)
  case 0
  then show ?case by (intro exI [of _ s]) (simp add: resize_loop.simps [of h s b i])
next
  case (Suc m)
  note step = resize_loop.simps [of h s b i]
  have i: "i < mt_n_buckets h" "m = mt_n_buckets h - Suc i" using Suc(2) by simp_all
  note ok = coreD(3) [OF assms(1) i(1)]
  show ?case
  proof (cases b)
    case 0
    then show ?thesis using i Suc(3) by (intro exI [of _ s]) (subst step, simp)
  next
    case (Suc b')
    then have ib: "i + b = Suc i + b'" by simp
    show ?thesis
    proof (cases "mt_exist h i")
      case False
      have "?goal s b' (Suc i)" using Suc.prems i moving_skip [OF _ False] by (intro Suc.hyps(1)) auto
      moreover have "resize_loop h s b i = resize_loop h s b' (Suc i)" using False ok i Suc by (subst step) simp
      ultimately show ?thesis unfolding ib by (simp only:)
    next
      case True
      obtain v where v: "holds h i v" using coreD(4) [OF assms(1) i(1) True] by blast
      have cs: "core s" "roomy s" using Suc.prems i by (auto simp: moving_def roomy_def)
      obtain x s1 where x: "mh_assoc_put_slot s v = Some (x, s1)"
        "took s v ((mt_setexist (s1\<lparr>mt_p := (mt_p s1)[x := Some v]\<rparr>) x)\<lparr>mt_n_dirty := mt_n_dirty s1 + 1\<rparr>)" "mt_size s1 = mt_size s"
        by (rule move_took [OF cs]) (rule that)
      let ?s = "(mt_setexist (s1\<lparr>mt_p := (mt_p s1)[x := Some v]\<rparr>) x)\<lparr>mt_n_dirty := mt_n_dirty s1 + 1\<rparr>"
      have hd: "hdr ?s = hdr s" "mt_size ?s = mt_size s" using x(2,3) by (simp_all add: took_def mt_setexist_def)
      have "?goal ?s b' (Suc i)"
        using Suc.prems i moving_move [OF Suc.prems(1) assms(1) v x(2)] hdrD [OF hd(1)] by (intro Suc.hyps(1)) auto
      moreover have "resize_loop h s b i = resize_loop h ?s b' (Suc i)" using True ok i Suc x(1) v by (subst step) (simp add: holds_def)
      ultimately show ?thesis unfolding ib using hd by (simp only:)
    qed
  qed
qed

text \<open>All slots moved, both tables stand for the same map.\<close>

lemma moving_done:
  assumes "core h" and "moving h s (mt_n_buckets h) c"
  shows "mt_look s = mt_look h"
proof (rule map_le_antisym)
  show "mt_look s \<subseteq>\<^sub>m mt_look h" using assms(2) by (simp add: moving_def)
  show "mt_look h \<subseteq>\<^sub>m mt_look s"
    using assms(2) look_Some [OF assms(1)] unfolding moving_def map_le_def by (metis domD holds_def)
qed

lemma moving_put:
  assumes "moving h s r c" and "took h node h'" and "took s node s'"
  shows "moving h' s' r (Suc c)"
proof -
  have l: "mt_look h' = (mt_look h)(av_key node \<mapsto> node)" "mt_look s' = (mt_look s)(av_key node \<mapsto> node)" using assms(2,3) by (simp_all add: took_def)
  have "mt_look s' (av_key v) = Some v" if "x < r" "holds h' x v" for x v
    using that assms(1,2) unfolding took_def moving_def l(2) by (metis fun_upd_apply)
  moreover have "mt_look s' \<subseteq>\<^sub>m mt_look h'" using assms(1) unfolding l moving_def by (auto intro: map_le_upd)
  moreover have "core s'" "card (used s') \<le> mt_n_dirty s'" "mt_n_dirty s' \<le> r + Suc c" using assms(1,3) by (auto simp: took_def moving_def)
  ultimately show ?thesis unfolding moving_def by blast
qed

lemma moving_del:
  assumes "moving h s r c" and "lost h key h'" and "lost s key s'"
  shows "moving h' s' r c"
proof -
  have l: "mt_look h' = (mt_look h)(key := None)" "mt_look s' = (mt_look s)(key := None)" using assms(2,3) by (simp_all add: lost_def)
  have "mt_look s' (av_key v) = Some v" if "x < r" "holds h' x v" for x v
    using that assms(1,2) unfolding lost_def moving_def l(2) by (metis fun_upd_apply)
  moreover have "mt_look s' \<subseteq>\<^sub>m mt_look h'" using assms(1) unfolding l moving_def map_le_def by (auto split: if_splits)
  moreover have "core s'" "card (used s') \<le> mt_n_dirty s'" "mt_n_dirty s' \<le> r + c" using assms(1,3) by (auto simp: lost_def moving_def)
  ultimately show ?thesis unfolding moving_def by blast
qed

section \<open>The invariant\<close>

lemma grow_step:
  assumes "i < 18"
  shows "ac_prime_list ! i + ac_prime_list ! i div 256 + 1 \<le> mh_density (ac_prime_list ! Suc i) \<and> mh_density (ac_prime_list ! Suc i) < ac_prime_list ! Suc i"
proof -
  have "[0..<18] = [0, 1, 2, 3, 4, 5, 6, 7, 8, 9, 10, 11, 12, 13, 14, 15, 16, 17 :: nat]" by (simp add: upt_rec)
  moreover have "i \<in> set [0..<18]" using assms by simp
  ultimately have "i \<in> set [0, 1, 2, 3, 4, 5, 6, 7, 8, 9, 10, 11, 12, 13, 14, 15, 16, 17]" by metis
  then show ?thesis by (auto simp: ac_prime_list_def mh_density_def)
qed

lemma dense_room:
  assumes "n \<in> slot_counts"
  shows "mh_density n + n div 256 < n"
  using assms unfolding slot_counts_def by (auto simp: ac_prime_list_def mh_density_def)

text \<open>A table with room for \<open>d\<close> more nodes, of which \<open>c\<close> may exceed the density.\<close>

definition tidy :: "nat \<Rightarrow> mh_t \<Rightarrow> nat \<Rightarrow> bool" where
  "tidy d h c \<longleftrightarrow> core h \<and> card (used h) \<le> mt_n_dirty h \<and> mt_n_dirty h + d \<le> mh_density (mt_n_buckets h) + c
     \<and> mt_size h = card (dom (mt_look h)) \<and> mt_upper_bound h = mh_density (mt_n_buckets h)"

definition growing :: "mh_t \<Rightarrow> mh_t \<Rightarrow> nat \<Rightarrow> nat \<Rightarrow> nat \<Rightarrow> bool" where
  "growing h s i r c \<longleftrightarrow> i < 18 \<and> mt_n_buckets h = ac_prime_list ! i \<and> 256 \<le> mt_batch h \<and> r < mt_n_buckets h \<and> moving h s r c
     \<and> mt_n_buckets s = ac_prime_list ! Suc i \<and> mt_upper_bound s = mh_density (mt_n_buckets s) \<and> mt_prime s = Suc i \<and> mt_resize_position s = 0
     \<and> mt_size s \<le> mt_n_buckets h + c"

definition mstate :: "nat \<Rightarrow> mhash \<Rightarrow> bool" where
  "mstate d hs \<longleftrightarrow> tidy d (mh_h hs) (mt_resize_position (mh_h hs) div 256)
     \<and> (\<exists>i < 19. mt_n_buckets (mh_h hs) = ac_prime_list ! i
          \<and> (if mt_resize_position (mh_h hs) = 0 then mt_prime (mh_h hs) = i \<or> mt_prime (mh_h hs) = Suc i
             else \<exists>c. c + d \<le> mt_resize_position (mh_h hs) div 256 \<and> growing (mh_h hs) (mh_shadow hs) i (mt_resize_position (mh_h hs)) c))"

definition minv :: "mhash \<Rightarrow> bool" where
  "minv hs \<longleftrightarrow> mstate 0 hs"

definition mh_look :: "mhash \<Rightarrow> bytes \<Rightarrow> assoc_val option" where
  "mh_look hs = mt_look (mh_h hs)"

lemma mstate_growI:
  assumes "tidy d h (r div 256)" and "mt_resize_position h = r" and "r \<noteq> 0" and "growing h s i r c" and "c + d \<le> r div 256"
  shows "mstate d \<lparr>mh_h = h, mh_shadow = s\<rparr>"
proof -
  have "i < 19" "mt_n_buckets h = ac_prime_list ! i" using assms(4) by (simp_all add: growing_def)
  then show ?thesis unfolding mstate_def using assms by auto
qed

lemma mstate_restI:
  assumes "tidy d h 0" and "mt_resize_position h = 0" and "i < 19" and "mt_n_buckets h = ac_prime_list ! i" and "mt_prime h = i \<or> mt_prime h = Suc i"
  shows "mstate d \<lparr>mh_h = h, mh_shadow = s\<rparr>"
  unfolding mstate_def using assms by auto

lemma tidy_roomy:
  assumes "tidy d h c" and "c \<le> mt_n_buckets h div 256"
  shows "core h" "roomy h" "mt_size h < mt_n_buckets h"
proof -
  show c: "core h" using assms(1) by (simp add: tidy_def)
  show "roomy h" "mt_size h < mt_n_buckets h"
    using assms dense_room [OF coreD(2) [OF c]] look_count(2) [OF c] by (auto simp: tidy_def roomy_def)
qed

lemma growing_roomy:
  assumes "growing h s i r c" and "c \<le> r div 256"
  shows "core s" "roomy s" "mt_n_dirty s < mt_upper_bound s" "mt_size s < mt_n_buckets s" "mt_n_buckets h + c < mt_n_buckets s"
proof -
  note g = assms(1) [unfolded growing_def moving_def]
  show "core s" using g by blast
  have "r div 256 \<le> mt_n_buckets h div 256" using g by (intro div_le_mono) simp
  then have c: "c \<le> mt_n_buckets h div 256" using assms(2) by linarith
  note st = grow_step [of i]
  show "mt_n_dirty s < mt_upper_bound s" "mt_size s < mt_n_buckets s" "mt_n_buckets h + c < mt_n_buckets s" using g st c by auto
  then show "roomy s" using g st by (auto simp: roomy_def)
qed

lemma mstate_roomy:
  assumes "mstate d hs"
  shows "core (mh_h hs)" "roomy (mh_h hs)" "mt_size (mh_h hs) < mt_n_buckets (mh_h hs)"
proof -
  have "mt_resize_position (mh_h hs) div 256 \<le> mt_n_buckets (mh_h hs) div 256"
    using assms unfolding mstate_def growing_def by (intro div_le_mono) (auto split: if_splits)
  then show "core (mh_h hs)" "roomy (mh_h hs)" "mt_size (mh_h hs) < mt_n_buckets (mh_h hs)" using assms tidy_roomy unfolding mstate_def by blast+
qed

section \<open>Resizing\<close>

text \<open>At most \<open>d\<close> more dirty slots; or the table has the next size and the dirty slots are those of the nodes moved and inserted meanwhile.\<close>

definition grew :: "nat \<Rightarrow> mh_t \<Rightarrow> mh_t \<Rightarrow> bool" where
  "grew d h h' \<longleftrightarrow> mt_n_buckets h' = mt_n_buckets h \<and> mt_n_dirty h' \<le> mt_n_dirty h + d
     \<or> (\<exists>i < 18. mt_n_buckets h = ac_prime_list ! i \<and> mt_n_buckets h' = ac_prime_list ! Suc i
          \<and> mt_n_dirty h' \<le> mt_n_buckets h + mt_n_buckets h div 256 + d)"

lemma grew_trans:
  assumes "grew 0 h h1" and "mt_n_buckets h2 = mt_n_buckets h1" and "mt_n_dirty h2 \<le> mt_n_dirty h1 + d"
  shows "grew d h h2"
  using assms unfolding grew_def by (elim disjE exE conjE) (simp, metis add.commute add_0 add_le_mono1 order_trans)

lemma grew_from: "mt_n_buckets h1 = mt_n_buckets h \<Longrightarrow> mt_n_dirty h1 \<le> mt_n_dirty h \<Longrightarrow> grew d h1 h2 \<Longrightarrow> grew d h h2"
  unfolding grew_def by fastforce

lemma resize_ok:
  assumes "growing (mh_h hs) (mh_shadow hs) i (mt_resize_position (mh_h hs)) c" and "c \<le> mt_resize_position (mh_h hs) div 256"
    and td: "tidy 0 (mh_h hs) (mt_resize_position (mh_h hs) div 256)"
  obtains hs' where "mh_assoc_resize hs = Some hs'" "mstate 1 hs'" "mh_look hs' = mh_look hs" "grew 0 (mh_h hs) (mh_h hs')"
proof -
  let ?h = "mh_h hs" let ?s = "mh_shadow hs" let ?r = "mt_resize_position ?h" let ?n = "mt_n_buckets ?h" let ?b = "mt_batch ?h"
  note g = assms(1) [unfolded growing_def] note m = growing_roomy [OF assms(1,2)]
  have core: "core ?h" using td by (simp add: tidy_def)
  obtain s' where s': "hdr s' = hdr ?s" "mt_size s' = mt_size ?s" "if ?r + ?b < ?n
     then resize_loop ?h ?s ?b ?r = Some (Some (?r + ?b), s') \<and> moving ?h s' (?r + ?b) c
     else resize_loop ?h ?s ?b ?r = Some (None, s') \<and> moving ?h s' ?n c"
    using resize_loop_ok [OF core, of ?s ?r c ?b] g m(5) by auto
  note h' = hdrD [OF s'(1)]
  show ?thesis
  proof (cases "?r + ?b < ?n")
    case True
    let ?hs = "\<lparr>mh_h = ?h\<lparr>mt_resize_position := ?r + ?b\<rparr>, mh_shadow = s'\<rparr>"
    have res: "mh_assoc_resize hs = Some ?hs" using s'(3) True by (simp add: mh_assoc_resize_def Let_def)
    have r: "?r div 256 + 1 \<le> (?r + ?b) div 256" "?r + ?b \<noteq> 0" using div_le_mono [of "?r + 256" "?r + ?b" 256] g by simp_all
    have "moving ?h s' (?r + ?b) c" using s'(3) True by simp
    then have "growing (mh_h ?hs) s' i (?r + ?b) c" using g h' s'(2) True by (simp add: growing_def moving_def)
    moreover have "tidy 1 (mh_h ?hs) ((?r + ?b) div 256)" using r td by (simp add: tidy_def)
    ultimately have "mstate 1 ?hs" using r assms(2) by (intro mstate_growI [where c = c]) auto
    then show ?thesis using that [OF res] by (simp add: mh_look_def grew_def)
  next
    case False
    let ?s' = "s'\<lparr>mt_size := mt_size ?h\<rparr>" let ?hs = "\<lparr>mh_h = ?s'\<lparr>mt_resize_cnt := mt_resize_cnt ?s' + 1\<rparr>, mh_shadow = ?s'\<rparr>"
    have res: "mh_assoc_resize hs = Some ?hs" using s'(3) False by (simp add: mh_assoc_resize_def Let_def)
    have mv: "moving ?h s' ?n c" using s'(3) False by simp
    have "?r div 256 \<le> ?n div 256" using g by (intro div_le_mono) simp
    then have d: "mt_n_dirty s' + 1 \<le> mh_density (mt_n_buckets s')" "?n \<le> mt_n_buckets s'" "mt_n_dirty s' \<le> ?n + ?n div 256"
      using mv assms(2) grow_step [of i] g h' by (auto simp: moving_def)
    then have "mstate 1 ?hs" using mv g h' td moving_done [OF core mv] by (intro mstate_restI [where i = "Suc i"]) (auto simp: tidy_def moving_def)
    moreover have "grew 0 ?h (mh_h ?hs)" using g h' d(3) unfolding grew_def by (intro disjI2 exI [of _ i]) simp
    ultimately show ?thesis using that [OF res] moving_done [OF core mv] by (simp add: mh_look_def)
  qed
qed

lemma resting:
  assumes "mstate d hs" and "mt_resize_position (mh_h hs) = 0"
  obtains i where "i < 19" "mt_n_buckets (mh_h hs) = ac_prime_list ! i" "mt_prime (mh_h hs) = i \<or> mt_prime (mh_h hs) = Suc i" "tidy d (mh_h hs) 0"
  using assms unfolding mstate_def by auto

lemma mstate_less:
  assumes "mstate d hs"
  shows "minv hs"
proof -
  let ?h = "mh_h hs" let ?r = "mt_resize_position ?h"
  have td: "tidy 0 ?h (?r div 256)" using assms by (auto simp: mstate_def tidy_def)
  have "mstate 0 \<lparr>mh_h = ?h, mh_shadow = mh_shadow hs\<rparr>"
  proof (cases "?r = 0")
    case True
    obtain i where i: "i < 19" "mt_n_buckets ?h = ac_prime_list ! i" "mt_prime ?h = i \<or> mt_prime ?h = Suc i" using resting [OF assms True] by blast
    show ?thesis by (rule mstate_restI [where i = i]) (use td True i in simp_all)
  next
    case False
    obtain i c where g: "growing ?h (mh_shadow hs) i ?r c" "c + d \<le> ?r div 256" using assms False unfolding mstate_def by auto
    show ?thesis by (rule mstate_growI [OF td refl False g(1)]) (use g(2) in simp)
  qed
  then show ?thesis by (cases hs) (simp add: minv_def)
qed

lemma fresh:
  assumes "n \<in> slot_counts" and "mt_n_buckets t = n" and "mt_p t = replicate n None" and "mt_b t = replicate (n div 16 + 1) 0"
  shows "core t" "used t = {}" "mt_look t = Map.empty"
proof -
  have b: "\<not> mt_exist t x" "\<not> mt_dirty t x" if "x < n" for x
  proof -
    have "x div 16 < n div 16 + 1" using that div_le_mono [of x n 16] by simp
    then show "\<not> mt_exist t x" "\<not> mt_dirty t x" unfolding mt_exist_def mt_dirty_def assms(4) by (simp_all del: replicate_Suc)
  qed
  then have h: "\<not> holds t x v" for x v by (auto simp: holds_def assms(2))
  show "core t" by (rule coreI) (use assms b h in \<open>auto simp: shape_def\<close>)
  show "used t = {}" using b by (auto simp: used_def assms(2))
  show "mt_look t = Map.empty" using look_None [of t] h by (intro ext) blast
qed

lemma prime_next: "i < 19 \<Longrightarrow> ac_prime_list ! i < ac_prime_list ! Suc i"
  using grow_step [of i] by (cases "i = 18") (auto simp: ac_prime_list_def)

lemma slot_count: "i < 19 \<Longrightarrow> ac_prime_list ! i \<in> slot_counts"
proof -
  assume i: "i < 19"
  have "length ac_prime_list = 31" by (simp add: ac_prime_list_def)
  then have "take 19 ac_prime_list ! i \<in> slot_counts" unfolding slot_counts_def using i by (intro nth_mem) simp
  then show ?thesis using i by simp
qed

lemma prime_from_next:
  assumes "i < 19" and "p = i \<or> p = Suc i"
  shows "prime_from (ac_prime_list ! i + 1) p (ac_HASH_PRIME_SIZE - p) = Suc i"
proof -
  obtain l where l: "ac_HASH_PRIME_SIZE - p = Suc (Suc l)" using assms that [of "29 - p"] by (auto simp: ac_HASH_PRIME_SIZE_def)
  show ?thesis using assms(2) prime_next [OF assms(1)] unfolding l by auto
qed

section \<open>Bounded memory\<close>

text \<open>
  The sizes a table can take are proved prime up to 1572869; an allocator that refuses blocks of 16 MiB or more keeps every table within
  them.  (For the next one, the array of nodes has 25165912 bytes.)
\<close>

text \<open>The allocator does not grant the arrays of the next size.\<close>

definition no_memory :: "realloc_fn \<Rightarrow> mh_t \<Rightarrow> bool" where
  "no_memory ra h \<longleftrightarrow> (\<exists>i < 19. mt_n_buckets h = ac_prime_list ! i \<and> (mh_calloc ra (ac_prime_list ! Suc i) 8 = Some False
     \<or> mh_calloc ra (ac_prime_list ! Suc i div 16 + 1) 4 = Some False))"

locale bounded_allocator = allocator +
  assumes refuses: "2 ^ 24 \<le> n \<Longrightarrow> ra NULLP n = Some (NULLP, NULLP)"
begin

lemma calloc_cases:
  assumes "0 < count" and "0 < sz"
  obtains "mh_calloc ra count sz = Some False" | "mh_calloc ra count sz = Some True" "count * sz < 2 ^ 24"
proof -
  have "0 < count * sz" using assms by simp
  then show ?thesis
    using that alloc_ok [of "count * sz"] refuses [of "count * sz"] unfolding mh_calloc_def tnt_mem_alloc_def
    by (cases "count * sz < 2 ^ 24") auto
qed

lemma calloc_defined: "0 < count \<Longrightarrow> 0 < sz \<Longrightarrow> \<exists>b. mh_calloc ra count sz = Some b"
  by (rule calloc_cases [of count sz]) auto

lemma start_resize_ok:
  assumes "mstate 0 hs" and rest: "mt_resize_position (mh_h hs) = 0"
  obtains hs' where "mh_assoc_start_resize ra hs (mt_n_buckets (mh_h hs) + 1) 0 = Some (-1, hs')" "mstate 0 hs'"
      "mh_look hs' = mh_look hs" "mt_n_buckets (mh_h hs') = mt_n_buckets (mh_h hs)" "no_memory ra (mh_h hs')"
    | hs' where "mh_assoc_start_resize ra hs (mt_n_buckets (mh_h hs) + 1) 0 = Some (0, hs')" "mstate 1 hs'" "mh_look hs' = mh_look hs"
      "grew 0 (mh_h hs) (mh_h hs')"
proof -
  let ?h = "mh_h hs" let ?n = "mt_n_buckets ?h"
  note sz = mstate_roomy(3) [OF assms(1)]
  obtain i where i: "i < 19" "?n = ac_prime_list ! i" "mt_prime ?h = i \<or> mt_prime ?h = Suc i" "tidy 0 ?h 0" using resting [OF assms(1,2)] by blast
  define b where "b = (if ?n div (256 * 1024) < 256 then 256 else ?n div (256 * 1024))"
  define h where "h = ?h\<lparr>mt_prime := Suc i, mt_batch := b\<rparr>"
  define m where "m = ac_prime_list ! Suc i"
  define s where "s = h\<lparr>mt_resize_position := 0, mt_n_buckets := m, mt_upper_bound := mh_density m, mt_n_dirty := 0\<rparr>"
  define s' where "s' = s\<lparr>mt_p := replicate m None, mt_b := replicate (m div 16 + 1) 0\<rparr>"
  have m: "3 < m" using prime_next [OF i(1)] slot_counts_range [OF slot_count [OF i(1)]] by (simp add: m_def)
  have pf: "prime_from (?n + 1) (mt_prime ?h) (ac_HASH_PRIME_SIZE - mt_prime ?h) = Suc i" using prime_from_next i by simp
  have start: "mh_assoc_start_resize ra hs (?n + 1) 0 = do {
      ok \<leftarrow> mh_calloc ra m 8;
      if \<not> ok then Some (-1, \<lparr>mh_h = h, mh_shadow = s\<lparr>mt_p := []\<rparr>\<rparr>)
      else do {
        ok \<leftarrow> mh_calloc ra (m div 16 + 1) 4;
        if \<not> ok then Some (-1, \<lparr>mh_h = h, mh_shadow = s\<lparr>mt_p := [], mt_b := []\<rparr>\<rparr>)
        else do { hs \<leftarrow> mh_assoc_resize \<lparr>mh_h = h, mh_shadow = s'\<rparr>; Some (0, hs) } } }"
    using rest i(1) unfolding mh_assoc_start_resize_def Let_def pf s'_def s_def h_def m_def b_def
    by (simp add: ac_HASH_PRIME_SIZE_def cong: if_cong)
  have td: "tidy 0 h 0" "mt_resize_position h = 0" "mt_n_buckets h = ?n" "mt_look h = mt_look ?h" "mt_size h = mt_size ?h"
    using i(4) rest by (simp_all add: h_def tidy_def)
  have stay: "mstate 0 \<lparr>mh_h = h, mh_shadow = t\<rparr>" for t
    by (rule mstate_restI [where i = i]) (use td i in \<open>simp_all add: h_def\<close>)
  consider "mh_calloc ra m 8 = Some False" | "mh_calloc ra m 8 = Some True" "m * 8 < 2 ^ 24" using calloc_cases [of m 8] m by auto
  then show ?thesis
  proof cases
    case 1
    then have "no_memory ra h" using i(1,2) td(3) unfolding no_memory_def m_def by metis
    then show ?thesis using that(1) [OF _ stay] start td 1 by (simp add: mh_look_def)
  next
    case 2
    have "i < 18" using 2(2) i(1) by (cases "i = 18") (auto simp: m_def ac_prime_list_def)
    consider "mh_calloc ra (m div 16 + 1) 4 = Some False" | "mh_calloc ra (m div 16 + 1) 4 = Some True" using calloc_cases [of "m div 16 + 1" 4] by auto
    then show ?thesis
    proof cases
      case 1
      then have "no_memory ra h" using i(1,2) td(3) unfolding no_memory_def m_def by metis
      then show ?thesis using that(1) [OF _ stay] start td 1 2 by (simp add: mh_look_def)
    next
      case ok: 2
      have "core s'" "used s' = {}" "mt_look s' = Map.empty"
        using fresh [of m s'] slot_count [of "Suc i"] \<open>i < 18\<close> by (simp_all add: s'_def s_def m_def)
      then have mv: "moving h s' 0 0" by (simp add: moving_def s'_def s_def)
      have "256 \<le> b" by (simp add: b_def)
      then have g: "growing h s' i 0 0"
        unfolding growing_def using mv \<open>i < 18\<close> i(2) td sz m by (simp add: s'_def s_def h_def m_def)
      obtain hs' where r: "mh_assoc_resize \<lparr>mh_h = h, mh_shadow = s'\<rparr> = Some hs'" "mstate 1 hs'" "mh_look hs' = mh_look \<lparr>mh_h = h, mh_shadow = s'\<rparr>" "grew 0 h (mh_h hs')"
        using resize_ok [of "\<lparr>mh_h = h, mh_shadow = s'\<rparr>" i 0] g td by auto
      then show ?thesis using that(2) [of hs'] start 2 ok td by (simp add: mh_look_def grew_def h_def)
    qed
  qed
qed

section \<open>Operations\<close>

lemma put_ready:
  assumes "mstate 1 hs"
  obtains x hs' where "do {
      s \<leftarrow> (if mt_resize_position (mh_h hs) > 0 then put_shadow (mh_shadow hs) node else Some (mh_shadow hs));
      (x, h) \<leftarrow> mh_assoc_put_slot (mh_h hs) node;
      Some (x, \<lparr>mh_h = put_at h x node, mh_shadow = s\<rparr>) } = Some (x, hs')"
    "minv hs'" "mh_look hs' = (mh_look hs)(av_key node \<mapsto> node)" "holds (mh_h hs') x node"
    "mt_n_buckets (mh_h hs') = mt_n_buckets (mh_h hs)" "mt_n_dirty (mh_h hs') \<le> mt_n_dirty (mh_h hs) + 1"
proof -
  let ?h = "mh_h hs" let ?r = "mt_resize_position ?h"
  note room = mstate_roomy [OF assms]
  obtain x h1 where h1: "mh_assoc_put_slot ?h node = Some (x, h1)" "took ?h node (put_at h1 x node)" "holds (put_at h1 x node) x node"
    "mt_size (put_at h1 x node) = (if mt_look ?h (av_key node) = None then mt_size ?h + 1 else mt_size ?h)"
    using put_at_took [OF room(1,2)] by blast
  let ?h' = "put_at h1 x node"
  note t = h1(2) [unfolded took_def] note hd = hdrD [of ?h' ?h]
  have "mt_size ?h' = card (dom (mt_look ?h'))"
    using t h1(4) assms look_count(1) [OF room(1)] by (auto simp: mstate_def tidy_def card_insert_if domIff)
  then have td: "tidy 0 ?h' (?r div 256)" using assms t hd unfolding mstate_def tidy_def by simp
  have look: "mt_look ?h' = (mt_look ?h)(av_key node \<mapsto> node)" using t by blast
  have dirty: "mt_n_buckets ?h' = mt_n_buckets ?h" "mt_n_dirty ?h' \<le> mt_n_dirty ?h + 1" using t hd by simp_all
  show ?thesis
  proof (cases "?r = 0")
    case True
    obtain i where i: "i < 19" "mt_n_buckets ?h = ac_prime_list ! i" "mt_prime ?h = i \<or> mt_prime ?h = Suc i" using resting [OF assms True] by blast
    have "minv \<lparr>mh_h = ?h', mh_shadow = mh_shadow hs\<rparr>"
      unfolding minv_def by (rule mstate_restI [where i = i]) (use td True i hd t in simp_all)
    then show ?thesis using that [of x "\<lparr>mh_h = ?h', mh_shadow = mh_shadow hs\<rparr>"] True h1 look dirty by (simp add: mh_look_def)
  next
    case False
    let ?s = "mh_shadow hs"
    obtain i c where g: "growing ?h ?s i ?r c" "c + 1 \<le> ?r div 256" using assms False unfolding mstate_def by auto
    then have c: "c \<le> ?r div 256" by simp
    note m = growing_roomy [OF g(1) c]
    obtain y s1 where s1: "mh_assoc_put_slot ?s node = Some (y, s1)" "took ?s node (put_at s1 y node)" using put_at_took [OF m(1,2)] by blast
    let ?s' = "put_at s1 y node"
    have ts: "hdr ?s' = hdr ?s" "mt_size ?s' \<le> mt_size ?s + 1" using s1(2) by (simp_all add: took_def)
    have sh: "put_shadow ?s node = Some ?s'" using m(3,4) g(1) s1(1) by (simp add: put_shadow_def growing_def)
    have "moving ?h' ?s' ?r (Suc c)" using moving_put [OF _ h1(2) s1(2)] g(1) by (simp add: growing_def)
    then have "growing ?h' ?s' i ?r (Suc c)" using g(1) hd t hdrD [OF ts(1)] ts(2) by (simp add: growing_def)
    then have "minv \<lparr>mh_h = ?h', mh_shadow = ?s'\<rparr>"
      unfolding minv_def using False g(2) hd t by (intro mstate_growI [OF td]) simp_all
    then show ?thesis using that [of x "\<lparr>mh_h = ?h', mh_shadow = ?s'\<rparr>"] False h1 look dirty sh by (simp add: mh_look_def)
  qed
qed

text \<open>\<open>put\<close> ends and either stores the node or, without memory or slots, changes nothing of the map and returns the end.\<close>

lemma put_refines:
  assumes "minv hs"
  obtains x hs' where "mh_assoc_put ra hs node = Some (x, hs')" "minv hs'" "mh_look hs' = (mh_look hs)(av_key node \<mapsto> node)" "holds (mh_h hs') x node"
      "grew 1 (mh_h hs) (mh_h hs')"
    | hs' where "mh_assoc_put ra hs node = Some (mt_n_buckets (mh_h hs'), hs')" "minv hs'" "mh_look hs' = mh_look hs" "no_memory ra (mh_h hs')"
      "mt_n_buckets (mh_h hs') = mt_n_buckets (mh_h hs)" "mh_density (mt_n_buckets (mh_h hs)) \<le> mt_n_dirty (mh_h hs)"
proof -
  let ?h = "mh_h hs" let ?r = "mt_resize_position ?h"
  let ?tail = "\<lambda>hs. do {
      s \<leftarrow> (if mt_resize_position (mh_h hs) > 0 then put_shadow (mh_shadow hs) node else Some (mh_shadow hs));
      (x, h) \<leftarrow> mh_assoc_put_slot (mh_h hs) node;
      Some (x, \<lparr>mh_h = put_at h x node, mh_shadow = s\<rparr>) }"
  note fin = that and st = assms [unfolded minv_def]
  have ready: thesis if put: "mh_assoc_put ra hs node = ?tail hs1" and "mstate 1 hs1" "mh_look hs1 = mh_look hs" "grew 0 (mh_h hs) (mh_h hs1)" for hs1
  proof -
    obtain x hs' where p: "?tail hs1 = Some (x, hs')" "minv hs'" "mh_look hs' = (mh_look hs1)(av_key node \<mapsto> node)" "holds (mh_h hs') x node"
      "mt_n_buckets (mh_h hs') = mt_n_buckets (mh_h hs1)" "mt_n_dirty (mh_h hs') \<le> mt_n_dirty (mh_h hs1) + 1"
      by (rule put_ready [OF \<open>mstate 1 hs1\<close>]) (rule that)
    then show thesis using fin(1) [of x hs'] put \<open>mh_look hs1 = mh_look hs\<close> grew_trans [OF \<open>grew 0 (mh_h hs) (mh_h hs1)\<close> p(5,6)] by simp
  qed
  have sz: "mt_size ?h < mt_n_buckets ?h" by (rule mstate_roomy(3) [OF st])
  have ub: "mt_upper_bound ?h = mh_density (mt_n_buckets ?h)" using st by (simp add: mstate_def tidy_def)
  consider "?r \<noteq> 0" | "?r = 0" "mt_upper_bound ?h \<le> mt_n_dirty ?h" | "?r = 0" "mt_n_dirty ?h < mt_upper_bound ?h" by linarith
  then show thesis
  proof cases
    case 1
    obtain i c where g: "c \<le> ?r div 256" "growing ?h (mh_shadow hs) i ?r c" and td: "tidy 0 ?h (?r div 256)" using st 1 unfolding mstate_def by auto
    obtain hs1 where r: "mh_assoc_resize hs = Some hs1" "mstate 1 hs1" "mh_look hs1 = mh_look hs" "grew 0 ?h (mh_h hs1)"
      by (rule resize_ok [OF g(2,1) td]) (rule that)
    then show thesis using 1 sz by (intro ready [OF _ r(2-4)]) (simp add: mh_assoc_put_def)
  next
    case 2
    from st 2(1) show thesis
    proof (cases rule: start_resize_ok)
      case (1 hs1)
      then show thesis using fin(2) [of hs1] ub \<open>?r = 0\<close> \<open>mt_upper_bound ?h \<le> mt_n_dirty ?h\<close> sz by (simp add: mh_assoc_put_def minv_def)
    next
      case (2 hs1)
      then show thesis using \<open>?r = 0\<close> \<open>mt_upper_bound ?h \<le> mt_n_dirty ?h\<close> sz by (intro ready [OF _ 2(2-4)]) (simp add: mh_assoc_put_def)
    qed
  next
    case 3
    obtain i where i: "i < 19" "mt_n_buckets ?h = ac_prime_list ! i" "mt_prime ?h = i \<or> mt_prime ?h = Suc i" "tidy 0 ?h 0" using resting [OF st 3(1)] by blast
    have "mstate 1 \<lparr>mh_h = ?h, mh_shadow = mh_shadow hs\<rparr>"
      by (rule mstate_restI [where i = i]) (use 3 i in \<open>simp_all add: tidy_def\<close>)
    then have "mstate 1 hs" by (cases hs) simp
    then show thesis using 3 sz by (intro ready [of hs]) (simp_all add: mh_assoc_put_def grew_def)
  qed
qed

text \<open>\<open>del\<close> of the slot that holds a node.\<close>

lemma del_refines:
  assumes "minv hs" and "holds (mh_h hs) x v"
  obtains hs' where "mh_assoc_del hs x = Some hs'" "minv hs'" "mh_look hs' = (mh_look hs)(av_key v := None)" "grew 0 (mh_h hs) (mh_h hs')"
proof -
  let ?h = "mh_h hs" let ?s = "mh_shadow hs" let ?r = "mt_resize_position ?h" let ?h' = "del_at ?h x"
  note st = assms(1) [unfolded minv_def] note c = mstate_roomy [OF st]
  have l: "lost ?h (av_key v) ?h'" using c by (intro del_at_lost [OF _ _ assms(2)]) (simp_all add: roomy_def)
  note t = l [unfolded lost_def] note hd = hdrD [of ?h' ?h]
  have "mt_look ?h (av_key v) = Some v" using look_Some [OF c(1)] assms(2) by blast
  then have "mt_size ?h' = card (dom (mt_look ?h'))"
    using t st look_count(1) [OF c(1)] by (auto simp: mstate_def tidy_def del_at_def domIff)
  then have td: "tidy 0 ?h' (?r div 256)" using st t hd unfolding mstate_def tidy_def by auto
  have dirty: "mt_n_buckets ?h' = mt_n_buckets ?h" "mt_n_dirty ?h' \<le> mt_n_dirty ?h" using t hd by simp_all
  have x: "x \<noteq> mt_n_buckets ?h" "slot_ok ?h x" "mt_exist ?h x" "mt_p ?h' ! x = Some v" "mt_resize_position ?h' = ?r"
    using assms(2) coreD(3) [OF c(1), of x] hd t by (auto simp: holds_def del_at_def)
  show ?thesis
  proof (cases "?r = 0")
    case True
    obtain i where i: "i < 19" "mt_n_buckets ?h = ac_prime_list ! i" "mt_prime ?h = i \<or> mt_prime ?h = Suc i" using resting [OF st True] by blast
    have "minv \<lparr>mh_h = ?h', mh_shadow = ?s\<rparr>"
      unfolding minv_def by (rule mstate_restI [where i = i]) (use td True i hd t in simp_all)
    then show ?thesis using that [of "\<lparr>mh_h = ?h', mh_shadow = ?s\<rparr>"] True x t dirty by (cases hs) (simp add: mh_look_def mh_assoc_del_def grew_def)
  next
    case False
    obtain i c where g: "growing ?h ?s i ?r c" "c \<le> ?r div 256" using st False unfolding mstate_def by auto
    note m = growing_roomy [OF g]
    obtain y where y: "mh_assoc_get ?s v = Some y" "case mt_look ?s (av_key v) of None \<Rightarrow> y = mt_n_buckets ?s | Some w \<Rightarrow> holds ?s y w"
      by (rule get_ok [OF m(1,2)]) (rule that)
    obtain s' where s': "del_shadow ?s y = Some s'" "lost ?s (av_key v) s'"
    proof (cases "mt_look ?s (av_key v)")
      case None
      then show thesis using that [of ?s] y(2) lost_refl [OF m(1)] m(2) by (simp add: del_shadow_def roomy_def)
    next
      case (Some w)
      then have w: "holds ?s y w" "av_key w = av_key v" using y(2) look_Some [OF m(1), of "av_key v" w] by simp_all
      then have "del_shadow ?s y = Some (del_at ?s y)" using coreD(3) [OF m(1), of y] by (auto simp: del_shadow_def holds_def)
      then show thesis using that del_at_lost [OF m(1) _ w(1)] w(2) m(2) by (simp add: roomy_def)
    qed
    let ?hs = "\<lparr>mh_h = ?h', mh_shadow = s'\<rparr>"
    have "hdr s' = hdr ?s" "mt_size s' \<le> mt_size ?s" using s'(2) by (simp_all add: lost_def)
    moreover have "moving ?h' s' ?r c" using moving_del [OF _ l s'(2)] g(1) by (simp add: growing_def)
    ultimately have "growing ?h' s' i ?r c" using g(1) hd t hdrD [of s' ?s] by (simp add: growing_def)
    then obtain hs' where r: "mh_assoc_resize ?hs = Some hs'" "mstate 1 hs'" "mh_look hs' = mh_look ?hs" "grew 0 ?h' (mh_h hs')"
      using resize_ok [of ?hs i c] g(2) x(5) td by auto
    have "mh_assoc_del hs x = Some hs'"
      using x False y(1) s'(1) r(1) by (cases hs) (simp add: mh_assoc_del_def mh_assoc_del_resize_def)
    then show ?thesis using that [of hs'] mstate_less [OF r(2)] r(3) t grew_from [OF dirty r(4)] by (simp add: mh_look_def)
  qed
qed

lemma new_refines:
  obtains "mh_assoc_new ra = Some None" | hs where "mh_assoc_new ra = Some (Some hs)" "minv hs" "mh_look hs = Map.empty"
proof -
  let ?h = "zero_mh\<lparr>mt_n_buckets := 3, mt_p := replicate 3 None, mt_b := replicate 1 0, mt_upper_bound := mh_density 3\<rparr>"
  have n: "ac_prime_list ! 0 = 3" by (simp add: ac_prime_list_def)
  have f: "core ?h" "used ?h = {}" "mt_look ?h = Map.empty"
    using fresh [of 3 ?h] by (simp_all add: slot_counts_def ac_prime_list_def)
  have "minv \<lparr>mh_h = ?h, mh_shadow = zero_mh\<rparr>"
    unfolding minv_def by (rule mstate_restI [where i = 0]) (use f in \<open>simp_all add: tidy_def zero_mh_def n\<close>)
  moreover have "mh_look \<lparr>mh_h = ?h, mh_shadow = zero_mh\<rparr> = Map.empty" using f by (simp add: mh_look_def)
  moreover obtain b1 b2 b3 where b: "mh_calloc ra 1 sizeof_mh = Some b1" "mh_calloc ra 3 8 = Some b2" "mh_calloc ra (3 div 16 + 1) 4 = Some b3"
    using calloc_defined [of 1 sizeof_mh] calloc_defined [of 3 8] calloc_defined [of "3 div 16 + 1" 4] by (auto simp: sizeof_mh_def)
  have "mh_assoc_new ra = Some None \<or> mh_assoc_new ra = Some (Some \<lparr>mh_h = ?h, mh_shadow = zero_mh\<rparr>)"
    unfolding mh_assoc_new_def Let_def n b by (cases b1; cases b2; cases b3) simp_all
  ultimately show ?thesis using that by blast
qed

lemma find_refines:
  assumes "minv hs"
  obtains x where "mh_assoc_find (mh_h hs) key = Some x" "case mh_look hs key of None \<Rightarrow> x = mt_n_buckets (mh_h hs) | Some v \<Rightarrow> holds (mh_h hs) x v"
  using find_ok [OF mstate_roomy(1,2) [OF assms [unfolded minv_def]]] unfolding mh_look_def by blast

lemma remove_refines:
  assumes "minv hs"
  obtains hs' where "mh_assoc_remove hs node = Some hs'" "minv hs'" "mh_look hs' = (mh_look hs)(av_key node := None)"
    "grew 0 (mh_h hs) (mh_h hs')"
proof -
  note c = mstate_roomy [OF assms [unfolded minv_def]]
  obtain x where x: "mh_assoc_get (mh_h hs) node = Some x" "case mt_look (mh_h hs) (av_key node) of None \<Rightarrow> x = mt_n_buckets (mh_h hs) | Some v \<Rightarrow> holds (mh_h hs) x v"
    by (rule get_ok [OF c(1,2)]) (rule that)
  show ?thesis
  proof (cases "mt_look (mh_h hs) (av_key node)")
    case None
    then show ?thesis using that [of hs] x assms by (auto simp: mh_assoc_remove_def mh_look_def fun_upd_idem grew_def)
  next
    case (Some v)
    then have v: "holds (mh_h hs) x v" "av_key v = av_key node" using x(2) look_Some [OF c(1), of "av_key node" v] by simp_all
    obtain hs' where "mh_assoc_del hs x = Some hs'" "minv hs'" "mh_look hs' = (mh_look hs)(av_key v := None)" "grew 0 (mh_h hs) (mh_h hs')"
      by (rule del_refines [OF assms v(1)]) (rule that)
    then show ?thesis using that [of hs'] x(1) v by (simp add: mh_assoc_remove_def holds_def)
  qed
qed

end

sublocale bounded_allocator \<subseteq> mhash: assoc_table "mhash_ops ra" minv mh_look
proof (unfold_locales, goal_cases)
  case (1 h)
  then show ?case using new_refines by (fastforce simp: mhash_ops_def)
next
  case (2 h k)
  obtain x where x: "mh_assoc_find (mh_h h) k = Some x" "case mh_look h k of None \<Rightarrow> x = mt_n_buckets (mh_h h) | Some v \<Rightarrow> holds (mh_h h) x v"
    using find_refines [OF 2] by blast
  then show ?case by (cases "mh_look h k") (auto simp: mhash_ops_def holds_def)
next
  case (3 h k n)
  obtain x where x: "mh_assoc_find (mh_h h) k = Some x" "case mh_look h k of None \<Rightarrow> x = mt_n_buckets (mh_h h) | Some v \<Rightarrow> holds (mh_h h) x v"
    using find_refines [OF 3(1)] by blast
  then show ?case using 3(2) by (simp add: mhash_ops_def holds_def)
next
  case (4 h x)
  note c = mstate_roomy [OF 4(1) [unfolded minv_def]]
  obtain v where v: "holds (mh_h h) x v" using coreD(4) [OF c(1), of x] 4 by (auto simp: mhash_ops_def)
  then show ?case using look_Some [OF c(1)] by (auto simp: mhash_ops_def mh_look_def holds_def)
next
  case (5 h k n)
  then show ?case using look_Some [OF mstate_roomy(1) [OF 5(1) [unfolded minv_def]]] by (auto simp: mh_look_def)
next
  case (6 h n)
  from put_refines [OF 6, of n] show ?case by (cases) (simp_all add: mhash_ops_def)
next
  case (7 h k n)
  obtain x where f: "mh_assoc_find (mh_h h) k = Some x" "case mh_look h k of None \<Rightarrow> x = mt_n_buckets (mh_h h) | Some v \<Rightarrow> holds (mh_h h) x v"
    using find_refines [OF 7(1)] by blast
  then have x: "holds (mh_h h) x n" using 7(2) by simp
  obtain h' where h': "mh_assoc_del h x = Some h'" "minv h'" "mh_look h' = (mh_look h)(av_key n := None)" using del_refines [OF 7(1) x] by blast
  have "av_key n = k" using look_Some [OF mstate_roomy(1) [OF 7(1) [unfolded minv_def]]] 7(2) by (auto simp: mh_look_def)
  then show ?case using h' f(1) by (simp add: mhash_ops_def)
next
  case (8 h)
  have "dom (mh_look h) \<subseteq> av_key ` set (mt_nodes (mh_h h))"
    unfolding mh_look_def mt_look_def by (auto simp: find_Some_iff)
  then show ?case using finite_surj by blast
qed

text \<open>A table that is not being resized keeps its slots when a node is deleted.\<close>

definition mh_calm :: "mhash \<Rightarrow> bool" where
  "mh_calm hs \<longleftrightarrow> mt_resize_position (mh_h hs) = 0"

lemma del_at_fields:
  "mt_p (del_at h x) = mt_p h" "mt_n_buckets (del_at h x) = mt_n_buckets h" "mt_resize_position (del_at h x) = mt_resize_position h"
  by (simp_all add: del_at_def mt_setfree_def)

lemma del_at_exist: "in_bits h x \<Longrightarrow> mt_exist (del_at h x) y \<longleftrightarrow> x \<noteq> y \<and> mt_exist h y"
  by (auto simp: del_at_def set_bits)

lemma del_keeps_slots:
  assumes "mh_calm hs"
  shows "mh_assoc_del hs x = None \<or> mh_assoc_del hs x = Some hs
     \<or> mh_assoc_del hs x = Some (hs\<lparr>mh_h := del_at (mh_h hs) x\<rparr>) \<and> in_bits (mh_h hs) x"
  using assms by (auto simp: mh_assoc_del_def mh_calm_def del_at_fields(3) Let_def slot_ok_def in_bits_def)

sublocale bounded_allocator \<subseteq> mhash_slots: assoc_stable "mhash_ops ra" minv mh_look mh_calm
proof (unfold_locales, goal_cases)
  case (1 h x y)
  from del_keeps_slots [OF 1(2), of x] show ?case
    by (auto simp: mhash_ops_def del_at_fields del_at_exist)
next
  case (2 h x)
  from del_keeps_slots [OF 2(2), of x] 2(2) show ?case
    by (auto simp: mhash_ops_def mh_calm_def del_at_fields(3))
qed

text \<open>
  With blocks below 16 MiB granted, a table grows to the last of the sizes whatever is inserted; there it takes nodes up to its density.  As a
  table comes to the last size with at most 789505 dirty slots, any smaller one has room for 300000 insertions at least.
\<close>

definition mh_left :: "mhash \<Rightarrow> nat" where
  "mh_left hs = (if mt_n_buckets (mh_h hs) = 1572869 then 1101008 - mt_n_dirty (mh_h hs) else 300000)"

lemma last_size:
  assumes "i < 18"
  shows "ac_prime_list ! i \<noteq> 1572869" "ac_prime_list ! Suc i * 8 < 2 ^ 24" "(ac_prime_list ! Suc i div 16 + 1) * 4 < 2 ^ 24"
    "ac_prime_list ! Suc i = 1572869 \<Longrightarrow> ac_prime_list ! i + ac_prime_list ! i div 256 \<le> 789505"
proof -
  have "[0..<18] = [0, 1, 2, 3, 4, 5, 6, 7, 8, 9, 10, 11, 12, 13, 14, 15, 16, 17 :: nat]" by (simp add: upt_rec)
  moreover have "i \<in> set [0..<18]" using assms by simp
  ultimately have "i \<in> set [0, 1, 2, 3, 4, 5, 6, 7, 8, 9, 10, 11, 12, 13, 14, 15, 16, 17]" by metis
  then show "ac_prime_list ! i \<noteq> 1572869" "ac_prime_list ! Suc i * 8 < 2 ^ 24" "(ac_prime_list ! Suc i div 16 + 1) * 4 < 2 ^ 24"
    "ac_prime_list ! Suc i = 1572869 \<Longrightarrow> ac_prime_list ! i + ac_prime_list ! i div 256 \<le> 789505"
    by (auto simp: ac_prime_list_def)
qed

lemma grew_left_same:
  assumes "grew 0 (mh_h hs) (mh_h hs')"
  shows "mh_left hs \<le> mh_left hs'"
  using assms unfolding grew_def
proof (elim disjE exE conjE)
  fix i assume i: "i < 18" "mt_n_buckets (mh_h hs) = ac_prime_list ! i" "mt_n_buckets (mh_h hs') = ac_prime_list ! Suc i"
    "mt_n_dirty (mh_h hs') \<le> mt_n_buckets (mh_h hs) + mt_n_buckets (mh_h hs) div 256 + 0"
  then show ?thesis using last_size(1,4) [OF i(1)] by (auto simp: mh_left_def)
qed (auto simp: mh_left_def)

lemma grew_left:
  assumes "grew 1 (mh_h hs) (mh_h hs')"
  shows "mh_left hs \<le> Suc (mh_left hs')"
  using assms unfolding grew_def
proof (elim disjE exE conjE)
  fix i assume i: "i < 18" "mt_n_buckets (mh_h hs) = ac_prime_list ! i" "mt_n_buckets (mh_h hs') = ac_prime_list ! Suc i"
    "mt_n_dirty (mh_h hs') \<le> mt_n_buckets (mh_h hs) + mt_n_buckets (mh_h hs) div 256 + 1"
  then show ?thesis using last_size(1,4) [OF i(1)] by (auto simp: mh_left_def)
qed (auto simp: mh_left_def)

locale granting_allocator = bounded_allocator +
  assumes grants: "grants_below (2 ^ 24) ra"
begin

lemma calloc_granted:
  assumes "0 < count * sz" and "count * sz < 2 ^ 24"
  shows "mh_calloc ra count sz = Some True"
  using mem_alloc_below [OF grants assms] by (auto simp: mh_calloc_def)

lemma put_granted:
  assumes "minv hs" and "0 < mh_left hs"
  obtains x hs' where "mh_assoc_put ra hs node = Some (x, hs')" "mh_look hs' = (mh_look hs)(av_key node \<mapsto> node)" "mh_left hs \<le> Suc (mh_left hs')"
    "minv hs'" "x \<noteq> mt_n_buckets (mh_h hs')"
  using assms(1)
proof (cases rule: put_refines [where node = node])
  case (1 x hs')
  then show ?thesis using that grew_left by (auto simp: holds_def)
next
  case (2 hs')
  obtain i where i: "i < 19" "mt_n_buckets (mh_h hs') = ac_prime_list ! i"
    "mh_calloc ra (ac_prime_list ! Suc i) 8 = Some False \<or> mh_calloc ra (ac_prime_list ! Suc i div 16 + 1) 4 = Some False"
    using 2(4) unfolding no_memory_def by blast
  have "i = 18"
  proof (rule ccontr)
    assume "i \<noteq> 18"
    then have l: "i < 18" using i(1) by simp
    have "0 < ac_prime_list ! Suc i" using prime_next [OF i(1)] by simp
    then show False using calloc_granted [of "ac_prime_list ! Suc i" 8] calloc_granted [of "ac_prime_list ! Suc i div 16 + 1" 4] last_size(2,3) [OF l] i(3) by simp
  qed
  then have "mt_n_buckets (mh_h hs) = 1572869" using 2(5) i(2) by (simp add: ac_prime_list_def)
  then have False using 2(6) assms(2) by (simp add: mh_left_def mh_density_def)
  then show ?thesis ..
qed

lemma new_granted: "\<exists>hs. mh_assoc_new ra = Some (Some hs) \<and> mh_left hs = 300000"
proof -
  have "mh_calloc ra 1 sizeof_mh = Some True" "mh_calloc ra 3 8 = Some True" "mh_calloc ra (3 div 16 + 1) 4 = Some True"
    using calloc_granted [of 1 sizeof_mh] calloc_granted [of 3 8] calloc_granted [of "3 div 16 + 1" 4] by (simp_all add: sizeof_mh_def)
  then show ?thesis by (simp add: mh_assoc_new_def ac_prime_list_def mh_left_def)
qed

end

sublocale granting_allocator \<subseteq> mhash_room: assoc_room "mhash_ops ra" minv mh_look mh_left 300000
proof (unfold_locales, goal_cases)
  case 1
  show ?case using new_granted by (auto simp: mhash_ops_def)
next
  case (2 h)
  then show ?case using new_granted by (auto simp: mhash_ops_def)
next
  case (3 h n)
  obtain x h' where "mh_assoc_put ra h n = Some (x, h')" "mh_look h' = (mh_look h)(av_key n \<mapsto> n)" "mh_left h \<le> Suc (mh_left h')"
    "minv h'" "x \<noteq> mt_n_buckets (mh_h h')" by (rule put_granted [OF 3]) (rule that)
  then show ?case by (simp add: mhash_ops_def)
next
  case (4 h n)
  obtain x h' where "mh_assoc_put ra h n = Some (x, h')" "mh_look h' = (mh_look h)(av_key n \<mapsto> n)" "mh_left h \<le> Suc (mh_left h')"
    "minv h'" "x \<noteq> mt_n_buckets (mh_h h')" by (rule put_granted [OF 4]) (rule that)
  then show ?case by (simp add: mhash_ops_def)
qed

text \<open>The library's own allocator, on a system that grants no block of 16 MiB or more.\<close>

definition capped :: "libc \<Rightarrow> libc" where
  "capped os = os\<lparr>grants := \<lambda>n. grants os n \<and> n < 2 ^ 24\<rparr>"

interpretation capped_alloc: bounded_allocator "custom_realloc (capped os)" for os
  by unfold_locales (simp add: custom_realloc_def capped_def)

interpretation mhash_schema: schema_env mp_ref "custom_realloc (capped os)" "mhash_ops (custom_realloc (capped os))" minv mh_look for os
  by unfold_locales

interpretation granting_alloc: granting_allocator "custom_realloc (capped os_ok)"
  by unfold_locales (rule custom_realloc_grants_below, simp add: capped_def os_ok_def)

interpretation full_schema: schema_room mp_ref "custom_realloc (capped os_ok)" "mhash_ops (custom_realloc (capped os_ok))" minv mh_look mh_left 300000
  by unfold_locales (rule granting_alloc.grants)

text \<open>On this table the schema cache is memory safe: lookups and freeing are defined after whatever was loaded.\<close>

lemma cache_on_mhash:
  assumes "schema_reach mp_ref (custom_realloc (capped os)) (mhash_ops (custom_realloc (capped os))) sch"
  shows "\<exists>i j t. tnt_schema_stosid (mhash_ops (custom_realloc (capped os))) sch name = Some i
     \<and> tnt_schema_stoiid (mhash_ops (custom_realloc (capped os))) sch sid name = Some j
     \<and> tnt_schema_free (custom_realloc (capped os)) (mhash_ops (custom_realloc (capped os))) (Some sch) = Some (Some t)"
proof -
  have ok: "space_ok minv mh_look (space_hash sch)" by (rule mhash_schema.reach_ok [OF assms])
  obtain t where "tnt_schema_space_free (custom_realloc (capped os)) (mhash_ops (custom_realloc (capped os))) (space_hash sch) = Some t"
    using mhash_schema.space_free_ok [OF ok] by blast
  then show ?thesis using mhash_schema.lookup_abs [OF ok] by (auto simp: tnt_schema_free_def)
qed

section \<open>Sequences of operations\<close>

datatype mh_cmd = MhPut assoc_val | MhRemove assoc_val

text \<open>Whether the node was stored, and the new table.\<close>

fun mh_exec :: "realloc_fn \<Rightarrow> mhash \<Rightarrow> mh_cmd \<Rightarrow> (bool \<times> mhash) option" where
  "mh_exec ra hs (MhPut node) = map_option (\<lambda>(x, hs'). (x \<noteq> mt_n_buckets (mh_h hs'), hs')) (mh_assoc_put ra hs node)"
| "mh_exec ra hs (MhRemove node) = map_option (\<lambda>hs'. (True, hs')) (mh_assoc_remove hs node)"

fun mh_run :: "realloc_fn \<Rightarrow> mhash \<Rightarrow> mh_cmd list \<Rightarrow> (bool list \<times> mhash) option" where
  "mh_run ra hs [] = Some ([], hs)"
| "mh_run ra hs (cmd # cmds) = do {
     (b, hs) \<leftarrow> mh_exec ra hs cmd;
     (bs, hs) \<leftarrow> mh_run ra hs cmds;
     Some (b # bs, hs) }"

fun map_exec :: "mh_cmd \<times> bool \<Rightarrow> (bytes \<rightharpoonup> assoc_val) \<Rightarrow> bytes \<rightharpoonup> assoc_val" where
  "map_exec (MhPut node, b) m = (if b then m(av_key node \<mapsto> node) else m)"
| "map_exec (MhRemove node, b) m = m(av_key node := None)"

context bounded_allocator
begin

lemma exec_refines:
  assumes "minv hs"
  obtains b hs' where "mh_exec ra hs cmd = Some (b, hs')" "minv hs'" "mh_look hs' = map_exec (cmd, b) (mh_look hs)"
proof (cases cmd)
  case (MhPut node)
  from assms show ?thesis
  proof (cases rule: put_refines [where node = node])
    case (1 x hs')
    then show ?thesis using that [of True hs'] MhPut by (simp add: holds_def)
  next
    case (2 hs')
    then show ?thesis using that [of False hs'] MhPut by simp
  qed
next
  case (MhRemove node)
  obtain hs' where "mh_assoc_remove hs node = Some hs'" "minv hs'" "mh_look hs' = (mh_look hs)(av_key node := None)"
    "grew 0 (mh_h hs) (mh_h hs')" by (rule remove_refines [OF assms]) (rule that)
  then show ?thesis using that [of True hs'] MhRemove by simp
qed

lemma run_refines:
  assumes "minv hs"
  shows "\<exists>bs hs'. mh_run ra hs cmds = Some (bs, hs') \<and> length bs = length cmds \<and> minv hs' \<and> mh_look hs' = fold map_exec (zip cmds bs) (mh_look hs)"
  using assms
proof (induction cmds arbitrary: hs)
  case (Cons cmd cmds)
  obtain b hs1 where h: "mh_exec ra hs cmd = Some (b, hs1)" "minv hs1" "mh_look hs1 = map_exec (cmd, b) (mh_look hs)"
    by (rule exec_refines [OF Cons.prems]) (rule that)
  obtain bs hs' where "mh_run ra hs1 cmds = Some (bs, hs')" "length bs = length cmds" "minv hs'" "mh_look hs' = fold map_exec (zip cmds bs) (mh_look hs1)"
    using Cons.IH [OF h(2)] by blast
  then show ?case using h by (intro exI [of _ "b # bs"] exI [of _ hs']) simp
qed simp

lemma put_refused:
  assumes "minv hs" and "mh_assoc_put ra hs node = Some (mt_n_buckets (mh_h hs'), hs')"
  shows "no_memory ra (mh_h hs')"
  using assms(1) by (cases rule: put_refines [where node = node]) (use assms(2) in \<open>auto simp: holds_def\<close>)

end

text \<open>C7. The vendored hash table is a finite map.  On memory that grants no block of 16 MiB or more, any sequence of insertions and removals on a new
  table, through however many incremental resizes, runs to its end; no probe loop runs forever and no access leaves an array.  Afterwards
  \<open>mh_assoc_find\<close> returns for every key the slot of the node last stored under it, or the end if there is none, and \<open>size\<close> is the number of nodes.
  An insertion returns the end, and stores nothing, only if the arrays of the next size were not granted.
\<close>

theorem mhash_refines_map:
  assumes "bounded_allocator ra" and "mh_assoc_new ra = Some (Some hs0)"
  shows "\<exists>bs hs. mh_run ra hs0 cmds = Some (bs, hs) \<and> length bs = length cmds
     \<and> mt_size (mh_h hs) = card (dom (fold map_exec (zip cmds bs) Map.empty))
     \<and> (\<forall>key. \<exists>x. mh_assoc_find (mh_h hs) key = Some x
          \<and> (case fold map_exec (zip cmds bs) Map.empty key of
               None \<Rightarrow> x = mt_n_buckets (mh_h hs)
             | Some node \<Rightarrow> x < mt_n_buckets (mh_h hs) \<and> mt_exist (mh_h hs) x \<and> mt_p (mh_h hs) ! x = Some node))
     \<and> (\<forall>node hs'. mh_assoc_put ra hs node = Some (mt_n_buckets (mh_h hs'), hs') \<longrightarrow> no_memory ra (mh_h hs'))"
proof -
  have "minv hs0 \<and> mh_look hs0 = Map.empty" using bounded_allocator.new_refines [OF assms(1)] assms(2) by (metis option.inject option.discI)
  then obtain bs hs where r: "mh_run ra hs0 cmds = Some (bs, hs)" "length bs = length cmds" "minv hs" "mh_look hs = fold map_exec (zip cmds bs) Map.empty"
    using bounded_allocator.run_refines [OF assms(1)] by metis
  have "mt_size (mh_h hs) = card (dom (mh_look hs))" using r(3) by (simp add: minv_def mstate_def tidy_def mh_look_def)
  moreover have "\<exists>x. mh_assoc_find (mh_h hs) key = Some x \<and> (case mh_look hs key of None \<Rightarrow> x = mt_n_buckets (mh_h hs)
      | Some node \<Rightarrow> x < mt_n_buckets (mh_h hs) \<and> mt_exist (mh_h hs) x \<and> mt_p (mh_h hs) ! x = Some node)" for key
    using bounded_allocator.find_refines [OF assms(1) r(3), of key] unfolding holds_def by blast
  ultimately show ?thesis using r bounded_allocator.put_refused [OF assms(1) r(3)] by simp
qed

theorem mhash_refines_map_witness:
  "\<exists>hs0 bs hs. mh_assoc_new (custom_realloc (capped os_ok)) = Some (Some hs0)
     \<and> mh_run (custom_realloc (capped os_ok)) hs0 [MhPut \<lparr>av_addr = 1, av_key = [7], av_data = 2\<rparr>, MhRemove \<lparr>av_addr = 1, av_key = [7], av_data = 2\<rparr>] = Some (bs, hs)
     \<and> length bs = 2 \<and> mh_assoc_find (mh_h hs) [7] = Some (mt_n_buckets (mh_h hs))"
proof -
  let ?v = "\<lparr>av_addr = 1, av_key = [7], av_data = 2\<rparr>"
  obtain hs0 where n: "mh_assoc_new (custom_realloc (capped os_ok)) = Some (Some hs0)"
    by (simp add: mh_assoc_new_def mh_calloc_def tnt_mem_alloc_def custom_realloc_def capped_def os_ok_def sizeof_mh_def ac_prime_list_def)
  obtain bs hs where r: "mh_run (custom_realloc (capped os_ok)) hs0 [MhPut ?v, MhRemove ?v] = Some (bs, hs)" "length bs = 2"
    "\<exists>x. mh_assoc_find (mh_h hs) [7] = Some x \<and> (case fold map_exec (zip [MhPut ?v, MhRemove ?v] bs) Map.empty [7] of
               None \<Rightarrow> x = mt_n_buckets (mh_h hs)
             | Some node \<Rightarrow> x < mt_n_buckets (mh_h hs) \<and> mt_exist (mh_h hs) x \<and> mt_p (mh_h hs) ! x = Some node)"
    using mhash_refines_map [OF capped_alloc.bounded_allocator_axioms n, of "[MhPut ?v, MhRemove ?v]"] by auto
  obtain b1 b2 where "bs = [b1, b2]" using r(2) by (auto simp: numeral_eq_Suc length_Suc_conv)
  then show ?thesis using n r by auto
qed

context granting_allocator
begin

lemma exec_granted:
  assumes "minv hs" and "0 < mh_left hs"
  obtains hs' where "mh_exec ra hs cmd = Some (True, hs')" "minv hs'" "mh_look hs' = map_exec (cmd, True) (mh_look hs)" "mh_left hs \<le> Suc (mh_left hs')"
proof (cases cmd)
  case (MhPut node)
  obtain x hs' where "mh_assoc_put ra hs node = Some (x, hs')" "mh_look hs' = (mh_look hs)(av_key node \<mapsto> node)" "mh_left hs \<le> Suc (mh_left hs')"
    "minv hs'" "x \<noteq> mt_n_buckets (mh_h hs')" by (rule put_granted [OF assms]) (rule that)
  then show ?thesis using that [of hs'] MhPut by simp
next
  case (MhRemove node)
  obtain hs' where r: "mh_assoc_remove hs node = Some hs'" "minv hs'" "mh_look hs' = (mh_look hs)(av_key node := None)"
    "grew 0 (mh_h hs) (mh_h hs')" by (rule remove_refines [OF assms(1)]) (rule that)
  then show ?thesis using that [of hs'] MhRemove grew_left_same [OF r(4)] by simp
qed

lemma run_granted:
  assumes "minv hs" and "length cmds \<le> mh_left hs"
  shows "\<exists>hs'. mh_run ra hs cmds = Some (replicate (length cmds) True, hs') \<and> minv hs' \<and> mh_look hs' = fold (\<lambda>c. map_exec (c, True)) cmds (mh_look hs)"
  using assms
proof (induction cmds arbitrary: hs)
  case (Cons cmd cmds)
  have "0 < mh_left hs" using Cons.prems(2) by simp
  with Cons.prems(1) obtain hs1 where h: "mh_exec ra hs cmd = Some (True, hs1)" "minv hs1" "mh_look hs1 = map_exec (cmd, True) (mh_look hs)"
    "mh_left hs \<le> Suc (mh_left hs1)" by (rule exec_granted) (rule that)
  have "length cmds \<le> mh_left hs1" using h(4) Cons.prems(2) by simp
  from Cons.IH [OF h(2) this] h show ?case by auto
qed simp

end

text \<open>C29. The hash table refuses nothing while memory lasts: with blocks below 16 MiB granted, every one of the first 300000 insertions and
  removals on a new table is carried out, through all the resizes they cause, and then \<open>mh_assoc_find\<close> finds for every key the node that
  was last stored under it and not removed.\<close>

theorem mhash_refuses_nothing:
  assumes "granting_allocator ra" and "length cmds \<le> 300000"
  shows "\<exists>hs0 hs. mh_assoc_new ra = Some (Some hs0) \<and> mh_run ra hs0 cmds = Some (replicate (length cmds) True, hs)
     \<and> (\<forall>key. \<exists>x. mh_assoc_find (mh_h hs) key = Some x
          \<and> (case fold (\<lambda>c. map_exec (c, True)) cmds Map.empty key of
               None \<Rightarrow> x = mt_n_buckets (mh_h hs)
             | Some node \<Rightarrow> x < mt_n_buckets (mh_h hs) \<and> mt_exist (mh_h hs) x \<and> mt_p (mh_h hs) ! x = Some node))"
proof -
  have b: "bounded_allocator ra" using assms(1) by (simp add: granting_allocator_def)
  obtain hs0 where n: "mh_assoc_new ra = Some (Some hs0)" "mh_left hs0 = 300000" using granting_allocator.new_granted [OF assms(1)] by blast
  have i: "minv hs0 \<and> mh_look hs0 = Map.empty" using bounded_allocator.new_refines [OF b] n(1) by (metis option.inject option.discI)
  then obtain hs where r: "mh_run ra hs0 cmds = Some (replicate (length cmds) True, hs)" "minv hs"
    "mh_look hs = fold (\<lambda>c. map_exec (c, True)) cmds Map.empty"
    using granting_allocator.run_granted [OF assms(1), of hs0 cmds] assms(2) n(2) by auto
  have "\<exists>x. mh_assoc_find (mh_h hs) key = Some x \<and> (case mh_look hs key of None \<Rightarrow> x = mt_n_buckets (mh_h hs)
      | Some node \<Rightarrow> x < mt_n_buckets (mh_h hs) \<and> mt_exist (mh_h hs) x \<and> mt_p (mh_h hs) ! x = Some node)" for key
    using bounded_allocator.find_refines [OF b r(2), of key] unfolding holds_def by blast
  then show ?thesis using n(1) r by auto
qed

text \<open>Five nodes, more than the first array holds, of which one is removed.\<close>

definition demo_node :: "byte \<Rightarrow> assoc_val" where
  "demo_node b = \<lparr>av_addr = 1, av_key = [b], av_data = 2\<rparr>"

theorem mhash_refuses_nothing_witness:
  "\<exists>hs0 hs x. mh_assoc_new (custom_realloc (capped os_ok)) = Some (Some hs0)
     \<and> mh_run (custom_realloc (capped os_ok)) hs0 (map (MhPut \<circ> demo_node) [1, 2, 3, 4, 5] @ [MhRemove (demo_node 4)]) = Some (replicate 6 True, hs)
     \<and> mh_assoc_find (mh_h hs) [5] = Some x \<and> mt_p (mh_h hs) ! x = Some (demo_node 5)
     \<and> mh_assoc_find (mh_h hs) [4] = Some (mt_n_buckets (mh_h hs))"
proof -
  let ?cs = "map (MhPut \<circ> demo_node) [1, 2, 3, 4, 5] @ [MhRemove (demo_node 4)]"
  obtain hs0 hs where r: "mh_assoc_new (custom_realloc (capped os_ok)) = Some (Some hs0)"
    "mh_run (custom_realloc (capped os_ok)) hs0 ?cs = Some (replicate (length ?cs) True, hs)"
    "\<forall>key. \<exists>x. mh_assoc_find (mh_h hs) key = Some x
          \<and> (case fold (\<lambda>c. map_exec (c, True)) ?cs Map.empty key of
               None \<Rightarrow> x = mt_n_buckets (mh_h hs)
             | Some node \<Rightarrow> x < mt_n_buckets (mh_h hs) \<and> mt_exist (mh_h hs) x \<and> mt_p (mh_h hs) ! x = Some node)"
    using mhash_refuses_nothing [OF granting_alloc.granting_allocator_axioms, of ?cs] by auto
  have l: "length ?cs = 6" by simp
  have f: "fold (\<lambda>c. map_exec (c, True)) ?cs Map.empty [5] = Some (demo_node 5)" "fold (\<lambda>c. map_exec (c, True)) ?cs Map.empty [4] = None"
    by (simp_all add: demo_node_def)
  obtain x where "mh_assoc_find (mh_h hs) [5] = Some x" "mt_p (mh_h hs) ! x = Some (demo_node 5)"
    using spec [OF r(3), of "[5]"] unfolding f option.case by blast
  moreover have "mh_assoc_find (mh_h hs) [4] = Some (mt_n_buckets (mh_h hs))"
    using spec [OF r(3), of "[4]"] unfolding f option.case by blast
  ultimately show ?thesis using r(1,2) unfolding l by blast
qed

section \<open>Other operations\<close>

text \<open>\<open>random\<close> misses the only node of a table unless it starts at its slot.\<close>

lemma random_misses: "mt_size h = 1 \<Longrightarrow> \<not> mt_exist h (rnd mod mt_n_buckets h) \<Longrightarrow> mh_assoc_random h rnd = mt_n_buckets h"
  by (simp add: mh_assoc_random_def)

text \<open>
  After \<open>clear\<close> the size is what it was, the first slots that were taken still exist, with a null node, and a search that comes to one of
  them is undefined.
\<close>

lemma clear_keeps_bits:
  assumes "mh_calloc ra 3 8 = Some True" and "mt_exist (mh_h hs) (mh_hash_key key mod 3)"
  shows "\<exists>hs'. mh_assoc_clear ra hs = Some hs' \<and> mt_size (mh_h hs') = mt_size (mh_h hs) \<and> mh_assoc_find (mh_h hs') key = None"
proof -
  let ?h = "(mh_h hs)\<lparr>mt_prime := 0, mt_n_buckets := 3, mt_p := replicate 3 None, mt_upper_bound := mh_density 3\<rparr>"
  have "replicate 3 None ! (mh_hash_key key mod 3) = (None :: assoc_val option)" by (rule nth_replicate) simp
  then have "mh_assoc_find ?h key = None"
    using assms(2) unfolding mh_assoc_find_def Let_def by (subst probe_loop.simps) (simp add: slot_hit_def)
  then show ?thesis using assms(1) by (simp add: mh_assoc_clear_def ac_prime_list_def)
qed

end
