(* ===== verification/Tnt_Schema_Load.thy ===== *)
theory Tnt_Schema_Load
  imports Tnt_Mhash_Map
begin

text \<open>
  The schema cache on its hash table: what loading and freeing a schema do with the table the library uses, \<open>mhash_ops\<close>.  Memory is granted
  for blocks below 16 MiB and refused above (\<open>granting_allocator\<close>), so that a table takes a bounded number of definitions; \<open>rooms_for\<close> says
  that the rows to be loaded fit.  A new table has room for 150000 definitions, each of which takes two of its nodes.
\<close>

context granting_allocator
begin

lemma mhash_has_room: "assoc_room (mhash_ops ra) minv mh_look mh_left 300000"
  by (rule mhash_room.assoc_room_axioms)

end

lemma mhash_schema_room:
  assumes "msgpuck_laws mp" and "granting_allocator ra"
  shows "schema_env mp ra (mhash_ops ra) minv mh_look" "schema_room mp ra (mhash_ops ra) minv mh_look mh_left 300000"
proof -
  have b: "bounded_allocator ra" "allocator ra" "grants_below (2 ^ 24) ra"
    using assms(2) by (simp_all add: granting_allocator_def granting_allocator_axioms_def bounded_allocator_def)
  have r: "assoc_room (mhash_ops ra) minv mh_look mh_left 300000" by (rule granting_allocator.mhash_has_room [OF assms(2)])
  show env: "schema_env mp ra (mhash_ops ra) minv mh_look"
    using assms(1) b(2) r by (intro schema_env.intro builder_env.intro) (auto simp: assoc_room_def)
  show "schema_room mp ra (mhash_ops ra) minv mh_look mh_left 300000"
    using env r b(3) by (intro schema_room.intro schema_room_axioms.intro)
qed

lemma load_spaces_lookup:
  assumes "msgpuck_laws mp" and "granting_allocator ra" and "schema_reach mp ra (mhash_ops ra) sch"
    and "rows r (map space_val ss)" and "\<forall>d \<in> set ss. space_def_ok d" and "rooms_for mh_left (2 * length ss) 0 (space_hash sch)"
  shows "\<exists>sch'. tnt_schema_add_spaces mp ra (mhash_ops ra) sch r = Some (0, sch')
     \<and> (\<forall>name. tnt_schema_stosid (mhash_ops ra) sch' name
           = Some (spec_sid (spec_spaces (as_next (space_hash sch)) ss (space_abs mh_look (space_hash sch))) name))"
proof -
  note env = mhash_schema_room(1) [OF assms(1,2)] and room = mhash_schema_room(2) [OF assms(1,2)]
  have ok: "space_ok minv mh_look (space_hash sch)" by (rule schema_env.reach_ok [OF env assms(3)])
  from schema_room.load_spaces [OF room assms(4,5) ok assms(6)] obtain sch1 where
    "tnt_schema_add_spaces mp ra (mhash_ops ra) sch r = Some (0, sch1)" "space_ok minv mh_look (space_hash sch1)"
    "space_abs mh_look (space_hash sch1) = spec_spaces (as_next (space_hash sch)) ss (space_abs mh_look (space_hash sch))" by auto
  then show ?thesis using schema_env.lookup_abs(1) [OF env] by auto
qed

lemma new_schema_empty:
  assumes "msgpuck_laws mp" and "granting_allocator ra" and "tnt_schema_new ra (mhash_ops ra) given = Some (Some (Some sch))"
  shows "space_abs mh_look (space_hash sch) = Map.empty" "n \<le> 300000 \<Longrightarrow> rooms_for mh_left n m (space_hash sch)"
proof -
  note room = mhash_schema_room(2) [OF assms(1,2)]
  from assms(3) obtain h where h: "mh_new (mhash_ops ra) = Some h" "space_hash sch = as_empty h"
    by (auto simp: tnt_schema_new_def split: Option.bind_splits if_splits)
  have "mh_look h = Map.empty" "300000 \<le> mh_left h"
    using assoc_table.new_ok [OF assoc_room.axioms(1) h(1)] assoc_room.new_left [OF _ h(1)] room unfolding schema_room_def by blast+
  then show "space_abs mh_look (space_hash sch) = Map.empty" "n \<le> 300000 \<Longrightarrow> rooms_for mh_left n m (space_hash sch)"
    by (auto simp: h(2) space_abs_def as_empty_def fun_eq_iff rooms_for_def)
qed

section \<open>Properties\<close>

text \<open>C6. Loading the schema implements its specification on the library's own hash table: on any schema that can arise, with blocks below
  16 MiB granted and the definitions within the room the tables have left, the two replies with well-formed rows (spaces, then indexes of known
  spaces) are accepted, and afterwards every lookup of a space by name and of an index by space number and name returns what the abstract
  schema says that is updated row by row, -1 for unknown names.\<close>

theorem schema_load_refines:
  assumes "msgpuck_laws mp" and "granting_allocator ra" and "schema_reach mp ra (mhash_ops ra) sch"
    and "rows r1 (map space_val ss)" and "\<forall>d \<in> set ss. space_def_ok d" and "rows r2 (map index_val is)" and "\<forall>d \<in> set is. index_def_ok d"
    and "rooms_for mh_left (2 * length ss) (2 * length is) (space_hash sch)" and "length is \<le> 150000"
    and "m = spec_spaces (as_next (space_hash sch)) ss (space_abs mh_look (space_hash sch))" and "\<forall>d \<in> set is. m (num_key (fst d)) \<noteq> None"
  shows "\<exists>sch1 sch2. tnt_schema_add_spaces mp ra (mhash_ops ra) sch r1 = Some (0, sch1)
     \<and> tnt_schema_add_indexes mp ra (mhash_ops ra) sch1 r2 = Some (0, sch2)
     \<and> tnt_schema_stosid (mhash_ops ra) sch2 name = Some (spec_sid (fold spec_index is m) name)
     \<and> tnt_schema_stoiid (mhash_ops ra) sch2 sid name = Some (spec_iid (fold spec_index is m) sid name)"
proof -
  note env = mhash_schema_room(1) [OF assms(1,2)] and room = mhash_schema_room(2) [OF assms(1,2)]
  have ok: "space_ok minv mh_look (space_hash sch)" by (rule schema_env.reach_ok [OF env assms(3)])
  have cap: "2 * length is \<le> 300000" using assms(9) by simp
  obtain sch1 where s1: "tnt_schema_add_spaces mp ra (mhash_ops ra) sch r1 = Some (0, sch1)" "space_ok minv mh_look (space_hash sch1)"
    "space_abs mh_look (space_hash sch1) = m" "rooms_for mh_left 0 (2 * length is) (space_hash sch1)"
    using schema_room.load_spaces [OF room assms(4,5) ok assms(8) cap] assms(10) by blast
  obtain sch2 where s2: "tnt_schema_add_indexes mp ra (mhash_ops ra) sch1 r2 = Some (0, sch2)" "space_ok minv mh_look (space_hash sch2)"
    "space_abs mh_look (space_hash sch2) = fold spec_index is m"
    using schema_room.load_indexes [OF room assms(6,7) s1(2) _ s1(4)] assms(11) s1(3) by auto
  show ?thesis using s1(1) s2 schema_env.lookup_abs [OF env s2(2)] by auto
qed

definition demo_ra :: realloc_fn where
  "demo_ra = custom_realloc (capped os_ok)"

definition demo_tab :: mhash where
  "demo_tab = \<lparr>mh_h = zero_mh\<lparr>mt_n_buckets := 3, mt_p := replicate 3 None, mt_b := replicate 1 0, mt_upper_bound := 2\<rparr>, mh_shadow = zero_mh\<rparr>"

definition demo_sch :: "mhash tnt_schema" where
  "demo_sch = \<lparr>space_hash = as_empty demo_tab, sch_alloc = True\<rparr>"

definition demo_spaces :: "space_def list" where
  "demo_spaces = [(512, VUint 1, [0x61, 0x62], [])]"

definition demo_indexes :: "index_def list" where
  "demo_indexes = [(512, 7, [0x70], [])]"

definition demo_rows :: "bytes \<Rightarrow> reply_struct" where
  "demo_rows d = (zero_reply False)\<lparr>rp_data := Some d\<rparr>"

lemma demo_granting: "granting_allocator demo_ra"
  unfolding demo_ra_def by (rule granting_alloc.granting_allocator_axioms)

lemma demo_new: "tnt_schema_new demo_ra (mhash_ops demo_ra) False = Some (Some (Some demo_sch))"
  by (simp add: tnt_schema_new_def tnt_mem_alloc_def demo_ra_def custom_realloc_def capped_def os_ok_def sizeof_schema_def demo_sch_def mhash_ops_def
      mh_assoc_new_def mh_calloc_def sizeof_mh_def ac_prime_list_def mh_density_def demo_tab_def)

lemma demo_sch_reach: "schema_reach mp demo_ra (mhash_ops demo_ra) demo_sch"
  by (rule reach_new [OF demo_new])

lemma demo_sch_empty:
  "space_abs mh_look (space_hash demo_sch) = Map.empty" "n \<le> 300000 \<Longrightarrow> rooms_for mh_left n m (space_hash demo_sch)"
  using new_schema_empty [OF ref.msgpuck_laws_axioms demo_granting demo_new] by simp_all

lemma demo_loads:
  "rows (demo_rows [0x91, 0x93, 0xcd, 2, 0, 1, 0xa2, 0x61, 0x62]) (map space_val demo_spaces)"
  "rows (demo_rows [0x91, 0x93, 0xcd, 2, 0, 7, 0xa1, 0x70]) (map index_val demo_indexes)"
  "\<forall>d \<in> set demo_spaces. space_def_ok d" "\<forall>d \<in> set demo_indexes. index_def_ok d"
  "\<forall>d \<in> set demo_indexes. spec_spaces a demo_spaces m0 (num_key (fst d)) \<noteq> None"
  by (simp_all add: rows_def demo_rows_def demo_spaces_def demo_indexes_def encodes_def mp_tok.simps(2) tk_defs be_nat_def
      space_def_ok_def index_def_ok_def row_name_ok_def)

lemma demo_spec:
  "spec_sid (fold spec_index demo_indexes (spec_spaces a demo_spaces m0)) [0x61, 0x62] = 512"
  "spec_iid (fold spec_index demo_indexes (spec_spaces a demo_spaces m0)) 512 [0x70] = 7"
proof -
  have "num_key 512 \<noteq> [0x61, 0x62]" by (simp add: num_key_def be_bytes_4)
  then show "spec_sid (fold spec_index demo_indexes (spec_spaces a demo_spaces m0)) [0x61, 0x62] = 512"
    "spec_iid (fold spec_index demo_indexes (spec_spaces a demo_spaces m0)) 512 [0x70] = 7"
    by (simp_all add: demo_spaces_def demo_indexes_def spec_sid_def spec_iid_def num_key_def)
qed

theorem schema_load_refines_witness:
  "\<exists>sch1 sch2. tnt_schema_add_spaces mp_ref demo_ra (mhash_ops demo_ra) demo_sch (demo_rows [0x91, 0x93, 0xcd, 2, 0, 1, 0xa2, 0x61, 0x62]) = Some (0, sch1)
     \<and> tnt_schema_add_indexes mp_ref demo_ra (mhash_ops demo_ra) sch1 (demo_rows [0x91, 0x93, 0xcd, 2, 0, 7, 0xa1, 0x70]) = Some (0, sch2)
     \<and> tnt_schema_stosid (mhash_ops demo_ra) sch2 [0x61, 0x62] = Some 512 \<and> tnt_schema_stoiid (mhash_ops demo_ra) sch2 512 [0x70] = Some 7"
proof -
  have r: "rooms_for mh_left (2 * length demo_spaces) (2 * length demo_indexes) (space_hash demo_sch)" "length demo_indexes \<le> 150000"
    by (simp_all add: demo_sch_empty(2) demo_spaces_def demo_indexes_def)
  show ?thesis
    using schema_load_refines [OF ref.msgpuck_laws_axioms demo_granting demo_sch_reach demo_loads(1,3,2,4) r refl demo_loads(5),
        where name = "[0x61, 0x62]" and sid = 512]
      schema_load_refines [OF ref.msgpuck_laws_axioms demo_granting demo_sch_reach demo_loads(1,3,2,4) r refl demo_loads(5),
        where name = "[0x70]" and sid = 512]
    unfolding demo_spec by auto
qed

text \<open>C20. The schema cache never touches freed memory: on every schema that replies (well formed or not, as long as
  they are read inside their bounds), flushes and allocation failures can lead to, both lookups are defined and
  \<open>tnt_schema_free\<close> runs to its end without freeing anything twice or reading what it has freed.  While no resize is under way, so that
  deletions move no slot, nothing stays in the table, and if no definition had been overwritten nothing at all is left allocated.\<close>

theorem schema_free_safe:
  assumes "msgpuck_laws mp" and "allocator ra" and "assoc_table T tinv look" and "schema_reach mp ra T sch"
  shows "(\<exists>i. tnt_schema_stosid T sch name = Some i) \<and> (\<exists>i. tnt_schema_stoiid T sch sid name = Some i)
     \<and> (\<exists>t. tnt_schema_free ra T (Some sch) = Some (Some t)
          \<and> (\<forall>calm. assoc_stable T tinv look calm \<longrightarrow> calm (as_tab (space_hash sch)) \<longrightarrow> look (as_tab t) = Map.empty
               \<and> (tight look sval_keys (space_hash sch) \<longrightarrow> as_objs t = Map.empty \<and> as_vals t = {})))"
proof -
  have env: "schema_env mp ra T tinv look"
    using assms(1-3) by (intro schema_env.intro builder_env.intro)
  have ok: "space_ok tinv look (space_hash sch)" by (rule schema_env.reach_ok [OF env assms(4)])
  obtain t where t: "tnt_schema_space_free ra T (space_hash sch) = Some t" "tight look sval_keys (space_hash sch) \<longrightarrow> tight look sval_keys t"
    using schema_env.space_free_ok [OF env ok] by blast
  have "look (as_tab t) = Map.empty" if "assoc_stable T tinv look calm" "calm (as_tab (space_hash sch))" for calm
    using schema_env.space_free_empties [OF env that(1) ok that(2)] t(1) by simp
  moreover have "as_objs t = Map.empty \<and> as_vals t = {}" if "look (as_tab t) = Map.empty" "tight look sval_keys t"
    using assoc_table.empty_tight [OF assms(3) that(2,1)] .
  ultimately show ?thesis using schema_env.lookup_abs [OF env ok] t by (auto simp: tnt_schema_free_def)
qed

theorem schema_free_safe_witness:
  "(\<exists>i. tnt_schema_stosid (mhash_ops demo_ra) demo_sch [0x61] = Some i)
     \<and> (\<exists>t. tnt_schema_free demo_ra (mhash_ops demo_ra) (Some demo_sch) = Some (Some t) \<and> as_objs t = Map.empty)"
proof -
  have t: "tight mh_look sval_keys (space_hash demo_sch)" "mh_calm (as_tab (space_hash demo_sch))"
    by (simp_all add: tight_def demo_sch_def as_empty_def mh_calm_def demo_tab_def zero_mh_def)
  have "assoc_stable (mhash_ops demo_ra) minv mh_look mh_calm" "allocator demo_ra" "assoc_table (mhash_ops demo_ra) minv mh_look"
    unfolding demo_ra_def by (rule capped_alloc.mhash_slots.assoc_stable_axioms libc_alloc.allocator_axioms capped_alloc.mhash.assoc_table_axioms)+
  then show ?thesis
    using schema_free_safe [OF ref.msgpuck_laws_axioms _ _ demo_sch_reach, of minv mh_look "[0x61]" 0] t by blast
qed

text \<open>C19. What was loaded is found: after a reply with space rows whose names and number bytes are all different,
  \<open>tnt_schema_stosid\<close> returns for every name the number of its row, whatever the cache held before.  Every key that is neither a name nor the
  number bytes of a row is looked up as before; in a new schema as -1.\<close>

theorem schema_finds_spaces:
  assumes "msgpuck_laws mp" and "granting_allocator ra" and "schema_reach mp ra (mhash_ops ra) sch"
    and "rows r (map space_val ss)" and "\<forall>d \<in> set ss. space_def_ok d" and "rooms_for mh_left (2 * length ss) 0 (space_hash sch)"
    and "distinct (concat (map space_keys ss))"
  shows "\<exists>sch'. tnt_schema_add_spaces mp ra (mhash_ops ra) sch r = Some (0, sch')
     \<and> (\<forall>(no, owner, name, rest) \<in> set ss. tnt_schema_stosid (mhash_ops ra) sch' name = Some (sint no))
     \<and> (\<forall>name. name \<notin> set (concat (map space_keys ss)) \<longrightarrow> tnt_schema_stosid (mhash_ops ra) sch' name = tnt_schema_stosid (mhash_ops ra) sch name)
     \<and> (tnt_schema_new ra (mhash_ops ra) given = Some (Some (Some sch)) \<longrightarrow>
          (\<forall>name. name \<notin> set (concat (map space_keys ss)) \<longrightarrow> tnt_schema_stosid (mhash_ops ra) sch' name = Some (-1)))"
proof -
  note env = mhash_schema_room(1) [OF assms(1,2)]
  let ?m = "space_abs mh_look (space_hash sch)"
  obtain sch' where s: "tnt_schema_add_spaces mp ra (mhash_ops ra) sch r = Some (0, sch')"
    "\<forall>name. tnt_schema_stosid (mhash_ops ra) sch' name = Some (spec_sid (spec_spaces (as_next (space_hash sch)) ss ?m) name)"
    using load_spaces_lookup [OF assms(1-6)] by blast
  have "tnt_schema_stosid (mhash_ops ra) sch' name = Some (sint no)" if "(no, owner, name, rest) \<in> set ss" for no owner name rest
    using spec_spaces_finds [OF assms(7) that, of name "as_next (space_hash sch)" ?m] s(2)
    by (auto simp: space_keys_def spec_sid_def)
  moreover have other: "tnt_schema_stosid (mhash_ops ra) sch' name = Some (spec_sid ?m name)" if "name \<notin> set (concat (map space_keys ss))" for name
    using spec_spaces_other [OF that] s(2) by (simp add: spec_sid_def)
  moreover have "tnt_schema_stosid (mhash_ops ra) sch name = Some (spec_sid ?m name)" for name
    by (rule schema_env.lookup_abs(1) [OF env schema_env.reach_ok [OF env assms(3)]])
  moreover have "spec_sid ?m name = -1" if "tnt_schema_new ra (mhash_ops ra) given = Some (Some (Some sch))" for name
    using new_schema_empty(1) [OF assms(1,2) that] by (simp add: spec_sid_def)
  ultimately show ?thesis using s(1) by (intro exI [of _ sch']) auto
qed

theorem schema_finds_spaces_witness:
  "\<exists>sch'. tnt_schema_add_spaces mp_ref demo_ra (mhash_ops demo_ra) demo_sch (demo_rows [0x91, 0x93, 0xcd, 2, 0, 1, 0xa2, 0x61, 0x62]) = Some (0, sch')
     \<and> tnt_schema_stosid (mhash_ops demo_ra) sch' [0x61, 0x62] = Some 512 \<and> tnt_schema_stosid (mhash_ops demo_ra) sch' [0x61] = Some (-1)"
proof -
  have r: "rooms_for mh_left (2 * length demo_spaces) 0 (space_hash demo_sch)" by (simp add: demo_sch_empty(2) demo_spaces_def)
  have d: "distinct (concat (map space_keys demo_spaces))" "[0x61] \<notin> set (concat (map space_keys demo_spaces))"
    by (simp_all add: demo_spaces_def space_keys_def num_key_def be_bytes_4)
  from schema_finds_spaces [OF ref.msgpuck_laws_axioms demo_granting demo_sch_reach demo_loads(1,3) r d(1), of False] d(2) demo_new
  show ?thesis by (auto simp: demo_spaces_def)
qed

text \<open>C37. Names and numbers share one table: when the bytes of a later space's number spell the name of an earlier
  space, the name is looked up as the later space.\<close>

theorem schema_key_clash:
  assumes "msgpuck_laws mp" and "granting_allocator ra" and "schema_reach mp ra (mhash_ops ra) sch"
    and "rows r (map space_val [(n1, o1, name, f1), (n2, o2, name2, f2)])"
    and "space_def_ok (n1, o1, name, f1)" and "space_def_ok (n2, o2, name2, f2)" and "rooms_for mh_left 4 0 (space_hash sch)" and "num_key n2 = name"
  shows "\<exists>sch'. tnt_schema_add_spaces mp ra (mhash_ops ra) sch r = Some (0, sch') \<and> tnt_schema_stosid (mhash_ops ra) sch' name = Some (sint n2)"
proof -
  have "\<forall>d \<in> set [(n1, o1, name, f1), (n2, o2, name2, f2)]. space_def_ok d"
    "rooms_for mh_left (2 * length [(n1, o1, name, f1), (n2, o2, name2, f2)]) 0 (space_hash sch)" using assms(5-7) by simp_all
  from load_spaces_lookup [OF assms(1-4) this] show ?thesis using assms(8) by (auto simp: spec_sid_def)
qed

theorem schema_key_clash_witness:
  "\<exists>sch'. tnt_schema_add_spaces mp_ref demo_ra (mhash_ops demo_ra) demo_sch
       (demo_rows [0x92, 0x93, 1, 1, 0xa4, 0x74, 0x65, 0x73, 0x74, 0x93, 0xce, 0x74, 0x73, 0x65, 0x74, 1, 0xa1, 0x78]) = Some (0, sch')
     \<and> tnt_schema_stosid (mhash_ops demo_ra) sch' [0x74, 0x65, 0x73, 0x74] = Some 0x74736574"
proof -
  have r: "rows (demo_rows [0x92, 0x93, 1, 1, 0xa4, 0x74, 0x65, 0x73, 0x74, 0x93, 0xce, 0x74, 0x73, 0x65, 0x74, 1, 0xa1, 0x78])
     (map space_val [(1, VUint 1, [0x74, 0x65, 0x73, 0x74], []), (0x74736574, VUint 1, [0x78], [])])"
    by (simp add: rows_def demo_rows_def encodes_def mp_tok.simps(2) tk_defs be_nat_def)
  have ok: "space_def_ok (1, VUint 1, [0x74, 0x65, 0x73, 0x74], [])" "space_def_ok (0x74736574, VUint 1, [0x78], [])"
    by (simp_all add: space_def_ok_def row_name_ok_def)
  have k: "num_key 0x74736574 = [0x74, 0x65, 0x73, 0x74]" by (simp add: num_key_def be_bytes_4)
  from schema_key_clash [OF ref.msgpuck_laws_axioms demo_granting demo_sch_reach r ok demo_sch_empty(2) k]
  show ?thesis by simp
qed

end
