(* ===== verification/Tnt_Net_Spec.thy ===== *)
theory Tnt_Net_Spec
  imports Tnt_Net Tnt_Io_Spec Tnt_Schema_Load
begin

text \<open>
  What a network stream promises: it is a stream that keeps the \<open>writev\<close> contract, so every result about requests
  holds for it; replies are taken off the incoming bytes one frame at a time and counted against the writes; and the
  schema is loaded from the two replies in whichever order they come.
\<close>

section \<open>A network stream is a stream\<close>

definition net_wf :: "'h net_stream \<Rightarrow> bool" where
  "net_wf s \<longleftrightarrow> (\<exists>sn. s_data s = Some sn \<and> sendbuf_wf (nt_sbuf sn) \<and> recvbuf_wf (nt_rbuf sn))"

definition net_out :: "'h net_stream \<Rightarrow> bytes" where
  "net_out s = (case s_data s of Some sn \<Rightarrow> io_out sn | None \<Rightarrow> [])"

definition net_in :: "'h net_stream \<Rightarrow> bytes" where
  "net_in s = (case s_data s of Some sn \<Rightarrow> io_in sn | None \<Rightarrow> [])"

lemma net_wfE:
  assumes "net_wf s"
  obtains sn where "s_data s = Some sn" "sendbuf_wf (nt_sbuf sn)" "recvbuf_wf (nt_rbuf sn)" "net_out s = io_out sn" "net_in s = io_in sn"
  using assms by (auto simp: net_wf_def net_out_def net_in_def)

lemma net_writev_ok:
  assumes "net_wf s"
  shows "\<exists>r s'. tnt_net_writev s iov = Some (r, s') \<and> net_wf s' \<and> net_in s' = net_in s \<and> s_reqid s' = s_reqid s \<and>
     (r \<noteq> -1 \<longrightarrow> r = int (length (concat iov)) \<and> net_out s' = net_out s @ concat iov \<and> s_wrcnt s' = s_wrcnt s + 1)
     \<and> (r = -1 \<longrightarrow> s_wrcnt s' = s_wrcnt s)"
proof -
  obtain sn where sn: "s_data s = Some sn" "sendbuf_wf (nt_sbuf sn)" "recvbuf_wf (nt_rbuf sn)" "net_out s = io_out sn" "net_in s = io_in sn"
    using assms by (rule net_wfE)
  obtain r sn' where r: "tnt_io_sendv sn iov = Some (r, sn')" "sendbuf_wf (nt_sbuf sn')" "nt_rbuf sn' = nt_rbuf sn"
    "w_recv (nt_sys sn') = w_recv (nt_sys sn)"
    "r \<noteq> -1 \<longrightarrow> r = int (length (concat iov)) \<and> io_out sn' = io_out sn @ concat iov" using io_sendv_ok [OF sn(2)] by metis
  then show ?thesis using sn
    by (simp add: tnt_net_writev_def on_net_def net_wf_def net_out_def net_in_def io_in_def)
qed

interpretation netw: stream_writer net_wf net_out tnt_net_writev
proof
  fix s :: "'a net_stream" and iov :: "bytes list" and r s'
  assume w: "net_wf s" "concat iov \<noteq> []"
  from net_writev_ok [OF w(1), of iov] show "\<exists>r s'. tnt_net_writev s iov = Some (r, s')" by blast
  assume "tnt_net_writev s iov = Some (r, s')" "r \<noteq> -1"
  with net_writev_ok [OF w(1), of iov] show "r = int (length (concat iov)) \<and> net_wf s' \<and> net_out s' = net_out s @ concat iov
      \<and> s_wrcnt s' = s_wrcnt s + 1 \<and> s_reqid s' = s_reqid s" by auto
qed (simp_all add: net_wf_def net_out_def)

interpretation net_client: client mp_ref net_wf net_out tnt_net_writev
  by unfold_locales

section \<open>Replies\<close>

text \<open>The receive callback takes exactly the bytes asked for off the incoming stream.\<close>

definition same_net :: "'h net_stream \<Rightarrow> 'h net_stream \<Rightarrow> bool" where
  "same_net s s' \<longleftrightarrow> s_wrcnt s' = s_wrcnt s \<and> s_reqid s' = s_reqid s \<and> s_alloc s' = s_alloc s
     \<and> (\<exists>sn sn'. s_data s = Some sn \<and> s_data s' = Some sn' \<and> same_io sn sn')"

lemma same_net_trans: "same_net s s1 \<Longrightarrow> same_net s1 s2 \<Longrightarrow> same_net s s2"
  unfolding same_net_def using same_io_trans by (auto; blast)

lemma net_recv_ok:
  assumes "net_wf s" and "0 < n"
  shows "\<exists>d s'. net_recv s n = Some (d, s') \<and> net_wf s' \<and> same_net s s' \<and>
     (if n \<le> length (net_in s) then d = Some (take n (net_in s)) \<and> net_in s' = drop n (net_in s) else d = None)"
proof -
  obtain sn where sn: "s_data s = Some sn" "sendbuf_wf (nt_sbuf sn)" "recvbuf_wf (nt_rbuf sn)" "net_out s = io_out sn" "net_in s = io_in sn"
    using assms(1) by (rule net_wfE)
  obtain r d sn' where r: "tnt_io_recv sn n = Some (r, d, sn')" "recvbuf_wf (nt_rbuf sn')" "same_io sn sn'"
    "if n \<le> length (io_in sn) then r = int n \<and> d = take n (io_in sn) \<and> io_in sn' = drop n (io_in sn) else r = -1"
    using io_recv_ok [OF sn(3) assms(2)] by metis
  have "nt_sbuf sn' = nt_sbuf sn" using r(3) by (simp add: same_io_def)
  then show ?thesis using r sn
    by (auto simp: net_recv_def tnt_net_recv_cb_def net_wf_def net_in_def same_net_def split: if_splits)
qed

text \<open>The last reply to a request: an error or a reply without the chunk bit.\<close>

definition final_reply :: "(u64 \<times> u64) list \<Rightarrow> (u64 \<times> mval) list option \<Rightarrow> bool" where
  "final_reply hs es \<longleftrightarrow> str_of (last_val (body_list es) TNT_ERROR) \<noteq> None \<or> num_val hs TNT_CODE AND TNT_CHUNK = 0"

lemma final_reply_has: "reply_has hs es r \<Longrightarrow> (rp_error r \<noteq> None \<or> rp_code r AND TNT_CHUNK = 0) = final_reply hs es"
  by (simp add: reply_has_def final_reply_def TNT_CHUNK_def and.assoc)

lemma payload_keeps: "parse_payload mp r d = Some (Some r') \<Longrightarrow> rp_buf r' = rp_buf r"
  by (auto simp: parse_payload_def split: Option.bind_splits if_splits dest!: hdr0_keeps body0_keeps)

lemma reply_from_net:
  assumes "msgpuck_laws mp" and "allocator ra" and "grants_below (length fr) ra" and "net_wf s" and "net_in s = fr @ rest" and "is_reply hs es fr"
  shows "\<exists>s' r'. tnt_reply_from mp ra r net_recv s = Some (0, r', s') \<and> net_wf s' \<and> same_net s s' \<and> net_in s' = rest
     \<and> reply_has hs es r' \<and> (\<exists>d. rp_buf r' = Blk d) \<and> rp_alloc r' = rp_alloc r"
proof -
  have env: "builder_env mp ra" using assms(1,2) by (rule builder_env.intro)
  from assms(6) obtain hb bb where f: "fr = 0xce # be_bytes 4 (length (hb @ bb)) @ hb @ bb" "length (hb @ bb) < 2 ^ 32"
    "encodes (TMap (of_nat (length hs)) # hdr_toks hs) hb" "hdr_ok hs" "body_ok (body_list es)"
    "case es of None \<Rightarrow> bb = [] | Some x \<Rightarrow> encodes (TMap (of_nat (length x)) # body_toks x) bb" by (rule is_replyE)
  let ?p = "hb @ bb" let ?n = "length (hb @ bb)" let ?h = "0xce # be_bytes 4 ?n"
  have inn: "net_in s = ?h @ ?p @ rest" by (simp add: assms(5) f(1))
  have pos: "0 < ?n" using encodes_nonempty [OF f(3)] by simp
  have l5: "length ?h = 5" by simp
  obtain s1 where s1: "net_recv s 5 = Some (Some ?h, s1)" "net_wf s1" "same_net s s1" "net_in s1 = ?p @ rest"
    using net_recv_ok [OF assms(4), of 5] unfolding inn by (auto simp del: be_bytes.simps)
  obtain s2 where s2: "net_recv s1 ?n = Some (Some ?p, s2)" "net_wf s2" "same_net s1 s2" "net_in s2 = rest"
    using net_recv_ok [OF s1(2) pos] unfolding s1(4) by auto
  have t: "mp_tok ?h = Some (TUint (of_nat ?n), [])" using tok_len_prefix [OF f(2), of "[]"] by simp
  have n: "unat (of_nat ?n :: u64) = ?n" using f(2) by (intro unat_of_nat_u64) simp
  obtain d0 where d0: "tnt_mem_alloc ra ?n = Some (Blk d0)"
    using allocator.mem_alloc_below [OF assms(2,3) pos] by (auto simp: f(1))
  let ?r0 = "(zero_reply (rp_alloc r))\<lparr>rp_buf := Blk ?p, rp_buf_size := ?n\<rparr>"
  have "blank ?r0" "rp_alloc ?r0 = rp_alloc r" by (simp_all add: blank_def zero_reply_def)
  then obtain r' where r': "parse_payload mp ?r0 ?p = Some (Some r')" "reply_has hs es r'" "rp_alloc r' = rp_alloc r"
    using builder_env.parse_payload_reply [OF env f(3-6), of ?r0] by metis
  have "tnt_reply_from mp ra r net_recv s = Some (0, r', s2)"
    using builder_env.reply_from_parse [where rcv = net_recv, OF env s1(1) t, of d0 ?p s2 r, unfolded n, OF d0 s2(1) refl] r'(1) by simp
  with payload_keeps [OF r'(1)] s2 r' same_net_trans [OF s1(3) s2(3)] show ?thesis by auto
qed

lemma net_reply_frame:
  assumes "msgpuck_laws mp" and "allocator ra" and "grants_below (length fr) ra" and "net_wf s" and "net_in s = fr @ rest" and "is_reply hs es fr"
    and "s_wrcnt s \<noteq> 0"
  shows "\<exists>s' s1 r'. tnt_net_reply mp ra s r = Some (0, s', r') \<and> net_wf s' \<and> net_in s' = rest \<and> reply_has hs es r'
     \<and> same_net s s1 \<and> s' = s1\<lparr>s_wrcnt := s_wrcnt s - (if final_reply hs es then 1 else 0)\<rparr>
     \<and> (\<exists>d. rp_buf r' = Blk d) \<and> rp_alloc r' = rp_alloc r"
proof -
  obtain s1 r' where r: "tnt_reply_from mp ra r net_recv s = Some (0, r', s1)" "net_wf s1" "same_net s s1" "net_in s1 = rest"
     "reply_has hs es r'" "\<exists>d. rp_buf r' = Blk d" "rp_alloc r' = rp_alloc r" using reply_from_net [OF assms(1-6), of r] by blast
  let ?s = "s1\<lparr>s_wrcnt := s_wrcnt s - (if final_reply hs es then 1 else 0)\<rparr>"
  have "tnt_net_reply mp ra s r = Some (0, ?s, r')"
    using r(1,3) assms(7) final_reply_has [OF r(5)] by (auto simp: tnt_net_reply_def same_net_def)
  moreover have "net_wf ?s" "net_in ?s = rest" using r(2,4) by (simp_all add: net_wf_def net_in_def)
  ultimately show ?thesis using r by blast
qed

section \<open>Pipelined replies\<close>

type_synonym reply_item = "(u64 \<times> u64) list \<times> (u64 \<times> mval) list option"

text \<open>
  What an iterator still has to deliver: frames of the replies \<open>xs\<close>, followed by other bytes, with one final reply for
  every request not answered yet.
\<close>

definition finals :: "reply_item list \<Rightarrow> nat" where
  "finals xs = length (filter (\<lambda>x. final_reply (fst x) (snd x)) xs)"

definition answers :: "reply_item list \<Rightarrow> u32 \<Rightarrow> bool" where
  "answers xs n \<longleftrightarrow> finals xs = unat n \<and> (xs \<noteq> [] \<longrightarrow> final_reply (fst (last xs)) (snd (last xs)))"

definition net_todo :: "bytes \<Rightarrow> reply_item list \<Rightarrow> 'h net_stream tnt_iter \<Rightarrow> bool" where
  "net_todo rest xs i \<longleftrightarrow> it_next i = Some Reply_next \<and> it_free i = Some Reply_free \<and> it_status i = TNT_ITER_OK \<and>
     (\<exists>ir frs. it_data i = IterReply ir \<and> rp_buf (ir_r ir) \<noteq> Freed \<and> \<not> rp_alloc (ir_r ir) \<and> net_wf (ir_s ir)
        \<and> list_all2 (\<lambda>x fr. is_reply (fst x) (snd x) fr) xs frs
        \<and> net_in (ir_s ir) = concat frs @ rest \<and> answers xs (s_wrcnt (ir_s ir)))"

definition net_ended :: "bytes \<Rightarrow> 'h net_stream tnt_iter \<Rightarrow> bool" where
  "net_ended rest i \<longleftrightarrow> it_status i = TNT_ITER_OK \<and> (\<exists>ir. it_data i = IterReply ir \<and> net_in (ir_s ir) = rest \<and> s_wrcnt (ir_s ir) = 0)"

lemma answers_Cons:
  assumes "answers (x # xs) n"
  shows "n \<noteq> 0" "answers xs (n - (if final_reply (fst x) (snd x) then 1 else 0))"
proof -
  have "last (x # xs) \<in> set (filter (\<lambda>x. final_reply (fst x) (snd x)) (x # xs))"
    using assms last_in_set [of "x # xs"] unfolding answers_def set_filter by blast
  then have "0 < finals (x # xs)" unfolding finals_def by (rule length_pos_if_in_set)
  then show n: "n \<noteq> 0" using assms by (auto simp: answers_def)
  show "answers xs (n - (if final_reply (fst x) (snd x) then 1 else 0))"
    using assms n by (auto simp: answers_def finals_def unat_minus_one split: if_splits)
qed

lemma net_reply_cursor:
  assumes "msgpuck_laws mp" and "allocator ra" and "grants_all ra"
  shows "cursor (tnt_next mp ra (tnt_net_reply mp ra)) rep_at (net_todo rest) (net_ended rest)"
proof
  fix x xs and i :: "'a net_stream tnt_iter"
  assume "net_todo rest (x # xs) i"
  then obtain ir fr frs where i: "it_data i = IterReply ir" "rp_buf (ir_r ir) \<noteq> Freed" "\<not> rp_alloc (ir_r ir)"
      "net_wf (ir_s ir)" "net_in (ir_s ir) = fr @ concat frs @ rest" "is_reply (fst x) (snd x) fr"
      "list_all2 (\<lambda>x fr. is_reply (fst x) (snd x) fr) xs frs" "answers (x # xs) (s_wrcnt (ir_s ir))"
    and t: "it_next i = Some Reply_next" "it_status i = TNT_ITER_OK" "it_free i = Some Reply_free"
    by (auto simp: net_todo_def list_all2_Cons1)
  note a = answers_Cons [OF i(8)]
  obtain s' r' where r: "tnt_net_reply mp ra (ir_s ir) (zero_reply False) = Some (0, s', r')" "net_wf s'" "net_in s' = concat frs @ rest"
    "reply_has (fst x) (snd x) r'" "s_wrcnt s' = s_wrcnt (ir_s ir) - (if final_reply (fst x) (snd x) then 1 else 0)"
    "rp_buf r' \<noteq> Freed" "\<not> rp_alloc r'"
    using net_reply_frame [OF assms(1,2) grants_all_below [OF assms(3)] i(4-6) a(1), of "zero_reply False"] by auto
  let ?j = "i\<lparr>it_data := IterReply (ir\<lparr>ir_s := s', ir_r := r'\<rparr>)\<rparr>"
  have "tnt_next mp ra (tnt_net_reply mp ra) i = Some (1, ?j)"
    using reply_next_step [where rr = "tnt_net_reply mp ra", OF assms(2) t(1) i(1-3) r(1)] by simp
  moreover have "rep_at x ?j" using r(4) by (simp add: rep_at_def)
  moreover have "net_todo rest xs ?j" using t i(7) r a(2) by (auto simp: net_todo_def)
  ultimately show "\<exists>j. tnt_next mp ra (tnt_net_reply mp ra) i = Some (1, j) \<and> rep_at x j \<and> net_todo rest xs j" by blast
next
  fix i :: "'a net_stream tnt_iter"
  assume "net_todo rest [] i"
  then obtain ir where i: "it_data i = IterReply ir" "rp_buf (ir_r ir) \<noteq> Freed" "\<not> rp_alloc (ir_r ir)"
      "net_in (ir_s ir) = rest" "s_wrcnt (ir_s ir) = 0"
    and t: "it_next i = Some Reply_next" "it_status i = TNT_ITER_OK"
    by (auto simp: net_todo_def answers_def finals_def unat_eq_0)
  have "tnt_net_reply mp ra (ir_s ir) (zero_reply False) = Some (1, ir_s ir, zero_reply False)"
    using i(5) by (simp add: tnt_net_reply_def)
  from reply_next_step [where rr = "tnt_net_reply mp ra", OF assms(2) t(1) i(1-3) this] t(2) i
  show "\<exists>j. tnt_next mp ra (tnt_net_reply mp ra) i = Some (0, j) \<and> net_ended rest j" by (simp add: net_ended_def)
qed

interpretation net_replies: cursor "tnt_next mp_ref (custom_realloc os_ok) (tnt_net_reply mp_ref (custom_realloc os_ok))"
    rep_at "net_todo rest" "net_ended rest" for rest
  by (rule net_reply_cursor [OF ref.msgpuck_laws_axioms libc_alloc.allocator_axioms os_ok_grants])

lemma reply_iter_start:
  assumes "tnt_iter_init ra i0 = Some (Some i)"
  obtains it where "tnt_iter_reply ra i0 s = Some (Some it)" "it_next it = Some Reply_next" "it_free it = Some Reply_free"
    "it_status it = TNT_ITER_OK" "it_data it = IterReply \<lparr>ir_s = s, ir_r = zero_reply False\<rparr>" "it_alloc it = it_alloc i"
proof
  let ?it = "i\<lparr>it_type := TNT_ITER_REPLY, it_next := Some Reply_next, it_rewind := None,
            it_free := Some Reply_free, it_data := IterReply \<lparr>ir_s = s, ir_r = zero_reply False\<rparr>\<rparr>"
  show "tnt_iter_reply ra i0 s = Some (Some ?it)" using assms by (simp add: tnt_iter_reply_def tnt_reply_init_def)
  show "it_status ?it = TNT_ITER_OK" using assms by (auto simp: tnt_iter_init_def Let_def split: if_splits Option.bind_splits)
qed simp_all

lemma reply_start_todo:
  assumes "allocator ra" and "grants_all ra" and "net_wf s"
    and "list_all2 (\<lambda>x fr. is_reply (fst x) (snd x) fr) xs frs" and "net_in s = concat frs @ rest" and "answers xs (s_wrcnt s)"
  shows "\<exists>it. tnt_iter_reply ra i0 s = Some (Some it) \<and> net_todo rest xs it"
proof -
  obtain i where "tnt_iter_init ra i0 = Some (Some i)" using iter_init_granted [OF assms(1,2)] by blast
  then obtain it where it: "tnt_iter_reply ra i0 s = Some (Some it)" "it_next it = Some Reply_next" "it_free it = Some Reply_free"
    "it_status it = TNT_ITER_OK" "it_data it = IterReply \<lparr>ir_s = s, ir_r = zero_reply False\<rparr>"
    by (rule reply_iter_start [where s = s]) (rule that)
  then have "net_todo rest xs it" using assms(3-6) by (auto simp: net_todo_def)
  with it(1) show ?thesis by blast
qed

lemma net_drain:
  assumes "msgpuck_laws mp" and "allocator ra" and "grants_all ra" and "net_todo rest xs it"
  shows "\<exists>js k s'. drain (tnt_next mp ra (tnt_net_reply mp ra)) (Suc (length xs)) it = Some (js, k)
     \<and> list_all2 rep_at xs js \<and> it_status k = TNT_ITER_OK \<and> iter_stream k = Some s' \<and> s_wrcnt s' = 0 \<and> net_in s' = rest"
  using cursor.drain_all [OF net_reply_cursor [OF assms(1-3)] assms(4)] by (fastforce simp: net_ended_def iter_stream_def)

text \<open>The iterator of \<open>tnt_reload_schema\<close>, a local variable.\<close>

lemma local_iter_start:
  fixes s :: 's
  obtains it where "tnt_iter_reply ra (Some \<lparr>it_type = TNT_ITER_ARRAY, it_status = TNT_ITER_OK, it_alloc = False, it_next = None,
          it_rewind = None, it_free = None, it_data = IterZero\<rparr>) s = Some (Some it)"
    "it_next it = Some Reply_next" "it_free it = Some Reply_free" "it_data it = IterReply \<lparr>ir_s = s, ir_r = zero_reply False\<rparr>"
proof -
  obtain i where "tnt_iter_init ra (Some \<lparr>it_type = TNT_ITER_ARRAY, it_status = TNT_ITER_OK, it_alloc = False, it_next = None,
          it_rewind = None, it_free = None, it_data = IterZero\<rparr> :: 's tnt_iter option) = Some (Some i)" by (simp add: tnt_iter_init_def)
  then show thesis by (rule reply_iter_start [where s = s]) (rule that)
qed

section \<open>The connection a stream keeps\<close>

text \<open>Sending and flushing change the buffers, the error and the system, and leave the rest of the structure alone.\<close>

definition same_conn :: "'sc tnt_stream_net \<Rightarrow> 'sc tnt_stream_net \<Rightarrow> bool" where
  "same_conn s s' \<longleftrightarrow> nt_schema s' = nt_schema s \<and> nt_connected s' = nt_connected s \<and> nt_opt s' = nt_opt s
     \<and> nt_greeting s' = nt_greeting s \<and> nt_inited s' = nt_inited s \<and> nt_fd s' = nt_fd s"

lemma io_step_conn: "io_step s bs s' \<Longrightarrow> same_conn s s'"
  by (auto simp: io_step_def same_conn_def)

lemma send_loop_conn: "send_loop True s buf off = (r, s') \<Longrightarrow> same_conn s s'"
  by (drule send_loop_sends) (auto split: if_splits dest: io_step_conn)

lemma sendv_loop_conn: "sendv_loop True s iov tot = (r, s') \<Longrightarrow> same_conn s s'"
  by (drule sendv_loop_sends) (auto split: if_splits dest: io_step_conn)

lemma io_sendv_conn: "tnt_io_sendv s iov = Some (r, s') \<Longrightarrow> same_conn s s'"
  unfolding tnt_io_sendv_def tnt_io_sendv_raw_def tnt_io_send_raw_def
  by (auto simp: Let_def split: if_splits prod.splits Option.bind_splits dest!: sendv_loop_conn send_loop_conn)
    (simp_all add: same_conn_def)

lemma io_flush_conn: "tnt_io_flush s = Some (r, s') \<Longrightarrow> same_conn s s'"
  unfolding tnt_io_flush_def tnt_io_send_raw_def
  by (auto simp: Let_def split: if_splits prod.splits Option.bind_splits dest!: send_loop_conn)
    (simp_all add: same_conn_def)

lemma net_writev_conn:
  assumes "tnt_net_writev s iov = Some (r, s')" and "s_data s = Some sn"
  shows "\<exists>sn'. s_data s' = Some sn' \<and> same_conn sn sn'"
  using assms by (auto simp: tnt_net_writev_def on_net_def split: Option.bind_splits if_splits dest: io_sendv_conn)

lemma net_flush_ok:
  assumes "net_wf s" and "s_data s = Some sn"
  shows "\<exists>r s' sn'. tnt_flush s = Some (r, s') \<and> net_wf s' \<and> net_in s' = net_in s \<and> s_reqid s' = s_reqid s \<and> s_wrcnt s' = s_wrcnt s
     \<and> s_data s' = Some sn' \<and> same_conn sn sn' \<and> (r \<noteq> -1 \<longrightarrow> w_out (nt_sys sn') = net_out s)"
proof -
  have w: "sendbuf_wf (nt_sbuf sn)" "recvbuf_wf (nt_rbuf sn)" "net_out s = io_out sn" "net_in s = io_in sn"
    using assms by (auto elim!: net_wfE)
  obtain r sn' where r: "tnt_io_flush sn = Some (r, sn')" "sendbuf_wf (nt_sbuf sn')" "nt_rbuf sn' = nt_rbuf sn"
    "w_recv (nt_sys sn') = w_recv (nt_sys sn)"
    "r \<noteq> -1 \<longrightarrow> r = int (length (pending (nt_sbuf sn))) \<and> pending (nt_sbuf sn') = [] \<and> w_out (nt_sys sn') = io_out sn"
    using io_flush_ok [OF w(1)] by metis
  from io_flush_conn [OF r(1)] r w assms(2) show ?thesis
    by (simp add: tnt_flush_def on_net_def net_wf_def net_in_def io_in_def)
qed

text \<open>A message that fits into the send buffer is accepted.\<close>

definition send_room :: "'h net_stream \<Rightarrow> nat \<Rightarrow> bool" where
  "send_room s n \<longleftrightarrow> (\<exists>sn. s_data s = Some sn \<and> ib_buf (nt_sbuf sn) \<noteq> NULLP \<and> ib_off (nt_sbuf sn) + n \<le> ib_size (nt_sbuf sn))"

lemma sendv_put_room:
  "sendbuf_wf b \<Longrightarrow> ib_buf b \<noteq> NULLP \<Longrightarrow> tnt_io_sendv_put b iov = Some b' \<Longrightarrow>
   ib_buf b' \<noteq> NULLP \<and> ib_size b' = ib_size b \<and> ib_off b' = ib_off b + length (concat iov)"
proof (induction iov arbitrary: b)
  case (Cons v vs)
  then obtain b1 where b1: "iob_put b v = Some b1" "tnt_io_sendv_put b1 vs = Some b'" by (auto split: Option.bind_splits)
  have "sendbuf_wf b1" "ib_buf b1 \<noteq> NULLP" "ib_size b1 = ib_size b" "ib_off b1 = ib_off b + length v"
    using b1(1) Cons.prems(1) by (auto simp: iob_put_def sendbuf_wf_def split: cptr.splits if_splits)
  with Cons.IH [of b1] b1(2) show ?case by simp
qed simp

lemma net_writev_room:
  assumes "net_wf s" and "send_room s (length (concat iov) + n)"
  shows "\<exists>s'. tnt_net_writev s iov = Some (int (length (concat iov)), s') \<and> send_room s' n"
proof -
  obtain sn where sn: "s_data s = Some sn" "ib_buf (nt_sbuf sn) \<noteq> NULLP" "sendbuf_wf (nt_sbuf sn)"
    "ib_off (nt_sbuf sn) + length (concat iov) + n \<le> ib_size (nt_sbuf sn)"
    using assms by (auto simp: send_room_def net_wf_def)
  have len: "sum_list (map length iov) = length (concat iov)" by (simp add: length_concat)
  have "ib_off (nt_sbuf sn) + length (concat iov) \<le> ib_size (nt_sbuf sn)" using sn(4) by simp
  from sendv_put_ok [OF sn(3,2) this] obtain b' where b: "tnt_io_sendv_put (nt_sbuf sn) iov = Some b'" by blast
  note b' = sendv_put_room [OF sn(3,2) b]
  have "tnt_io_sendv sn iov = Some (int (length (concat iov)), sn\<lparr>nt_sbuf := b'\<rparr>)"
    using sn b by (simp add: tnt_io_sendv_def Let_def len)
  then show ?thesis using sn b' by (simp add: tnt_net_writev_def on_net_def send_room_def)
qed

section \<open>Requesting the schema\<close>

text \<open>The body of the two requests: all rows of a view, by its index 2, with an empty key.\<close>

definition select_all_body :: "u32 \<Rightarrow> bytes \<Rightarrow> item list" where
  "select_all_body sp key = Tok (TMap 6) # field TNT_SPACE (num sp) @ field TNT_INDEX (num tnt_vin_name)
     @ field TNT_LIMIT (num 0xffffffff) @ field TNT_OFFSET (num 0) @ field TNT_ITERATOR (Tok (TUint (ucast TNT_ITER_ALL)))
     @ field TNT_KEY (Raw key)"

lemma in_array_length: "in_array n b = Some c \<Longrightarrow> c = b \<and> length b \<le> n"
  by (auto simp: in_array_def split: if_splits)

context builder_env
begin

lemma empty_key_all:
  assumes "grants_all ra"
  obtains obj rc obj' st where "tnt_object ra None = Some (Some obj)" "tnt_object_add_array mp ra obj 0 = Some (rc, obj')"
    "tnt_object_verify mp obj' (Some MP_ARRAY) = Some 0" "encodes [TArr 0] (buf_contents obj')" "length (buf_contents obj') = 1"
    "tnt_stream_free (Some (tnt_buf_free ra)) (Some obj') = Some st"
proof -
  obtain obj where o: "tnt_object ra None = Some (Some obj)" "obj_rep obj (TNT_SBO_SIMPLE, [], []) 8"
    using tnt_object_fresh assms by (metis fresh_obj_def)
  have "refines_step ra 8 (abs_exec mp (OArr 0) (TNT_SBO_SIMPLE, [], [])) (obj_exec mp ra (OArr 0) obj)"
    by (rule obj_exec_refines [OF o(2)]) (simp_all add: builder_ok_def)
  then obtain rc obj' fs where x: "tnt_object_add_array mp ra obj 0 = Some (rc, obj')"
    "obj_rep obj' (TNT_SBO_SIMPLE, fs, hdr_open mp TNT_SBO_SIMPLE MP_ARRAY 0) 8"
    using assms by (auto simp: refines_step_def split: if_splits)
  then obtain sb sbo where sb: "s_data obj' = Some sb" "sb_subdata sb = Some sbo" "sbuf_wf sb" "\<not> sb_as sb"
    "sbuf_contents sb = mp_encode_array mp 0" by (auto elim!: obj_repE)
  have e: "encodes [TArr 0] (mp_encode_array mp 0)" by (rule enc_array)
  have l: "length (mp_encode_array mp 0) = 1" by (rule enc_array_one) simp
  then obtain h where h: "mp_encode_array mp 0 = [h]" by (cases "mp_encode_array mp 0") auto
  have t: "mp_typeof mp h = MP_ARRAY"
    using type_of [of h "[]"] e by (auto simp: h encodes_def split: option.splits if_splits)
  have "\<exists>d. x = h # d" if "take n x = [h]" for n x using that by (cases x; cases n) auto
  then obtain d where d: "sb_data sb = Blk (h # d)" using sb(5) h by (auto simp: sbuf_contents_def split: cptr.splits)
  have "mp_check mp [h] = Some []" using mp_skip_value [of "VArr []" "[h]" "[]"] e by (simp add: check encodes_def h)
  then have "tnt_object_verify mp obj' (Some MP_ARRAY) = Some 0" using sb d t h by (simp add: tnt_object_verify_def)
  moreover have "\<exists>st. tnt_stream_free (Some (tnt_buf_free ra)) (Some obj') = Some st"
    using sb d by (simp add: tnt_stream_free_def tnt_buf_free_def tnt_sbuf_object_free_def)
  ultimately show thesis using that o(1) x(1) e l sb by (auto simp: buf_contents_def)
qed

end

text \<open>
  The key is built from small blocks: it comes out the same with an allocator that also grants the large ones.
\<close>

definition topped :: "realloc_fn \<Rightarrow> realloc_fn" where
  "topped ra p n = (if n < 4096 then ra p n else custom_realloc os_ok p n)"

lemma topped_ok: "allocator ra \<Longrightarrow> allocator (topped ra)"
  unfolding allocator_def topped_def using libc_alloc.allocator_axioms [of os_ok, unfolded allocator_def] by auto

lemma topped_grants:
  assumes "grants_below 4096 ra"
  shows "grants_all (topped ra)"
  unfolding grants_all_def
proof (intro allI impI)
  fix p n q old assume q: "0 < n" "topped ra p n = Some (q, old)"
  have "n < 4096 \<Longrightarrow> ra p n = Some (q, old) \<Longrightarrow> q \<noteq> NULLP" using assms q(1) unfolding grants_below_def by blast
  moreover have "custom_realloc os_ok p n = Some (q, old) \<Longrightarrow> q \<noteq> NULLP" using os_ok_grants q(1) unfolding grants_all_def by blast
  ultimately show "q \<noteq> NULLP" using q(2) by (simp add: topped_def split: if_splits)
qed

lemma topped_small:
  "tnt_mem_alloc (topped ra) sizeof_tnt_stream = tnt_mem_alloc ra sizeof_tnt_stream"
  "tnt_mem_alloc (topped ra) sizeof_tnt_stream_buf = tnt_mem_alloc ra sizeof_tnt_stream_buf"
  "tnt_mem_alloc (topped ra) sizeof_tnt_sbuf_object = tnt_mem_alloc ra sizeof_tnt_sbuf_object"
  "tnt_mem_alloc (topped ra) (8 * sizeof_tnt_sbo_stack) = tnt_mem_alloc ra (8 * sizeof_tnt_sbo_stack)"
  "tnt_mem_free (topped ra) p = tnt_mem_free ra p" "n < 4096 \<Longrightarrow> tnt_mem_realloc (topped ra) p n = tnt_mem_realloc ra p n"
  by (simp_all add: tnt_mem_alloc_def tnt_mem_free_def tnt_mem_realloc_def topped_def)

lemma topped_object: "tnt_object (topped ra) None = tnt_object ra None"
  unfolding tnt_object_def tnt_buf_def tnt_stream_init_def topped_small ..

lemma topped_free: "tnt_buf_free (topped ra) = tnt_buf_free ra"
  by (rule ext) (unfold tnt_buf_free_def tnt_sbuf_object_free_def topped_small, rule refl)

lemma topped_resize:
  "2 * sb_alloc sb < 4096 \<Longrightarrow> sb_size sb + n < 4096 \<Longrightarrow> call_resize (topped ra) sb n = call_resize ra sb n"
  unfolding call_resize_def tnt_buf_resize_def tnt_sbuf_object_resize_def Let_def topped_small(5)
  by (cases "sb_resize sb") (simp_all add: topped_small(6))

lemma topped_write:
  assumes "s_data s = Some sb" and "2 * sb_alloc sb < 4096" and "sb_size sb + length b < 4096"
  shows "tnt_buf_write (topped ra) s b = tnt_buf_write ra s b"
  using assms by (simp add: tnt_buf_write_def topped_resize)

lemma tnt_object_empty:
  assumes "tnt_object ra None = Some (Some obj)"
  obtains sb sbo where "s_data obj = Some sb" "sb_size sb = 0" "sb_alloc sb = 0" "sb_subdata sb = Some sbo" "sbo_stack_size sbo = 0" "sbo_stack_alloc sbo = 8"
    "sbo_type sbo = TNT_SBO_SIMPLE"
  using assms
  by (auto simp: tnt_object_def tnt_buf_def tnt_stream_init_def tnt_object_type_def get_sbo_def set_sbo_def split: Option.bind_splits cptr.splits if_splits)

context builder_env
begin

lemma topped_array:
  assumes "tnt_object ra None = Some (Some obj)"
  shows "tnt_object_add_array mp (topped ra) obj 0 = tnt_object_add_array mp ra obj 0"
proof -
  obtain sb sbo where "s_data obj = Some sb" "sb_size sb = 0" "sb_alloc sb = 0" "sb_subdata sb = Some sbo" "sbo_stack_size sbo = 0" "sbo_stack_alloc sbo = 8"
    "sbo_type sbo = TNT_SBO_SIMPLE" by (rule tnt_object_empty [OF assms])
  moreover have "length (mp_encode_array mp 0) = 1" by (rule enc_array_one) simp
  ultimately show ?thesis
    by (simp add: tnt_object_add_array_def push_container_def count_in_parent_def get_sbo_def set_sbo_def topped_write)
qed

lemma empty_key:
  assumes "grants_below 4096 ra"
  obtains obj rc obj' st where "tnt_object ra None = Some (Some obj)" "tnt_object_add_array mp ra obj 0 = Some (rc, obj')"
    "tnt_object_verify mp obj' (Some MP_ARRAY) = Some 0" "encodes [TArr 0] (buf_contents obj')" "length (buf_contents obj') = 1"
    "tnt_stream_free (Some (tnt_buf_free ra)) (Some obj') = Some st"
proof -
  have "builder_env mp (topped ra)" by (intro builder_env.intro topped_ok msgpuck_laws_axioms allocator_axioms)
  from builder_env.empty_key_all [OF this topped_grants [OF assms]] show thesis
    using that topped_array unfolding topped_object topped_free by metis
qed

lemma select_all_writev:
  assumes "tnt_object_verify mp k (Some MP_ARRAY) = Some 0"
  obtains v where "tnt_select mp wv s sp tnt_vin_name 0xffffffff 0 TNT_ITER_ALL k = wv (next_reqid s) v"
    "is_frame TNT_OP_SELECT (s_reqid s) (select_all_body sp (buf_contents k)) (concat v)"
    "length (concat v) \<le> 98 + length (buf_contents k)"
proof -
  define body where "body = mp_encode_map mp 6
         @ mp_encode_uint mp TNT_SPACE @ mp_encode_uint mp (ucast sp)
         @ mp_encode_uint mp TNT_INDEX @ mp_encode_uint mp (ucast tnt_vin_name)
         @ mp_encode_uint mp TNT_LIMIT @ mp_encode_uint mp (ucast (0xffffffff :: u32))
         @ mp_encode_uint mp TNT_OFFSET @ mp_encode_uint mp (ucast (0 :: u32))
         @ mp_encode_uint mp TNT_ITERATOR @ mp_encode_uint mp (ucast TNT_ITER_ALL)
         @ mp_encode_uint mp TNT_KEY"
  obtain hdr where hdr: "encode_header mp TNT_OP_SELECT (s_reqid s) = Some hdr" using encode_header_ok by blast
  have hl: "length hdr \<le> 25" using hdr by (auto simp: encode_header_def dest!: in_array_length)
  have bl: "length body \<le> 64"
    using len_uint32 [of sp] len_uint32 [of tnt_vin_name] len_uint32 [of "0xffffffff"] len_uint32 [of 0] len_uint [of "ucast TNT_ITER_ALL"]
    unfolding body_def by simp
  have "matches (select_all_body sp (buf_contents k)) (concat [body, buf_contents k])" "body_items (select_all_body sp (buf_contents k))"
    using verify_ok_skip [OF assms] by (simp_all add: select_all_body_def body_def field_def num_def)
  from with_len_frame [OF hdr this] obtain v where v: "with_len mp [hdr, body, buf_contents k] = Some v"
    "is_frame TNT_OP_SELECT (s_reqid s) (select_all_body sp (buf_contents k)) (concat v)" by auto
  have "tnt_select mp wv s sp tnt_vin_name 0xffffffff 0 TNT_ITER_ALL k = wv (next_reqid s) v"
    using assms hdr v(1) bl by (simp add: tnt_select_def in_array_def body_def)
  moreover have "length (concat v) \<le> 98 + length (buf_contents k)"
    using v(1) hl bl by (auto simp: with_len_def split: Option.bind_splits dest!: in_array_length)
  ultimately show thesis using that v(2) by blast
qed

text \<open>Both functions write one such request.\<close>

lemma get_view_writev:
  assumes "grants_below 4096 ra"
  shows "\<exists>v key. tnt_get_space mp ra wv s = wv (next_reqid s) v \<and> encodes [TArr 0] key
       \<and> is_frame TNT_OP_SELECT (s_reqid s) (select_all_body tnt_vsp_space key) (concat v) \<and> length (concat v) \<le> 99"
    and "\<exists>v key. tnt_get_index mp ra wv s = wv (next_reqid s) v \<and> encodes [TArr 0] key
       \<and> is_frame TNT_OP_SELECT (s_reqid s) (select_all_body tnt_vsp_index key) (concat v) \<and> length (concat v) \<le> 99"
proof -
  obtain obj rc k st where k: "tnt_object ra None = Some (Some obj)" "tnt_object_add_array mp ra obj 0 = Some (rc, k)"
    "tnt_object_verify mp k (Some MP_ARRAY) = Some 0" "encodes [TArr 0] (buf_contents k)" "length (buf_contents k) = 1"
    "tnt_stream_free (Some (tnt_buf_free ra)) (Some k) = Some st" using assms by (rule empty_key)
  have "do { (retval, s) \<leftarrow> wv (next_reqid s) v; Some (retval, s) } = wv (next_reqid s) v" for v
    by (cases "wv (next_reqid s) v") auto
  note defs = tnt_get_space_def tnt_get_index_def this k(1,2,6)
  obtain v where "tnt_select mp wv s tnt_vsp_space tnt_vin_name 0xffffffff 0 TNT_ITER_ALL k = wv (next_reqid s) v"
    "is_frame TNT_OP_SELECT (s_reqid s) (select_all_body tnt_vsp_space (buf_contents k)) (concat v)"
    "length (concat v) \<le> 98 + length (buf_contents k)" using k(3) by (rule select_all_writev)
  with k(4,5) show "\<exists>v key. tnt_get_space mp ra wv s = wv (next_reqid s) v \<and> encodes [TArr 0] key
       \<and> is_frame TNT_OP_SELECT (s_reqid s) (select_all_body tnt_vsp_space key) (concat v) \<and> length (concat v) \<le> 99"
    by (intro exI [of _ v] exI [of _ "buf_contents k"]) (simp add: defs)
  obtain v where "tnt_select mp wv s tnt_vsp_index tnt_vin_name 0xffffffff 0 TNT_ITER_ALL k = wv (next_reqid s) v"
    "is_frame TNT_OP_SELECT (s_reqid s) (select_all_body tnt_vsp_index (buf_contents k)) (concat v)"
    "length (concat v) \<le> 98 + length (buf_contents k)" using k(3) by (rule select_all_writev)
  with k(4,5) show "\<exists>v key. tnt_get_index mp ra wv s = wv (next_reqid s) v \<and> encodes [TArr 0] key
       \<and> is_frame TNT_OP_SELECT (s_reqid s) (select_all_body tnt_vsp_index key) (concat v) \<and> length (concat v) \<le> 99"
    by (intro exI [of _ v] exI [of _ "buf_contents k"]) (simp add: defs)
qed

end

section \<open>Loading the schema\<close>

lemma set_schema_simps [simp]:
  "net_wf (set_schema sch s) = net_wf s" "net_in (set_schema sch s) = net_in s" "net_out (set_schema sch s) = net_out s"
  "s_wrcnt (set_schema sch s) = s_wrcnt s" "s_reqid (set_schema sch s) = s_reqid s"
  by (auto simp: net_wf_def net_in_def net_out_def set_schema_def io_in_def io_out_def split: option.splits)

lemma the_schema_set [simp]: "net_wf s \<Longrightarrow> the_schema (set_schema sch s) = Some sch"
  by (auto simp: net_wf_def set_schema_def the_schema_def)

lemma same_net_schema: "same_net s s' \<Longrightarrow> the_schema s' = the_schema s"
  by (auto simp: same_net_def same_io_def the_schema_def)

text \<open>One call of \<open>tnt_next\<close> in the loop: the next reply frame is in the iterator.\<close>

definition reply_iter :: "'h net_stream tnt_iter \<Rightarrow> 'h net_stream iter_reply_st \<Rightarrow> bool" where
  "reply_iter it ir \<longleftrightarrow> it_next it = Some Reply_next \<and> it_free it = Some Reply_free \<and> it_data it = IterReply ir
     \<and> rp_buf (ir_r ir) \<noteq> Freed \<and> \<not> rp_alloc (ir_r ir) \<and> net_wf (ir_s ir)"

definition got :: "reply_item \<Rightarrow> reply_struct \<Rightarrow> bool" where
  "got x r \<longleftrightarrow> reply_has (fst x) (snd x) r \<and> (\<exists>d. rp_buf r = Blk d) \<and> \<not> rp_alloc r"

lemma next_reply:
  assumes "msgpuck_laws mp" and "allocator ra" and "grants_below (length fr) ra" and "reply_iter it ir" and "net_in (ir_s ir) = fr @ rest"
    and "is_reply (fst x) (snd x) fr" and "s_wrcnt (ir_s ir) = n + 1" and "n + 1 \<noteq> 0" and "final_reply (fst x) (snd x)"
  obtains it' ir' where "tnt_next mp ra (tnt_net_reply mp ra) it = Some (1, it')" "reply_iter it' ir'" "got x (ir_r ir')"
    "net_in (ir_s ir') = rest" "s_wrcnt (ir_s ir') = n" "s_reqid (ir_s ir') = s_reqid (ir_s ir)" "the_schema (ir_s ir') = the_schema (ir_s ir)"
proof -
  have i: "it_next it = Some Reply_next" "it_data it = IterReply ir" "rp_buf (ir_r ir) \<noteq> Freed" "\<not> rp_alloc (ir_r ir)" "net_wf (ir_s ir)"
    using assms(4) by (simp_all add: reply_iter_def)
  have nz: "s_wrcnt (ir_s ir) \<noteq> 0" using assms(7,8) by simp
  obtain s1 r' where r: "tnt_net_reply mp ra (ir_s ir) (zero_reply False) = Some (0, s1\<lparr>s_wrcnt := n\<rparr>, r')"
    "net_wf (s1\<lparr>s_wrcnt := n\<rparr>)" "net_in (s1\<lparr>s_wrcnt := n\<rparr>) = rest" "same_net (ir_s ir) s1" "got x r'"
    using net_reply_frame [OF assms(1-3) i(5) assms(5,6) nz, of "zero_reply False"] assms(7,9) by (auto simp: got_def)
  let ?ir = "ir\<lparr>ir_s := s1\<lparr>s_wrcnt := n\<rparr>, ir_r := r'\<rparr>"
  have "tnt_next mp ra (tnt_net_reply mp ra) it = Some (1, it\<lparr>it_data := IterReply ?ir\<rparr>)"
    using reply_next_step [where rr = "tnt_net_reply mp ra", OF assms(2) i(1-4) r(1)] by simp
  moreover have "reply_iter (it\<lparr>it_data := IterReply ?ir\<rparr>) ?ir" using assms(4) r(2,5) by (auto simp: reply_iter_def got_def)
  moreover have "the_schema (s1\<lparr>s_wrcnt := n\<rparr>) = the_schema (ir_s ir)" "s_reqid s1 = s_reqid (ir_s ir)"
    using same_net_schema [OF r(4)] r(4) by (simp_all add: the_schema_def same_net_def)
  ultimately show thesis using that [of _ ?ir] r(3,5) by simp
qed

lemma next_stop:
  assumes "allocator ra" and "reply_iter it ir" and "s_wrcnt (ir_s ir) = 0"
  shows "tnt_next mp ra (tnt_net_reply mp ra) it = Some (0, it\<lparr>it_data := IterReply (ir\<lparr>ir_r := zero_reply False\<rparr>)\<rparr>)"
proof -
  have "tnt_net_reply mp ra (ir_s ir) (zero_reply False) = Some (1, ir_s ir, zero_reply False)"
    using assms(3) by (simp add: tnt_net_reply_def)
  from reply_next_step [where rr = "tnt_net_reply mp ra", OF assms(1) _ _ _ _ this, of it] assms(2) show ?thesis
    by (simp add: reply_iter_def)
qed

text \<open>A reply with rows, as the loop and \<open>tnt_schema_add_*\<close> see it.\<close>

definition rows_reply :: "u64 \<Rightarrow> mval list \<Rightarrow> reply_item \<Rightarrow> bool" where
  "rows_reply sync vs x \<longleftrightarrow> num_val (fst x) TNT_SYNC = sync \<and> num_val (fst x) TNT_CODE = 0
     \<and> last_val (body_list (snd x)) TNT_ERROR = None \<and> last_val (body_list (snd x)) TNT_DATA = Some (VArr vs)"

lemma rows_reply_final: "rows_reply sync vs x \<Longrightarrow> final_reply (fst x) (snd x)"
  by (simp add: rows_reply_def final_reply_def)

lemma rows_reply_got:
  assumes "rows_reply sync vs x" and "got x r" and "is_reply (fst x) (snd x) fr"
  shows "rp_sync r = sync \<and> rp_error r = None \<and> rows r vs"
proof -
  have "(TNT_DATA, VArr vs) \<in> set (body_list (snd x))"
    using assms(1) by (auto simp: rows_reply_def last_val_def dest!: map_of_SomeD)
  then have "vwf (VArr vs)" using assms(3) by (fastforce simp: is_reply_def body_ok_def entry_ok_def)
  then show ?thesis using assms(1,2)
    by (auto simp: rows_reply_def got_def reply_has_def str_of_def slice_of_def rows_def split: option.splits)
qed

lemma reload_loop_step:
  assumes "tnt_next mp ra (tnt_net_reply mp ra) it = Some (1, it')" and "reply_iter it' ir'"
    and "reload_step mp ra T ir' (it', st) = Some (Inr st')"
  shows "reload_loop mp ra T (it, st) = reload_loop mp ra T st'"
  using assms by (subst reload_loop.simps) (simp add: reply_iter_def)

lemma reload_loop_stop:
  assumes "allocator ra" and "reply_iter it ir" and "s_wrcnt (ir_s ir) = 0"
  shows "reload_loop mp ra T (it, st) = Some (Inr (it\<lparr>it_data := IterReply (ir\<lparr>ir_r := zero_reply False\<rparr>)\<rparr>, st))"
  using next_stop [OF assms] by (subst reload_loop.simps) simp

text \<open>What a step does with a reply with rows.\<close>

definition with_schema :: "'h net_stream tnt_iter \<Rightarrow> 'h net_stream iter_reply_st \<Rightarrow> 'h tnt_schema \<Rightarrow> 'h net_stream tnt_iter" where
  "with_schema it ir sch = it\<lparr>it_data := IterReply (ir\<lparr>ir_s := set_schema sch (ir_s ir)\<rparr>)\<rparr>"

lemma with_schema_iter: "reply_iter it ir \<Longrightarrow> reply_iter (with_schema it ir sch) (ir\<lparr>ir_s := set_schema sch (ir_s ir)\<rparr>)"
  by (simp add: reply_iter_def with_schema_def)

lemma step_spaces:
  assumes "rp_sync (ir_r ir) = 127" and "rp_error (ir_r ir) = None" and "the_schema (ir_s ir) = Some sch"
    and "tnt_schema_add_spaces mp ra T sch (ir_r ir) = Some (rc, sch')"
  shows "reload_step mp ra T ir (it, bkp, k) = Some (Inr (with_schema it ir sch', bkp, k + 1))"
  using assms by (simp add: reload_step_def with_schema_def)

lemma step_indexes:
  assumes "rp_sync (ir_r ir) = 128" and "rp_error (ir_r ir) = None" and "odd k" and "the_schema (ir_s ir) = Some sch"
    and "tnt_schema_add_indexes mp ra T sch (ir_r ir) = Some (rc, sch')"
  shows "reload_step mp ra T ir (it, bkp, k) = Some (Inr (with_schema it ir sch', bkp, k + 2))"
  using assms by (simp add: reload_step_def with_schema_def)

lemma step_backup:
  assumes "rp_sync (ir_r ir) = 128" and "rp_error (ir_r ir) = None" and "even k"
  shows "reload_step mp ra T ir (it, bkp, k)
     = Some (Inr (it\<lparr>it_data := IterReply (ir\<lparr>ir_r := (ir_r ir)\<lparr>rp_buf := NULLP\<rparr>\<rparr>)\<rparr>, ir_r ir, k))"
  using assms by (simp add: reload_step_def Let_def)

lemma reload_end_ok:
  assumes "allocator ra" and "reply_iter it ir"
  shows "reload_end ra it rc = Some (rc, ir_s ir)"
  using assms allocator.mem_free_live [OF assms(1)]
  by (cases "rp_buf (ir_r ir)") (auto simp: reload_end_def iter_stream_def reply_iter_def tnt_iter_free_def tnt_iter_reply_free_def
      tnt_reply_free_def)

text \<open>
  The loop and what follows it, on a stream whose schema is \<open>sch\<close>: whichever reply comes first, the rows of the first
  reply are spaces and then those of the second indexes.
\<close>

definition schema_is :: "('h \<Rightarrow> bool) \<Rightarrow> ('h \<Rightarrow> bytes \<Rightarrow> assoc_val option) \<Rightarrow> schema_map \<Rightarrow> 'h net_stream \<Rightarrow> bool" where
  "schema_is tinv look m s \<longleftrightarrow> (\<exists>sch. the_schema s = Some sch \<and> space_ok tinv look (space_hash sch) \<and> space_abs look (space_hash sch) = m)"

text \<open>The same with room in the tables for \<open>k\<close> more index rows.\<close>

definition schema_fits :: "('h \<Rightarrow> bool) \<Rightarrow> ('h \<Rightarrow> bytes \<Rightarrow> assoc_val option) \<Rightarrow> ('h \<Rightarrow> nat) \<Rightarrow> nat \<Rightarrow> schema_map \<Rightarrow> 'h net_stream \<Rightarrow> bool" where
  "schema_fits tinv look left k m s \<longleftrightarrow> (\<exists>sch. the_schema s = Some sch \<and> space_ok tinv look (space_hash sch) \<and> space_abs look (space_hash sch) = m
     \<and> rooms_for left 0 (2 * k) (space_hash sch))"

definition reload_done :: "('h \<Rightarrow> bool) \<Rightarrow> ('h \<Rightarrow> bytes \<Rightarrow> assoc_val option) \<Rightarrow> schema_map \<Rightarrow> bytes \<Rightarrow> u64
    \<Rightarrow> (int \<times> 'h net_stream) option \<Rightarrow> bool" where
  "reload_done tinv look m rest reqid res \<longleftrightarrow> (\<exists>s. res = Some (0, s) \<and> net_wf s \<and> net_in s = rest \<and> s_wrcnt s = 0
     \<and> s_reqid s = reqid \<and> schema_is tinv look m s)"

context schema_room
begin

text \<open>The two steps that add rows, with the call of \<open>tnt_next\<close> before them.\<close>

lemma frame_grants: "length fr \<le> 2 ^ 24 \<Longrightarrow> grants_below (length fr) ra"
  using grants by (simp add: grants_below_def)

lemma loop_spaces:
  assumes "reply_iter it ir" and "net_in (ir_s ir) = fr @ rest" and "is_reply (fst x) (snd x) fr" and "s_wrcnt (ir_s ir) = n + 1" and "n + 1 \<noteq> 0"
    and "rows_reply 127 (map space_val ss) x" and "\<forall>d \<in> set ss. space_def_ok d"
    and "the_schema (ir_s ir) = Some sch" and "space_ok tinv look (space_hash sch)"
    and "length fr \<le> 2 ^ 24" and "rooms_for left (2 * length ss) (2 * ni) (space_hash sch)" and "2 * ni \<le> cap"
  obtains it' ir' where "reload_loop mp ra T (it, bkp, k) = reload_loop mp ra T (it', bkp, k + 1)" "reply_iter it' ir'"
    "net_in (ir_s ir') = rest" "s_wrcnt (ir_s ir') = n" "s_reqid (ir_s ir') = s_reqid (ir_s ir)"
    "schema_fits tinv look left ni (spec_spaces (as_next (space_hash sch)) ss (space_abs look (space_hash sch))) (ir_s ir')"
proof -
  obtain it1 ir1 where 1: "tnt_next mp ra (tnt_net_reply mp ra) it = Some (1, it1)" "reply_iter it1 ir1" "got x (ir_r ir1)"
    "net_in (ir_s ir1) = rest" "s_wrcnt (ir_s ir1) = n" "s_reqid (ir_s ir1) = s_reqid (ir_s ir)" "the_schema (ir_s ir1) = the_schema (ir_s ir)"
    using next_reply [OF msgpuck_laws_axioms allocator_axioms frame_grants [OF assms(10)] assms(1-5) rows_reply_final [OF assms(6)]] by metis
  have r: "rp_sync (ir_r ir1) = 127" "rp_error (ir_r ir1) = None" "rows (ir_r ir1) (map space_val ss)"
    using rows_reply_got [OF assms(6) 1(3) assms(3)] by simp_all
  obtain sch' where sch: "tnt_schema_add_spaces mp ra T sch (ir_r ir1) = Some (0, sch')" "space_ok tinv look (space_hash sch')"
    "space_abs look (space_hash sch') = spec_spaces (as_next (space_hash sch)) ss (space_abs look (space_hash sch))"
    "rooms_for left 0 (2 * ni) (space_hash sch')"
    using load_spaces [OF r(3) assms(7,9,11,12)] by blast
  have "reload_step mp ra T ir1 (it1, bkp, k) = Some (Inr (with_schema it1 ir1 sch', bkp, k + 1))"
    using step_spaces [OF r(1,2) _ sch(1)] 1(7) assms(8) by simp
  note step = reload_loop_step [OF 1(1,2) this]
  have w: "net_wf (ir_s ir1)" using 1(2) by (simp add: reply_iter_def)
  show thesis
    by (rule that [OF step with_schema_iter [OF 1(2)]]) (use 1 sch w in \<open>auto simp: schema_fits_def\<close>)
qed

lemma loop_indexes:
  assumes "reply_iter it ir" and "net_in (ir_s ir) = fr @ rest" and "is_reply (fst x) (snd x) fr" and "s_wrcnt (ir_s ir) = n + 1" and "n + 1 \<noteq> 0"
    and "rows_reply 128 (map index_val is) x" and "\<forall>d \<in> set is. index_def_ok d" and "\<forall>d \<in> set is. m (num_key (fst d)) \<noteq> None"
    and "schema_fits tinv look left (length is) m (ir_s ir)" and "odd k" and "length fr \<le> 2 ^ 24"
  obtains it' ir' where "reload_loop mp ra T (it, bkp, k) = reload_loop mp ra T (it', bkp, k + 2)" "reply_iter it' ir'"
    "net_in (ir_s ir') = rest" "s_wrcnt (ir_s ir') = n" "s_reqid (ir_s ir') = s_reqid (ir_s ir)"
    "schema_is tinv look (fold spec_index is m) (ir_s ir')"
proof -
  obtain it1 ir1 where 1: "tnt_next mp ra (tnt_net_reply mp ra) it = Some (1, it1)" "reply_iter it1 ir1" "got x (ir_r ir1)"
    "net_in (ir_s ir1) = rest" "s_wrcnt (ir_s ir1) = n" "s_reqid (ir_s ir1) = s_reqid (ir_s ir)" "the_schema (ir_s ir1) = the_schema (ir_s ir)"
    using next_reply [OF msgpuck_laws_axioms allocator_axioms frame_grants [OF assms(11)] assms(1-5) rows_reply_final [OF assms(6)]] by metis
  have r: "rp_sync (ir_r ir1) = 128" "rp_error (ir_r ir1) = None" "rows (ir_r ir1) (map index_val is)"
    using rows_reply_got [OF assms(6) 1(3) assms(3)] by simp_all
  obtain sch where s: "the_schema (ir_s ir) = Some sch" "space_ok tinv look (space_hash sch)" "space_abs look (space_hash sch) = m"
    "rooms_for left 0 (2 * length is) (space_hash sch)" using assms(9) by (auto simp: schema_fits_def)
  obtain sch' where sch: "tnt_schema_add_indexes mp ra T sch (ir_r ir1) = Some (0, sch')" "space_ok tinv look (space_hash sch')"
    "space_abs look (space_hash sch') = fold spec_index is m"
    using load_indexes [OF r(3) assms(7) s(2) _ s(4)] assms(8) s(3) by auto
  have "reload_step mp ra T ir1 (it1, bkp, k) = Some (Inr (with_schema it1 ir1 sch', bkp, k + 2))"
    using step_indexes [OF r(1,2) assms(10) _ sch(1)] 1(7) s(1) by simp
  note step = reload_loop_step [OF 1(1,2) this]
  have w: "net_wf (ir_s ir1)" using 1(2) by (simp add: reply_iter_def)
  show thesis
    by (rule that [OF step with_schema_iter [OF 1(2)]]) (use 1 sch w in \<open>auto simp: schema_is_def\<close>)
qed

text \<open>The end of the function, with and without a reply kept for later.\<close>

lemma finish_done:
  assumes "reply_iter it ir" and "rp_buf bkp = NULLP"
  shows "reload_finish mp ra T (it\<lparr>it_data := IterReply (ir\<lparr>ir_r := zero_reply False\<rparr>)\<rparr>, bkp, 3) = Some (0, ir_s ir)"
proof -
  have "reply_iter (it\<lparr>it_data := IterReply (ir\<lparr>ir_r := zero_reply False\<rparr>)\<rparr>) (ir\<lparr>ir_r := zero_reply False\<rparr>)"
    using assms(1) by (simp add: reply_iter_def)
  from reload_end_ok [OF allocator_axioms this] show ?thesis using assms(2) by (simp add: reload_finish_def)
qed

lemma finish_backup:
  assumes "reply_iter it ir" and "got x bkp" and "is_reply (fst x) (snd x) fr" and "rows_reply 128 (map index_val is) x"
    and "\<forall>d \<in> set is. index_def_ok d" and "\<forall>d \<in> set is. m (num_key (fst d)) \<noteq> None" and "schema_fits tinv look left (length is) m (ir_s ir)"
  obtains s where "reload_finish mp ra T (it\<lparr>it_data := IterReply (ir\<lparr>ir_r := zero_reply False\<rparr>)\<rparr>, bkp, 1) = Some (0, s)"
    "net_wf s" "net_in s = net_in (ir_s ir)" "s_wrcnt s = s_wrcnt (ir_s ir)" "s_reqid s = s_reqid (ir_s ir)"
    "schema_is tinv look (fold spec_index is m) s"
proof -
  have r: "rows bkp (map index_val is)" using rows_reply_got [OF assms(4,2,3)] by simp
  obtain sch where s: "the_schema (ir_s ir) = Some sch" "space_ok tinv look (space_hash sch)" "space_abs look (space_hash sch) = m"
    "rooms_for left 0 (2 * length is) (space_hash sch)" using assms(7) by (auto simp: schema_fits_def)
  obtain sch' where sch: "tnt_schema_add_indexes mp ra T sch bkp = Some (0, sch')" "space_ok tinv look (space_hash sch')"
    "space_abs look (space_hash sch') = fold spec_index is m"
    using load_indexes [OF r assms(5) s(2) _ s(4)] assms(6) s(3) by auto
  define ir' where "ir' = ir\<lparr>ir_r := zero_reply False, ir_s := set_schema sch' (ir_s ir)\<rparr>"
  have it: "reply_iter (it\<lparr>it_data := IterReply ir'\<rparr>) ir'" and w: "net_wf (ir_s ir)"
    using assms(1) by (simp_all add: reply_iter_def ir'_def)
  have e: "reload_end ra (it\<lparr>it_data := IterReply ir'\<rparr>) 0 = Some (0, ir_s ir')" by (rule reload_end_ok [OF allocator_axioms it])
  have "\<exists>st. tnt_reply_free ra bkp = Some st" using assms(2) by (auto simp: got_def tnt_reply_free_def)
  then have "reload_finish mp ra T (it\<lparr>it_data := IterReply (ir\<lparr>ir_r := zero_reply False\<rparr>)\<rparr>, bkp, 1) = Some (0, ir_s ir')"
    using assms(2) s(1) sch(1) e by (auto simp: reload_finish_def got_def ir'_def)
  then show thesis by (rule that) (use sch w in \<open>auto simp: ir'_def schema_is_def\<close>)
qed

definition reload_tail :: "'h net_stream tnt_iter \<Rightarrow> (int \<times> 'h net_stream) option" where
  "reload_tail it = do {
     res \<leftarrow> reload_loop mp ra T (it, zero_reply False, 0);
     (case res of Inl it \<Rightarrow> reload_end ra it (-1) | Inr st \<Rightarrow> reload_finish mp ra T st) }"

lemma reload_both_orders:
  assumes it: "reply_iter it ir" "s_wrcnt (ir_s ir) = 2" "the_schema (ir_s ir) = Some sch" "space_ok tinv look (space_hash sch)"
    and x: "is_reply (fst x) (snd x) fx" "rows_reply 127 (map space_val ss) x" "\<forall>d \<in> set ss. space_def_ok d"
    and y: "is_reply (fst y) (snd y) fy" "rows_reply 128 (map index_val is) y" "\<forall>d \<in> set is. index_def_ok d"
    and m: "m = spec_spaces (as_next (space_hash sch)) ss (space_abs look (space_hash sch))" "\<forall>d \<in> set is. m (num_key (fst d)) \<noteq> None"
    and inp: "net_in (ir_s ir) = fx @ fy @ rest \<or> net_in (ir_s ir) = fy @ fx @ rest"
    and fit: "length fx \<le> 2 ^ 24" "length fy \<le> 2 ^ 24" "rooms_for left (2 * length ss) (2 * length is) (space_hash sch)" "2 * length is \<le> cap"
  shows "reload_done tinv look (fold spec_index is m) rest (s_reqid (ir_s ir)) (reload_tail it)"
  using inp
proof
  assume i: "net_in (ir_s ir) = fx @ fy @ rest"
  have two: "s_wrcnt (ir_s ir) = 1 + 1" "(1 :: u32) + 1 \<noteq> 0" using it(2) by simp_all
  obtain it1 ir1 where 1: "reload_loop mp ra T (it, zero_reply False, 0) = reload_loop mp ra T (it1, zero_reply False, 0 + 1)" "reply_iter it1 ir1"
    "net_in (ir_s ir1) = fy @ rest" "s_wrcnt (ir_s ir1) = 1" "s_reqid (ir_s ir1) = s_reqid (ir_s ir)" "schema_fits tinv look left (length is) m (ir_s ir1)"
    unfolding m(1) by (rule loop_spaces [OF it(1) i x(1) two x(2,3) it(3,4) fit(1,3,4)])
  have one: "s_wrcnt (ir_s ir1) = 0 + 1" "(0 :: u32) + 1 \<noteq> 0" using 1(4) by simp_all
  obtain it2 ir2 where 2: "reload_loop mp ra T (it1, zero_reply False, 1) = reload_loop mp ra T (it2, zero_reply False, 1 + 2)" "reply_iter it2 ir2"
    "net_in (ir_s ir2) = rest" "s_wrcnt (ir_s ir2) = 0" "s_reqid (ir_s ir2) = s_reqid (ir_s ir1)"
    "schema_is tinv look (fold spec_index is m) (ir_s ir2)"
    by (rule loop_indexes [OF 1(2,3) y(1) one y(2,3) m(2) 1(6) _ fit(2), of 1]) simp_all
  have "reload_tail it = Some (0, ir_s ir2)"
    using 1(1) 2(1) reload_loop_stop [OF allocator_axioms 2(2,4)] finish_done [OF 2(2), of "zero_reply False"]
    by (simp add: reload_tail_def numeral_3_eq_3)
  then show ?thesis using 1(5) 2 by (auto simp: reload_done_def reply_iter_def)
next
  assume i: "net_in (ir_s ir) = fy @ fx @ rest"
  have two: "s_wrcnt (ir_s ir) = 1 + 1" "(1 :: u32) + 1 \<noteq> 0" using it(2) by simp_all
  obtain it1 ir1 where 1: "tnt_next mp ra (tnt_net_reply mp ra) it = Some (1, it1)" "reply_iter it1 ir1" "got y (ir_r ir1)"
    "net_in (ir_s ir1) = fx @ rest" "s_wrcnt (ir_s ir1) = 1" "s_reqid (ir_s ir1) = s_reqid (ir_s ir)" "the_schema (ir_s ir1) = the_schema (ir_s ir)"
    using next_reply [OF msgpuck_laws_axioms allocator_axioms frame_grants [OF fit(2)] it(1) i y(1) two rows_reply_final [OF y(2)]] by metis
  have r: "rp_sync (ir_r ir1) = 128" "rp_error (ir_r ir1) = None" using rows_reply_got [OF y(2) 1(3) y(1)] by simp_all
  define ir2 where "ir2 = ir1\<lparr>ir_r := (ir_r ir1)\<lparr>rp_buf := NULLP\<rparr>\<rparr>"
  define it2 where "it2 = it1\<lparr>it_data := IterReply ir2\<rparr>"
  have 2: "reload_loop mp ra T (it, zero_reply False, 0) = reload_loop mp ra T (it2, ir_r ir1, 0)"
    unfolding it2_def ir2_def by (rule reload_loop_step [OF 1(1,2) step_backup [OF r]]) simp
  have 3: "reply_iter it2 ir2" "net_in (ir_s ir2) = fx @ rest" "s_wrcnt (ir_s ir2) = 0 + 1" "(0 :: u32) + 1 \<noteq> 0" "the_schema (ir_s ir2) = Some sch"
    "s_reqid (ir_s ir2) = s_reqid (ir_s ir)" using 1 it(3) by (simp_all add: it2_def ir2_def reply_iter_def)
  obtain it3 ir3 where 4: "reload_loop mp ra T (it2, ir_r ir1, 0) = reload_loop mp ra T (it3, ir_r ir1, 0 + 1)" "reply_iter it3 ir3"
    "net_in (ir_s ir3) = rest" "s_wrcnt (ir_s ir3) = 0" "s_reqid (ir_s ir3) = s_reqid (ir_s ir2)" "schema_fits tinv look left (length is) m (ir_s ir3)"
    unfolding m(1) by (rule loop_spaces [OF 3(1,2) x(1) 3(3,4) x(2,3) 3(5) it(4) fit(1,3,4)])
  obtain s where 5: "reload_finish mp ra T (it3\<lparr>it_data := IterReply (ir3\<lparr>ir_r := zero_reply False\<rparr>)\<rparr>, ir_r ir1, 1) = Some (0, s)"
    "net_wf s" "net_in s = net_in (ir_s ir3)" "s_wrcnt s = s_wrcnt (ir_s ir3)" "s_reqid s = s_reqid (ir_s ir3)"
    "schema_is tinv look (fold spec_index is m) s" by (rule finish_backup [OF 4(2) 1(3) y(1,2,3) m(2) 4(6)])
  have "reload_tail it = Some (0, s)"
    using 2 4(1) reload_loop_stop [OF allocator_axioms 4(2,4)] 5(1) by (simp add: reload_tail_def)
  then show ?thesis using 3(6) 4 5 by (auto simp: reload_done_def)
qed

text \<open>A message accepted by a stream with room for it.\<close>

lemma writev_accepted:
  assumes "net_wf s" and "send_room s k" and "length (concat v) + n \<le> k" and "s_data s = Some sn"
  obtains r s' sn' where "tnt_net_writev s v = Some (r, s')" "net_wf s'" "send_room s' n" "net_in s' = net_in s" "s_reqid s' = s_reqid s"
    "s_wrcnt s' = s_wrcnt s + 1" "s_data s' = Some sn'" "same_conn sn sn'"
proof -
  have "send_room s (length (concat v) + n)" using assms(2,3) by (auto simp: send_room_def)
  from net_writev_room [OF assms(1) this] obtain s' where
    w: "tnt_net_writev s v = Some (int (length (concat v)), s')" "send_room s' n" by blast
  with net_writev_ok [OF assms(1), of v] net_writev_conn [OF w(1) assms(4)] show thesis by (auto intro: that)
qed

lemma reload_schema_loads:
  assumes s: "net_wf s" "s_data s = Some sn" "nt_connected sn" "s_wrcnt s = 0" "send_room s 198" "the_schema s = Some sch"
      "space_ok tinv look (space_hash sch)"
    and x: "is_reply (fst x) (snd x) fx" "rows_reply 127 (map space_val ss) x" "\<forall>d \<in> set ss. space_def_ok d"
    and y: "is_reply (fst y) (snd y) fy" "rows_reply 128 (map index_val is) y" "\<forall>d \<in> set is. index_def_ok d"
    and m: "m = spec_spaces (as_next (space_hash sch)) ss (space_abs look (space_hash sch))" "\<forall>d \<in> set is. m (num_key (fst d)) \<noteq> None"
    and inp: "net_in s = fx @ fy @ rest \<or> net_in s = fy @ fx @ rest"
    and fit: "length fx \<le> 2 ^ 24" "length fy \<le> 2 ^ 24" "rooms_for left (2 * length ss) (2 * length is) (space_hash sch)" "2 * length is \<le> cap"
  shows "reload_done tinv look (fold spec_index is m) rest (ucast (ucast (s_reqid s) :: u32)) (tnt_reload_schema mp ra T s)"
proof -
  have small: "grants_below 4096 ra" using grants by (simp add: grants_below_def)
  let ?s0 = "s\<lparr>s_reqid := 127\<rparr>"
  have s0: "net_wf (next_reqid ?s0)" "send_room (next_reqid ?s0) 198" "s_data (next_reqid ?s0) = Some sn"
    using s(1,2,5) by (simp_all add: next_reqid_def net_wf_def send_room_def)
  obtain v1 where v1: "tnt_get_space mp ra tnt_net_writev ?s0 = tnt_net_writev (next_reqid ?s0) v1" "length (concat v1) \<le> 99"
    using get_view_writev(1) [OF small] by metis
  obtain r1 s1 sn1 where 1: "tnt_net_writev (next_reqid ?s0) v1 = Some (r1, s1)" "net_wf s1" "send_room s1 99"
    "net_in s1 = net_in (next_reqid ?s0)" "s_wrcnt s1 = s_wrcnt (next_reqid ?s0) + 1" "s_data s1 = Some sn1" "same_conn sn sn1"
    by (rule writev_accepted [OF s0(1,2) _ s0(3), of v1 99]) (use v1(2) in simp_all)
  have n1: "net_wf (next_reqid s1)" "send_room (next_reqid s1) 99" "s_data (next_reqid s1) = Some sn1"
    using 1(2,3,6) by (simp_all add: next_reqid_def net_wf_def send_room_def)
  obtain v2 where v2: "tnt_get_index mp ra tnt_net_writev s1 = tnt_net_writev (next_reqid s1) v2" "length (concat v2) \<le> 99"
    using get_view_writev(2) [OF small] by metis
  obtain r2 s2 sn2 where 2: "tnt_net_writev (next_reqid s1) v2 = Some (r2, s2)" "net_wf s2"
    "net_in s2 = net_in (next_reqid s1)" "s_wrcnt s2 = s_wrcnt (next_reqid s1) + 1" "s_data s2 = Some sn2" "same_conn sn1 sn2"
    by (rule writev_accepted [OF n1(1,2) _ n1(3), of v2 0]) (use v2(2) in simp_all)
  let ?s3 = "s2\<lparr>s_reqid := ucast (ucast (s_reqid s) :: u32)\<rparr>"
  have s3: "net_wf ?s3" "s_data ?s3 = Some sn2" using 2(2,5) by (simp_all add: net_wf_def)
  obtain r4 s4 sn4 where 4: "tnt_flush ?s3 = Some (r4, s4)" "net_wf s4" "net_in s4 = net_in ?s3" "s_reqid s4 = s_reqid ?s3"
    "s_wrcnt s4 = s_wrcnt ?s3" "s_data s4 = Some sn4" "same_conn sn2 sn4" using net_flush_ok [OF s3] by blast
  have sch: "the_schema s4 = Some sch"
    using s(2,6) 1(7) 2(6) 4(6,7) by (auto simp: the_schema_def same_conn_def)
  have inn: "net_in s4 = net_in s" "s_wrcnt s4 = 2" using 4(3,5) 2(3,4) 1(4,5) s(4) by (simp_all add: net_in_def next_reqid_def)
  obtain it where it: "tnt_iter_reply ra (Some \<lparr>it_type = TNT_ITER_ARRAY, it_status = TNT_ITER_OK, it_alloc = False, it_next = None,
          it_rewind = None, it_free = None, it_data = IterZero\<rparr>) s4 = Some (Some it)"
    "it_next it = Some Reply_next" "it_free it = Some Reply_free" "it_data it = IterReply \<lparr>ir_s = s4, ir_r = zero_reply False\<rparr>"
    by (rule local_iter_start)
  have ri: "reply_iter it \<lparr>ir_s = s4, ir_r = zero_reply False\<rparr>" using it 4(2) by (simp add: reply_iter_def)
  have "reload_done tinv look (fold spec_index is m) rest (s_reqid s4) (reload_tail it)"
    using reload_both_orders [OF ri _ _ s(7) x y m _ fit, of rest] sch inn inp by simp
  moreover have "tnt_reload_schema mp ra T s = reload_tail it"
    using s(2-4) v1(1) 1(1) v2(1) 2(1) 4(1) it(1) by (simp add: tnt_reload_schema_def tnt_stream_reqid_def reload_tail_def)
  ultimately show ?thesis using 4(4) by simp
qed

end


section \<open>A connection that takes nothing\<close>

text \<open>An unbuffered stream on whose socket every write fails.\<close>

definition dead :: "'sc tnt_stream_net \<Rightarrow> bool" where
  "dead sn \<longleftrightarrow> ib_buf (nt_sbuf sn) = NULLP \<and> ib_off (nt_sbuf sn) = 0 \<and> w_send (nt_sys sn) = []"

text \<open>The structure after failed writes.\<close>

definition still_dead :: "'sc tnt_stream_net \<Rightarrow> 'sc tnt_stream_net \<Rightarrow> bool" where
  "still_dead sn sn' \<longleftrightarrow> dead sn' \<and> same_conn sn sn' \<and> nt_error sn' = TNT_ESYSTEM \<and> w_out (nt_sys sn') = w_out (nt_sys sn)"

lemma still_dead_trans: "still_dead a b \<Longrightarrow> still_dead b c \<Longrightarrow> still_dead a c"
  by (simp add: still_dead_def same_conn_def)

lemma dead_writev:
  assumes "dead sn" and "s_data s = Some sn" and "v \<noteq> []"
  shows "\<exists>sn'. tnt_net_writev s v = Some (-1, s\<lparr>s_data := Some sn'\<rparr>) \<and> still_dead sn sn'"
proof -
  have "do_sendv (ib_txv (nt_sbuf sn)) (nt_sys sn) v = (-1, (nt_sys sn)\<lparr>w_errno := EPIPE\<rparr>)"
    using assms(1) by (simp add: do_sendv_def dead_def sys_send_def send_retry.simps EPIPE_def EINTR_def)
  then have "tnt_io_sendv sn v = Some (-1, sys_error (sn\<lparr>nt_sys := (nt_sys sn)\<lparr>w_errno := EPIPE\<rparr>\<rparr>))"
    using assms(1,3) by (simp add: tnt_io_sendv_def dead_def tnt_io_sendv_raw_def sendv_loop.simps)
  then show ?thesis using assms(1,2)
    by (intro exI [of _ "sys_error (sn\<lparr>nt_sys := (nt_sys sn)\<lparr>w_errno := EPIPE\<rparr>\<rparr>)"])
      (simp add: tnt_net_writev_def on_net_def still_dead_def sys_error_def dead_def same_conn_def)
qed

lemma dead_flush: "dead sn \<Longrightarrow> s_data s = Some sn \<Longrightarrow> tnt_flush s = Some (0, s)"
  by (cases s) (simp add: tnt_flush_def on_net_def tnt_io_flush_def dead_def)

context msgpuck_laws
begin

lemma with_len_some: "\<exists>w. with_len mp v = Some w \<and> w \<noteq> []"
  using luint32_tok(2) [of "of_nat (sum_list (map length v))"]
  by (simp add: with_len_def in_array_def mp_sizeof_luint32_def)

lemma auth_writev:
  assumes "length b64 \<ge> TNT_SALT_SIZE" and "base64_decode (take TNT_SALT_SIZE b64) (replicate 64 0) = Some (n, salt)" and "TNT_SCRAMBLE_SIZE \<le> n"
  shows "\<exists>v. v \<noteq> [] \<and> tnt_auth_raw mp wv s user pass b64 = wv (next_reqid s) v"
proof -
  obtain hdr where h: "encode_header mp TNT_OP_AUTH (s_reqid s) = Some hdr" using encode_header_ok by blast
  have l: "length (mp_encode_strl mp c) \<le> 5" for c using sizeof_strl [of c] by simp
  note l = l [of "of_nat TNT_SCRAMBLE_SIZE"] l [of "of_nat (length guest_name)"] l [of "of_nat (length (case user of None \<Rightarrow> guest_name | Some u \<Rightarrow> u))"]
    sizeof_strl [of "of_nat (length chap_sha1)"] enc_array_one [of 2] enc_array_one [of 0]
  have chap: "length (mp_encode_str mp chap_sha1) \<le> 14"
    using sizeof_strl [of "of_nat (length chap_sha1)"] by (simp add: enc_str chap_sha1_def)
  define b1 where "b1 = mp_encode_map mp 2 @ mp_encode_uint mp TNT_USERNAME
     @ mp_encode_strl mp (of_nat (length (case user of None \<Rightarrow> guest_name | Some u \<Rightarrow> u)))"
  show ?thesis
  proof (cases "user = None \<or> user = Some guest_name")
    case True
    obtain w where "with_len mp [hdr, b1, (case user of None \<Rightarrow> guest_name | Some u \<Rightarrow> u), mp_encode_uint mp TNT_TUPLE @ mp_encode_array mp 0] = Some w" "w \<noteq> []"
      using with_len_some by blast
    then show ?thesis using True h l by (intro exI [of _ w]) (simp add: tnt_auth_raw_def Let_def in_array_def b1_def)
  next
    case False
    obtain w where "with_len mp [hdr, b1, (case user of None \<Rightarrow> guest_name | Some u \<Rightarrow> u), mp_encode_uint mp TNT_TUPLE @ mp_encode_array mp 2 @ mp_encode_str mp chap_sha1
         @ mp_encode_strl mp (of_nat TNT_SCRAMBLE_SIZE), tnt_scramble_prepare salt pass] = Some w" "w \<noteq> []"
      using with_len_some by blast
    then show ?thesis using False h l chap assms by (intro exI [of _ w]) (simp add: tnt_auth_raw_def Let_def in_array_def b1_def)
  qed
qed

end


context builder_env
begin

lemma frame_nonempty: "is_frame code sync body (concat v) \<Longrightarrow> v \<noteq> []"
  by (auto simp: is_frame_def)

lemma dead_reload:
  assumes "grants_all ra" and "dead sn" and "s_data s = Some sn" and "nt_connected sn" and "s_wrcnt s = 0"
  shows "\<exists>s' sn'. tnt_reload_schema mp ra T s = Some (-1, s') \<and> s_data s' = Some sn' \<and> still_dead sn sn'"
proof -
  let ?s0 = "s\<lparr>s_reqid := 127\<rparr>"
  obtain v1 where v1: "tnt_get_space mp ra tnt_net_writev ?s0 = tnt_net_writev (next_reqid ?s0) v1" "v1 \<noteq> []"
    using get_view_writev(1) [OF grants_all_below [OF assms(1)], of tnt_net_writev ?s0] frame_nonempty by metis
  obtain sn1 where 1: "tnt_net_writev (next_reqid ?s0) v1 = Some (-1, (next_reqid ?s0)\<lparr>s_data := Some sn1\<rparr>)" "still_dead sn sn1"
    using dead_writev [OF assms(2) _ v1(2), of "next_reqid ?s0"] assms(3) by (auto simp: next_reqid_def)
  let ?s1 = "(next_reqid ?s0)\<lparr>s_data := Some sn1\<rparr>"
  have d1: "dead sn1" "s_data (next_reqid ?s1) = Some sn1" using 1(2) by (simp_all add: still_dead_def next_reqid_def)
  obtain v2 where v2: "tnt_get_index mp ra tnt_net_writev ?s1 = tnt_net_writev (next_reqid ?s1) v2" "v2 \<noteq> []"
    using get_view_writev(2) [OF grants_all_below [OF assms(1)], of tnt_net_writev ?s1] frame_nonempty by metis
  obtain sn2 where 2: "tnt_net_writev (next_reqid ?s1) v2 = Some (-1, (next_reqid ?s1)\<lparr>s_data := Some sn2\<rparr>)" "still_dead sn1 sn2"
    using dead_writev [OF d1 v2(2)] by blast
  define s3 where "s3 = (next_reqid ?s1)\<lparr>s_data := Some sn2, s_reqid := ucast (ucast (s_reqid s) :: u32)\<rparr>"
  have s3: "s_data s3 = Some sn2" "s_wrcnt s3 = 0" "dead sn2"
    using 2(2) assms(5) by (simp_all add: s3_def next_reqid_def still_dead_def)
  note fl = dead_flush [OF s3(3,1)]
  obtain it where it: "tnt_iter_reply ra (Some \<lparr>it_type = TNT_ITER_ARRAY, it_status = TNT_ITER_OK, it_alloc = False, it_next = None,
          it_rewind = None, it_free = None, it_data = IterZero\<rparr>) s3 = Some (Some it)"
    "it_next it = Some Reply_next" "it_free it = Some Reply_free" "it_data it = IterReply \<lparr>ir_s = s3, ir_r = zero_reply False\<rparr>"
    by (rule local_iter_start)
  let ?ir = "\<lparr>ir_s = s3, ir_r = zero_reply False\<rparr>"
  have "tnt_net_reply mp ra s3 (zero_reply False) = Some (1, s3, zero_reply False)" using s3(2) by (simp add: tnt_net_reply_def)
  then have nx: "tnt_next mp ra (tnt_net_reply mp ra) it = Some (0, it\<lparr>it_data := IterReply ?ir\<rparr>)"
    using reply_next_step [where rr = "tnt_net_reply mp ra" and ir = ?ir, OF allocator_axioms it(2,4)] by simp
  then have "reload_loop mp ra T (it, zero_reply False, 0) = Some (Inr (it\<lparr>it_data := IterReply ?ir\<rparr>, zero_reply False, 0))"
    by (subst reload_loop.simps) simp
  moreover have "reload_end ra (it\<lparr>it_data := IterReply ?ir\<rparr>) (-1) = Some (-1, s3)"
    using it(3) by (simp add: reload_end_def iter_stream_def tnt_iter_free_def tnt_iter_reply_free_def tnt_reply_free_def)
  ultimately have "tnt_reload_schema mp ra T s = Some (-1, s3)"
    using assms(3-5) v1(1) 1(1) v2(1) 2(1) fl it(1)
    by (simp add: tnt_reload_schema_def tnt_stream_reqid_def reload_finish_def s3_def)
  then show ?thesis using s3(1) still_dead_trans [OF 1(2) 2(2)] by blast
qed

lemma dead_authenticate:
  assumes "grants_all ra" and "dead sn" and "s_data s = Some sn" and "nt_connected sn" and "s_wrcnt s = 0"
    and "op_uri (nt_opt sn) = Some uri" and "nt_greeting sn = Blk g" and "TNT_VERSION_SIZE + TNT_SALT_SIZE \<le> length g"
    and "base64_decode (take TNT_SALT_SIZE (drop TNT_VERSION_SIZE g)) (replicate 64 0) = Some (n, salt)" and "TNT_SCRAMBLE_SIZE \<le> n"
  shows "\<exists>s' sn'. tnt_authenticate mp ra T s = Some (0, s') \<and> s_data s' = Some sn' \<and> still_dead sn sn'"
proof -
  have "TNT_SALT_SIZE \<le> length (drop TNT_VERSION_SIZE g)" using assms(8) by simp
  from auth_writev [OF this assms(9,10)] obtain v where
    v: "v \<noteq> []" "tnt_auth_raw mp tnt_net_writev s (u_login uri) (case u_password uri of None \<Rightarrow> [] | Some p \<Rightarrow> p) (drop TNT_VERSION_SIZE g)
      = tnt_net_writev (next_reqid s) v" by blast
  obtain sn1 where 1: "tnt_net_writev (next_reqid s) v = Some (-1, (next_reqid s)\<lparr>s_data := Some sn1\<rparr>)" "still_dead sn sn1"
    using dead_writev [OF assms(2) _ v(1), of "next_reqid s"] assms(3) by (auto simp: next_reqid_def)
  define s1 where "s1 = (next_reqid s)\<lparr>s_data := Some sn1\<rparr>"
  have s1: "s_data s1 = Some sn1" "s_wrcnt s1 = 0" "dead sn1" "nt_connected sn1"
    using 1(2) assms(4,5) by (simp_all add: s1_def next_reqid_def still_dead_def same_conn_def)
  obtain s2 sn2 where 2: "tnt_reload_schema mp ra T s1 = Some (-1, s2)" "s_data s2 = Some sn2" "still_dead sn1 sn2"
    using dead_reload [OF assms(1) s1(3,1,4,2)] by blast
  have "tnt_net_reply mp ra s1 (zero_reply False) = Some (1, s1, zero_reply False)" using s1(2) by (simp add: tnt_net_reply_def)
  then have "tnt_authenticate mp ra T s = Some (0, s2)"
    using assms(3-8) v(2) 1(1) dead_flush [OF s1(3,1)] 2(1)
    by (simp add: tnt_authenticate_def tnt_auth_def s1_def tnt_reply_free_def zero_reply_def)
  then show ?thesis using 2(2) still_dead_trans [OF 1(2) 2(3)] by blast
qed

end


section \<open>Properties\<close>

definition demo_link :: "nat \<Rightarrow> bytes \<Rightarrow> u32 \<Rightarrow> mhash net_stream" where
  "demo_link cap inp n = (zero_stream False)\<lparr>s_ops := VT_NET, s_wrcnt := n, s_data := Some ((zero_net (demo_world\<lparr>w_send := [SendOk 5000],
     w_recv := [RecvErr EINTR, RecvOk inp]\<rparr>))\<lparr>nt_connected := True, nt_fd := 5, nt_sbuf := demo_iob (replicate cap 0) 0,
     nt_rbuf := demo_iob (replicate 8 0) 0, nt_schema := Some (Some demo_sch), nt_inited := True\<rparr>)\<rparr>"

lemma demo_link_ok: "net_wf (demo_link cap inp n)" "inp \<noteq> [] \<Longrightarrow> net_in (demo_link cap inp n) = inp" "s_wrcnt (demo_link cap inp n) = n"
  "the_schema (demo_link cap inp n) = Some demo_sch" "send_room (demo_link cap inp n) cap"
  by (simp_all add: demo_link_def net_wf_def net_in_def sendbuf_wf_def recvbuf_wf_def demo_iob_def io_in_def unread_def zero_net_def
      the_schema_def send_room_def)

text \<open>C8. Pipelined replies come back in order and are counted: on a network stream with any number of unanswered requests, on
  which the peer sends the replies \<open>xs\<close> (one final reply per request, with any number of chunk replies before each; then
  perhaps more), however the bytes arrive in pieces, a reply iterator delivers exactly these replies in order, then
  stops with status OK, leaves every later byte unread, and no request is left unanswered.\<close>

theorem net_replies_in_order:
  assumes "msgpuck_laws mp" and "allocator ra" and "grants_all ra" and "net_wf s"
    and "list_all2 (\<lambda>x fr. is_reply (fst x) (snd x) fr) xs frs" and "net_in s = concat frs @ rest" and "answers xs (s_wrcnt s)"
  shows "\<exists>it js k s'. tnt_iter_reply ra i0 s = Some (Some it)
     \<and> drain (tnt_next mp ra (tnt_net_reply mp ra)) (Suc (length xs)) it = Some (js, k)
     \<and> list_all2 rep_at xs js \<and> it_status k = TNT_ITER_OK \<and> iter_stream k = Some s' \<and> s_wrcnt s' = 0 \<and> net_in s' = rest"
  using reply_start_todo [OF assms(2-7)] net_drain [OF assms(1-3)] by metis

theorem net_replies_in_order_witness:
  "\<exists>it js k s'. tnt_iter_reply (custom_realloc os_ok) None (demo_link 0 (demo_reply @ demo_reply @ [7]) 2) = Some (Some it)
     \<and> drain (tnt_next mp_ref (custom_realloc os_ok) (tnt_net_reply mp_ref (custom_realloc os_ok))) 3 it = Some (js, k)
     \<and> list_all2 rep_at [(demo_hs, demo_es), (demo_hs, demo_es)] js \<and> iter_stream k = Some s' \<and> s_wrcnt s' = 0 \<and> net_in s' = [7]"
proof -
  let ?s = "demo_link 0 (demo_reply @ demo_reply @ [7]) 2"
  let ?xs = "[(demo_hs, demo_es), (demo_hs, demo_es)]"
  have "final_reply demo_hs demo_es"
    by (simp add: final_reply_def demo_hs_def demo_es_def body_list_def num_val_def last_val_def TNT_CHUNK_def proto_consts)
  then have a: "answers ?xs (s_wrcnt ?s)" by (simp add: answers_def finals_def demo_link_ok)
  have "list_all2 (\<lambda>x fr. is_reply (fst x) (snd x) fr) ?xs [demo_reply, demo_reply]" "net_in ?s = concat [demo_reply, demo_reply] @ [7]"
    by (simp_all add: demo_is_reply demo_link_ok)
  from net_replies_in_order [OF ref.msgpuck_laws_axioms libc_alloc.allocator_axioms os_ok_grants demo_link_ok(1) this a, of None] show ?thesis
    by (auto simp: numeral_3_eq_3 simp del: drain.simps)
qed

text \<open>C18. Loading the schema over the network implements its specification, on the library's own hash table: on a connected stream with no
  unanswered request and room in its send buffer, when the peer sends the reply with the space rows (synchronised by 127) and the one
  with the index rows (by 128), of at most 16 MiB each, in either order and in any pieces, and the definitions fit into the tables,
  \<open>tnt_reload_schema\<close> returns 0, both replies are consumed and nothing after them, the stream's request number is put back (to its low 32
  bits), and afterwards every lookup of a space and of an index returns what the abstract schema says that is updated row by row.\<close>

theorem schema_reload_refines:
  assumes "msgpuck_laws mp" and "granting_allocator ra"
    and "net_wf s" and "s_data s = Some sn" and "nt_connected sn" and "s_wrcnt s = 0" and "send_room s 198" and "the_schema s = Some sch"
    and "schema_reach mp ra (mhash_ops ra) sch"
    and "is_reply (fst x) (snd x) fx" and "rows_reply 127 (map space_val ss) x" and "\<forall>d \<in> set ss. space_def_ok d"
    and "is_reply (fst y) (snd y) fy" and "rows_reply 128 (map index_val is) y" and "\<forall>d \<in> set is. index_def_ok d"
    and "m = spec_spaces (as_next (space_hash sch)) ss (space_abs mh_look (space_hash sch))" and "\<forall>d \<in> set is. m (num_key (fst d)) \<noteq> None"
    and "net_in s = fx @ fy @ rest \<or> net_in s = fy @ fx @ rest" and "length fx \<le> 2 ^ 24" and "length fy \<le> 2 ^ 24"
    and "rooms_for mh_left (2 * length ss) (2 * length is) (space_hash sch)" and "length is \<le> 150000"
  shows "\<exists>s'. tnt_reload_schema mp ra (mhash_ops ra) s = Some (0, s') \<and> net_in s' = rest \<and> s_wrcnt s' = 0
     \<and> s_reqid s' = ucast (ucast (s_reqid s) :: u32)
     \<and> (\<forall>name. tnt_get_spaceno (mhash_ops ra) s' name = Some (spec_sid (fold spec_index is m) name))
     \<and> (\<forall>no name. tnt_get_indexno (mhash_ops ra) s' no name = Some (spec_iid (fold spec_index is m) (of_int no) name))"
proof -
  note env = mhash_schema_room(1) [OF assms(1,2)] and room = mhash_schema_room(2) [OF assms(1,2)]
  have ok: "space_ok minv mh_look (space_hash sch)" by (rule schema_env.reach_ok [OF env assms(9)])
  have cap: "2 * length is \<le> 300000" using assms(22) by simp
  from schema_room.reload_schema_loads [OF room assms(3-8) ok assms(10-21) cap] obtain s' sch' where
    s: "tnt_reload_schema mp ra (mhash_ops ra) s = Some (0, s')" "net_in s' = rest" "s_wrcnt s' = 0" "s_reqid s' = ucast (ucast (s_reqid s) :: u32)"
      "the_schema s' = Some sch'" "space_ok minv mh_look (space_hash sch')" "space_abs mh_look (space_hash sch') = fold spec_index is m"
    by (auto simp: reload_done_def schema_is_def)
  then show ?thesis using schema_env.lookup_abs [OF env s(6)]
    by (simp add: tnt_get_spaceno_def tnt_get_indexno_def)
qed

definition demo_rows_item :: "u64 \<Rightarrow> mval list \<Rightarrow> reply_item" where
  "demo_rows_item sync vs = ([(TNT_CODE, 0), (TNT_SYNC, sync)], Some [(TNT_DATA, VArr vs)])"

lemma demo_rows_reply:
  assumes "encodes (toks (VArr vs)) d" and "vwf (VArr vs)" and "length d < 200" and "sync \<in> {127, 128}"
  shows "is_reply (fst (demo_rows_item sync vs)) (snd (demo_rows_item sync vs))
      (0xce # be_bytes 4 (length ([0x82, 0, 0, 1, 0xcc, of_nat (unat sync)] @ [0x81, 0x30] @ d)) @ [0x82, 0, 0, 1, 0xcc, of_nat (unat sync)] @ [0x81, 0x30] @ d)"
    and "rows_reply sync vs (demo_rows_item sync vs)"
proof -
  let ?hb = "[0x82, 0, 0, 1, 0xcc, of_nat (unat sync)] :: bytes" and ?bb = "[0x81, 0x30] @ d"
  have "encodes (TMap (of_nat (length (fst (demo_rows_item sync vs)))) # hdr_toks (fst (demo_rows_item sync vs))) ?hb"
    using assms(4) by (auto simp: encodes_def demo_rows_item_def hdr_toks_def proto_consts mp_tok.simps(2) tk_defs be_nat_def)
  moreover have "encodes (TMap 1 # body_toks [(TNT_DATA, VArr vs)]) ?bb"
    using assms(1) by (simp add: encodes_def body_toks_def proto_consts mp_tok.simps(2))
  moreover have "hdr_ok (fst (demo_rows_item sync vs))" "body_ok (body_list (snd (demo_rows_item sync vs)))"
    using assms(2) by (auto simp: hdr_ok_def demo_rows_item_def body_ok_def body_list_def entry_ok_def is_arr_def proto_consts)
  ultimately show "is_reply (fst (demo_rows_item sync vs)) (snd (demo_rows_item sync vs)) (0xce # be_bytes 4 (length (?hb @ ?bb)) @ ?hb @ ?bb)"
    unfolding is_reply_def using assms(3)
    by (intro conjI exI [of _ ?hb] exI [of _ ?bb]) (simp_all add: demo_rows_item_def del: be_bytes.simps)
  show "rows_reply sync vs (demo_rows_item sync vs)"
    by (simp add: rows_reply_def demo_rows_item_def num_val_def last_val_def body_list_def proto_consts)
qed

definition demo_schema_reply :: "u64 \<Rightarrow> bytes \<Rightarrow> bytes" where
  "demo_schema_reply sync d = 0xce # be_bytes 4 (length ([0x82, 0, 0, 1, 0xcc, of_nat (unat sync)] @ [0x81, 0x30] @ d))
     @ [0x82, 0, 0, 1, 0xcc, of_nat (unat sync)] @ [0x81, 0x30] @ d"

theorem schema_reload_refines_witness:
  "\<exists>s'. tnt_reload_schema mp_ref demo_ra (mhash_ops demo_ra) (demo_link 256
       (demo_schema_reply 128 [0x91, 0x93, 0xcd, 2, 0, 7, 0xa1, 0x70] @ demo_schema_reply 127 [0x91, 0x93, 0xcd, 2, 0, 1, 0xa2, 0x61, 0x62] @ [9]) 0)
       = Some (0, s') \<and> net_in s' = [9] \<and> tnt_get_spaceno (mhash_ops demo_ra) s' [0x61, 0x62] = Some 512
     \<and> tnt_get_indexno (mhash_ops demo_ra) s' 512 [0x70] = Some 7"
proof -
  let ?ds = "[0x91, 0x93, 0xcd, 2, 0, 1, 0xa2, 0x61, 0x62] :: bytes" and ?di = "[0x91, 0x93, 0xcd, 2, 0, 7, 0xa1, 0x70] :: bytes"
  let ?inp = "demo_schema_reply 128 ?di @ demo_schema_reply 127 ?ds @ [9]"
  let ?s = "demo_link 256 ?inp 0"
  let ?m = "spec_spaces (as_next (space_hash demo_sch)) demo_spaces (space_abs mh_look (space_hash demo_sch))"
  have e: "encodes (toks (VArr (map space_val demo_spaces))) ?ds" "encodes (toks (VArr (map index_val demo_indexes))) ?di"
    "vwf (VArr (map space_val demo_spaces))" "vwf (VArr (map index_val demo_indexes))"
    by (simp_all add: demo_spaces_def demo_indexes_def encodes_def mp_tok.simps(2) tk_defs be_nat_def)
  have x: "is_reply (fst (demo_rows_item 127 (map space_val demo_spaces))) (snd (demo_rows_item 127 (map space_val demo_spaces))) (demo_schema_reply 127 ?ds)"
    "rows_reply 127 (map space_val demo_spaces) (demo_rows_item 127 (map space_val demo_spaces))"
    unfolding demo_schema_reply_def by (rule demo_rows_reply [OF e(1,3)]; simp)+
  have y: "is_reply (fst (demo_rows_item 128 (map index_val demo_indexes))) (snd (demo_rows_item 128 (map index_val demo_indexes))) (demo_schema_reply 128 ?di)"
    "rows_reply 128 (map index_val demo_indexes) (demo_rows_item 128 (map index_val demo_indexes))"
    unfolding demo_schema_reply_def by (rule demo_rows_reply [OF e(2,4)]; simp)+
  obtain sn where sn: "s_data ?s = Some sn" "nt_connected sn" by (simp add: demo_link_def)
  have "net_in ?s = ?inp" by (rule demo_link_ok(2)) simp
  then have inp: "net_in ?s = demo_schema_reply 127 ?ds @ demo_schema_reply 128 ?di @ [9] \<or> net_in ?s = demo_schema_reply 128 ?di @ demo_schema_reply 127 ?ds @ [9]"
    by (rule disjI2)
  have len: "length (demo_schema_reply 127 ?ds) \<le> 2 ^ 24" "length (demo_schema_reply 128 ?di) \<le> 2 ^ 24" by (simp_all add: demo_schema_reply_def)
  have fit: "rooms_for mh_left (2 * length demo_spaces) (2 * length demo_indexes) (space_hash demo_sch)" "length demo_indexes \<le> 150000"
    by (simp_all add: demo_sch_empty(2) demo_spaces_def demo_indexes_def)
  have "send_room ?s 198" using demo_link_ok(5) [of 256 ?inp 0] by (auto simp: send_room_def)
  from schema_reload_refines [OF ref.msgpuck_laws_axioms demo_granting demo_link_ok(1) sn demo_link_ok(3) this demo_link_ok(4) demo_sch_reach
      x demo_loads(3) y demo_loads(4) refl demo_loads(5) inp len fit]
  show ?thesis using demo_spec by fastforce
qed

text \<open>C38. A connection on which nothing can be sent is reported as authenticated: on an unbuffered stream whose every write
  fails, \<open>tnt_authenticate\<close> - and with it \<open>tnt_connect\<close> - returns 0, although no byte of the authentication request has
  left: the results of \<open>tnt_auth\<close> and \<open>tnt_flush\<close> are not looked at, and as no request counts as written
  \<open>tnt_net_reply\<close> returns 1, which is not taken as an error.  Only \<open>tnt_error\<close> shows the failure.\<close>

theorem auth_unsent_succeeds:
  assumes "msgpuck_laws mp" and "allocator ra" and "grants_all ra" and "dead sn" and "s_data s = Some sn" and "nt_connected sn" and "s_wrcnt s = 0"
    and "op_uri (nt_opt sn) = Some uri" and "nt_greeting sn = Blk g" and "TNT_VERSION_SIZE + TNT_SALT_SIZE \<le> length g"
    and "base64_decode (take TNT_SALT_SIZE (drop TNT_VERSION_SIZE g)) (replicate 64 0) = Some (n, salt)" and "TNT_SCRAMBLE_SIZE \<le> n"
  shows "\<exists>s' sn'. tnt_authenticate mp ra T s = Some (0, s') \<and> s_data s' = Some sn' \<and> w_out (nt_sys sn') = w_out (nt_sys sn)
     \<and> tnt_error_of s' = Some TNT_ESYSTEM"
proof -
  have "builder_env mp ra" using assms(1,2) by (rule builder_env.intro)
  from builder_env.dead_authenticate [OF this assms(3-12), of T] show ?thesis by (auto simp: still_dead_def tnt_error_of_def)
qed

theorem auth_unsent_succeeds_witness:
  "\<exists>s' sn'. tnt_authenticate mp_ref (custom_realloc os_ok) (mhash_ops demo_ra) ((zero_stream False)\<lparr>s_data := Some ((zero_net (demo_world\<lparr>w_send := []\<rparr>))
       \<lparr>nt_connected := True, nt_opt := zero_opt\<lparr>op_uri := Some (zero_uri\<lparr>u_login := Some [0x75], u_password := Some [0x70]\<rparr>)\<rparr>,
        nt_greeting := Blk (replicate 64 0 @ demo_salt64)\<rparr>)\<rparr>) = Some (0, s') \<and> s_data s' = Some sn' \<and> w_out (nt_sys sn') = []"
proof -
  obtain n salt where d: "base64_decode demo_salt64 (replicate 64 0) = Some (n, salt)" "20 \<le> n"
    using demo_salt_decodes by fastforce
  have len: "length demo_salt64 = 44" by (simp add: demo_salt64_def)
  let ?sn = "(zero_net (demo_world\<lparr>w_send := []\<rparr>))\<lparr>nt_connected := True,
        nt_opt := zero_opt\<lparr>op_uri := Some (zero_uri\<lparr>u_login := Some [0x75], u_password := Some [0x70]\<rparr>)\<rparr>,
        nt_greeting := Blk (replicate 64 0 @ demo_salt64)\<rparr> :: mhash net"
  let ?s = "(zero_stream False)\<lparr>s_data := Some ?sn\<rparr>"
  have f: "dead ?sn" "s_data ?s = Some ?sn" "nt_connected ?sn" "s_wrcnt ?s = 0"
    "op_uri (nt_opt ?sn) = Some (zero_uri\<lparr>u_login := Some [0x75], u_password := Some [0x70]\<rparr>)"
    "nt_greeting ?sn = Blk (replicate 64 0 @ demo_salt64)" "TNT_VERSION_SIZE + TNT_SALT_SIZE \<le> length (replicate 64 0 @ demo_salt64)"
    "base64_decode (take TNT_SALT_SIZE (drop TNT_VERSION_SIZE (replicate 64 0 @ demo_salt64))) (replicate 64 0) = Some (n, salt)" "TNT_SCRAMBLE_SIZE \<le> n"
    using d len by (simp_all add: dead_def zero_net_def zero_iob_def zero_stream_def TNT_VERSION_SIZE_def TNT_SALT_SIZE_def TNT_SCRAMBLE_SIZE_def)
  have "w_out (nt_sys ?sn) = []" by (simp add: zero_net_def demo_world_def)
  with auth_unsent_succeeds [OF ref.msgpuck_laws_axioms libc_alloc.allocator_axioms os_ok_grants f, of "mhash_ops demo_ra"] show ?thesis by metis
qed

end
