(* ===== verification/Tnt_Tp.thy ===== *)
theory Tnt_Tp
  imports Tnt_Auth
begin

unbundle bit_operations_syntax

text \<open>
  The stand-alone request writer of \<^verbatim>\<open>include/tp.h\<close>.  A \<open>struct tp\<close> points into one buffer: its block is \<open>tp_s\<close>, and
  the pointers \<open>p\<close>, \<open>e\<close>, \<open>size\<close> and \<open>sync\<close> are offsets from the start of the block.  A write that leaves the block is
  undefined (\<open>None\<close>), as is moving \<open>p\<close> past its end.  The functions that return a pointer return its offset, the inner
  \<open>None\<close> standing for null.  The four-byte stores are those of a little-endian host, which \<open>mp_bswap_u32\<close> is for.

  \<open>reserve\<close> is a function pointer; a reserve function gets the block, its size and the bytes required and returns the new
  block (null on failure) with its size, \<open>None\<close> when it is itself undefined.  The context \<open>obj\<close> is part of the function.
  msgpuck functions that only this file calls are in the record \<open>msgpuck_tp\<close>.
\<close>

section \<open>Constants\<close>

datatype tp_type = TP_NIL | TP_UINT | TP_INT | TP_STR | TP_BIN | TP_ARRAY | TP_MAP | TP_BOOL | TP_FLOAT | TP_DOUBLE | TP_EXT

definition TP_CODE :: u64 where "TP_CODE = 0x00"
definition TP_SYNC :: u64 where "TP_SYNC = 0x01"

definition TP_SPACE :: u64 where "TP_SPACE = 0x10"
definition TP_INDEX :: u64 where "TP_INDEX = 0x11"
definition TP_LIMIT :: u64 where "TP_LIMIT = 0x12"
definition TP_OFFSET :: u64 where "TP_OFFSET = 0x13"
definition TP_ITERATOR :: u64 where "TP_ITERATOR = 0x14"
definition TP_KEY :: u64 where "TP_KEY = 0x20"
definition TP_TUPLE :: u64 where "TP_TUPLE = 0x21"
definition TP_FUNCTION :: u64 where "TP_FUNCTION = 0x22"
definition TP_USERNAME :: u64 where "TP_USERNAME = 0x23"
definition TP_EXPRESSION :: u64 where "TP_EXPRESSION = 0x27"

definition TP_DATA :: u64 where "TP_DATA = 0x30"
definition TP_ERROR :: u64 where "TP_ERROR = 0x31"

datatype tp_request_type = TP_SELECT | TP_INSERT | TP_REPLACE | TP_UPDATE | TP_DELETE | TP_CALL | TP_AUTH | TP_EVAL
  | TP_PING | TP_JOIN | TP_SUBSCRIBE

fun tp_request_code :: "tp_request_type \<Rightarrow> u32" where
  "tp_request_code TP_SELECT = 1"
| "tp_request_code TP_INSERT = 2"
| "tp_request_code TP_REPLACE = 3"
| "tp_request_code TP_UPDATE = 4"
| "tp_request_code TP_DELETE = 5"
| "tp_request_code TP_CALL = 6"
| "tp_request_code TP_AUTH = 7"
| "tp_request_code TP_EVAL = 8"
| "tp_request_code TP_PING = 64"
| "tp_request_code TP_JOIN = 65"
| "tp_request_code TP_SUBSCRIBE = 66"

datatype tp_iterator_type = TP_ITERATOR_EQ | TP_ITERATOR_REQ | TP_ITERATOR_ALL | TP_ITERATOR_LT | TP_ITERATOR_LE | TP_ITERATOR_GE
  | TP_ITERATOR_GT | TP_ITERATOR_BITS_ALL_SET | TP_ITERATOR_BITS_ANY_SET | TP_ITERATOR_BITS_ALL_NON_SET | TP_ITERATOR_OVERLAPS
  | TP_ITERATOR_NEIGHBOR

fun tp_iterator_code :: "tp_iterator_type \<Rightarrow> u32" where
  "tp_iterator_code TP_ITERATOR_EQ = 0"
| "tp_iterator_code TP_ITERATOR_REQ = 1"
| "tp_iterator_code TP_ITERATOR_ALL = 2"
| "tp_iterator_code TP_ITERATOR_LT = 3"
| "tp_iterator_code TP_ITERATOR_LE = 4"
| "tp_iterator_code TP_ITERATOR_GE = 5"
| "tp_iterator_code TP_ITERATOR_GT = 6"
| "tp_iterator_code TP_ITERATOR_BITS_ALL_SET = 7"
| "tp_iterator_code TP_ITERATOR_BITS_ANY_SET = 8"
| "tp_iterator_code TP_ITERATOR_BITS_ALL_NON_SET = 9"
| "tp_iterator_code TP_ITERATOR_OVERLAPS = 10"
| "tp_iterator_code TP_ITERATOR_NEIGHBOR = 11"

definition SCRAMBLE_SIZE :: nat where "SCRAMBLE_SIZE = 20"

section \<open>The remaining msgpuck functions\<close>

text \<open>
  Sizes, the binary encoder and the scalar decoders; numbers and floating-point values as in \<open>msgpuck\<close>.  \<open>mp_vformat\<close> is
  the bytes a format and its arguments produce.
\<close>

record 'va msgpuck_tp =
  mp_sizeof_nil :: nat
  mp_sizeof_int :: "u64 \<Rightarrow> nat"
  mp_sizeof_bin :: "u32 \<Rightarrow> nat"
  mp_sizeof_bool :: "bool \<Rightarrow> nat"
  mp_sizeof_float :: "u32 \<Rightarrow> nat"
  mp_sizeof_double :: "u64 \<Rightarrow> nat"
  mp_encode_bin :: "bytes \<Rightarrow> bytes"
  mp_vformat :: "string \<Rightarrow> 'va \<Rightarrow> bytes"
  mp_decode_int :: "bytes \<Rightarrow> (u64 \<times> bytes) option"
  mp_decode_float :: "bytes \<Rightarrow> (u32 \<times> bytes) option"
  mp_decode_double :: "bytes \<Rightarrow> (u64 \<times> bytes) option"
  mp_decode_bool :: "bytes \<Rightarrow> (bool \<times> bytes) option"
  mp_decode_bin :: "bytes \<Rightarrow> ((bytes \<times> u32) \<times> bytes) option"

section \<open>The buffer\<close>

type_synonym reserve_fn = "cptr \<Rightarrow> nat \<Rightarrow> nat \<Rightarrow> (cptr \<times> nat) option"

record tp =
  tp_s :: cptr
  tp_p :: nat
  tp_e :: nat
  tp_size_at :: "nat option"
  tp_sync_at :: "nat option"
  tp_reserve :: "reserve_fn option"

text \<open>\<open>tp_greeting\<close>: the two pointers of \<open>struct tpgreeting\<close> when they are set.\<close>

record tpgreeting =
  description :: bytes
  salt_base64 :: bytes

definition tp_greeting :: "tpgreeting \<Rightarrow> bytes \<Rightarrow> int \<times> tpgreeting" where
  "tp_greeting g buf = (if length buf < 128 then (0, g)
     else (128, g\<lparr>description := buf, salt_base64 := drop 64 buf\<rparr>))"

definition tp_buf :: "tp \<Rightarrow> cptr" where
  "tp_buf p = tp_s p"

definition tp_size :: "tp \<Rightarrow> nat" where
  "tp_size p = tp_e p"

definition tp_used :: "tp \<Rightarrow> nat" where
  "tp_used p = tp_p p"

definition tp_unused :: "tp \<Rightarrow> nat" where
  "tp_unused p = tp_e p - tp_p p"

text \<open>\<open>ra\<close> is \<open>realloc\<close>.\<close>

definition tp_realloc :: "realloc_fn \<Rightarrow> reserve_fn" where
  "tp_realloc ra s sz required = (
     let toalloc = sz * 2;
         toalloc = (if toalloc < required then sz + required else toalloc)
     in map_option (\<lambda>(np, _). (np, toalloc)) (ra s toalloc))"

definition tp_free :: "realloc_fn \<Rightarrow> tp \<Rightarrow> tp option" where
  "tp_free ra p = map_option (\<lambda>d. p\<lparr>tp_s := d\<rparr>) (tnt_mem_free ra (tp_s p))"

definition tp_init :: "cptr \<Rightarrow> nat \<Rightarrow> reserve_fn option \<Rightarrow> tp" where
  "tp_init buf sz reserve = \<lparr>tp_s = buf, tp_p = 0, tp_e = sz, tp_size_at = None, tp_sync_at = None, tp_reserve = reserve\<rparr>"

definition tp_ensure :: "tp \<Rightarrow> nat \<Rightarrow> (int \<times> tp) option" where
  "tp_ensure p n =
     (if tp_unused p \<ge> n then Some (0, p)
      else (case tp_reserve p of
         None \<Rightarrow> Some (-1, p)
       | Some reserve \<Rightarrow> do {
           (np, sz) \<leftarrow> reserve (tp_s p) (tp_size p) n;
           if np = NULLP then Some (-1, p)
           else Some (int sz, p\<lparr>tp_s := np, tp_e := sz\<rparr>) }))"

text \<open>A store of bytes into the block.\<close>

definition tp_store :: "tp \<Rightarrow> nat \<Rightarrow> bytes \<Rightarrow> tp option" where
  "tp_store p off bs = (case tp_s p of
      Blk d \<Rightarrow> if off + length bs \<le> length d then Some (p\<lparr>tp_s := Blk (blit d off bs)\<rparr>) else None
    | _ \<Rightarrow> None)"

definition tp_fits :: "tp \<Rightarrow> nat \<Rightarrow> bool" where
  "tp_fits p off = (case tp_s p of Blk d \<Rightarrow> off \<le> length d | _ \<Rightarrow> False)"

definition tp_add :: "tp \<Rightarrow> nat \<Rightarrow> (nat option \<times> tp) option" where
  "tp_add p n = do {
     z \<leftarrow> tp_size_at p;
     if tp_fits p (tp_p p + n) then do {
       let q = p\<lparr>tp_p := tp_p p + n\<rparr>;
       q \<leftarrow> tp_store q z (0xce # be_bytes 4 (tp_p q - z - 5));
       Some (Some (tp_p p), q) }
     else None }"

text \<open>An \<open>int\<close> sum of sizes passed as \<open>size_t\<close>.\<close>

definition int_sz :: "nat \<Rightarrow> nat" where
  "int_sz n = unat (scast (of_nat n :: u32) :: u64)"

section \<open>Requests\<close>

definition tpi_sizeof_header :: "msgpuck \<Rightarrow> u32 \<Rightarrow> nat" where
  "tpi_sizeof_header mp code = 5 + mp_sizeof_map mp 2 + mp_sizeof_uint mp TP_CODE + mp_sizeof_uint mp (ucast code)
     + mp_sizeof_uint mp TP_SYNC + 5"

definition tpi_encode_header :: "msgpuck \<Rightarrow> tp \<Rightarrow> u32 \<Rightarrow> (nat \<times> tp) option" where
  "tpi_encode_header mp p code = do {
     let p = p\<lparr>tp_size_at := Some (tp_p p)\<rparr>;
     let hb = mp_encode_map mp 2 @ mp_encode_uint mp TP_CODE @ mp_encode_uint mp (ucast code) @ mp_encode_uint mp TP_SYNC;
     p \<leftarrow> tp_store p (tp_p p + 5) hb;
     let h = tp_p p + 5 + length hb;
     let p = p\<lparr>tp_sync_at := Some h\<rparr>;
     p \<leftarrow> tp_store p h (0xce # be_bytes 4 0);
     Some (h + 5, p) }"

text \<open>The common shape of the functions that start a request: \<open>sz\<close> is the size they compute for the body, \<open>body\<close> what they
  write.\<close>

definition tp_request :: "msgpuck \<Rightarrow> tp \<Rightarrow> tp_request_type \<Rightarrow> nat \<Rightarrow> bytes \<Rightarrow> (nat option \<times> tp) option" where
  "tp_request mp p ty sz body = do {
     let hsz = tpi_sizeof_header mp (tp_request_code ty);
     (rc, p) \<leftarrow> tp_ensure p (int_sz (sz + hsz));
     if rc = -1 then Some (None, p)
     else do {
       (h, p) \<leftarrow> tpi_encode_header mp p (tp_request_code ty);
       p \<leftarrow> tp_store p h body;
       tp_add p (int_sz (sz + hsz)) } }"

definition tp_ping :: "msgpuck \<Rightarrow> tp \<Rightarrow> (nat option \<times> tp) option" where
  "tp_ping mp p = tp_request mp p TP_PING (mp_sizeof_map mp 0) (mp_encode_map mp 0)"

definition tp_select :: "msgpuck \<Rightarrow> tp \<Rightarrow> u32 \<Rightarrow> u32 \<Rightarrow> u32 \<Rightarrow> tp_iterator_type \<Rightarrow> u32 \<Rightarrow> (nat option \<times> tp) option" where
  "tp_select mp p space index offset iterator limit = tp_request mp p TP_SELECT
     (mp_sizeof_map mp 6
      + mp_sizeof_uint mp TP_SPACE + mp_sizeof_uint mp (ucast space)
      + mp_sizeof_uint mp TP_INDEX + mp_sizeof_uint mp (ucast index)
      + mp_sizeof_uint mp TP_OFFSET + mp_sizeof_uint mp (ucast offset)
      + mp_sizeof_uint mp TP_LIMIT + mp_sizeof_uint mp (ucast limit)
      + mp_sizeof_uint mp TP_ITERATOR + mp_sizeof_uint mp (ucast (tp_iterator_code iterator))
      + mp_sizeof_uint mp TP_KEY)
     (mp_encode_map mp 6
      @ mp_encode_uint mp TP_SPACE @ mp_encode_uint mp (ucast space)
      @ mp_encode_uint mp TP_INDEX @ mp_encode_uint mp (ucast index)
      @ mp_encode_uint mp TP_OFFSET @ mp_encode_uint mp (ucast offset)
      @ mp_encode_uint mp TP_LIMIT @ mp_encode_uint mp (ucast limit)
      @ mp_encode_uint mp TP_ITERATOR @ mp_encode_uint mp (ucast (tp_iterator_code iterator))
      @ mp_encode_uint mp TP_KEY)"

definition tpi_encode_store :: "msgpuck \<Rightarrow> tp \<Rightarrow> tp_request_type \<Rightarrow> u32 \<Rightarrow> (nat option \<times> tp) option" where
  "tpi_encode_store mp p ty space = tp_request mp p ty
     (mp_sizeof_map mp 2 + mp_sizeof_uint mp TP_SPACE + mp_sizeof_uint mp (ucast space) + mp_sizeof_uint mp TP_TUPLE)
     (mp_encode_map mp 2 @ mp_encode_uint mp TP_SPACE @ mp_encode_uint mp (ucast space) @ mp_encode_uint mp TP_TUPLE)"

definition tp_insert :: "msgpuck \<Rightarrow> tp \<Rightarrow> u32 \<Rightarrow> (nat option \<times> tp) option" where
  "tp_insert mp p space = tpi_encode_store mp p TP_INSERT space"

definition tp_replace :: "msgpuck \<Rightarrow> tp \<Rightarrow> u32 \<Rightarrow> (nat option \<times> tp) option" where
  "tp_replace mp p space = tpi_encode_store mp p TP_REPLACE space"

text \<open>\<open>tp_delete\<close> counts a map header that it does not write.\<close>

definition tp_delete :: "msgpuck \<Rightarrow> tp \<Rightarrow> u32 \<Rightarrow> (nat option \<times> tp) option" where
  "tp_delete mp p space = tp_request mp p TP_DELETE
     (mp_sizeof_map mp 2 + mp_sizeof_uint mp TP_SPACE + mp_sizeof_uint mp (ucast space) + mp_sizeof_uint mp TP_KEY)
     (mp_encode_uint mp TP_SPACE @ mp_encode_uint mp (ucast space) @ mp_encode_uint mp TP_KEY)"

text \<open>The function name or expression is the \<open>len\<close> bytes at the pointer.\<close>

definition tp_call :: "msgpuck \<Rightarrow> tp \<Rightarrow> bytes \<Rightarrow> (nat option \<times> tp) option" where
  "tp_call mp p function = tp_request mp p TP_CALL
     (mp_sizeof_map mp 2 + mp_sizeof_uint mp TP_FUNCTION + mp_sizeof_str mp (of_nat (length function)) + mp_sizeof_uint mp TP_TUPLE)
     (mp_encode_map mp 2 @ mp_encode_uint mp TP_FUNCTION @ mp_encode_str mp function @ mp_encode_uint mp TP_TUPLE)"

definition tp_eval :: "msgpuck \<Rightarrow> tp \<Rightarrow> bytes \<Rightarrow> (nat option \<times> tp) option" where
  "tp_eval mp p expr = tp_request mp p TP_EVAL
     (mp_sizeof_map mp 2 + mp_sizeof_uint mp TP_FUNCTION + mp_sizeof_str mp (of_nat (length expr)) + mp_sizeof_uint mp TP_TUPLE)
     (mp_encode_map mp 2 @ mp_encode_uint mp TP_EXPRESSION @ mp_encode_str mp expr @ mp_encode_uint mp TP_TUPLE)"

definition tp_update :: "msgpuck \<Rightarrow> tp \<Rightarrow> u32 \<Rightarrow> (nat option \<times> tp) option" where
  "tp_update mp p space = tp_request mp p TP_UPDATE
     (mp_sizeof_map mp 3 + mp_sizeof_uint mp TP_SPACE + mp_sizeof_uint mp (ucast space) + mp_sizeof_uint mp TP_KEY)
     (mp_encode_map mp 3 @ mp_encode_uint mp TP_SPACE @ mp_encode_uint mp (ucast space) @ mp_encode_uint mp TP_KEY)"

section \<open>Values\<close>

text \<open>The common shape of the functions that append to a request.\<close>

definition tp_append :: "tp \<Rightarrow> nat \<Rightarrow> bytes \<Rightarrow> (nat option \<times> tp) option" where
  "tp_append p sz bs = do {
     (rc, p) \<leftarrow> tp_ensure p (int_sz sz);
     if rc = -1 then Some (None, p)
     else do {
       p \<leftarrow> tp_store p (tp_p p) bs;
       tp_add p (int_sz sz) } }"

definition tp_updatebegin :: "msgpuck \<Rightarrow> tp \<Rightarrow> u32 \<Rightarrow> (nat option \<times> tp) option" where
  "tp_updatebegin mp p op_count = tp_append p (mp_sizeof_uint mp TP_TUPLE + mp_sizeof_array mp op_count)
     (mp_encode_uint mp TP_TUPLE @ mp_encode_array mp op_count)"

definition tp_op :: "msgpuck \<Rightarrow> tp \<Rightarrow> byte \<Rightarrow> u32 \<Rightarrow> (nat option \<times> tp) option" where
  "tp_op mp p opc field_no = tp_append p (mp_sizeof_array mp 3 + mp_sizeof_str mp 1 + mp_sizeof_uint mp (ucast field_no))
     (mp_encode_array mp 3 @ mp_encode_str mp [opc] @ mp_encode_uint mp (ucast field_no))"

text \<open>The size of \<open>tp_op_splice\<close> is computed from the field number three times.\<close>

definition tp_op_splice :: "msgpuck \<Rightarrow> tp \<Rightarrow> u32 \<Rightarrow> u32 \<Rightarrow> u32 \<Rightarrow> bytes \<Rightarrow> (nat option \<times> tp) option" where
  "tp_op_splice mp p field_no offset cut_limit paste = tp_append p
     (mp_sizeof_array mp 5 + mp_sizeof_str mp 1 + mp_sizeof_uint mp (ucast field_no) + mp_sizeof_uint mp (ucast field_no)
      + mp_sizeof_uint mp (ucast field_no) + mp_sizeof_str mp (of_nat (length paste)))
     (mp_encode_array mp 5 @ mp_encode_str mp [0x3a] @ mp_encode_uint mp (ucast field_no) @ mp_encode_uint mp (ucast offset)
      @ mp_encode_uint mp (ucast cut_limit) @ mp_encode_str mp paste)"

definition tpi_xor :: "bytes \<Rightarrow> bytes \<Rightarrow> nat \<Rightarrow> bytes" where
  "tpi_xor left right n = map2 (XOR) (take n left) (take n right)"

definition tpi_scramble_prepare :: "bytes \<Rightarrow> bytes \<Rightarrow> bytes" where
  "tpi_scramble_prepare salt password = (
     let hash1 = SHA1Final (SHA1Update SHA1Init password);
         hash2 = SHA1Final (SHA1Update SHA1Init (take SCRAMBLE_SIZE hash1));
         out = SHA1Final (SHA1Update (SHA1Update SHA1Init (take SCRAMBLE_SIZE salt)) (take SCRAMBLE_SIZE hash2))
     in tpi_xor hash1 out SCRAMBLE_SIZE)"

text \<open>A salt of which less than \<open>SCRAMBLE_SIZE\<close> bytes were decoded is read where it was never written.\<close>

definition tp_auth :: "msgpuck \<Rightarrow> tp \<Rightarrow> bytes \<Rightarrow> bytes \<Rightarrow> bytes \<Rightarrow> (nat option \<times> tp) option" where
  "tp_auth mp p salt64 user pass = do {
     let hsz = tpi_sizeof_header mp (tp_request_code TP_AUTH);
     let sz = mp_sizeof_array mp 2 + mp_sizeof_str mp 0 + mp_sizeof_str mp (of_nat SCRAMBLE_SIZE);
     (rc, p) \<leftarrow> tp_ensure p (int_sz (sz + hsz));
     if rc = -1 then Some (None, p)
     else do {
       (h, p) \<leftarrow> tpi_encode_header mp p (tp_request_code TP_AUTH);
       let b = mp_encode_map mp 2 @ mp_encode_uint mp TP_USERNAME @ mp_encode_str mp user @ mp_encode_uint mp TP_TUPLE
         @ mp_encode_array mp 2 @ mp_encode_str mp chap_sha1;
       p \<leftarrow> tp_store p h b;
       (n, salt) \<leftarrow> (if length salt64 < 44 then None else base64_decode (take 44 salt64) (replicate 64 0));
       if n < SCRAMBLE_SIZE then None
       else do {
         p \<leftarrow> tp_store p (h + length b) (mp_encode_str mp (tpi_scramble_prepare salt pass));
         tp_add p (int_sz (sz + hsz)) } } }"

definition tp_deauth :: "msgpuck \<Rightarrow> tp \<Rightarrow> (nat option \<times> tp) option" where
  "tp_deauth mp p = do {
     let hsz = tpi_sizeof_header mp (tp_request_code TP_AUTH);
     let sz = mp_sizeof_array mp 0;
     (rc, p) \<leftarrow> tp_ensure p (int_sz (sz + hsz));
     if rc = -1 then Some (None, p)
     else do {
       let p = p\<lparr>tp_size_at := Some (tp_p p)\<rparr>;
       (h, p) \<leftarrow> tpi_encode_header mp p (tp_request_code TP_AUTH);
       p \<leftarrow> tp_store p h (mp_encode_map mp 2 @ mp_encode_uint mp TP_USERNAME @ mp_encode_str mp guest_name
         @ mp_encode_uint mp TP_TUPLE @ mp_encode_array mp 0);
       tp_add p (int_sz (sz + hsz)) } }"

definition tp_reqid :: "tp \<Rightarrow> u32 \<Rightarrow> tp option" where
  "tp_reqid p reqid = do {
     h \<leftarrow> tp_sync_at p;
     tp_store p h (0xce # be_bytes 4 (unat reqid)) }"

definition tp_encode_nil :: "msgpuck \<Rightarrow> 'va msgpuck_tp \<Rightarrow> tp \<Rightarrow> (nat option \<times> tp) option" where
  "tp_encode_nil mp mx p = tp_append p (mp_sizeof_nil mx) (mp_encode_nil mp)"

definition tp_encode_uint :: "msgpuck \<Rightarrow> tp \<Rightarrow> u64 \<Rightarrow> (nat option \<times> tp) option" where
  "tp_encode_uint mp p n = tp_append p (mp_sizeof_uint mp n) (mp_encode_uint mp n)"

definition tp_encode_int :: "msgpuck \<Rightarrow> 'va msgpuck_tp \<Rightarrow> tp \<Rightarrow> u64 \<Rightarrow> (nat option \<times> tp) option" where
  "tp_encode_int mp mx p n = tp_append p (mp_sizeof_int mx n) (mp_encode_int mp n)"

definition tp_encode_str :: "msgpuck \<Rightarrow> tp \<Rightarrow> bytes \<Rightarrow> (nat option \<times> tp) option" where
  "tp_encode_str mp p str = tp_append p (mp_sizeof_str mp (of_nat (length str))) (mp_encode_str mp str)"

text \<open>The string with its terminator and what follows it.\<close>

definition tp_encode_sz :: "msgpuck \<Rightarrow> tp \<Rightarrow> bytes \<Rightarrow> (nat option \<times> tp) option" where
  "tp_encode_sz mp p str = do {
     len \<leftarrow> c_strlen str;
     let n = unat (of_nat len :: u32);
     tp_append p (mp_sizeof_str mp (of_nat n)) (mp_encode_str mp (take n str)) }"

definition tp_sz :: "msgpuck \<Rightarrow> tp \<Rightarrow> bytes \<Rightarrow> (nat option \<times> tp) option" where
  "tp_sz mp p str = tp_encode_sz mp p str"

definition tp_encode_bin :: "'va msgpuck_tp \<Rightarrow> tp \<Rightarrow> bytes \<Rightarrow> (nat option \<times> tp) option" where
  "tp_encode_bin mx p str = tp_append p (mp_sizeof_bin mx (of_nat (length str))) (mp_encode_bin mx str)"

definition tp_encode_array :: "msgpuck \<Rightarrow> tp \<Rightarrow> u32 \<Rightarrow> (nat option \<times> tp) option" where
  "tp_encode_array mp p n = tp_append p (mp_sizeof_array mp n) (mp_encode_array mp n)"

definition tp_encode_map :: "msgpuck \<Rightarrow> tp \<Rightarrow> u32 \<Rightarrow> (nat option \<times> tp) option" where
  "tp_encode_map mp p n = tp_append p (mp_sizeof_map mp n) (mp_encode_map mp n)"

definition tp_encode_bool :: "msgpuck \<Rightarrow> 'va msgpuck_tp \<Rightarrow> tp \<Rightarrow> bool \<Rightarrow> (nat option \<times> tp) option" where
  "tp_encode_bool mp mx p b = tp_append p (mp_sizeof_bool mx b) (mp_encode_bool mp b)"

definition tp_encode_float :: "msgpuck \<Rightarrow> 'va msgpuck_tp \<Rightarrow> tp \<Rightarrow> u32 \<Rightarrow> (nat option \<times> tp) option" where
  "tp_encode_float mp mx p f = tp_append p (mp_sizeof_float mx f) (mp_encode_float mp f)"

definition tp_encode_double :: "msgpuck \<Rightarrow> 'va msgpuck_tp \<Rightarrow> tp \<Rightarrow> u64 \<Rightarrow> (nat option \<times> tp) option" where
  "tp_encode_double mp mx p d = tp_append p (mp_sizeof_double mx d) (mp_encode_double mp d)"

text \<open>
  \<open>tp_format\<close>.  What fits is written by the first call of \<open>mp_vformat\<close>.  After growing the buffer the second call reads the
  argument list that the first one has used up, which is undefined.
\<close>

definition tp_format :: "'va msgpuck_tp \<Rightarrow> tp \<Rightarrow> string \<Rightarrow> 'va \<Rightarrow> (nat option \<times> tp) option" where
  "tp_format mx p format args = do {
     let unused = tp_unused p;
     let bs = mp_vformat mx format args;
     if length bs > unused then do {
       (rc, p) \<leftarrow> tp_ensure p (length bs);
       if rc = -1 then Some (None, p) else None }
     else do {
       p \<leftarrow> tp_store p (tp_p p) bs;
       tp_add p (length bs) } }"

definition tp_tuple :: "msgpuck \<Rightarrow> tp \<Rightarrow> u32 \<Rightarrow> (nat option \<times> tp) option" where
  "tp_tuple mp p field_count = tp_encode_array mp p field_count"

definition tp_key :: "msgpuck \<Rightarrow> tp \<Rightarrow> u32 \<Rightarrow> (nat option \<times> tp) option" where
  "tp_key mp p part_count = tp_encode_array mp p part_count"

end
