(* ===== verification/Tnt_Tp_Spec.thy ===== *)
theory Tnt_Tp_Spec
  imports Tnt_Tp
begin

text \<open>
  What the request writer of \<^verbatim>\<open>include/tp.h\<close> promises: a sequence of calls builds a sequence of well-formed frames,
  or stops at the first call that finds no room with the frames built so far; and the calls that do not keep the promise.
\<close>

section \<open>Laws of the remaining msgpuck functions\<close>

locale tp_env = msgpuck_laws mp for mp :: msgpuck +
  fixes mx :: "'va msgpuck_tp"
  assumes size_nil: "mp_sizeof_nil mx = length (mp_encode_nil mp)"
    and size_int: "mp_sizeof_int mx n = length (mp_encode_int mp n)"
    and size_bin: "mp_sizeof_bin mx l = length (mp_encode_binl mp l) + unat l"
    and size_bool: "mp_sizeof_bool mx b = length (mp_encode_bool mp b)"
    and size_float: "mp_sizeof_float mx f = length (mp_encode_float mp f)"
    and size_double: "mp_sizeof_double mx d = length (mp_encode_double mp d)"
    and sizes: "mp_sizeof_nil mx = 1" "mp_sizeof_int mx n \<le> 9" "mp_sizeof_bool mx b = 1" "mp_sizeof_float mx f = 5"
       "mp_sizeof_double mx d = 9" "mp_sizeof_bin mx l \<le> unat l + 5"
    and enc_bin: "mp_encode_bin mx s = mp_encode_binl mp (of_nat (length s)) @ s"
    and dec_int: "mp_decode_int mx bs = (case mp_tok bs of Some (TInt n', r') \<Rightarrow> Some (n', r') | _ \<Rightarrow> None)"
    and dec_float: "mp_decode_float mx bs = (case mp_tok bs of Some (TFlt f', r') \<Rightarrow> Some (f', r') | _ \<Rightarrow> None)"
    and dec_double: "mp_decode_double mx bs = (case mp_tok bs of Some (TDbl d', r') \<Rightarrow> Some (d', r') | _ \<Rightarrow> None)"
    and dec_bool: "mp_decode_bool mx bs = (case mp_tok bs of Some (TBool b', r') \<Rightarrow> Some (b', r') | _ \<Rightarrow> None)"
    and dec_bin: "mp_decode_bin mx bs =
       (case mp_tok bs of Some (TBin s', r') \<Rightarrow> Some ((s' @ r', of_nat (length s')), r') | _ \<Rightarrow> None)"

definition mx_ref :: "bytes msgpuck_tp" where
  "mx_ref = \<lparr>mp_sizeof_nil = 1, mp_sizeof_int = (\<lambda>n. length (ref_int n)), mp_sizeof_bin = (\<lambda>l. length (ref_binl l) + unat l),
     mp_sizeof_bool = (\<lambda>_. 1), mp_sizeof_float = (\<lambda>_. 5), mp_sizeof_double = (\<lambda>_. 9),
     mp_encode_bin = (\<lambda>s. ref_binl (of_nat (length s)) @ s), mp_vformat = (\<lambda>_ bs. bs),
     mp_decode_int = (\<lambda>bs. case mp_tok bs of Some (TInt n, r) \<Rightarrow> Some (n, r) | _ \<Rightarrow> None),
     mp_decode_float = (\<lambda>bs. case mp_tok bs of Some (TFlt n, r) \<Rightarrow> Some (n, r) | _ \<Rightarrow> None),
     mp_decode_double = (\<lambda>bs. case mp_tok bs of Some (TDbl n, r) \<Rightarrow> Some (n, r) | _ \<Rightarrow> None),
     mp_decode_bool = (\<lambda>bs. case mp_tok bs of Some (TBool n, r) \<Rightarrow> Some (n, r) | _ \<Rightarrow> None),
     mp_decode_bin = (\<lambda>bs. case mp_tok bs of Some (TBin s, r) \<Rightarrow> Some ((s @ r, of_nat (length s)), r) | _ \<Rightarrow> None)\<rparr>"

interpretation ref_tp: tp_env mp_ref mx_ref
  by unfold_locales (simp_all add: mx_ref_def mp_ref_def ref_int_def ref_binl_def Let_def)

section \<open>Stores\<close>

lemma take_append_len: "take (length xs + n) (xs @ ys) = xs @ take n ys"
  by simp

text \<open>The first \<open>k\<close> bytes of the block, and the bytes of the requests built so far.\<close>

definition upto :: "tp \<Rightarrow> nat \<Rightarrow> bytes" where
  "upto p k = (case tp_s p of Blk d \<Rightarrow> take k d | _ \<Rightarrow> [])"

definition built :: "tp \<Rightarrow> bytes" where
  "built p = upto p (tp_p p)"

definition tp_wf :: "tp \<Rightarrow> bool" where
  "tp_wf p \<longleftrightarrow> tp_p p \<le> tp_e p \<and> (case tp_s p of Blk d \<Rightarrow> tp_e p \<le> length d | NULLP \<Rightarrow> tp_e p = 0 | Freed \<Rightarrow> False)"

lemma take_blit: "off + length bs \<le> k \<Longrightarrow> off \<le> length d \<Longrightarrow> take k (blit d off bs) = blit (take k d) off bs"
  by (cases "k = off") (simp_all add: blit_def drop_take min_def)

lemma blit_mid: "length old = length bs \<Longrightarrow> blit (pre @ old @ post) (length pre) bs = pre @ bs @ post"
  by (simp add: blit_def)

lemma store_upto:
  assumes "tp_s p = Blk d" and "off + length bs \<le> length d"
  obtains d' where "tp_store p off bs = Some (p\<lparr>tp_s := Blk d'\<rparr>)" "length d' = length d" "take (off + length bs) d' = take off d @ bs"
proof
  show "tp_store p off bs = Some (p\<lparr>tp_s := Blk (blit d off bs)\<rparr>)" using assms by (simp add: tp_store_def)
  show "take (off + length bs) (blit d off bs) = take off d @ bs" using assms(2) by (rule take_blit_end)
qed (use assms in simp)

text \<open>A frame of which the first five bytes are still to be written, and \<open>tp_add\<close> that writes them.\<close>

lemma add_frame:
  assumes "tp_s p = Blk d" and "tp_size_at p = Some (length pre)" and "take (tp_p p + n) d = pre @ len5 @ pay" and "length len5 = 5"
    and "tp_p p + n \<le> length d"
  obtains d' where "tp_add p n = Some (Some (tp_p p), p\<lparr>tp_p := tp_p p + n, tp_s := Blk d'\<rparr>)" "length d' = length d"
    "take (tp_p p + n) d' = pre @ (0xce # be_bytes 4 (length pay)) @ pay"
proof -
  have len: "tp_p p + n = length pre + 5 + length pay" using arg_cong [OF assms(3), of length] assms(4,5) by simp
  let ?x = "0xce # be_bytes 4 (length pay)"
  have l5: "length ?x = 5" by simp
  have fit: "length pre + length ?x \<le> length d" using len assms(5) by (simp only: l5)
  have "take (tp_p p + n) (blit d (length pre) ?x) = blit (take (tp_p p + n) d) (length pre) ?x"
    by (rule take_blit) (use len fit l5 in linarith)+
  also have "\<dots> = pre @ ?x @ pay" unfolding assms(3) by (rule blit_mid) (simp only: l5 assms(4))
  finally have t: "take (tp_p p + n) (blit d (length pre) ?x) = pre @ ?x @ pay" .
  have "tp_p p + n - length pre - 5 = length pay" using len by simp
  then have "tp_add p n = Some (Some (tp_p p), p\<lparr>tp_p := tp_p p + n, tp_s := Blk (blit d (length pre) ?x)\<rparr>)"
    using assms(1,2,5) fit by (simp add: tp_add_def tp_fits_def tp_store_def del: be_bytes.simps)
  with t fit show thesis by (intro that [of "blit d (length pre) ?x"]) simp_all
qed

section \<open>Room\<close>

text \<open>\<open>tp_ensure\<close> does its duty: it fails without a change, or there is room.\<close>

definition moved :: "tp \<Rightarrow> tp \<Rightarrow> bool" where
  "moved p q \<longleftrightarrow> tp_p q = tp_p p \<and> tp_size_at q = tp_size_at p \<and> tp_sync_at q = tp_sync_at p \<and> tp_reserve q = tp_reserve p
     \<and> tp_e p \<le> tp_e q \<and> (tp_reserve p = None \<longrightarrow> tp_e q = tp_e p) \<and> built q = built p"

lemma moved_built: "moved p q \<Longrightarrow> tp_s q = Blk d \<Longrightarrow> take (tp_p q) d = built p"
  by (auto simp: moved_def built_def upto_def)

definition ensures :: "tp \<Rightarrow> nat \<Rightarrow> bool" where
  "ensures p n \<longleftrightarrow> (\<exists>rc q. tp_ensure p n = Some (rc, q) \<and>
     (if rc = -1 then q = p \<and> tp_unused p < n
      else tp_wf q \<and> moved p q \<and> (0 < n \<longrightarrow> (\<exists>d. tp_s q = Blk d \<and> tp_p q + n \<le> tp_e q))))"

lemma moved_refl [simp]: "moved p p"
  by (simp add: moved_def)

lemma ensures_static:
  assumes "tp_wf p" and "tp_reserve p = None"
  shows "ensures p n"
  using assms by (auto simp: ensures_def tp_ensure_def tp_unused_def tp_wf_def split: cptr.splits)

text \<open>\<open>tp_realloc\<close> does when the bytes required are at most the size of the buffer (or more than twice that).\<close>

lemma ensures_realloc:
  assumes "allocator ra" and "tp_wf p" and "tp_reserve p = Some (tp_realloc ra)" and "n \<le> tp_e p \<or> 2 * tp_e p < n"
  shows "ensures p n"
proof (cases "tp_unused p \<ge> n")
  case True
  then show ?thesis using assms(2) by (auto simp: ensures_def tp_ensure_def tp_unused_def tp_wf_def split: cptr.splits)
next
  case False
  define m where "m = (if tp_e p * 2 < n then tp_e p + n else tp_e p * 2)"
  have m: "0 < m" "tp_p p + n \<le> m" "tp_e p \<le> m" using False assms(2,4) by (auto simp: m_def tp_unused_def tp_wf_def)
  obtain d where d: "tp_s p = NULLP \<and> d = [] \<or> tp_s p = Blk d" "tp_e p \<le> length d \<or> tp_e p = 0"
    using assms(2) by (auto simp: tp_wf_def split: cptr.splits)
  from m(1) d(1) show ?thesis
  proof (rule allocator.mem_realloc_cases [OF assms(1)], goal_cases)
    case 1
    then show ?case using False assms(3)
      by (auto simp: ensures_def tp_ensure_def tp_realloc_def Let_def m_def [symmetric] tnt_mem_realloc_def tp_size_def)
  next
    case (2 d' old)
    have e: "tp_ensure p n = Some (int m, p\<lparr>tp_s := Blk d', tp_e := m\<rparr>)" using False assms(3) 2(1)
      by (auto simp: tp_ensure_def tp_realloc_def Let_def m_def [symmetric] tnt_mem_realloc_def tp_size_def)
    have "take (tp_p p) d' = (case tp_s p of Blk d \<Rightarrow> take (tp_p p) d | _ \<Rightarrow> [])"
    proof (cases "tp_s p")
      case (Blk x)
      then have "d = x" "tp_p p \<le> min m (length d)" using d(1) assms(2) m(3) by (auto simp: tp_wf_def)
      then have "take (tp_p p) d' = take (tp_p p) x" using 2(3) by (metis min.absorb1 take_take)
      then show ?thesis by (simp add: Blk)
    qed (use assms(2) in \<open>auto simp: tp_wf_def\<close>)
    then show ?thesis using e m 2(2) assms(3) by (auto simp: ensures_def tp_wf_def moved_def built_def upto_def)
  qed
qed

lemma int_sz_small:
  assumes "n < 2 ^ 31"
  shows "int_sz n = n"
proof -
  have "sint (of_nat n :: u32) = int n"
    using assms by (simp add: signed_of_nat signed_take_bit_int_eq_self)
  then have "(scast (of_nat n :: u32) :: u64) = of_nat n" by (simp add: scast_eq)
  then show ?thesis using assms by (simp add: int_sz_def unat_of_nat_u64)
qed

section \<open>Frames\<close>

text \<open>A request frame: request type, number, and the tokens of the body; its bytes are a length prefix that counts what
  follows, the header map and the body.\<close>

type_synonym tp_fr = "u32 \<times> u32 \<times> tok list"

definition tp_hdr :: "u32 \<Rightarrow> tok list" where
  "tp_hdr code = [TMap 2, TUint TP_CODE, TUint (ucast code), TUint TP_SYNC]"

definition tp_frame :: "tp_fr \<Rightarrow> bytes \<Rightarrow> bool" where
  "tp_frame x fr \<longleftrightarrow> (case x of (code, sync, ts) \<Rightarrow>
     \<exists>pay. fr = (0xce # be_bytes 4 (length pay)) @ pay \<and> encodes (tp_hdr code @ TUint (ucast sync) # ts) pay)"

definition tp_frames :: "tp_fr list \<Rightarrow> bytes \<Rightarrow> bool" where
  "tp_frames fs bs \<longleftrightarrow> (\<exists>parts. bs = concat parts \<and> list_all2 tp_frame fs parts)"

definition sync_bytes :: "u32 \<Rightarrow> bytes" where
  "sync_bytes y = 0xce # be_bytes 4 (unat y)"

lemma sync_bytes_ok: "encodes [TUint (ucast y)] (sync_bytes y)" "length (sync_bytes y) = 5"
proof -
  have "(of_nat (unat y) :: u64) = ucast y" by simp
  then show "encodes [TUint (ucast y)] (sync_bytes y)"
    by (simp add: sync_bytes_def encodes_def mp_tok_marks tk_num_be [where r = "[]", simplified] del: be_bytes.simps)
qed (simp add: sync_bytes_def)

text \<open>The buffer holds the frames \<open>fs\<close>, the last of which can still grow.\<close>

definition open_frame :: "tp \<Rightarrow> tp_fr list \<Rightarrow> tp_fr \<Rightarrow> bool" where
  "open_frame p fs x \<longleftrightarrow> (case x of (code, sync, ts) \<Rightarrow> \<exists>pre hb bb. tp_frames fs pre \<and> tp_size_at p = Some (length pre)
     \<and> tp_sync_at p = Some (length pre + 5 + length hb) \<and> encodes (tp_hdr code) hb \<and> encodes ts bb
     \<and> built p = pre @ (0xce # be_bytes 4 (length (hb @ sync_bytes sync @ bb))) @ hb @ sync_bytes sync @ bb)"

definition tp_rep :: "tp \<Rightarrow> tp_fr list \<Rightarrow> bool" where
  "tp_rep p fs \<longleftrightarrow> tp_wf p \<and> (if fs = [] then built p = [] else open_frame p (butlast fs) (last fs))"

lemma open_frame_bytes:
  assumes "open_frame p fs x"
  shows "tp_frames (fs @ [x]) (built p)"
proof -
  obtain code sync ts where x: "x = (code, sync, ts)" by (cases x) auto
  with assms obtain pre hb bb where p: "tp_frames fs pre" "encodes (tp_hdr code) hb" "encodes ts bb"
    "built p = pre @ (0xce # be_bytes 4 (length (hb @ sync_bytes sync @ bb))) @ hb @ sync_bytes sync @ bb"
    by (auto simp: open_frame_def)
  have "encodes (tp_hdr code @ [TUint (ucast sync)] @ ts) (hb @ sync_bytes sync @ bb)"
    using p(2,3) sync_bytes_ok(1) by (intro encodes_append)
  then have "tp_frame x ((0xce # be_bytes 4 (length (hb @ sync_bytes sync @ bb))) @ hb @ sync_bytes sync @ bb)"
    by (auto simp: tp_frame_def x)
  moreover obtain parts where "pre = concat parts" "list_all2 tp_frame fs parts" using p(1) by (auto simp: tp_frames_def)
  ultimately show ?thesis unfolding tp_frames_def p(4)
    by (intro exI [of _ "parts @ [(0xce # be_bytes 4 (length (hb @ sync_bytes sync @ bb))) @ hb @ sync_bytes sync @ bb]"])
      (simp add: list_all2_appendI)
qed

lemma tp_rep_frames: "tp_rep p fs \<Longrightarrow> tp_frames fs (built p)"
  using open_frame_bytes [of p "butlast fs" "last fs"] by (auto simp: tp_rep_def tp_frames_def split: if_splits)

section \<open>The calls\<close>

text \<open>What a call that needs \<open>n\<close> bytes may do: fail with nothing changed when less than that is left, or lead to the frames \<open>fs'\<close>.\<close>

definition steps_to :: "tp \<Rightarrow> nat \<Rightarrow> tp_fr list \<Rightarrow> (nat option \<times> tp) option \<Rightarrow> bool" where
  "steps_to p n fs' res \<longleftrightarrow> (\<exists>r q. res = Some (r, q) \<and> tp_reserve q = tp_reserve p \<and> tp_e p \<le> tp_e q \<and> (tp_reserve p = None \<longrightarrow> tp_e q = tp_e p)
     \<and> (if r = None then q = p \<and> tp_unused p < n else tp_rep q fs' \<and> tp_used q = tp_used p + n))"

lemma append_steps:
  assumes "tp_rep p (fs @ [(code, sync, ts)])" and "ensures p sz" and "sz = length bs" and "0 < sz" and "sz < 2 ^ 31" and "encodes us bs"
  shows "steps_to p sz (fs @ [(code, sync, ts @ us)]) (tp_append p sz bs)"
proof -
  obtain pre hb bb where r: "tp_frames fs pre" "tp_size_at p = Some (length pre)" "tp_sync_at p = Some (length pre + 5 + length hb)"
    "encodes (tp_hdr code) hb" "encodes ts bb"
    "built p = pre @ (0xce # be_bytes 4 (length (hb @ sync_bytes sync @ bb))) @ hb @ sync_bytes sync @ bb"
    using assms(1) by (auto simp: tp_rep_def open_frame_def)
  obtain rc q where q: "tp_ensure p sz = Some (rc, q)"
    "if rc = -1 then q = p \<and> tp_unused p < sz else tp_wf q \<and> moved p q \<and> (0 < sz \<longrightarrow> (\<exists>d. tp_s q = Blk d \<and> tp_p q + sz \<le> tp_e q))"
    using assms(2) unfolding ensures_def by blast
  show ?thesis
  proof (cases "rc = -1")
    case True
    then show ?thesis using q by (simp add: tp_append_def int_sz_small [OF assms(5)] steps_to_def)
  next
    case False
    then obtain d where d: "tp_s q = Blk d" "tp_p q + sz \<le> tp_e q" "tp_wf q" "moved p q" using q(2) assms(4) by auto
    have e: "tp_e q \<le> length d" using d(1,3) by (simp add: tp_wf_def)
    obtain d1 where d1: "tp_store q (tp_p q) bs = Some (q\<lparr>tp_s := Blk d1\<rparr>)" "length d1 = length d" "take (tp_p q + length bs) d1 = take (tp_p q) d @ bs"
      by (rule store_upto [OF d(1), of "tp_p q" bs]) (use d(2) e assms(3) in simp_all)
    let ?q1 = "q\<lparr>tp_s := Blk d1\<rparr>"
    let ?len5 = "0xce # be_bytes 4 (length (hb @ sync_bytes sync @ bb))" and ?pay = "hb @ sync_bytes sync @ bb @ bs"
    have "take (tp_p q) d = built p" using moved_built [OF d(4,1)] .
    then have t: "take (tp_p ?q1 + sz) d1 = pre @ ?len5 @ ?pay" using d1(3) r(6) assms(3) by (simp del: be_bytes.simps)
    obtain d2 where d2: "tp_add ?q1 sz = Some (Some (tp_p ?q1), ?q1\<lparr>tp_p := tp_p ?q1 + sz, tp_s := Blk d2\<rparr>)" "length d2 = length d1"
      "take (tp_p ?q1 + sz) d2 = pre @ (0xce # be_bytes 4 (length ?pay)) @ ?pay"
      by (rule add_frame [OF _ _ t]) (use r(2) d(2,4) e d1(2) in \<open>simp_all add: moved_def\<close>)
    let ?q2 = "?q1\<lparr>tp_p := tp_p ?q1 + sz, tp_s := Blk d2\<rparr>"
    have w: "tp_wf ?q2" using d(2) e d1(2) d2(2) by (simp add: tp_wf_def)
    have eb: "encodes (ts @ us) (bb @ bs)" using r(5) assms(6) by (rule encodes_append)
    have bu: "built ?q2 = pre @ (0xce # be_bytes 4 (length (hb @ sync_bytes sync @ (bb @ bs)))) @ hb @ sync_bytes sync @ (bb @ bs)"
      using d2(3) by (simp add: built_def upto_def)
    have "open_frame ?q2 fs (code, sync, ts @ us)" unfolding open_frame_def
      using r(1-4) eb bu d(4) by (simp only: prod.case) (rule exI [of _ pre], rule exI [of _ hb], rule exI [of _ "bb @ bs"], simp add: moved_def)
    then have "tp_rep ?q2 (fs @ [(code, sync, ts @ us)])" using w by (simp add: tp_rep_def)
    moreover have "tp_append p sz bs = Some (Some (tp_p ?q1), ?q2)"
      using q(1) False d1(1) d2(1) by (simp add: tp_append_def int_sz_small [OF assms(5)])
    ultimately show ?thesis using d(4) by (simp add: steps_to_def moved_def tp_used_def)
  qed
qed

context msgpuck_laws
begin

definition hdr_bytes :: "u32 \<Rightarrow> bytes" where
  "hdr_bytes code = mp_encode_map mp 2 @ mp_encode_uint mp TP_CODE @ mp_encode_uint mp (ucast code) @ mp_encode_uint mp TP_SYNC"

lemma hdr_bytes_ok: "encodes (tp_hdr code) (hdr_bytes code)" "tpi_sizeof_header mp code = 10 + length (hdr_bytes code)"
proof -
  have "encodes ([TMap 2] @ [TUint TP_CODE] @ [TUint (ucast code)] @ [TUint TP_SYNC]) (hdr_bytes code)"
    unfolding hdr_bytes_def by (intro encodes_append enc_map enc_uint)
  then show "encodes (tp_hdr code) (hdr_bytes code)" by (simp add: tp_hdr_def)
qed (simp add: tpi_sizeof_header_def hdr_bytes_def size_map size_uint)

lemma hdr_bytes_small: "length (hdr_bytes code) \<le> 30"
  by (simp add: hdr_bytes_def size_map size_uint sizeof_map sizeof_uint)

text \<open>The header is written behind five bytes left for the length.\<close>

lemma encode_header_stores:
  assumes "tp_s p = Blk d" and "tp_p p + 10 + length (hdr_bytes code) \<le> length d"
  obtains d' where "tpi_encode_header mp p code = Some (tp_p p + 10 + length (hdr_bytes code),
       p\<lparr>tp_size_at := Some (tp_p p), tp_sync_at := Some (tp_p p + 5 + length (hdr_bytes code)), tp_s := Blk d'\<rparr>)" "length d' = length d"
    "take (tp_p p + 10 + length (hdr_bytes code)) d' = take (tp_p p + 5) d @ hdr_bytes code @ sync_bytes 0"
proof -
  let ?hb = "hdr_bytes code" let ?p0 = "p\<lparr>tp_size_at := Some (tp_p p)\<rparr>"
  obtain d1 where d1: "tp_store ?p0 (tp_p p + 5) ?hb = Some (?p0\<lparr>tp_s := Blk d1\<rparr>)" "length d1 = length d"
    "take (tp_p p + 5 + length ?hb) d1 = take (tp_p p + 5) d @ ?hb" by (rule store_upto [of ?p0 d "tp_p p + 5" ?hb]) (use assms in simp_all)
  let ?h = "tp_p p + 5 + length ?hb"
  let ?p1 = "?p0\<lparr>tp_s := Blk d1, tp_sync_at := Some ?h\<rparr>"
  have l: "?h + length (sync_bytes 0) \<le> length d1" using assms(2) d1(2) sync_bytes_ok(2) by simp
  obtain d2 where d2: "tp_store ?p1 ?h (sync_bytes 0) = Some (?p1\<lparr>tp_s := Blk d2\<rparr>)" "length d2 = length d1"
    "take (?h + length (sync_bytes 0)) d2 = take ?h d1 @ sync_bytes 0" by (rule store_upto [of ?p1 d1 ?h "sync_bytes 0"]) (use l in simp_all)
  have s0: "sync_bytes 0 = 0xce # be_bytes 4 0" by (simp only: sync_bytes_def unat_0)
  have "tpi_encode_header mp p code = Some (?h + 5, ?p1\<lparr>tp_s := Blk d2\<rparr>)"
    using d1(1) d2(1) unfolding tpi_encode_header_def hdr_bytes_def [symmetric] Let_def s0 by simp
  moreover have "take (tp_p p + 10 + length ?hb) d2 = take (tp_p p + 5) d @ ?hb @ sync_bytes 0"
    using d2(3) d1(3) sync_bytes_ok(2) [of 0] by (simp add: ac_simps)
  ultimately show thesis using that [of d2] d1(2) d2(2) by (simp add: ac_simps)
qed

text \<open>Header, body and length prefix: the frame counts \<open>n\<close> bytes, whatever was written of the body.\<close>

lemma fill_frame:
  assumes "tp_s q = Blk d" and n: "n = 10 + length (hdr_bytes c) + sz" and "tp_p q + n \<le> length d"
    and "tp_p q + 10 + length (hdr_bytes c) + length body \<le> length d"
  obtains d3 rest where "Option.bind (tpi_encode_header mp q c) (\<lambda>(h, p). Option.bind (tp_store p h body) (\<lambda>p. tp_add p n))
      = Some (Some (tp_p q), q\<lparr>tp_p := tp_p q + n, tp_size_at := Some (tp_p q), tp_sync_at := Some (tp_p q + 5 + length (hdr_bytes c)), tp_s := Blk d3\<rparr>)"
    "length d3 = length d" "sz \<le> length (body @ rest)"
    "take (tp_p q + n) d3 = take (tp_p q) d @ (0xce # be_bytes 4 (n - 5)) @ hdr_bytes c @ sync_bytes 0 @ take sz (body @ rest)"
proof -
  let ?hb = "hdr_bytes c" let ?h = "tp_p q + 10 + length (hdr_bytes c)"
  have fit: "?h \<le> length d" using assms(3) n by linarith
  obtain d1 where d1: "tpi_encode_header mp q c = Some (?h,
      q\<lparr>tp_size_at := Some (tp_p q), tp_sync_at := Some (tp_p q + 5 + length ?hb), tp_s := Blk d1\<rparr>)" "length d1 = length d"
    "take ?h d1 = take (tp_p q + 5) d @ ?hb @ sync_bytes 0"
    by (rule encode_header_stores [OF assms(1) fit]) (rule that)
  let ?q1 = "q\<lparr>tp_size_at := Some (tp_p q), tp_sync_at := Some (tp_p q + 5 + length ?hb), tp_s := Blk d1\<rparr>"
  obtain d2 where d2: "tp_store ?q1 ?h body = Some (?q1\<lparr>tp_s := Blk d2\<rparr>)" "length d2 = length d1" "take (?h + length body) d2 = take ?h d1 @ body"
    by (rule store_upto [of ?q1 d1 ?h body]) (use assms(4) d1(2) in simp_all)
  let ?q2 = "?q1\<lparr>tp_s := Blk d2\<rparr>"
  define rest where "rest = drop (?h + length body) d2"
  define len5 where "len5 = take 5 (drop (tp_p q) d)"
  have five: "take (tp_p q + 5) d = take (tp_p q) d @ len5" "length len5 = 5" using fit by (simp_all add: len5_def take_add)
  have "d2 = take (?h + length body) d2 @ rest" by (simp only: rest_def append_take_drop_id)
  then have d2': "d2 = (take (tp_p q) d @ len5 @ ?hb @ sync_bytes 0) @ body @ rest" using d2(3) d1(3) five(1) by simp
  have lp: "length (take (tp_p q) d) = tp_p q" using fit by simp
  then have lh: "length (take (tp_p q) d @ len5 @ ?hb @ sync_bytes 0) = ?h" using five(2) sync_bytes_ok(2) [of 0] by simp
  have sz: "sz \<le> length (body @ rest)" using assms(3) n arg_cong [OF d2', of length] d1(2) d2(2) lh by simp
  have "take (?h + sz) d2 = take (tp_p q) d @ len5 @ (?hb @ sync_bytes 0 @ take sz (body @ rest))"
    unfolding lh [symmetric] by (subst d2', subst take_append_len) simp
  then have t: "take (tp_p ?q2 + n) d2 = take (tp_p q) d @ len5 @ (?hb @ sync_bytes 0 @ take sz (body @ rest))" using n by (simp add: ac_simps)
  let ?pay = "?hb @ sync_bytes 0 @ take sz (body @ rest)"
  have lpay: "length ?pay = n - 5" using sz n sync_bytes_ok(2) [of 0] by simp
  obtain d3 where d3: "tp_add ?q2 n = Some (Some (tp_p ?q2), ?q2\<lparr>tp_p := tp_p ?q2 + n, tp_s := Blk d3\<rparr>)" "length d3 = length d2"
    "take (tp_p ?q2 + n) d3 = take (tp_p q) d @ (0xce # be_bytes 4 (length ?pay)) @ ?pay"
    by (rule add_frame [OF _ _ t five(2)]) (use lp assms(3) d1(2) d2(2) in simp_all)
  show thesis by (rule that [of d3 rest]) (use d1 d2 d3 sz lpay in simp_all)
qed

lemma request_steps:
  assumes "tp_rep p fs" and "sz = length body" and "sz + 40 < 2 ^ 31" and "encodes us body"
    and "ensures p (sz + tpi_sizeof_header mp (tp_request_code ty))"
  shows "steps_to p (sz + tpi_sizeof_header mp (tp_request_code ty)) (fs @ [(tp_request_code ty, 0, us)]) (tp_request mp p ty sz body)"
proof -
  let ?c = "tp_request_code ty" let ?hb = "hdr_bytes (tp_request_code ty)"
  define n where "n = sz + tpi_sizeof_header mp ?c"
  have n: "n = 10 + length ?hb + sz" "n < 2 ^ 31" using hdr_bytes_ok(2) [of ?c] hdr_bytes_small [of ?c] assms(3) by (simp_all add: n_def)
  obtain rc q where q: "tp_ensure p n = Some (rc, q)"
    "if rc = -1 then q = p \<and> tp_unused p < n else tp_wf q \<and> moved p q \<and> (0 < n \<longrightarrow> (\<exists>d. tp_s q = Blk d \<and> tp_p q + n \<le> tp_e q))"
    using assms(5) unfolding ensures_def n_def by blast
  show ?thesis
  proof (cases "rc = -1")
    case True
    then show ?thesis using q by (simp add: tp_request_def n_def [symmetric] int_sz_small [OF n(2)] steps_to_def)
  next
    case False
    then obtain d where d: "tp_s q = Blk d" "tp_p q + n \<le> tp_e q" "tp_wf q" "moved p q" using q(2) n(1) by auto
    have e: "tp_e q \<le> length d" using d(1,3) by (simp add: tp_wf_def)
    have fit: "tp_p q + n \<le> length d" "tp_p q + 10 + length ?hb + length body \<le> length d" using d(2) e n(1) assms(2) by linarith+
    obtain d3 rest where f: "Option.bind (tpi_encode_header mp q ?c) (\<lambda>(h, p). Option.bind (tp_store p h body) (\<lambda>p. tp_add p n))
        = Some (Some (tp_p q), q\<lparr>tp_p := tp_p q + n, tp_size_at := Some (tp_p q), tp_sync_at := Some (tp_p q + 5 + length ?hb), tp_s := Blk d3\<rparr>)"
      "length d3 = length d"
      "take (tp_p q + n) d3 = take (tp_p q) d @ (0xce # be_bytes 4 (n - 5)) @ ?hb @ sync_bytes 0 @ take sz (body @ rest)"
      by (rule fill_frame [OF d(1) n(1) fit]) (rule that)
    let ?q3 = "q\<lparr>tp_p := tp_p q + n, tp_size_at := Some (tp_p q), tp_sync_at := Some (tp_p q + 5 + length ?hb), tp_s := Blk d3\<rparr>"
    have pre: "take (tp_p q) d = built p" "length (built p) = tp_p q"
      using moved_built [OF d(4,1)] fit by (auto simp: moved_built [OF d(4,1), symmetric])
    have "n - 5 = length (?hb @ sync_bytes 0 @ body)" using n(1) assms(2) sync_bytes_ok(2) [of 0] by simp
    then have "built ?q3 = built p @ (0xce # be_bytes 4 (length (?hb @ sync_bytes 0 @ body))) @ ?hb @ sync_bytes 0 @ body"
      using f(3) pre(1) assms(2) unfolding built_def [of ?q3] upto_def by simp
    then have "open_frame ?q3 fs (?c, 0, us)"
      unfolding open_frame_def using tp_rep_frames [OF assms(1)] hdr_bytes_ok(1) assms(4) pre
      by (simp only: prod.case) (rule exI [of _ "built p"], rule exI [of _ ?hb], rule exI [of _ body], simp)
    moreover have "tp_wf ?q3" using d(2) e f(2) by (simp add: tp_wf_def)
    ultimately have "tp_rep ?q3 (fs @ [(?c, 0, us)])" by (simp add: tp_rep_def)
    moreover have "tp_request mp p ty sz body = Some (Some (tp_p q), ?q3)"
      using q(1) False f(1) by (simp add: tp_request_def n_def [symmetric] int_sz_small [OF n(2)])
    ultimately show ?thesis using d(4) by (simp add: steps_to_def moved_def tp_used_def n_def [symmetric])
  qed
qed

end

text \<open>A request number is put over the one of the frame.\<close>

lemma reqid_frame:
  assumes "tp_rep p (fs @ [(code, sync, ts)])"
  obtains q where "tp_reqid p y = Some q" "tp_rep q (fs @ [(code, y, ts)])" "tp_reserve q = tp_reserve p" "tp_e q = tp_e p" "tp_p q = tp_p p"
proof -
  obtain pre hb bb where r: "tp_frames fs pre" "tp_size_at p = Some (length pre)" "tp_sync_at p = Some (length pre + 5 + length hb)"
    "encodes (tp_hdr code) hb" "encodes ts bb" and w: "tp_wf p" and
    b: "built p = pre @ (0xce # be_bytes 4 (length (hb @ sync_bytes sync @ bb))) @ hb @ sync_bytes sync @ bb"
    using assms by (auto simp: tp_rep_def open_frame_def)
  define a where "a = pre @ (0xce # be_bytes 4 (length (hb @ sync_bytes sync @ bb))) @ hb"
  have a: "length a = length pre + 5 + length hb" by (simp add: a_def)
  have b': "built p = a @ sync_bytes sync @ bb" by (simp add: b a_def)
  obtain d where d: "tp_s p = Blk d" using b' w sync_bytes_ok(2) [of sync] by (cases "tp_s p") (auto simp: built_def upto_def)
  have t: "take (tp_p p) d = a @ sync_bytes sync @ bb" "tp_p p \<le> length d" using b' d w by (simp_all add: built_def upto_def tp_wf_def)
  then have l: "tp_p p = length a + 5 + length bb" using sync_bytes_ok(2) [of sync] by (auto dest!: arg_cong [where f = length])
  have fit: "length a + length (sync_bytes y) \<le> length d" using l t(2) by (simp add: sync_bytes_ok(2))
  let ?q = "p\<lparr>tp_s := Blk (blit d (length a) (sync_bytes y))\<rparr>"
  have q: "tp_reqid p y = Some ?q" using r(3) d fit a by (simp add: tp_reqid_def tp_store_def sync_bytes_def [symmetric])
  have "take (tp_p p) (blit d (length a) (sync_bytes y)) = a @ sync_bytes y @ bb"
    using l fit t by (subst take_blit) (simp_all add: blit_mid sync_bytes_ok(2))
  then have "built ?q = pre @ (0xce # be_bytes 4 (length (hb @ sync_bytes y @ bb))) @ hb @ sync_bytes y @ bb"
    by (simp add: built_def upto_def a_def sync_bytes_ok(2))
  then have "open_frame ?q fs (code, y, ts)" unfolding open_frame_def
    using r by (simp only: prod.case) (rule exI [of _ pre], rule exI [of _ hb], rule exI [of _ bb], simp)
  moreover have "tp_wf ?q" using w d fit by (simp add: tp_wf_def)
  ultimately have "tp_rep ?q (fs @ [(code, y, ts)])" by (simp add: tp_rep_def)
  with q show thesis by (rule that) simp_all
qed

end
