(* ===== verification/Tnt_Tp_Run.thy ===== *)
theory Tnt_Tp_Run
  imports Tnt_Tp_Spec
begin

text \<open>
  A client of \<^verbatim>\<open>include/tp.h\<close> makes one call after another on a \<open>struct tp\<close>.  The calls that keep the framing are the
  constructors of \<open>tp_cmd\<close>; their meaning on a list of frames is \<open>spec_exec\<close>.  The calls left out are \<open>tp_delete\<close>,
  \<open>tp_auth\<close>, \<open>tp_deauth\<close> and \<open>tp_op_splice\<close>, which do not keep it, and \<open>tp_format\<close>.
\<close>

section \<open>Commands\<close>

datatype tp_cmd = CPing | CSelect u32 u32 u32 tp_iterator_type u32 | CInsert u32 | CReplace u32 | CCall bytes | CEval bytes | CUpdate u32
  | CUpdatebegin u32 | COp byte u32 | CReqid u32
  | CNil | CUint u64 | CInt u64 | CStr bytes | CBin bytes | CArray u32 | CMap u32 | CBool bool | CFloat u32 | CDouble u64

fun exec :: "msgpuck \<Rightarrow> 'va msgpuck_tp \<Rightarrow> tp_cmd \<Rightarrow> tp \<Rightarrow> (nat option \<times> tp) option" where
  "exec mp mx CPing p = tp_ping mp p"
| "exec mp mx (CSelect sp ix off it lim) p = tp_select mp p sp ix off it lim"
| "exec mp mx (CInsert sp) p = tp_insert mp p sp"
| "exec mp mx (CReplace sp) p = tp_replace mp p sp"
| "exec mp mx (CCall f) p = tp_call mp p f"
| "exec mp mx (CEval e) p = tp_eval mp p e"
| "exec mp mx (CUpdate sp) p = tp_update mp p sp"
| "exec mp mx (CUpdatebegin n) p = tp_updatebegin mp p n"
| "exec mp mx (COp c fld) p = tp_op mp p c fld"
| "exec mp mx (CReqid y) p = map_option (\<lambda>q. (Some (tp_p q), q)) (tp_reqid p y)"
| "exec mp mx CNil p = tp_encode_nil mp mx p"
| "exec mp mx (CUint n) p = tp_encode_uint mp p n"
| "exec mp mx (CInt n) p = tp_encode_int mp mx p n"
| "exec mp mx (CStr s) p = tp_encode_str mp p s"
| "exec mp mx (CBin s) p = tp_encode_bin mx p s"
| "exec mp mx (CArray n) p = tp_encode_array mp p n"
| "exec mp mx (CMap n) p = tp_encode_map mp p n"
| "exec mp mx (CBool b) p = tp_encode_bool mp mx p b"
| "exec mp mx (CFloat f) p = tp_encode_float mp mx p f"
| "exec mp mx (CDouble d) p = tp_encode_double mp mx p d"

text \<open>The run stops at the first call that returns null; its result has the calls that are left.\<close>

fun run_cmds :: "msgpuck \<Rightarrow> 'va msgpuck_tp \<Rightarrow> tp_cmd list \<Rightarrow> tp \<Rightarrow> (tp_cmd list \<times> tp) option" where
  "run_cmds mp mx [] p = Some ([], p)"
| "run_cmds mp mx (c # cs) p = (case exec mp mx c p of
      None \<Rightarrow> None
    | Some (None, q) \<Rightarrow> Some (c # cs, q)
    | Some (Some _, q) \<Rightarrow> run_cmds mp mx cs q)"

section \<open>What they mean\<close>

text \<open>The requests with the first tokens of their bodies, and the tokens the other calls append.\<close>

fun starts :: "tp_cmd \<Rightarrow> (tp_request_type \<times> tok list) option" where
  "starts CPing = Some (TP_PING, [TMap 0])"
| "starts (CSelect sp ix off it lim) = Some (TP_SELECT, [TMap 6, TUint TP_SPACE, TUint (ucast sp), TUint TP_INDEX, TUint (ucast ix),
     TUint TP_OFFSET, TUint (ucast off), TUint TP_LIMIT, TUint (ucast lim),
     TUint TP_ITERATOR, TUint (ucast (tp_iterator_code it)), TUint TP_KEY])"
| "starts (CInsert sp) = Some (TP_INSERT, [TMap 2, TUint TP_SPACE, TUint (ucast sp), TUint TP_TUPLE])"
| "starts (CReplace sp) = Some (TP_REPLACE, [TMap 2, TUint TP_SPACE, TUint (ucast sp), TUint TP_TUPLE])"
| "starts (CCall f) = Some (TP_CALL, [TMap 2, TUint TP_FUNCTION, TStr f, TUint TP_TUPLE])"
| "starts (CEval e) = Some (TP_EVAL, [TMap 2, TUint TP_EXPRESSION, TStr e, TUint TP_TUPLE])"
| "starts (CUpdate sp) = Some (TP_UPDATE, [TMap 3, TUint TP_SPACE, TUint (ucast sp), TUint TP_KEY])"
| "starts _ = None"

fun appends :: "tp_cmd \<Rightarrow> tok list" where
  "appends (CUpdatebegin n) = [TUint TP_TUPLE, TArr n]"
| "appends (COp c fld) = [TArr 3, TStr [c], TUint (ucast fld)]"
| "appends CNil = [TNil]"
| "appends (CUint n) = [TUint n]"
| "appends (CInt n) = [TInt n]"
| "appends (CStr s) = [TStr s]"
| "appends (CBin s) = [TBin s]"
| "appends (CArray n) = [TArr n]"
| "appends (CMap n) = [TMap n]"
| "appends (CBool b) = [TBool b]"
| "appends (CFloat f) = [TFlt f]"
| "appends (CDouble d) = [TDbl d]"
| "appends _ = []"

definition spec_exec :: "tp_cmd \<Rightarrow> tp_fr list \<Rightarrow> tp_fr list" where
  "spec_exec c fs = (case starts c of
      Some (ty, us) \<Rightarrow> fs @ [(tp_request_code ty, 0, us)]
    | None \<Rightarrow> (case last fs of (code, sync, ts) \<Rightarrow> (case c of
          CReqid y \<Rightarrow> butlast fs @ [(code, y, ts)]
        | _ \<Rightarrow> butlast fs @ [(code, sync, ts @ appends c)])))"

text \<open>The calls a client may make: values only behind a request, negative numbers only for \<open>tp_encode_int\<close>, and
  strings that a size of type \<open>int\<close> can count.\<close>

fun payload :: "tp_cmd \<Rightarrow> nat" where
  "payload (CCall f) = length f"
| "payload (CEval e) = length e"
| "payload (CStr s) = length s"
| "payload (CBin s) = length s"
| "payload _ = 0"

definition cmd_ok :: "tp_cmd \<Rightarrow> bool" where
  "cmd_ok c \<longleftrightarrow> payload c + 200 < 2 ^ 31 \<and> (case c of CInt n \<Rightarrow> sint n < 0 | _ \<Rightarrow> True)"

fun cmds_ok :: "bool \<Rightarrow> tp_cmd list \<Rightarrow> bool" where
  "cmds_ok started [] = True"
| "cmds_ok started (c # cs) = (cmd_ok c \<and> (started \<or> starts c \<noteq> None) \<and> cmds_ok True cs)"

text \<open>The bytes of a token.\<close>

fun enc_tok :: "msgpuck \<Rightarrow> tok \<Rightarrow> bytes" where
  "enc_tok mp TNil = mp_encode_nil mp"
| "enc_tok mp (TUint n) = mp_encode_uint mp n"
| "enc_tok mp (TInt n) = mp_encode_int mp n"
| "enc_tok mp (TStr s) = mp_encode_str mp s"
| "enc_tok mp (TBin s) = mp_encode_binl mp (of_nat (length s)) @ s"
| "enc_tok mp (TArr c) = mp_encode_array mp c"
| "enc_tok mp (TMap c) = mp_encode_map mp c"
| "enc_tok mp (TBool b) = mp_encode_bool mp b"
| "enc_tok mp (TFlt f) = mp_encode_float mp f"
| "enc_tok mp (TDbl d) = mp_encode_double mp d"
| "enc_tok mp _ = []"

definition enc_toks_of :: "msgpuck \<Rightarrow> tok list \<Rightarrow> bytes" where
  "enc_toks_of mp ts = concat (map (enc_tok mp) ts)"

text \<open>The bytes a call needs in the buffer: those of its tokens and, for a request, of the length prefix and the header.\<close>

definition cmd_need :: "msgpuck \<Rightarrow> tp_cmd \<Rightarrow> nat" where
  "cmd_need mp c = (case starts c of
      Some (ty, us) \<Rightarrow> length (enc_toks_of mp us) + tpi_sizeof_header mp (tp_request_code ty)
    | None \<Rightarrow> length (enc_toks_of mp (appends c)))"

text \<open>The buffers they may use: one of a fixed size, or one that \<open>tp_realloc\<close> grows and that is not smaller than a call
  needs.\<close>

definition grows :: "tp \<Rightarrow> nat \<Rightarrow> bool" where
  "grows p n \<longleftrightarrow> tp_reserve p = None \<or> (\<exists>ra. allocator ra \<and> tp_reserve p = Some (tp_realloc ra) \<and> n \<le> tp_e p)"

lemma grows_ensures: "tp_rep p fs \<Longrightarrow> grows p m \<Longrightarrow> n \<le> m \<Longrightarrow> ensures p n"
  using ensures_static ensures_realloc by (fastforce simp: grows_def tp_rep_def)

section \<open>One command\<close>

fun tok_ok :: "tok \<Rightarrow> bool" where
  "tok_ok (TInt n) = (sint n < 0)"
| "tok_ok (TStr s) = (length s + 200 < 2 ^ 31)"
| "tok_ok (TBin s) = (length s + 200 < 2 ^ 31)"
| "tok_ok (TExt x y) = False"
| "tok_ok _ = True"

fun tok_max :: "tok \<Rightarrow> nat" where
  "tok_max (TStr s) = length s + 5"
| "tok_max (TBin s) = length s + 5"
| "tok_max _ = 9"

context tp_env
begin

lemma start_steps:
  assumes "tp_rep p fs" and "grows p (cmd_need mp c)" and "cmd_ok c"
    and "sz = length body" and "encodes us body" and "length body \<le> payload c + 150"
    and "sz + tpi_sizeof_header mp (tp_request_code ty) = cmd_need mp c"
  shows "steps_to p (cmd_need mp c) (fs @ [(tp_request_code ty, 0, us)]) (tp_request mp p ty sz body)"
proof -
  have n: "sz + tpi_sizeof_header mp (tp_request_code ty) \<le> cmd_need mp c"
    using assms(7) by simp
  show ?thesis by (rule request_steps [OF assms(1,4), of us ty, unfolded assms(7)])
      (use assms grows_ensures [OF assms(1,2) n] in \<open>simp_all add: cmd_ok_def\<close>)
qed

lemma value_steps:
  assumes "tp_rep p fs" and "fs \<noteq> []" and "grows p (cmd_need mp c)" and "cmd_ok c" and "last fs = (code, sync, ts)"
    and "sz = length bs" and "encodes (u # us) bs" and "length bs \<le> payload c + 150" and "sz = cmd_need mp c"
  shows "steps_to p (cmd_need mp c) (butlast fs @ [(code, sync, ts @ u # us)]) (tp_append p sz bs)"
proof -
  have n: "sz \<le> cmd_need mp c" using assms(9) by simp
  have "fs = butlast fs @ [(code, sync, ts)]" using assms(2,5) by (metis append_butlast_last_id)
  then have "tp_rep p (butlast fs @ [(code, sync, ts)])" using assms(1) by simp
  moreover have "0 < sz" using encodes_nonempty [OF assms(7)] assms(6) by simp
  ultimately show ?thesis
    using append_steps [of p "butlast fs" code sync ts sz bs "u # us"] grows_ensures [OF assms(1,3) n] assms(4,6-9) by (simp add: cmd_ok_def)
qed

lemma enc_tok_ok: "tok_ok t \<Longrightarrow> encodes [t] (enc_tok mp t)"
  by (cases t) (simp_all add: enc_toks [simplified] enc_str_toks enc_int enc_binl unat_of_nat_small)

lemma enc_toks_ok: "list_all tok_ok ts \<Longrightarrow> encodes ts (enc_toks_of mp ts)"
  by (induction ts) (simp_all add: enc_toks_of_def encodes_Cons [OF enc_tok_ok])

lemma size_strs: "length s + 200 < 2 ^ 31 \<Longrightarrow> mp_sizeof_str mp (of_nat (length s)) = length (mp_encode_str mp s)"
  by (simp add: enc_str size_str [symmetric] unat_of_nat_small)

lemma size_bins: "length s + 200 < 2 ^ 31 \<Longrightarrow> mp_sizeof_bin mx (of_nat (length s)) = length (mp_encode_bin mx s)"
  by (simp add: enc_bin size_bin unat_of_nat_small)

lemma cmd_toks_ok:
  assumes "cmd_ok c"
  shows "starts c = Some (ty, us) \<Longrightarrow> list_all tok_ok us" and "list_all tok_ok (appends c)"
  using assms by (cases c; auto simp: cmd_ok_def)+

lemmas tp_sizes = size_uint size_map size_array size_nil size_int size_bool size_float size_double

lemmas tp_start_defs = tp_ping_def tp_select_def tp_insert_def tp_replace_def tpi_encode_store_def tp_call_def tp_eval_def tp_update_def

lemmas tp_value_defs = tp_updatebegin_def tp_op_def tp_encode_nil_def tp_encode_uint_def tp_encode_int_def tp_encode_str_def tp_encode_bin_def
  tp_encode_array_def tp_encode_map_def tp_encode_bool_def tp_encode_float_def tp_encode_double_def

lemma eval_key: "mp_sizeof_uint mp TP_FUNCTION = mp_sizeof_uint mp TP_EXPRESSION"
  by (simp add: sizeof_uint TP_FUNCTION_def TP_EXPRESSION_def)

lemma size_char: "length (mp_encode_str mp [c]) = mp_sizeof_str mp 1"
  using size_strs [of "[c]"] by simp

lemma exec_start_eq:
  assumes "starts c = Some (ty, us)" and "cmd_ok c"
  shows "exec mp mx c p = tp_request mp p ty (length (enc_toks_of mp us)) (enc_toks_of mp us)"
  using assms by (cases c) (auto simp: tp_start_defs enc_toks_of_def tp_sizes size_strs cmd_ok_def eval_key ac_simps)

lemma exec_value_eq:
  assumes "starts c = None" and "cmd_ok c" and "\<And>y. c \<noteq> CReqid y"
  shows "exec mp mx c p = tp_append p (length (enc_toks_of mp (appends c))) (enc_toks_of mp (appends c))"
  using assms by (cases c) (auto simp: tp_value_defs enc_toks_of_def tp_sizes size_strs size_bins size_char cmd_ok_def ac_simps enc_bin)

lemma enc_tok_len:
  assumes "tok_ok t"
  shows "length (enc_tok mp t) \<le> tok_max t"
proof (cases t)
  case (TStr x)
  then show ?thesis using sizeof_strl [of "of_nat (length x)"] by (simp add: enc_str)
next
  case (TBin x)
  then show ?thesis using assms sizes(6) [of "of_nat (length x)"] by (simp add: size_bin unat_of_nat_small)
next
  case (TInt n)
  then show ?thesis using sizes(2) [of n] by (simp add: size_int)
qed (use sizes in \<open>simp_all add: size_uint sizeof_uint size_map sizeof_map size_array sizeof_array size_nil size_bool size_float size_double\<close>)

lemma enc_toks_len: "list_all tok_ok ts \<Longrightarrow> length (enc_toks_of mp ts) \<le> sum_list (map tok_max ts)"
  by (induction ts) (simp_all add: enc_toks_of_def add_mono enc_tok_len)

lemma cmd_len: "starts c = Some (ty, us) \<Longrightarrow> sum_list (map tok_max us) \<le> payload c + 150" "sum_list (map tok_max (appends c)) \<le> payload c + 150"
  by (cases c; auto)+

lemma exec_steps:
  assumes "tp_rep p fs" and "grows p (cmd_need mp c)" and "cmd_ok c" and "fs \<noteq> [] \<or> starts c \<noteq> None"
  shows "steps_to p (cmd_need mp c) (spec_exec c fs) (exec mp mx c p)"
proof (cases "starts c")
  case (Some x)
  then obtain ty us where x: "starts c = Some (ty, us)" by (cases x) auto
  have ok: "list_all tok_ok us" using cmd_toks_ok(1) [OF assms(3) x] .
  have "length (enc_toks_of mp us) \<le> payload c + 150" using enc_toks_len [OF ok] cmd_len(1) [OF x] by simp
  then show ?thesis unfolding exec_start_eq [OF x assms(3)]
    using start_steps [OF assms(1-3) refl enc_toks_ok [OF ok]] x by (simp add: spec_exec_def cmd_need_def)
next
  case None
  then have ne: "fs \<noteq> []" using assms(4) by simp
  obtain code sync ts where l: "last fs = (code, sync, ts)" by (cases "last fs") auto
  have ok: "list_all tok_ok (appends c)" using cmd_toks_ok(2) [OF assms(3)] .
  show ?thesis
  proof (cases "\<exists>y. c = CReqid y")
    case True
    then obtain y where y: "c = CReqid y" by blast
    have "fs = butlast fs @ [(code, sync, ts)]" using ne l by (metis append_butlast_last_id)
    then have "tp_rep p (butlast fs @ [(code, sync, ts)])" using assms(1) by simp
    then obtain q where "tp_reqid p y = Some q" "tp_rep q (butlast fs @ [(code, y, ts)])" "tp_reserve q = tp_reserve p" "tp_e q = tp_e p" "tp_p q = tp_p p"
      by (rule reqid_frame)
    then show ?thesis by (simp add: y l steps_to_def spec_exec_def tp_used_def cmd_need_def enc_toks_of_def)
  next
    case False
    then have ex: "exec mp mx c p = tp_append p (length (enc_toks_of mp (appends c))) (enc_toks_of mp (appends c))"
      using exec_value_eq [OF None assms(3)] by blast
    obtain u us where u: "appends c = u # us" using None False by (cases c) auto
    have "length (enc_toks_of mp (appends c)) \<le> payload c + 150" using enc_toks_len [OF ok] cmd_len(2) [of c] by simp
    then have "steps_to p (cmd_need mp c) (butlast fs @ [(code, sync, ts @ u # us)]) (exec mp mx c p)"
      unfolding ex using value_steps [OF assms(1) ne assms(2,3) l refl] enc_toks_ok [OF ok] u None by (simp add: cmd_need_def)
    moreover have "spec_exec c fs = butlast fs @ [(code, sync, ts @ u # us)]" using None False l u by (cases c) (auto simp: spec_exec_def)
    ultimately show ?thesis by simp
  qed
qed

end

section \<open>Sequences of commands\<close>

text \<open>The calls that were made are a prefix of the sequence, and the buffer holds their frames.  The call that stopped the run
  did not find the bytes it needs.\<close>

lemma steps_to_grows: "steps_to p n fs (Some (r, q)) \<Longrightarrow> grows p m \<Longrightarrow> grows q m"
  by (auto simp: steps_to_def grows_def)

lemma run_cmds_rep:
  fixes mx :: "'va msgpuck_tp"
  assumes "tp_env mp mx" and "tp_rep p fs" and "cmds_ok (fs \<noteq> []) cs" and "\<forall>c \<in> set cs. grows p (cmd_need mp c)"
  shows "\<exists>ds rest q. run_cmds mp mx cs p = Some (rest, q) \<and> cs = ds @ rest \<and> tp_rep q (fold spec_exec ds fs)
    \<and> tp_used q = tp_used p + sum_list (map (cmd_need mp) ds) \<and> (tp_reserve p = None \<longrightarrow> tp_size q = tp_size p)
    \<and> (rest \<noteq> [] \<longrightarrow> tp_unused q < cmd_need mp (hd rest))"
  using assms(2-4)
proof (induction cs arbitrary: p fs)
  case (Cons c cs)
  have st: "steps_to p (cmd_need mp c) (spec_exec c fs) (exec mp mx c p)"
    using tp_env.exec_steps [OF assms(1) Cons.prems(1)] Cons.prems(2,3) by auto
  then obtain r q where e: "exec mp mx c p = Some (r, q)" "if r = None then q = p \<and> tp_unused p < cmd_need mp c else tp_rep q (spec_exec c fs) \<and> tp_used q = tp_used p + cmd_need mp c"
      "tp_reserve q = tp_reserve p" "tp_reserve p = None \<longrightarrow> tp_size q = tp_size p"
    unfolding tp_size_def steps_to_def by auto
  show ?case
  proof (cases r)
    case None
    then show ?thesis using e Cons.prems(1) by (intro exI [of _ "[]"] exI [of _ "c # cs"] exI [of _ q]) simp
  next
    case (Some x)
    have g: "\<forall>c' \<in> set cs. grows q (cmd_need mp c')" using steps_to_grows [OF st [unfolded e(1)]] Cons.prems(3) by simp
    have "spec_exec c fs \<noteq> []" by (simp add: spec_exec_def split: option.split prod.split tp_cmd.split)
    then have cs: "cmds_ok (spec_exec c fs \<noteq> []) cs" and rq: "tp_rep q (spec_exec c fs)" using Cons.prems(2) e(2) Some by simp_all
    obtain ds rest q' where "run_cmds mp mx cs q = Some (rest, q')" "cs = ds @ rest" "tp_rep q' (fold spec_exec ds (spec_exec c fs))"
      "tp_used q' = tp_used q + sum_list (map (cmd_need mp) ds)" "tp_reserve q = None \<longrightarrow> tp_size q' = tp_size q"
      "rest \<noteq> [] \<longrightarrow> tp_unused q' < cmd_need mp (hd rest)"
      using Cons.IH [OF rq cs g] by (elim exE conjE) (rule that)
    then show ?thesis using e Some by (intro exI [of _ "c # ds"] exI [of _ rest] exI [of _ q']) simp
  qed
qed simp

lemma tp_init_rep: "(case buf of Blk d \<Rightarrow> n \<le> length d | NULLP \<Rightarrow> n = 0 | Freed \<Rightarrow> False) \<Longrightarrow> tp_rep (tp_init buf n rs) []"
  by (auto simp: tp_rep_def tp_wf_def tp_init_def built_def upto_def split: cptr.splits)

section \<open>Properties\<close>

text \<open>C9. Whatever sequence of ping, select, insert, replace, call, eval and update requests, update operations (but splice), request numbers
  and values a client writes with \<^verbatim>\<open>tp.h\<close>, in a buffer of a fixed size or in one that \<open>tp_realloc\<close> grows and
  that is not smaller than one call needs, no call writes outside the buffer, and the buffer holds exactly the frames of the
  calls made, which take as many bytes as they have: length prefix, header map with request code and number, and the body.  The run stops
  only at a call for which fewer bytes are free than it appends, and that call changes nothing.\<close>

theorem tp_requests_are_frames:
  fixes mx :: "'va msgpuck_tp"
  assumes "tp_env mp mx" and "case buf of Blk d \<Rightarrow> n \<le> length d | NULLP \<Rightarrow> n = 0 | Freed \<Rightarrow> False"
    and "cmds_ok False cs" and "\<forall>c \<in> set cs. grows (tp_init buf n rs) (cmd_need mp c)"
  shows "\<exists>ds rest q. run_cmds mp mx cs (tp_init buf n rs) = Some (rest, q) \<and> cs = ds @ rest
    \<and> tp_frames (fold spec_exec ds []) (built q) \<and> tp_used q \<le> tp_size q
    \<and> tp_used q = sum_list (map (cmd_need mp) ds) \<and> (rs = None \<longrightarrow> tp_size q = n)
    \<and> (rest \<noteq> [] \<longrightarrow> tp_unused q < cmd_need mp (hd rest))"
proof -
  have "cmds_ok ([] \<noteq> ([] :: tp_fr list)) cs" using assms(3) by simp
  from run_cmds_rep [OF assms(1) tp_init_rep [OF assms(2)] this] assms(4)
  obtain ds rest q where "run_cmds mp mx cs (tp_init buf n rs) = Some (rest, q)" "cs = ds @ rest"
    and r: "tp_rep q (fold spec_exec ds [])" and "rest \<noteq> [] \<longrightarrow> tp_unused q < cmd_need mp (hd rest)"
    "tp_used q = tp_used (tp_init buf n rs) + sum_list (map (cmd_need mp) ds)"
    "tp_reserve (tp_init buf n rs) = None \<longrightarrow> tp_size q = tp_size (tp_init buf n rs)" by blast
  moreover have "tp_used q \<le> tp_size q" using r by (simp add: tp_rep_def tp_wf_def tp_used_def tp_size_def)
  ultimately have "run_cmds mp mx cs (tp_init buf n rs) = Some (rest, q) \<and> cs = ds @ rest \<and> tp_frames (fold spec_exec ds []) (built q)
    \<and> tp_used q \<le> tp_size q \<and> tp_used q = sum_list (map (cmd_need mp) ds) \<and> (rs = None \<longrightarrow> tp_size q = n)
    \<and> (rest \<noteq> [] \<longrightarrow> tp_unused q < cmd_need mp (hd rest))"
    using tp_rep_frames [OF r] by (simp add: tp_init_def tp_used_def tp_size_def)
  then show ?thesis by blast
qed

text \<open>A select on space 512 with number 7 and key \<open>[5]\<close> takes 30 bytes; the 15 of the ping behind it do not fit into the 40.\<close>

lemma demo_needs:
  "cmd_need mp_ref (CSelect 512 0 0 TP_ITERATOR_EQ 10) = 28" "cmd_need mp_ref (CReqid 7) = 0"
  "cmd_need mp_ref (CArray 1) = 1" "cmd_need mp_ref (CUint 5) = 1" "cmd_need mp_ref CPing = 15"
  by (simp_all add: cmd_need_def enc_toks_of_def tpi_sizeof_header_def ref_tp.tp_sizes ref.sizeof_map ref.sizeof_array ref.sizeof_uint
      TP_SPACE_def TP_INDEX_def TP_OFFSET_def TP_LIMIT_def TP_ITERATOR_def TP_KEY_def TP_CODE_def TP_SYNC_def)

lemma five_split:
  "[a, b, c, d, e] = ds @ rest \<Longrightarrow> ds = [] \<and> rest = [a, b, c, d, e] \<or> ds = [a] \<and> rest = [b, c, d, e] \<or> ds = [a, b] \<and> rest = [c, d, e]
     \<or> ds = [a, b, c] \<and> rest = [d, e] \<or> ds = [a, b, c, d] \<and> rest = [e] \<or> ds = [a, b, c, d, e] \<and> rest = []"
  by (auto simp: Cons_eq_append_conv)

theorem tp_requests_are_frames_witness:
  "\<exists>q. run_cmds mp_ref mx_ref [CSelect 512 0 0 TP_ITERATOR_EQ 10, CReqid 7, CArray 1, CUint 5, CPing]
       (tp_init (Blk (replicate 40 0)) 40 None) = Some ([CPing], q)
     \<and> tp_frames (fold spec_exec [CSelect 512 0 0 TP_ITERATOR_EQ 10, CReqid 7, CArray 1, CUint 5] []) (built q)
     \<and> tp_used q = 30 \<and> tp_size q = 40"
proof -
  let ?cs = "[CSelect 512 0 0 TP_ITERATOR_EQ 10, CReqid 7, CArray 1, CUint 5, CPing]"
  have buf: "case Blk (replicate 40 0) of Blk d \<Rightarrow> 40 \<le> length d | NULLP \<Rightarrow> 40 = (0 :: nat) | Freed \<Rightarrow> False" by simp
  have ok: "cmds_ok False ?cs" "\<forall>c \<in> set ?cs. grows (tp_init (Blk (replicate 40 0)) 40 None) (cmd_need mp_ref c)"
    by (simp_all add: cmd_ok_def grows_def tp_init_def)
  obtain ds rest q where r: "run_cmds mp_ref mx_ref ?cs (tp_init (Blk (replicate 40 0)) 40 None) = Some (rest, q)" "?cs = ds @ rest"
    "tp_frames (fold spec_exec ds []) (built q)" "tp_used q \<le> tp_size q" "tp_used q = sum_list (map (cmd_need mp_ref) ds)" 
    "(None :: reserve_fn option) = None \<longrightarrow> tp_size q = 40" "rest \<noteq> [] \<longrightarrow> tp_unused q < cmd_need mp_ref (hd rest)"
    using tp_requests_are_frames [OF ref_tp.tp_env_axioms buf ok] by blast
  have u: "tp_unused q = 40 - sum_list (map (cmd_need mp_ref) ds)" using r(5,6) by (simp add: tp_unused_def tp_used_def tp_size_def)
  have "ds = [CSelect 512 0 0 TP_ITERATOR_EQ 10, CReqid 7, CArray 1, CUint 5] \<and> rest = [CPing]"
    using five_split [OF r(2)] r(4-7) u by (elim disjE) (simp_all add: demo_needs)
  then have e: "ds = [CSelect 512 0 0 TP_ITERATOR_EQ 10, CReqid 7, CArray 1, CUint 5]" "rest = [CPing]" by blast+
  have "tp_used q = 30" "tp_size q = 40" using r(5,6) by (simp_all add: e demo_needs)
  then show ?thesis using r(1,3) unfolding e by blast
qed

text \<open>C39. \<open>tp_realloc\<close> doubles a buffer without regard to the bytes in use: when a call needs no more than twice the size of
  the buffer but more than what is left of the doubled one, \<open>tp_ensure\<close> reports success and the call writes past the end.\<close>

theorem tp_realloc_overrun:
  assumes "tp_reserve p = Some (tp_realloc ra)" and "ra (tp_s p) (2 * tp_e p) = Some (Blk d, old)" and "length d = 2 * tp_e p"
    and "length bs \<le> 2 * tp_e p" and "2 * tp_e p < tp_p p + length bs" and "length bs < 2 ^ 31"
    and "tp_p p \<le> tp_e p"
  shows "\<exists>q. tp_ensure p (length bs) = Some (int (2 * tp_e p), q) \<and> tp_unused q < length bs \<and> tp_append p (length bs) bs = None"
proof -
  let ?q = "p\<lparr>tp_s := Blk d, tp_e := 2 * tp_e p\<rparr>"
  have e: "tp_ensure p (length bs) = Some (int (2 * tp_e p), ?q)"
    using assms(1,2,4,5,7) by (simp add: tp_ensure_def tp_unused_def tp_realloc_def tp_size_def mult.commute)
  have "tp_append p (length bs) bs = None"
    using e assms(3,5,6) by (simp add: tp_append_def int_sz_small tp_store_def)
  with e show ?thesis using assms(5,7) by (simp add: tp_unused_def)
qed

text \<open>A 64-byte buffer with 60 bytes in use gets 128 for a value of 70 bytes.\<close>

definition demo_tp :: tp where
  "demo_tp = \<lparr>tp_s = Blk (replicate 64 0), tp_p = 60, tp_e = 64, tp_size_at = Some 0, tp_sync_at = Some 9,
     tp_reserve = Some (tp_realloc (custom_realloc os_ok))\<rparr>"

theorem tp_realloc_overrun_witness:
  "\<exists>q. tp_ensure demo_tp 70 = Some (128, q) \<and> tp_unused q < 70 \<and> tp_append demo_tp 70 (replicate 70 1) = None"
proof -
  have "custom_realloc os_ok (tp_s demo_tp) 128 = Some (Blk (replicate 128 0), Freed)" by code_simp
  then show ?thesis
    using tp_realloc_overrun [of demo_tp "custom_realloc os_ok" "replicate 128 0" Freed "replicate 70 1"] by (simp add: demo_tp_def)
qed

section \<open>The calls that break the framing\<close>

lemma encode_header_size_at: "tpi_encode_header mp (p\<lparr>tp_size_at := x\<rparr>) c = tpi_encode_header mp p c"
  by (simp add: tpi_encode_header_def)

context msgpuck_laws
begin

text \<open>A request in a buffer with room for it and for what is written of its body.\<close>

lemma request_room:
  assumes "tp_wf p" and "tp_s p = Blk d" and "tp_p p + 40 + sz \<le> tp_e p" and "tp_p p + 40 + length body \<le> tp_e p" and "sz + 40 < 2 ^ 31"
  obtains q rest pay where "tp_request mp p ty sz body = Some (Some (tp_p p), q)" "built q = built p @ (0xce # be_bytes 4 (length pay)) @ pay"
    "reads (tp_hdr (tp_request_code ty) @ [TUint 0]) pay = Some (take sz (body @ rest))" "sz \<le> length (body @ rest)"
proof -
  let ?c = "tp_request_code ty" let ?hb = "hdr_bytes (tp_request_code ty)"
  define n where "n = sz + tpi_sizeof_header mp ?c"
  have n: "n = 10 + length ?hb + sz" "n \<le> 40 + sz" "n < 2 ^ 31"
    using hdr_bytes_ok(2) [of ?c] hdr_bytes_small [of ?c] assms(5) by (simp_all add: n_def)
  have e: "tp_e p \<le> length d" using assms(1,2) by (simp add: tp_wf_def)
  have fit: "tp_p p + n \<le> length d" "tp_p p + 10 + length ?hb + length body \<le> length d"
    using assms(3,4) n(2) e hdr_bytes_small [of ?c] by linarith+
  obtain d3 rest where f: "Option.bind (tpi_encode_header mp p ?c) (\<lambda>(h, p). Option.bind (tp_store p h body) (\<lambda>p. tp_add p n))
      = Some (Some (tp_p p), p\<lparr>tp_p := tp_p p + n, tp_size_at := Some (tp_p p), tp_sync_at := Some (tp_p p + 5 + length ?hb), tp_s := Blk d3\<rparr>)"
    "length d3 = length d" "sz \<le> length (body @ rest)"
    "take (tp_p p + n) d3 = take (tp_p p) d @ (0xce # be_bytes 4 (n - 5)) @ ?hb @ sync_bytes 0 @ take sz (body @ rest)"
    by (rule fill_frame [OF assms(2) n(1) fit]) (rule that)
  let ?q = "p\<lparr>tp_p := tp_p p + n, tp_size_at := Some (tp_p p), tp_sync_at := Some (tp_p p + 5 + length ?hb), tp_s := Blk d3\<rparr>"
  let ?pay = "?hb @ sync_bytes 0 @ take sz (body @ rest)"
  have "n \<le> tp_unused p" using assms(3) n(2) by (simp add: tp_unused_def)
  then have "tp_request mp p ty sz body = Some (Some (tp_p p), ?q)"
    using f(1) by (simp add: tp_request_def n_def [symmetric] int_sz_small [OF n(3)] tp_ensure_def)
  moreover have "n - 5 = length ?pay" using n(1) f(3) sync_bytes_ok(2) [of 0] by simp
  then have "built ?q = built p @ (0xce # be_bytes 4 (length ?pay)) @ ?pay"
    using f(4) assms(2) by (simp add: built_def upto_def)
  moreover have "encodes (tp_hdr ?c @ [TUint (ucast (0 :: u32))]) (?hb @ sync_bytes 0)" using hdr_bytes_ok(1) sync_bytes_ok(1) by (rule encodes_append)
  then have "reads (tp_hdr ?c @ [TUint 0]) ?pay = Some (take sz (body @ rest))" using encodes_reads by fastforce
  ultimately show thesis using f(3) by (rule that)
qed

lemma delete_frame:
  assumes "tp_wf p" and "tp_s p = Blk d" and "tp_p p + 60 \<le> tp_e p"
  shows "\<exists>q pay rest x. tp_delete mp p space = Some (Some (tp_p p), q) \<and> built q = built p @ (0xce # be_bytes 4 (length pay)) @ pay
     \<and> reads (tp_hdr (tp_request_code TP_DELETE) @ [TUint 0]) pay = Some rest
     \<and> reads [TUint TP_SPACE, TUint (ucast space), TUint TP_KEY] rest = Some [x]"
proof -
  let ?b = "mp_encode_uint mp TP_SPACE @ mp_encode_uint mp (ucast space) @ mp_encode_uint mp TP_KEY"
  let ?sz = "mp_sizeof_map mp 2 + mp_sizeof_uint mp TP_SPACE + mp_sizeof_uint mp (ucast space) + mp_sizeof_uint mp TP_KEY"
  have one: "mp_sizeof_map mp 2 = 1" "mp_sizeof_uint mp TP_SPACE = 1" "mp_sizeof_uint mp TP_KEY = 1" "mp_sizeof_uint mp (ucast space) \<le> 9"
    by (simp_all add: sizeof_map sizeof_uint TP_SPACE_def TP_KEY_def)
  have sz: "?sz = length ?b + 1" "?sz \<le> 12" using one by (simp_all add: size_uint)
  obtain q rest pay where q: "tp_request mp p TP_DELETE ?sz ?b = Some (Some (tp_p p), q)"
    "built q = built p @ (0xce # be_bytes 4 (length pay)) @ pay"
    "reads (tp_hdr (tp_request_code TP_DELETE) @ [TUint 0]) pay = Some (take ?sz (?b @ rest))" "?sz \<le> length (?b @ rest)"
    by (rule request_room [OF assms(1,2), of ?sz ?b TP_DELETE]) (use assms(3) sz in simp_all)
  obtain x rest' where x: "rest = x # rest'" using q(4) sz(1) by (cases rest) auto
  have t: "take ?sz (?b @ rest) = ?b @ [x]" unfolding sz(1) by (simp add: x)
  have "encodes ([TUint TP_SPACE] @ [TUint (ucast space)] @ [TUint TP_KEY]) ?b" by (intro encodes_append enc_uint)
  then have "reads [TUint TP_SPACE, TUint (ucast space), TUint TP_KEY] (?b @ [x]) = Some [x]" using encodes_reads by fastforce
  then show ?thesis using q(1-3) unfolding t tp_delete_def by blast
qed

lemma deauth_frame:
  assumes "tp_wf p" and "tp_s p = Blk d" and "tp_p p + 80 \<le> tp_e p"
  shows "\<exists>q pay. tp_deauth mp p = Some (Some (tp_p p), q) \<and> built q = built p @ (0xce # be_bytes 4 (length pay)) @ pay
     \<and> reads (tp_hdr (tp_request_code TP_AUTH) @ [TUint 0]) pay = Some (mp_encode_map mp 2)"
proof -
  let ?b = "mp_encode_map mp 2 @ mp_encode_uint mp TP_USERNAME @ mp_encode_str mp guest_name @ mp_encode_uint mp TP_TUPLE @ mp_encode_array mp 0"
  have one: "mp_sizeof_array mp 0 = 1" "length (mp_encode_map mp 2) = 1"
    by (simp_all add: sizeof_map sizeof_array size_map)
  have "length (mp_encode_str mp guest_name) \<le> 10" using sizeof_strl [of 5] by (simp add: enc_str guest_name_def)
  then have l: "length ?b \<le> 34" by (simp add: size_uint size_map size_array sizeof_map sizeof_array sizeof_uint)
  obtain q rest pay where q: "tp_request mp p TP_AUTH (mp_sizeof_array mp 0) ?b = Some (Some (tp_p p), q)"
    "built q = built p @ (0xce # be_bytes 4 (length pay)) @ pay"
    "reads (tp_hdr (tp_request_code TP_AUTH) @ [TUint 0]) pay = Some (take (mp_sizeof_array mp 0) (?b @ rest))"
    by (rule request_room [OF assms(1,2), of "mp_sizeof_array mp 0" ?b TP_AUTH]) (use assms(3) l one in simp_all)
  have "tp_deauth mp p = tp_request mp p TP_AUTH (mp_sizeof_array mp 0) ?b"
    unfolding tp_deauth_def tp_request_def Let_def encode_header_size_at by (rule refl)
  moreover have "take (mp_sizeof_array mp 0) (?b @ rest) = mp_encode_map mp 2" using one by simp
  ultimately show ?thesis using q by metis
qed

end

text \<open>C40. \<open>tp_delete\<close> reserves and counts a map header for its body but does not write one: the body of the frame starts with the
  key of the space where the protocol has a map, and ends with one byte that happened to be in the buffer.\<close>

theorem tp_delete_lacks_map:
  assumes "msgpuck_laws mp" and "tp_wf p" and "tp_s p = Blk d" and "tp_p p + 60 \<le> tp_e p"
  shows "\<exists>q pay rest x. tp_delete mp p space = Some (Some (tp_p p), q) \<and> built q = built p @ (0xce # be_bytes 4 (length pay)) @ pay
     \<and> reads (tp_hdr (tp_request_code TP_DELETE) @ [TUint 0]) pay = Some rest
     \<and> reads [TUint TP_SPACE, TUint (ucast space), TUint TP_KEY] rest = Some [x]"
  using assms by (rule msgpuck_laws.delete_frame)

theorem tp_delete_lacks_map_witness:
  "\<exists>q pay rest x. tp_delete mp_ref (tp_init (Blk (replicate 64 0)) 64 None) 512 = Some (Some 0, q) \<and> built q = (0xce # be_bytes 4 (length pay)) @ pay
     \<and> reads (tp_hdr 5 @ [TUint 0]) pay = Some rest
     \<and> reads [TUint TP_SPACE, TUint 512, TUint TP_KEY] rest = Some [x]"
  using tp_delete_lacks_map [OF ref.msgpuck_laws_axioms, of "tp_init (Blk (replicate 64 0)) 64 None" "replicate 64 0" 512]
  by (simp add: tp_init_def tp_wf_def built_def [of "\<lparr>tp_s = _, tp_p = 0, tp_e = _, tp_size_at = _, tp_sync_at = _, tp_reserve = _\<rparr>"] upto_def)

text \<open>\<open>tp_deauth\<close> counts one byte of its body: the frame ends behind the map header, with the two pairs missing.\<close>

theorem tp_deauth_truncated:
  assumes "msgpuck_laws mp" and "tp_wf p" and "tp_s p = Blk d" and "tp_p p + 80 \<le> tp_e p"
  shows "\<exists>q pay. tp_deauth mp p = Some (Some (tp_p p), q) \<and> built q = built p @ (0xce # be_bytes 4 (length pay)) @ pay
     \<and> reads (tp_hdr (tp_request_code TP_AUTH) @ [TUint 0]) pay = Some (mp_encode_map mp 2)"
  using assms by (rule msgpuck_laws.deauth_frame)

text \<open>The scramble of \<^verbatim>\<open>tp.h\<close> is the one of \<^verbatim>\<open>tnt_auth.c\<close>.\<close>

lemma scramble_same: "tpi_scramble_prepare = tnt_scramble_prepare"
  by (intro ext) (simp add: tpi_scramble_prepare_def tnt_scramble_prepare_def tpi_xor_def tnt_xor_def SCRAMBLE_SIZE_def TNT_SCRAMBLE_SIZE_def Let_def)

end
