(* ===== verification/Tnt_Tp_Reply.thy ===== *)
theory Tnt_Tp_Reply
  imports Tnt_Tp Tnt_Iter
begin

unbundle bit_operations_syntax

text \<open>
  The reply reader of \<^verbatim>\<open>include/tp.h\<close>: \<open>tp_reply\<close> takes a reply apart in place, \<open>tp_next\<close> and \<open>tp_nextfield\<close> go over its
  tuples and their fields.  A pointer into the buffer is the list of bytes from there to the end of the buffer, the difference of
  two pointers the difference of their lengths; \<open>None\<close> is a null pointer.  \<open>cur_index\<close> is an \<open>int\<close>, incrementing it past
  \<open>INT_MAX\<close> is undefined, as are reading behind the buffer, calling a decoder of msgpuck on another type and shifting by a key of
  64 or more.
\<close>

section \<open>Iterators\<close>

record tp_array_itr =
  ta_data :: "bytes option"
  ta_first_elem :: "bytes option"
  ta_elem :: "bytes option"
  ta_elem_end :: "bytes option"
  ta_elem_count :: u32
  ta_cur_index :: int

record tp_map_itr =
  tm_data :: "bytes option"
  tm_first_key :: "bytes option"
  tm_key :: "bytes option"
  tm_key_end :: "bytes option"
  tm_value :: "bytes option"
  tm_value_end :: "bytes option"
  tm_pair_count :: u32
  tm_cur_index :: int

text \<open>The result of \<open>memset\<close>.\<close>

definition zero_array_itr :: tp_array_itr where
  "zero_array_itr = \<lparr>ta_data = None, ta_first_elem = None, ta_elem = None, ta_elem_end = None, ta_elem_count = 0, ta_cur_index = 0\<rparr>"

definition zero_map_itr :: tp_map_itr where
  "zero_map_itr = \<lparr>tm_data = None, tm_first_key = None, tm_key = None, tm_key_end = None, tm_value = None, tm_value_end = None,
     tm_pair_count = 0, tm_cur_index = 0\<rparr>"

text \<open>\<open>mp_check\<close> on the \<open>n\<close> bytes at a pointer.\<close>

definition check_n :: "msgpuck \<Rightarrow> bytes \<Rightarrow> nat \<Rightarrow> bool option" where
  "check_n mp data n = (if n \<le> length data then Some (mp_check mp (take n data) \<noteq> None) else None)"

definition tp_array_itr_init :: "msgpuck \<Rightarrow> bytes \<Rightarrow> nat \<Rightarrow> (int \<times> tp_array_itr) option" where
  "tp_array_itr_init mp data n =
     (if n = 0 then Some (-1, zero_array_itr)
      else do {
        ty \<leftarrow> peek mp data;
        if ty \<noteq> MP_ARRAY then Some (-1, zero_array_itr)
        else do {
          ok \<leftarrow> check_n mp data n;
          if \<not> ok then Some (-1, zero_array_itr)
          else do {
            (cnt, first) \<leftarrow> mp_decode_array mp data;
            Some (0, zero_array_itr\<lparr>ta_data := Some data, ta_first_elem := Some first, ta_elem_count := cnt, ta_cur_index := -1\<rparr>) } } })"

definition tp_array_itr_next :: "msgpuck \<Rightarrow> tp_array_itr \<Rightarrow> (bool \<times> tp_array_itr) option" where
  "tp_array_itr_next mp itr =
     (if ta_cur_index itr = INT_MAX then None
      else do {
        let itr = itr\<lparr>ta_cur_index := ta_cur_index itr + 1\<rparr>;
        if (of_int (ta_cur_index itr) :: u32) \<ge> ta_elem_count itr then Some (False, itr)
        else do {
          let itr = itr\<lparr>ta_elem := if ta_cur_index itr = 0 then ta_first_elem itr else ta_elem_end itr\<rparr>;
          p \<leftarrow> ta_elem itr;
          q \<leftarrow> mp_next mp p;
          Some (True, itr\<lparr>ta_elem_end := Some q\<rparr>) } })"

definition tp_array_itr_reset :: "tp_array_itr \<Rightarrow> tp_array_itr" where
  "tp_array_itr_reset itr = itr\<lparr>ta_cur_index := -1, ta_elem := None, ta_elem_end := None\<rparr>"

definition tp_map_itr_init :: "msgpuck \<Rightarrow> bytes \<Rightarrow> nat \<Rightarrow> (int \<times> tp_map_itr) option" where
  "tp_map_itr_init mp data n =
     (if n = 0 then Some (-1, zero_map_itr)
      else do {
        ty \<leftarrow> peek mp data;
        if ty \<noteq> MP_MAP then Some (-1, zero_map_itr)
        else do {
          ok \<leftarrow> check_n mp data n;
          if \<not> ok then Some (-1, zero_map_itr)
          else do {
            (cnt, first) \<leftarrow> mp_decode_map mp data;
            Some (0, zero_map_itr\<lparr>tm_data := Some data, tm_first_key := Some first, tm_pair_count := cnt, tm_cur_index := -1\<rparr>) } } })"

definition tp_map_itr_next :: "msgpuck \<Rightarrow> tp_map_itr \<Rightarrow> (bool \<times> tp_map_itr) option" where
  "tp_map_itr_next mp itr =
     (if tm_cur_index itr = INT_MAX then None
      else do {
        let itr = itr\<lparr>tm_cur_index := tm_cur_index itr + 1\<rparr>;
        if (of_int (tm_cur_index itr) :: u32) \<ge> tm_pair_count itr then Some (False, itr)
        else do {
          let itr = itr\<lparr>tm_key := if tm_cur_index itr = 0 then tm_first_key itr else tm_value_end itr\<rparr>;
          p \<leftarrow> tm_key itr;
          q \<leftarrow> mp_next mp p;
          let itr = itr\<lparr>tm_key_end := Some q, tm_value := Some q\<rparr>;
          r \<leftarrow> mp_next mp q;
          Some (True, itr\<lparr>tm_value_end := Some r\<rparr>) } })"

definition tp_map_itr_reset :: "tp_map_itr \<Rightarrow> tp_map_itr" where
  "tp_map_itr_reset itr = itr\<lparr>tm_cur_index := -1, tm_key := None, tm_key_end := None, tm_value := None, tm_value_end := None\<rparr>"

section \<open>Replies\<close>

record tpresponse =
  tr_bitmap :: u64
  tr_buf :: "bytes option"
  tr_code :: u32
  tr_sync :: u64
  tr_error :: "bytes option"
  tr_error_end :: "bytes option"
  tr_data :: "bytes option"
  tr_data_end :: "bytes option"
  tr_tuple_itr :: tp_array_itr
  tr_field_itr :: tp_array_itr

definition zero_tpresponse :: tpresponse where
  "zero_tpresponse = \<lparr>tr_bitmap = 0, tr_buf = None, tr_code = 0, tr_sync = 0, tr_error = None, tr_error_end = None,
     tr_data = None, tr_data_end = None, tr_tuple_itr = zero_array_itr, tr_field_itr = zero_array_itr\<rparr>"

text \<open>The loops over the two maps: the pointer behind the map, or \<open>None\<close> for \<open>return -1\<close>, with what was stored so far.\<close>

fun tp_hdr_loop :: "msgpuck \<Rightarrow> nat \<Rightarrow> bytes \<Rightarrow> tpresponse \<Rightarrow> (bytes option \<times> tpresponse) option" where
  "tp_hdr_loop mp 0 p r = Some (Some p, r)"
| "tp_hdr_loop mp (Suc n) p r = do {
     ty \<leftarrow> peek mp p;
     if ty \<noteq> MP_UINT then Some (None, r)
     else do {
       (key64, p) \<leftarrow> mp_decode_uint mp p;
       let key = (ucast key64 :: u32);
       ty \<leftarrow> peek mp p;
       if ty \<noteq> MP_UINT then Some (None, r)
       else do {
         (r, p) \<leftarrow> (if ucast key = TP_SYNC then map_option (\<lambda>(v, p). (r\<lparr>tr_sync := v\<rparr>, p)) (mp_decode_uint mp p)
            else if ucast key = TP_CODE then map_option (\<lambda>(v, p). (r\<lparr>tr_code := ucast v\<rparr>, p)) (mp_decode_uint mp p)
            else map_option (\<lambda>p. (r, p)) (mp_next mp p));
         bit \<leftarrow> key_bit key;
         tp_hdr_loop mp n p (r\<lparr>tr_bitmap := tr_bitmap r OR bit\<rparr>) } } }"

definition tp_body_entry :: "msgpuck \<Rightarrow> u32 \<Rightarrow> bytes \<Rightarrow> tpresponse \<Rightarrow> (bytes option \<times> tpresponse) option" where
  "tp_body_entry mp key p r =
     (if ucast key = TP_ERROR then do {
        ty \<leftarrow> peek mp p;
        if ty \<noteq> MP_STR then Some (None, r)
        else do {
          ((str, elen), q) \<leftarrow> mp_decode_str mp p;
          if unat elen \<le> length str then Some (Some q, r\<lparr>tr_error := Some str, tr_error_end := Some (drop (unat elen) str)\<rparr>) else None } }
      else if ucast key = TP_DATA then do {
        ty \<leftarrow> peek mp p;
        if ty \<noteq> MP_ARRAY then Some (None, r)
        else do { q \<leftarrow> mp_next mp p; Some (Some q, r\<lparr>tr_data := Some p, tr_data_end := Some q\<rparr>) } }
      else do { q \<leftarrow> mp_next mp p; Some (Some q, r) })"

fun tp_body_loop :: "msgpuck \<Rightarrow> nat \<Rightarrow> bytes \<Rightarrow> tpresponse \<Rightarrow> (bytes option \<times> tpresponse) option" where
  "tp_body_loop mp 0 p r = Some (Some p, r)"
| "tp_body_loop mp (Suc n) p r = do {
     (key64, p) \<leftarrow> mp_decode_uint mp p;
     let key = (ucast key64 :: u32);
     (p, r) \<leftarrow> tp_body_entry mp key p r;
     (case p of
        None \<Rightarrow> Some (None, r)
      | Some p \<Rightarrow> do {
          bit \<leftarrow> key_bit key;
          tp_body_loop mp n p (r\<lparr>tr_bitmap := tr_bitmap r OR bit\<rparr>) }) }"

text \<open>The body and the iterator over its tuples; \<open>sz\<close> is the size of the whole buffer.\<close>

definition tp_reply_body :: "msgpuck \<Rightarrow> nat \<Rightarrow> bytes \<Rightarrow> tpresponse \<Rightarrow> (int \<times> tpresponse) option" where
  "tp_reply_body mp sz p r = (case mp_check mp p of
      None \<Rightarrow> Some (-1, r)
    | Some _ \<Rightarrow> do {
        ty \<leftarrow> peek mp p;
        if ty \<noteq> MP_MAP then Some (-1, r)
        else do {
          (n, p) \<leftarrow> mp_decode_map mp p;
          (p, r) \<leftarrow> tp_body_loop mp (unat n) p r;
          (case p of
             None \<Rightarrow> Some (-1, r)
           | Some p \<Rightarrow> (case tr_data r of
                None \<Rightarrow> Some (int (sz - length p), r)
              | Some d \<Rightarrow> do {
                  e \<leftarrow> tr_data_end r;
                  (rc, itr) \<leftarrow> tp_array_itr_init mp d (length d - length e);
                  let r = r\<lparr>tr_tuple_itr := itr\<rparr>;
                  if rc \<noteq> 0 then Some (-1, r) else Some (int (sz - length p), r) })) } })"

text \<open>The header; \<open>len + 5\<close> and the sum in the test for a partial reply are 32-bit sums.\<close>

definition tp_reply :: "msgpuck \<Rightarrow> bytes \<Rightarrow> (int \<times> tpresponse) option" where
  "tp_reply mp buf = (let r = zero_tpresponse in
     if buf = [] then Some (0, r)
     else (case mp_check mp buf of
        None \<Rightarrow> Some (-1, r)
      | Some _ \<Rightarrow> do {
          ty \<leftarrow> peek mp buf;
          if ty \<noteq> MP_UINT then Some (-1, r)
          else do {
            (len64, p) \<leftarrow> mp_decode_uint mp buf;
            let len = (ucast len64 :: u32);
            if length buf < unat (len + of_nat (length buf - length p)) then Some (0, r)
            else (case mp_check mp p of
               None \<Rightarrow> Some (-1, r)
             | Some _ \<Rightarrow> do {
                 ty \<leftarrow> peek mp p;
                 if ty \<noteq> MP_MAP then Some (-1, r)
                 else do {
                   (n, p) \<leftarrow> mp_decode_map mp p;
                   (p, r) \<leftarrow> tp_hdr_loop mp (unat n) p r;
                   (case p of
                      None \<Rightarrow> Some (-1, r)
                    | Some p \<Rightarrow>
                        if length buf - length p = unat len + 5 then Some (int (unat (len + 5)), r)
                        else tp_reply_body mp (length buf) p r) } }) } }))"

definition tp_getreqid :: "tpresponse \<Rightarrow> u32" where
  "tp_getreqid r = ucast (tr_sync r)"

definition tp_hasdata :: "tpresponse \<Rightarrow> bool" where
  "tp_hasdata r = (ta_elem_count (tr_tuple_itr r) > 0)"

definition tp_tuplecount :: "tpresponse \<Rightarrow> u32" where
  "tp_tuplecount r = ta_elem_count (tr_tuple_itr r)"

definition tp_rewind :: "tpresponse \<Rightarrow> tpresponse" where
  "tp_rewind r = r\<lparr>tr_tuple_itr := tp_array_itr_reset (tr_tuple_itr r), tr_field_itr := zero_array_itr\<rparr>"

text \<open>A tuple that is not an array leaves an empty field iterator; the result of \<open>tp_array_itr_init\<close> is not looked at.\<close>

definition tp_next :: "msgpuck \<Rightarrow> tpresponse \<Rightarrow> (int \<times> tpresponse) option" where
  "tp_next mp r = do {
     (got, itr) \<leftarrow> tp_array_itr_next mp (tr_tuple_itr r);
     let r = r\<lparr>tr_tuple_itr := itr\<rparr>;
     if \<not> got then Some (0, r\<lparr>tr_field_itr := zero_array_itr\<rparr>)
     else do {
       e \<leftarrow> ta_elem itr;
       q \<leftarrow> ta_elem_end itr;
       (_, fitr) \<leftarrow> tp_array_itr_init mp e (length e - length q);
       Some (1, r\<lparr>tr_field_itr := fitr\<rparr>) } }"

definition tp_hasnext :: "tpresponse \<Rightarrow> bool option" where
  "tp_hasnext r = (if ta_cur_index (tr_tuple_itr r) = INT_MAX then None
     else Some ((of_int (ta_cur_index (tr_tuple_itr r) + 1) :: u32) < ta_elem_count (tr_tuple_itr r)))"

definition tp_gettuple :: "tpresponse \<Rightarrow> bytes option" where
  "tp_gettuple r = ta_elem (tr_tuple_itr r)"

text \<open>The difference of two pointers, both null before the first tuple.\<close>

definition ptr_diff :: "bytes option \<Rightarrow> bytes option \<Rightarrow> nat option" where
  "ptr_diff b a = (case (a, b) of
      (Some p, Some q) \<Rightarrow> Some (length p - length q)
    | (None, None) \<Rightarrow> Some 0
    | _ \<Rightarrow> None)"

definition tp_tuplesize :: "tpresponse \<Rightarrow> u32 option" where
  "tp_tuplesize r = map_option of_nat (ptr_diff (ta_elem_end (tr_tuple_itr r)) (ta_elem (tr_tuple_itr r)))"

definition tp_tupleend :: "tpresponse \<Rightarrow> bytes option" where
  "tp_tupleend r = ta_elem_end (tr_tuple_itr r)"

definition tp_rewindfield :: "tpresponse \<Rightarrow> tpresponse" where
  "tp_rewindfield r = r\<lparr>tr_field_itr := tp_array_itr_reset (tr_field_itr r)\<rparr>"

definition tp_nextfield :: "msgpuck \<Rightarrow> tpresponse \<Rightarrow> (int \<times> tpresponse) option" where
  "tp_nextfield mp r = map_option (\<lambda>(got, itr). (if got then 1 else 0, r\<lparr>tr_field_itr := itr\<rparr>)) (tp_array_itr_next mp (tr_field_itr r))"

definition tp_hasnextfield :: "tpresponse \<Rightarrow> bool option" where
  "tp_hasnextfield r = (if ta_cur_index (tr_field_itr r) = INT_MAX then None
     else Some ((of_int (ta_cur_index (tr_field_itr r) + 1) :: u32) < ta_elem_count (tr_field_itr r)))"

definition tp_getfield :: "tpresponse \<Rightarrow> bytes option" where
  "tp_getfield r = ta_elem (tr_field_itr r)"

definition tp_getfieldsize :: "tpresponse \<Rightarrow> u32 option" where
  "tp_getfieldsize r = map_option of_nat (ptr_diff (ta_elem_end (tr_field_itr r)) (ta_elem (tr_field_itr r)))"

section \<open>Values\<close>

text \<open>The cast of \<open>tp_typeof\<close>: the enumerators of the two types in order.\<close>

fun tp_type_of_mp :: "mp_type \<Rightarrow> tp_type" where
  "tp_type_of_mp MP_NIL = TP_NIL"
| "tp_type_of_mp MP_UINT = TP_UINT"
| "tp_type_of_mp MP_INT = TP_INT"
| "tp_type_of_mp MP_STR = TP_STR"
| "tp_type_of_mp MP_BIN = TP_BIN"
| "tp_type_of_mp MP_ARRAY = TP_ARRAY"
| "tp_type_of_mp MP_MAP = TP_MAP"
| "tp_type_of_mp MP_BOOL = TP_BOOL"
| "tp_type_of_mp MP_FLOAT = TP_FLOAT"
| "tp_type_of_mp MP_DOUBLE = TP_DOUBLE"
| "tp_type_of_mp MP_EXT = TP_EXT"

definition tp_typeof :: "msgpuck \<Rightarrow> byte \<Rightarrow> tp_type" where
  "tp_typeof mp c = tp_type_of_mp (mp_typeof mp c)"

definition tp_get_uint :: "msgpuck \<Rightarrow> bytes \<Rightarrow> u64 option" where
  "tp_get_uint mp fld = map_option fst (mp_decode_uint mp fld)"

definition tp_get_int :: "'va msgpuck_tp \<Rightarrow> bytes \<Rightarrow> u64 option" where
  "tp_get_int mx fld = map_option fst (mp_decode_int mx fld)"

definition tp_get_float :: "'va msgpuck_tp \<Rightarrow> bytes \<Rightarrow> u32 option" where
  "tp_get_float mx fld = map_option fst (mp_decode_float mx fld)"

definition tp_get_double :: "'va msgpuck_tp \<Rightarrow> bytes \<Rightarrow> u64 option" where
  "tp_get_double mx fld = map_option fst (mp_decode_double mx fld)"

definition tp_get_bool :: "'va msgpuck_tp \<Rightarrow> bytes \<Rightarrow> bool option" where
  "tp_get_bool mx fld = map_option fst (mp_decode_bool mx fld)"

text \<open>The string with what follows it, and its length.\<close>

definition tp_get_str :: "msgpuck \<Rightarrow> bytes \<Rightarrow> (bytes \<times> u32) option" where
  "tp_get_str mp fld = map_option fst (mp_decode_str mp fld)"

definition tp_get_bin :: "'va msgpuck_tp \<Rightarrow> bytes \<Rightarrow> (bytes \<times> u32) option" where
  "tp_get_bin mx fld = map_option fst (mp_decode_bin mx fld)"

end
