(* ===== verification/Tnt_Tp_Reply_Spec.thy ===== *)
theory Tnt_Tp_Reply_Spec
  imports Tnt_Tp_Reply Tnt_Tp_Spec
begin

text \<open>
  What the reply reader of \<^verbatim>\<open>include/tp.h\<close> promises: a reply frame is taken apart into the header values, the error and the data,
  whatever follows it in the buffer; \<open>tp_next\<close> then shows its tuples and \<open>tp_nextfield\<close> their fields, one by one and in order.
\<close>

section \<open>Iterators as cursors\<close>

definition itr_todo :: "nat \<Rightarrow> mval list \<Rightarrow> tp_array_itr \<Rightarrow> bool" where
  "itr_todo n vs itr \<longleftrightarrow> n < 2 ^ 31 \<and> ta_elem_count itr = of_nat n \<and> (\<forall>v \<in> set vs. vwf v)
     \<and> -1 \<le> ta_cur_index itr \<and> ta_cur_index itr + 1 + int (length vs) = int n
     \<and> (\<exists>p. (if ta_cur_index itr = -1 then ta_first_elem itr else ta_elem_end itr) = Some p \<and> reads (concat (map toks vs)) p \<noteq> None)"

text \<open>The current element is the value \<open>v\<close>.\<close>

definition itr_at :: "mval \<Rightarrow> tp_array_itr \<Rightarrow> bool" where
  "itr_at v itr \<longleftrightarrow> (\<exists>e q. ta_elem itr = Some e \<and> ta_elem_end itr = Some q \<and> reads (toks v) e = Some q)"

context msgpuck_laws
begin

lemma itr_step:
  assumes "itr_todo n (v # vs) itr"
  shows "\<exists>j. tp_array_itr_next mp itr = Some (True, j) \<and> itr_at v j \<and> itr_todo n vs j"
proof -
  obtain p where i: "n < 2 ^ 31" "ta_elem_count itr = of_nat n" "-1 \<le> ta_cur_index itr"
      "ta_cur_index itr + 1 + int (length (v # vs)) = int n"
      "(if ta_cur_index itr = -1 then ta_first_elem itr else ta_elem_end itr) = Some p"
      "reads (concat (map toks (v # vs))) p \<noteq> None" and w: "vwf v" "\<forall>v \<in> set vs. vwf v"
    using assms by (auto simp: itr_todo_def)
  from i(6) obtain q where q: "reads (toks v) p = Some q" "reads (concat (map toks vs)) q \<noteq> None"
    by (rule reads_concat_Cons)
  have c: "ta_cur_index itr \<noteq> INT_MAX" "ta_cur_index itr + 1 < int n" using i(1,3,4) by (auto simp: INT_MAX_def)
  have le: "\<not> of_nat n \<le> (of_int (ta_cur_index itr + 1) :: u32)"
    by (subst index_word_le) (use c i(1,3) in auto)
  let ?j = "itr\<lparr>ta_cur_index := ta_cur_index itr + 1, ta_elem := Some p, ta_elem_end := Some q\<rparr>"
  have "(if ta_cur_index itr + 1 = 0 then ta_first_elem itr else ta_elem_end itr) = Some p"
    using i(5) by (auto split: if_splits)
  then have "tp_array_itr_next mp itr = Some (True, ?j)"
    using c(1) le next_reads [OF w(1) q(1)] i(2)
    by (cases "ta_cur_index itr + 1 = 0") (auto simp: tp_array_itr_next_def Let_def)
  moreover have "itr_at v ?j" using q(1) by (simp add: itr_at_def)
  moreover have "itr_todo n vs ?j" using i q(2) w(2) by (simp add: itr_todo_def)
  ultimately show ?thesis by blast
qed

lemma itr_end:
  assumes "itr_todo n [] itr"
  shows "\<exists>j. tp_array_itr_next mp itr = Some (False, j) \<and> ta_cur_index j = int n \<and> ta_first_elem j = ta_first_elem itr \<and> ta_elem_count j = of_nat n"
proof -
  have i: "n < 2 ^ 31" "ta_elem_count itr = of_nat n" "ta_cur_index itr + 1 = int n" using assms by (auto simp: itr_todo_def)
  then have "ta_cur_index itr \<noteq> INT_MAX" by (auto simp: INT_MAX_def)
  then show ?thesis using i by (simp add: tp_array_itr_next_def Let_def)
qed

text \<open>A new iterator on an array has every element due; on another value it is empty, but never undefined.\<close>

lemma read_check: "vwf v \<Longrightarrow> reads (toks v) d = Some e \<Longrightarrow> check_n mp d (length d - length e) = Some True"
  using reads_between [of "toks v" d e] mp_skip_value [of v "between d e" "[]"]
  by (simp add: check_n_def between_def encodes_def check)

lemma read_length:
  assumes "reads (toks v) d = Some e"
  shows "length d - length e \<noteq> 0"
proof -
  obtain t ts where t: "toks v = t # ts" using toks_nonempty [of v] by (cases "toks v") auto
  have "encodes (t # ts) (between d e)" using reads_between [OF assms] t by simp
  then have "between d e \<noteq> []" by (rule encodes_nonempty)
  then show ?thesis by (auto simp: between_def)
qed

lemma itr_init:
  assumes "vwf (VArr vs)" and "reads (toks (VArr vs)) d = Some e"
  obtains itr where "tp_array_itr_init mp d (length d - length e) = Some (0, itr)" "length vs < 2 ^ 31 \<Longrightarrow> itr_todo (length vs) vs itr"
    "ta_elem_count itr = of_nat (length vs)"
proof -
  from assms(2) obtain f where f: "mp_tok d = Some (TArr (of_nat (length vs)), f)" "reads (concat (map toks vs)) f = Some e"
    by (simp only: toks.simps) (rule reads_ConsE)
  have n: "length d - length e \<noteq> 0" using assms(2) by (rule read_length)
  let ?itr = "zero_array_itr\<lparr>ta_data := Some d, ta_first_elem := Some f, ta_elem_count := of_nat (length vs), ta_cur_index := -1\<rparr>"
  have "tp_array_itr_init mp d (length d - length e) = Some (0, ?itr)"
    using n peek_tok [OF f(1)] read_check [OF assms(1,2)] f(1) by (simp add: tp_array_itr_init_def dec_array)
  moreover have "length vs < 2 ^ 31 \<Longrightarrow> itr_todo (length vs) vs ?itr" using assms(1) f(2) by (simp add: itr_todo_def)
  ultimately show thesis by (rule that) simp_all
qed

lemma itr_init_total:
  assumes "vwf v" and "reads (toks v) d = Some e"
  obtains rc itr where "tp_array_itr_init mp d (length d - length e) = Some (rc, itr)"
proof (cases "is_arr v")
  case True
  then obtain vs where v: "v = VArr vs" by (cases v) (auto simp: is_arr_def)
  with assms(2) obtain f where f: "mp_tok d = Some (TArr (of_nat (length vs)), f)"
    by (auto split: option.splits if_splits)
  then show thesis using peek_tok [OF f] read_check [OF assms] read_length [OF assms(2)]
    by (intro that) (simp add: tp_array_itr_init_def dec_array)
next
  case False
  obtain t ts where t: "toks v = t # ts" using toks_nonempty [of v] by (cases "toks v") auto
  with False have "tok_type t \<noteq> MP_ARRAY" by (cases v) (auto simp: is_arr_def)
  moreover obtain r where "mp_tok d = Some (t, r)" using assms(2) t by (auto split: option.splits if_splits)
  ultimately show thesis using peek_tok [of d t r] by (intro that [of "-1"]) (simp add: tp_array_itr_init_def)
qed

end

text \<open>Fields of the current tuple, and tuples with their fields.\<close>

definition fld_at :: "mval \<Rightarrow> tpresponse \<Rightarrow> bool" where
  "fld_at v r \<longleftrightarrow> (\<exists>e n. tp_getfield r = Some e \<and> tp_getfieldsize r = Some (of_nat n) \<and> n \<le> length e \<and> encodes (toks v) (take n e))"

definition fld_todo :: "nat \<Rightarrow> mval list \<Rightarrow> tpresponse \<Rightarrow> bool" where
  "fld_todo n vs r \<longleftrightarrow> itr_todo n vs (tr_field_itr r)"

definition fld_ended :: "nat \<Rightarrow> tpresponse \<Rightarrow> bool" where
  "fld_ended n r \<longleftrightarrow> ta_cur_index (tr_field_itr r) = int n"

definition tup_at :: "mval \<Rightarrow> tpresponse \<Rightarrow> bool" where
  "tup_at v r \<longleftrightarrow> (\<exists>e q. tp_gettuple r = Some e \<and> tp_tupleend r = Some q \<and> encodes (toks v) (between e q))
     \<and> (\<forall>fs. v = VArr fs \<and> length fs < 2 ^ 31 \<longrightarrow> fld_todo (length fs) fs r)"

definition tup_todo :: "nat \<Rightarrow> mval list \<Rightarrow> tpresponse \<Rightarrow> bool" where
  "tup_todo n vs r \<longleftrightarrow> itr_todo n vs (tr_tuple_itr r)"

definition tup_ended :: "nat \<Rightarrow> tpresponse \<Rightarrow> bool" where
  "tup_ended n r \<longleftrightarrow> ta_cur_index (tr_tuple_itr r) = int n \<and> tr_field_itr r = zero_array_itr"

context msgpuck_laws
begin

lemma field_cursor: "cursor (tp_nextfield mp) fld_at (fld_todo n) (fld_ended n)"
proof
  fix v vs r
  assume "fld_todo n (v # vs) r"
  then obtain j where j: "tp_array_itr_next mp (tr_field_itr r) = Some (True, j)" "itr_at v j" "itr_todo n vs j"
    using itr_step unfolding fld_todo_def by blast
  let ?r = "r\<lparr>tr_field_itr := j\<rparr>"
  obtain e q where e: "ta_elem j = Some e" "ta_elem_end j = Some q" "reads (toks v) e = Some q" using j(2) by (auto simp: itr_at_def)
  have "encodes (toks v) (take (length e - length q) e)" using reads_between [OF e(3)] by (simp add: between_def)
  then have "fld_at v ?r" using e(1,2) unfolding fld_at_def
    by (intro exI [of _ e] exI [of _ "length e - length q"]) (simp add: tp_getfield_def tp_getfieldsize_def ptr_diff_def)
  then show "\<exists>j. tp_nextfield mp r = Some (1, j) \<and> fld_at v j \<and> fld_todo n vs j"
    using j(1,3) by (simp add: tp_nextfield_def fld_todo_def)
next
  fix r
  assume "fld_todo n [] r"
  then obtain j where "tp_array_itr_next mp (tr_field_itr r) = Some (False, j)" "ta_cur_index j = int n"
    using itr_end unfolding fld_todo_def by blast
  then show "\<exists>j. tp_nextfield mp r = Some (0, j) \<and> fld_ended n j" by (simp add: tp_nextfield_def fld_ended_def)
qed

lemma tuple_cursor: "cursor (tp_next mp) tup_at (tup_todo n) (tup_ended n)"
proof
  fix v vs r
  assume t: "tup_todo n (v # vs) r"
  then have w: "vwf v" by (simp add: tup_todo_def itr_todo_def)
  from t obtain j where j: "tp_array_itr_next mp (tr_tuple_itr r) = Some (True, j)" "itr_at v j" "itr_todo n vs j"
    using itr_step unfolding tup_todo_def by blast
  obtain e q where e: "ta_elem j = Some e" "ta_elem_end j = Some q" "reads (toks v) e = Some q" using j(2) by (auto simp: itr_at_def)
  obtain rc f where f: "tp_array_itr_init mp e (length e - length q) = Some (rc, f)" by (rule itr_init_total [OF w e(3)])
  let ?r = "r\<lparr>tr_tuple_itr := j, tr_field_itr := f\<rparr>"
  have "itr_todo (length fs) fs f" if "v = VArr fs" "length fs < 2 ^ 31" for fs
    using itr_init [of fs e q] w e(3) f that by (metis option.inject prod.inject)
  then have "tup_at v ?r" using e reads_between [OF e(3)] by (auto simp: tup_at_def fld_todo_def tp_gettuple_def tp_tupleend_def)
  then show "\<exists>j. tp_next mp r = Some (1, j) \<and> tup_at v j \<and> tup_todo n vs j"
    using j(1,3) e(1,2) f by (simp add: tp_next_def tup_todo_def Let_def)
next
  fix r
  assume "tup_todo n [] r"
  then show "\<exists>j. tp_next mp r = Some (0, j) \<and> tup_ended n j"
    using itr_end [of n "tr_tuple_itr r"] by (auto simp: tup_todo_def tp_next_def tup_ended_def Let_def)
qed

end

sublocale msgpuck_laws < tp_fields: cursor "tp_nextfield mp" fld_at "fld_todo n" "fld_ended n" for n
  by (rule field_cursor)

sublocale msgpuck_laws < tp_rows: cursor "tp_next mp" tup_at "tup_todo n" "tup_ended n" for n
  by (rule tuple_cursor)

section \<open>The maps of a reply\<close>

lemma tp_keys: "TP_SYNC = TNT_SYNC" "TP_CODE = TNT_CODE" "TP_ERROR = TNT_ERROR" "TP_DATA = TNT_DATA"
  by (simp_all add: TP_SYNC_def TP_CODE_def TP_ERROR_def TP_DATA_def proto_consts)

definition tp_hdr_is :: "(u64 \<times> u64) list \<Rightarrow> tpresponse \<Rightarrow> bool" where
  "tp_hdr_is hs r \<longleftrightarrow> tr_sync r = num_val hs TNT_SYNC \<and> tr_code r = ucast (num_val hs TNT_CODE)"

text \<open>A pair of pointers that are null or the bounds of a string, of a value.\<close>

definition bounds_str :: "bytes option \<Rightarrow> bytes option \<Rightarrow> bytes option \<Rightarrow> bool" where
  "bounds_str os a b \<longleftrightarrow> (case os of None \<Rightarrow> a = None \<and> b = None | Some s \<Rightarrow> (\<exists>q. a = Some (s @ q) \<and> b = Some q))"

definition bounds_val :: "mval option \<Rightarrow> bytes option \<Rightarrow> bytes option \<Rightarrow> bool" where
  "bounds_val ov a b \<longleftrightarrow> (case ov of None \<Rightarrow> a = None \<and> b = None | Some v \<Rightarrow> (\<exists>p q. a = Some p \<and> b = Some q \<and> reads (toks v) p = Some q))"

definition tp_body_is :: "(u64 \<times> mval) list \<Rightarrow> tpresponse \<Rightarrow> bool" where
  "tp_body_is es r \<longleftrightarrow> bounds_str (str_of (last_val es TNT_ERROR)) (tr_error r) (tr_error_end r)
     \<and> bounds_val (last_val es TNT_DATA) (tr_data r) (tr_data_end r)"

text \<open>What a response object holds of a reply.\<close>

definition tp_holds :: "(u64 \<times> u64) list \<Rightarrow> (u64 \<times> mval) list \<Rightarrow> tpresponse \<Rightarrow> bool" where
  "tp_holds hs es r \<longleftrightarrow> tp_hdr_is hs r \<and> tp_body_is es r \<and> tr_bitmap r = key_bits (map fst hs @ map fst es)
     \<and> (\<forall>vs. last_val es TNT_DATA = Some (VArr vs) \<longrightarrow> tp_tuplecount r = of_nat (length vs) \<and> (length vs < 2 ^ 31 \<longrightarrow> tup_todo (length vs) vs r))"

lemma last_val_in: "last_val es k = Some v \<Longrightarrow> (k, v) \<in> set es"
  by (auto simp: last_val_def dest!: map_of_SomeD)

context msgpuck_laws
begin

lemma tp_hdr_loop_reads:
  assumes "reads (hdr_toks hs) p = Some q" and "fst ` set hs \<subseteq> {TNT_CODE, TNT_SYNC, TNT_SCHEMA_ID}"
    and "tp_hdr_is hs0 r" and "tr_bitmap r = key_bits (map fst hs0)"
  shows "\<exists>r'. tp_hdr_loop mp (length hs) p r = Some (Some q, r') \<and> tp_hdr_is (hs0 @ hs) r' \<and> tr_bitmap r' = key_bits (map fst (hs0 @ hs))
     \<and> r' = r\<lparr>tr_sync := tr_sync r', tr_code := tr_code r', tr_bitmap := tr_bitmap r'\<rparr>"
  using assms
proof (induction hs arbitrary: p r hs0)
  case Nil
  then show ?case by (simp add: hdr_toks_def)
next
  case (Cons h hs)
  obtain k v where h: "h = (k, v)" by (cases h)
  have "reads (TUint k # TUint v # hdr_toks hs) p = Some q" using Cons.prems(1) by (simp add: hdr_toks_def h)
  then obtain r1 where r1: "mp_tok p = Some (TUint k, r1)" "reads (TUint v # hdr_toks hs) r1 = Some q"
    by (rule reads_ConsE)
  from r1(2) obtain r2 where r2: "mp_tok r1 = Some (TUint v, r2)" "reads (hdr_toks hs) r2 = Some q"
    by (rule reads_ConsE)
  have k: "k \<in> {TNT_CODE, TNT_SYNC, TNT_SCHEMA_ID}" using Cons.prems(2) h by simp
  then have ks: "unat k < 64" by (auto simp: proto_consts)
  then have uk: "(ucast (ucast k :: u32) :: u64) = k" "unat (ucast k :: u32) = unat k"
    by (simp_all add: ucast_small unat_ucast_small)
  have bit: "key_bit (ucast k) = Some (push_bit (unat k) 1)" using ks by (simp add: key_bit_def uk)
  have nx: "mp_next mp r1 = Some r2" using next_reads [of "VUint v" r1 r2] r2(1) by simp
  define a1 where "a1 = (if k = TNT_SYNC then r\<lparr>tr_sync := v\<rparr> else if k = TNT_CODE then r\<lparr>tr_code := ucast v\<rparr> else r)"
  let ?b = "a1\<lparr>tr_bitmap := tr_bitmap a1 OR push_bit (unat k) 1\<rparr>"
  have ne: "TNT_CODE \<noteq> TNT_SYNC" "TNT_SCHEMA_ID \<noteq> TNT_SYNC" "TNT_SCHEMA_ID \<noteq> TNT_CODE"
    by (simp_all add: proto_consts)
  have a1: "tp_hdr_is (hs0 @ [h]) ?b" "tr_bitmap ?b = key_bits (map fst (hs0 @ [h]))"
    using Cons.prems(3,4) k ne by (auto simp: tp_hdr_is_def num_val_def h a1_def)
  have "tp_hdr_loop mp (length (h # hs)) p r = tp_hdr_loop mp (length hs) r2 ?b"
    using r1(1) r2(1) by (simp add: dec_uint peek_tok [OF r1(1)] peek_tok [OF r2(1)] Let_def uk bit nx a1_def tp_keys)
  with Cons.IH [OF r2(2) _ a1] Cons.prems(2) show ?case by (auto simp: a1_def)
qed

lemma tp_body_entry_reads:
  assumes "entry_ok (k, v)" and "reads (toks v) p = Some q" and "tp_body_is es r"
  obtains r' where "tp_body_entry mp (ucast k) p r = Some (Some q, r')" "tp_body_is (es @ [(k, v)]) r'"
    "r' = r\<lparr>tr_error := tr_error r', tr_error_end := tr_error_end r', tr_data := tr_data r', tr_data_end := tr_data_end r'\<rparr>"
proof -
  have k: "unat k < 64" "vwf v" using assms(1) by (auto simp: entry_ok_def)
  then have uk: "(ucast (ucast k :: u32) :: u64) = k" by (simp add: ucast_small)
  have nx: "mp_next mp p = Some q" using next_reads [OF k(2) assms(2)] .
  have ne: "TNT_DATA \<noteq> TNT_ERROR" by (simp add: proto_consts)
  consider "k = TNT_ERROR" | "k = TNT_DATA" | "k \<notin> {TNT_ERROR, TNT_DATA}" by blast
  then show thesis
  proof cases
    case 1
    then obtain s where s: "v = VStr s" "length s < 2 ^ 32" using assms(1) by (auto simp: entry_ok_def)
    with assms(2) have t: "mp_tok p = Some (TStr s, q)" by (auto split: option.splits if_splits)
    have "tp_body_entry mp (ucast k) p r = Some (Some q, r\<lparr>tr_error := Some (s @ q), tr_error_end := Some q\<rparr>)"
      using peek_tok [OF t] s(2) by (simp add: tp_body_entry_def uk tp_keys 1 [symmetric] t dec_str unat_of_nat_small)
    then show thesis using assms(3) ne by (intro that [of "r\<lparr>tr_error := Some (s @ q), tr_error_end := Some q\<rparr>"]) (simp_all add: tp_body_is_def bounds_str_def 1 s str_of_def)
  next
    case 2
    then have "is_arr v" using assms(1) by (simp add: entry_ok_def)
    then obtain vs where v: "v = VArr vs" by (cases v) (auto simp: is_arr_def)
    with assms(2) obtain f where "mp_tok p = Some (TArr (of_nat (length vs)), f)" by (auto split: option.splits if_splits)
    then have "peek mp p = Some MP_ARRAY" by (simp add: peek_tok)
    then have "tp_body_entry mp (ucast k) p r = Some (Some q, r\<lparr>tr_data := Some p, tr_data_end := Some q\<rparr>)"
      using ne by (simp add: tp_body_entry_def uk tp_keys nx 2 [symmetric])
    then show thesis using assms(2,3) ne by (intro that [of "r\<lparr>tr_data := Some p, tr_data_end := Some q\<rparr>"]) (simp_all add: tp_body_is_def bounds_val_def 2)
  next
    case 3
    then have "tp_body_entry mp (ucast k) p r = Some (Some q, r)" by (simp add: tp_body_entry_def uk tp_keys nx)
    then show thesis using assms(3) 3 by (intro that [of r]) (auto simp: tp_body_is_def)
  qed
qed

lemma tp_body_loop_reads:
  assumes "reads (body_toks es) p = Some q" and "\<forall>e \<in> set es. entry_ok e" and "tp_body_is es0 r"
  shows "\<exists>r'. tp_body_loop mp (length es) p r = Some (Some q, r') \<and> tp_body_is (es0 @ es) r'
     \<and> tr_bitmap r' = foldl (\<lambda>b k. b OR push_bit (unat k) 1) (tr_bitmap r) (map fst es)
     \<and> tr_sync r' = tr_sync r \<and> tr_code r' = tr_code r \<and> tr_field_itr r' = tr_field_itr r \<and> tr_tuple_itr r' = tr_tuple_itr r"
  using assms
proof (induction es arbitrary: p r es0)
  case Nil
  then show ?case by (simp add: body_toks_def)
next
  case (Cons e es)
  obtain k v where e: "e = (k, v)" by (cases e)
  have "reads (TUint k # toks v @ body_toks es) p = Some q" using Cons.prems(1) by (simp add: body_toks_def e)
  then obtain r1 where r1: "mp_tok p = Some (TUint k, r1)" "reads (toks v @ body_toks es) r1 = Some q"
    by (rule reads_ConsE)
  then obtain r2 where r2: "reads (toks v) r1 = Some r2" "reads (body_toks es) r2 = Some q"
    by (auto simp: reads_append split: option.splits)
  have ok: "entry_ok (k, v)" using Cons.prems(2) e by simp
  then have ks: "unat k < 64" by (simp add: entry_ok_def)
  have bit: "key_bit (ucast k) = Some (push_bit (unat k) 1)" using ks by (simp add: key_bit_def unat_ucast_small)
  from ok r2(1) Cons.prems(3) obtain a1 where a1: "tp_body_entry mp (ucast k) r1 r = Some (Some r2, a1)" "tp_body_is (es0 @ [(k, v)]) a1"
    "a1 = r\<lparr>tr_error := tr_error a1, tr_error_end := tr_error_end a1, tr_data := tr_data a1, tr_data_end := tr_data_end a1\<rparr>"
    by (rule tp_body_entry_reads)
  let ?b = "a1\<lparr>tr_bitmap := tr_bitmap a1 OR push_bit (unat k) 1\<rparr>"
  have b: "tp_body_is (es0 @ [(k, v)]) ?b" using a1(2) by (simp add: tp_body_is_def)
  have same: "tr_bitmap a1 = tr_bitmap r" "tr_sync a1 = tr_sync r" "tr_code a1 = tr_code r" "tr_field_itr a1 = tr_field_itr r"
    "tr_tuple_itr a1 = tr_tuple_itr r" by (subst a1(3); simp)+
  have "tp_body_loop mp (length (e # es)) p r = tp_body_loop mp (length es) r2 ?b"
    using r1(1) by (simp add: dec_uint Let_def a1(1) bit)
  with Cons.IH [OF r2(2) _ b] Cons.prems(2) same show ?case by (simp add: e)
qed

lemma hdr_checked:
  assumes "hdr_ok hs" and "reads (TMap (of_nat (length hs)) # hdr_toks hs) buf = Some q"
  shows "mp_check mp buf \<noteq> None"
  using hdr0_reads [OF assms, of "zero_reply False"] by (auto simp: tnt_reply_hdr0_def split: option.splits)

lemma body_checked:
  assumes "body_ok es" and "reads (TMap (of_nat (length es)) # body_toks es) buf = Some q"
  shows "mp_check mp buf \<noteq> None"
proof -
  obtain a :: body_acc where "tnt_reply_body0 mp (Some (zero_reply False)) buf = Some (0, Some ((zero_reply False)\<lparr>rp_error := ba_error a, rp_data := ba_data a,
     rp_metadata := ba_metadata a, rp_sqlinfo := ba_sqlinfo a, rp_bitmap := rp_bitmap (zero_reply False) OR ba_bitmap a\<rparr>), length buf - length q)"
    by (rule body0_reads [OF assms, where r = "zero_reply False"]) (rule that)
  then show ?thesis by (auto simp: tnt_reply_body0_def split: option.splits)
qed

lemma tp_reply_body_reads:
  assumes "body_ok es" and "reads (TMap (of_nat (length es)) # body_toks es) p = Some q" and "tp_hdr_is hs r" and "tp_body_is [] r"
    and "tr_bitmap r = key_bits (map fst hs)"
  shows "\<exists>r'. tp_reply_body mp sz p r = Some (int (sz - length q), r') \<and> tp_holds hs es r'"
proof -
  from assms(2) obtain p1 where p1: "mp_tok p = Some (TMap (of_nat (length es)), p1)" "reads (body_toks es) p1 = Some q"
    by (rule reads_ConsE)
  have n: "unat (of_nat (length es) :: u32) = length es" using assms(1) by (simp add: body_ok_def unat_of_nat_small)
  have ok: "\<forall>e \<in> set es. entry_ok e" using assms(1) by (simp add: body_ok_def)
  from tp_body_loop_reads [OF p1(2) ok assms(4)] obtain r1 where
    r1: "tp_body_loop mp (length es) p1 r = Some (Some q, r1)" "tp_body_is es r1"
      "tr_bitmap r1 = foldl (\<lambda>b k. b OR push_bit (unat k) 1) (tr_bitmap r) (map fst es)" "tr_sync r1 = tr_sync r" "tr_code r1 = tr_code r"
    by auto
  have bm: "tr_bitmap r1 = key_bits (map fst hs @ map fst es)" using r1(3) assms(5) by (simp add: key_bits_def)
  have hd: "tp_hdr_is hs r1" using assms(3) r1(4,5) by (simp add: tp_hdr_is_def)
  obtain c where c: "mp_check mp p = Some c" using body_checked [OF assms(1,2)] by blast
  note ev = tp_reply_body_def c peek_tok [OF p1(1)] p1(1) dec_map n r1(1)
  show ?thesis
  proof (cases "last_val es TNT_DATA")
    case None
    then have "tr_data r1 = None" using r1(2) by (simp add: tp_body_is_def bounds_val_def)
    then show ?thesis using r1(2) bm hd None by (simp add: ev tp_holds_def)
  next
    case (Some v)
    then have "entry_ok (TNT_DATA, v)" using last_val_in [OF Some] ok by (rule_tac bspec)
    then obtain vs where v: "v = VArr vs" and w: "vwf (VArr vs)" by (cases v) (auto simp: entry_ok_def is_arr_def)
    from Some v r1(2) obtain d e where d: "tr_data r1 = Some d" "tr_data_end r1 = Some e" "reads (toks (VArr vs)) d = Some e"
      by (auto simp: tp_body_is_def bounds_val_def)
    obtain itr where itr: "tp_array_itr_init mp d (length d - length e) = Some (0, itr)" "length vs < 2 ^ 31 \<Longrightarrow> itr_todo (length vs) vs itr"
      "ta_elem_count itr = of_nat (length vs)" by (rule itr_init [OF w d(3)]) (rule that)
    let ?r = "r1\<lparr>tr_tuple_itr := itr\<rparr>"
    have "tp_reply_body mp sz p r = Some (int (sz - length q), ?r)" using d(1,2) itr(1) by (simp add: ev Let_def)
    moreover have "tp_holds hs es ?r" using r1(2) bm hd Some v itr(2,3)
      by (simp add: tp_holds_def tp_hdr_is_def tp_body_is_def tp_tuplecount_def tup_todo_def)
    ultimately show ?thesis by blast
  qed
qed

lemma tp_reply_frame:
  assumes "mp_tok b = Some (TUint l, p)" and "length b - length p = 5" and "unat l + 5 \<le> length b" and "length b < 2 ^ 32"
    and "hdr_ok hs" and h: "reads (TMap (of_nat (length hs)) # hdr_toks hs) p = Some w"
  obtains r where "tp_reply mp b = (if length b - length w = unat l + 5 then Some (int (unat l + 5), r) else tp_reply_body mp (length b) w r)"
    "tp_hdr_is hs r" "tp_body_is [] r" "tr_bitmap r = key_bits (map fst hs)"
proof -
  have ck: "mp_check mp b = Some p" using assms(1) by (simp add: check)
  have len: "unat (ucast l :: u32) = unat l" using assms(3,4) by (simp add: unat_ucast_small)
  have len5: "unat ((ucast l :: u32) + 5) = unat l + 5" using assms(3,4) len by (simp add: unat_word_ariths)
  obtain c where c: "mp_check mp p = Some c" using hdr_checked [OF assms(5) h] by blast
  from h obtain p1 where p1: "mp_tok p = Some (TMap (of_nat (length hs)), p1)" "reads (hdr_toks hs) p1 = Some w"
    by (rule reads_ConsE)
  have n: "unat (of_nat (length hs) :: u32) = length hs" using assms(5) by (simp add: hdr_ok_def unat_of_nat_small)
  have z: "tp_hdr_is [] zero_tpresponse" "tr_bitmap zero_tpresponse = key_bits (map fst ([] :: (u64 \<times> u64) list))" "tp_body_is [] zero_tpresponse"
    by (simp_all add: tp_hdr_is_def num_val_def zero_tpresponse_def key_bits_def tp_body_is_def bounds_str_def bounds_val_def str_of_def)
  have keys: "fst ` set hs \<subseteq> {TNT_CODE, TNT_SYNC, TNT_SCHEMA_ID}" using assms(5) by (simp add: hdr_ok_def)
  from tp_hdr_loop_reads [OF p1(2) keys z(1,2)] obtain r where
    r: "tp_hdr_loop mp (length hs) p1 zero_tpresponse = Some (Some w, r)" "tp_hdr_is hs r" "tr_bitmap r = key_bits (map fst hs)"
      "r = zero_tpresponse\<lparr>tr_sync := tr_sync r, tr_code := tr_code r, tr_bitmap := tr_bitmap r\<rparr>" by auto
  have zb: "tp_body_is [] r" using z(3) by (subst r(4)) (simp add: tp_body_is_def)
  have "b \<noteq> []" using assms(1) by auto
  then have "tp_reply mp b = (if length b - length w = unat l + 5 then Some (int (unat l + 5), r) else tp_reply_body mp (length b) w r)"
    using ck assms(1-3) peek_tok [OF assms(1)] c peek_tok [OF p1(1)] p1(1) n r(1) len len5
    by (simp add: tp_reply_def Let_def dec_uint dec_map)
  then show thesis using r(2) zb r(3) by (rule that)
qed

lemma tp_reply_reads:
  assumes "is_reply hs es fr" and "length (fr @ rest) < 2 ^ 32"
  shows "\<exists>r. tp_reply mp (fr @ rest) = Some (int (length fr), r) \<and> tp_holds hs (body_list es) r"
proof -
  from assms(1) obtain hb bb where f: "fr = 0xce # be_bytes 4 (length (hb @ bb)) @ hb @ bb" "length (hb @ bb) < 2 ^ 32"
    "encodes (TMap (of_nat (length hs)) # hdr_toks hs) hb" "hdr_ok hs" "body_ok (body_list es)"
    "case es of None \<Rightarrow> bb = [] | Some x \<Rightarrow> encodes (TMap (of_nat (length x)) # body_toks x) bb" by (rule is_replyE)
  define L where "L = length (hb @ bb)"
  have buf: "fr @ rest = 0xce # be_bytes 4 L @ hb @ bb @ rest" by (simp add: f(1) L_def)
  have lfr: "length fr = L + 5" by (simp add: f(1) L_def)
  have L: "unat (of_nat L :: u64) = L" using f(2) unfolding L_def [symmetric] by (simp add: unat_of_nat_small)
  have t: "mp_tok (fr @ rest) = Some (TUint (of_nat L), hb @ bb @ rest)" unfolding buf by (rule tok_len_prefix) (use f(2) in \<open>simp add: L_def\<close>)
  have h: "reads (TMap (of_nat (length hs)) # hdr_toks hs) (hb @ bb @ rest) = Some (bb @ rest)" using f(3) by (rule encodes_reads)
  have five: "length (fr @ rest) - length (hb @ bb @ rest) = 5" "unat (of_nat L :: u64) + 5 \<le> length (fr @ rest)"
    using lfr L by (simp_all add: L_def)
  obtain r where r: "tp_reply mp (fr @ rest) = (if length (fr @ rest) - length (bb @ rest) = unat (of_nat L :: u64) + 5
      then Some (int (unat (of_nat L :: u64) + 5), r) else tp_reply_body mp (length (fr @ rest)) (bb @ rest) r)"
    "tp_hdr_is hs r" "tp_body_is [] r" "tr_bitmap r = key_bits (map fst hs)"
    by (rule tp_reply_frame [OF t five assms(2) f(4) h]) (rule that)
  show ?thesis
  proof (cases es)
    case None
    then have "bb = []" using f(6) by simp
    then have "tp_reply mp (fr @ rest) = Some (int (length fr), r)" using r(1) L lfr by simp
    then show ?thesis using r(2-4) None by (simp add: tp_holds_def body_list_def)
  next
    case (Some x)
    then have e: "encodes (TMap (of_nat (length x)) # body_toks x) bb" using f(6) by simp
    then have "bb \<noteq> []" by (rule encodes_nonempty)
    then have ne: "length (fr @ rest) - length (bb @ rest) \<noteq> unat (of_nat L :: u64) + 5" using lfr L by (simp add: L_def)
    have "reads (TMap (of_nat (length x)) # body_toks x) (bb @ rest) = Some rest" using e by (rule encodes_reads)
    from tp_reply_body_reads [OF _ this r(2,3,4), of "length (fr @ rest)"] f(5) Some
    show ?thesis using r(1) ne by (simp add: body_list_def)
  qed
qed

text \<open>A reply of which bytes are missing.\<close>

lemma short_prefix_untok: "k < 5 \<Longrightarrow> mp_tok (take k (0xce # be_bytes 4 n @ x)) = None"
  by (cases k) (auto simp: mp_tok_marks tk_num_def min_def)

lemma tp_reply_prefix:
  assumes "is_reply hs es fr" and "k < length fr" and "length fr < 2 ^ 32"
  shows "tp_reply mp (take k fr) = Some (if 0 < k \<and> k < 5 then -1 else 0, zero_tpresponse)"
proof -
  from assms(1) obtain hb bb where f: "fr = 0xce # be_bytes 4 (length (hb @ bb)) @ hb @ bb" "length (hb @ bb) < 2 ^ 32"
    by (rule is_replyE)
  define L where "L = length (hb @ bb)"
  show ?thesis
  proof (cases "k < 5")
    case True
    then have "mp_tok (take k fr) = None" unfolding f(1) by (rule short_prefix_untok)
    then show ?thesis using True assms(2) by (cases "k = 0") (auto simp: tp_reply_def Let_def check)
  next
    case False
    define x where "x = take (k - 5) (hb @ bb)"
    have t: "take k fr = 0xce # be_bytes 4 L @ x"
      using False by (simp add: f(1) L_def x_def take_Cons' del: be_bytes.simps)
    have L: "L < 2 ^ 32" "length fr = L + 5" "length (take k fr) = k" using f assms(2) by (simp_all add: L_def)
    have m: "mp_tok (take k fr) = Some (TUint (of_nat L), x)" unfolding t by (rule tok_len_prefix [OF L(1)])
    have five: "k - length x = 5" using arg_cong [OF t, of length] L(3) by simp
    have "unat (of_nat L :: u64) = L" using L(1) by (simp add: unat_of_nat_small)
    then have "unat (ucast (of_nat L :: u64) :: u32) = L" using L(1) by (simp add: unat_ucast_small)
    then have len: "unat ((ucast (of_nat L :: u64) :: u32) + 5) = L + 5" using assms(3) L(2) by (simp add: unat_word_ariths)
    have "take k fr \<noteq> []" "k < L + 5" using False assms(2) L(2) by auto
    then show ?thesis using m peek_tok [OF m] False five len L(3)
      by (simp add: tp_reply_def Let_def check dec_uint)
  qed
qed

end

section \<open>Properties\<close>

text \<open>A response positioned on the tuple \<open>v\<close>: the bytes of the tuple, and the loop over \<open>tp_nextfield\<close> that shows its fields.\<close>

definition tuple_visited :: "msgpuck \<Rightarrow> mval \<Rightarrow> tpresponse \<Rightarrow> bool" where
  "tuple_visited mp v r \<longleftrightarrow> (\<exists>e q. tp_gettuple r = Some e \<and> tp_tupleend r = Some q \<and> encodes (toks v) (between e q))
     \<and> (\<forall>fs. v = VArr fs \<and> length fs < 2 ^ 31 \<longrightarrow>
          (\<exists>js k. drain (tp_nextfield mp) (Suc (length fs)) r = Some (js, k) \<and> list_all2 fld_at fs js))"

context msgpuck_laws
begin

lemma fields_visited:
  assumes "fld_todo (length fs) fs r"
  shows "\<exists>js k. drain (tp_nextfield mp) (Suc (length fs)) r = Some (js, k) \<and> list_all2 fld_at fs js"
  using tp_fields.drain_all [OF assms] by blast

lemma tuple_visits: "tup_at v r \<Longrightarrow> tuple_visited mp v r"
  unfolding tup_at_def tuple_visited_def using fields_visited by simp

lemma rows_visited:
  assumes "tup_todo (length vs) vs r"
  shows "\<exists>js k. drain (tp_next mp) (Suc (length vs)) r = Some (js, k) \<and> list_all2 (tuple_visited mp) vs js"
proof -
  obtain js k where d: "drain (tp_next mp) (Suc (length vs)) r = Some (js, k)" "list_all2 tup_at vs js"
    using tp_rows.drain_all [OF assms] by blast
  have "list_all2 (tuple_visited mp) vs js" using d(2) by (rule list_all2_mono) (rule tuple_visits)
  with d(1) show ?thesis by blast
qed

end

text \<open>C10. A reply frame at the start of a buffer, with anything behind it, is taken apart as the server built it: \<open>tp_reply\<close>
  returns the length of the frame and sets the request number, the code and the bounds of the error message, and when the
  reply has data, looping over \<open>tp_next\<close> shows exactly its tuples in order, and looping over \<open>tp_nextfield\<close> at each of them its
  fields.\<close>

theorem tp_reply_roundtrip:
  assumes "msgpuck_laws mp" and "is_reply hs es fr" and "length (fr @ rest) < 2 ^ 32"
  shows "\<exists>r. tp_reply mp (fr @ rest) = Some (int (length fr), r)
     \<and> tr_sync r = num_val hs TNT_SYNC \<and> tr_code r = ucast (num_val hs TNT_CODE)
     \<and> bounds_str (str_of (last_val (body_list es) TNT_ERROR)) (tr_error r) (tr_error_end r)
     \<and> (\<forall>vs. last_val (body_list es) TNT_DATA = Some (VArr vs) \<and> length vs < 2 ^ 31 \<longrightarrow> tp_tuplecount r = of_nat (length vs)
          \<and> (\<exists>js k. drain (tp_next mp) (Suc (length vs)) r = Some (js, k) \<and> list_all2 (tuple_visited mp) vs js))"
proof -
  obtain r where r: "tp_reply mp (fr @ rest) = Some (int (length fr), r)" "tp_holds hs (body_list es) r"
    using msgpuck_laws.tp_reply_reads [OF assms] by blast
  then show ?thesis using msgpuck_laws.rows_visited [OF assms(1)] by (simp add: tp_holds_def tp_hdr_is_def tp_body_is_def)
qed

theorem tp_reply_roundtrip_witness:
  "\<exists>r. tp_reply mp_ref (demo_reply @ [0xff]) = Some (16, r) \<and> tr_sync r = 7
     \<and> (\<exists>js k. drain (tp_next mp_ref) (Suc (length [VUint 1])) r = Some (js, k) \<and> list_all2 (tuple_visited mp_ref) [VUint 1] js)"
proof -
  have y: "num_val demo_hs TNT_SYNC = 7" "last_val (body_list demo_es) TNT_DATA = Some (VArr [VUint 1])" "length demo_reply = 16"
    by (simp_all add: num_val_def last_val_def demo_hs_def demo_es_def body_list_def demo_reply_def proto_consts)
  have l: "length (demo_reply @ [0xff]) < 2 ^ 32" "length [VUint 1] < 2 ^ 31" using y(3) by simp_all
  from tp_reply_roundtrip [OF ref.msgpuck_laws_axioms demo_is_reply l(1)]
  obtain r where r: "tp_reply mp_ref (demo_reply @ [0xff]) = Some (16, r)" "tr_sync r = 7"
    "\<forall>vs. last_val (body_list demo_es) TNT_DATA = Some (VArr vs) \<and> length vs < 2 ^ 31 \<longrightarrow> tp_tuplecount r = of_nat (length vs)
       \<and> (\<exists>js k. drain (tp_next mp_ref) (Suc (length vs)) r = Some (js, k) \<and> list_all2 (tuple_visited mp_ref) vs js)"
    unfolding y(1,3) by (elim exE conjE) (rule that, simp_all only: of_nat_numeral)
  from r(3) y(2) l(2) have "\<exists>js k. drain (tp_next mp_ref) (Suc (length [VUint 1])) r = Some (js, k) \<and> list_all2 (tuple_visited mp_ref) [VUint 1] js"
    by blast
  with r(1,2) show ?thesis by blast
qed

text \<open>C30. On a proper prefix of a reply frame \<open>tp_reply\<close> returns 0, the answer for a partial reply, only when the five-byte length
  is there or nothing is: on one to four bytes it returns -1, the answer for a broken reply.\<close>

theorem tp_reply_partial:
  assumes "msgpuck_laws mp" and "is_reply hs es fr" and "k < length fr" and "length fr < 2 ^ 32"
  shows "tp_reply mp (take k fr) = Some (if 0 < k \<and> k < 5 then -1 else 0, zero_tpresponse)"
  using msgpuck_laws.tp_reply_prefix [OF assms] .

theorem tp_reply_partial_witness:
  "tp_reply mp_ref (take 3 demo_reply) = Some (-1, zero_tpresponse) \<and> tp_reply mp_ref (take 9 demo_reply) = Some (0, zero_tpresponse)"
  using tp_reply_partial [OF ref.msgpuck_laws_axioms demo_is_reply, of 3] tp_reply_partial [OF ref.msgpuck_laws_axioms demo_is_reply, of 9]
  by (simp add: demo_reply_def)

end
