(* ===== verification/Spec2Isabelle.thy ===== *)
theory Spec2Isabelle
  imports Tnt_Request Tnt_Iter Tnt_Update Tnt_Io_Spec Tnt_Net_Spec Tnt_Tp_Run Tnt_Tp_Reply_Spec Tnt_Schema_Load
begin

text \<open>
  A verification of the Tarantool C client: the library \<^verbatim>\<open>src/tnt\<close> with its headers \<^verbatim>\<open>src/include/tarantool\<close>, and the
  stand-alone header \<^verbatim>\<open>src/include/tp.h\<close>.

  \<^bold>\<open>The program.\<close>  A client opens a network stream (\<^verbatim>\<open>tnt_net.c\<close> over \<^verbatim>\<open>tnt_io.c\<close>, \<^verbatim>\<open>tnt_iob.c\<close>, \<^verbatim>\<open>tnt_opt.c\<close>), connects,
  authenticates (\<^verbatim>\<open>tnt_auth.c\<close>) and loads the names of spaces and indexes (\<^verbatim>\<open>tnt_schema.c\<close>).  It builds MessagePack objects
  (\<^verbatim>\<open>tnt_object.c\<close>) in stream buffers (\<^verbatim>\<open>tnt_buf.c\<close>), writes requests to the stream (\<^verbatim>\<open>tnt_select.c\<close>, \<^verbatim>\<open>tnt_insert.c\<close>,
  \<^verbatim>\<open>tnt_call.c\<close> and the others, \<^verbatim>\<open>tnt_request.c\<close>, \<^verbatim>\<open>tnt_update.c\<close>), and reads replies (\<^verbatim>\<open>tnt_reply.c\<close>), usually with an
  iterator (\<^verbatim>\<open>tnt_iter.c\<close>).  Streams are objects with function pointers (\<^verbatim>\<open>tnt_stream.c\<close>); requests reach the stream only through
  \<open>writev\<close>, replies come through \<open>read_reply\<close>.  \<^verbatim>\<open>tp.h\<close> does the same without any of this, on one buffer of the caller.

  \<^bold>\<open>Conventions.\<close>  A C function is a HOL function with the state passed in and out.  The outer \<open>option\<close> of a result is undefined
  behaviour: \<open>None\<close> is a use after free, an access outside an object, an overflowing \<open>int\<close>, a shift that is too wide, or a call of a
  library function outside its contract.  Return codes are values of the result, so that every error return is a branch.  A heap
  pointer that the program owns is a \<open>cptr\<close> (null, a block of bytes, or freed); a pointer into a buffer is the list of bytes from
  there on.  Machine integers are words where their width matters; sizes that the program cannot bring near \<open>2 ^ 64\<close> are naturals.
  The allocator, the operating system and msgpuck are parameters.

  \<^bold>\<open>Theories.\<close>
  \<^item> \<open>Tnt_Prelude\<close>: bytes, big-endian numbers, writing into a block, and lemmas on lists and words.
  \<^item> \<open>Tnt_Mem\<close> (\<^verbatim>\<open>tnt_mem.c\<close>): the allocator hook; locale \<open>allocator\<close>, interpreted for \<open>custom_realloc\<close>; allocators that grant
    every request, or every request below a size (\<open>grants_all\<close>, \<open>grants_below\<close>).
  \<^item> \<open>Tnt_Msgpack\<close>: MessagePack tokens and values, the functions of msgpuck as a record, their documented laws as locale
    \<open>msgpuck_laws\<close>, and the reference instance \<open>mp_ref\<close> that satisfies them.
  \<^item> \<open>Tnt_Buf\<close> (\<^verbatim>\<open>tnt_stream.c\<close>, \<^verbatim>\<open>tnt_buf.c\<close>): streams and stream buffers.  Writes append or fail.
  \<^item> \<open>Tnt_Object\<close>, \<open>Tnt_Object_Spec\<close> (\<^verbatim>\<open>tnt_object.c\<close>): the object builder with its stack of open containers.  Refinement to
    MessagePack values, the format language, and what goes wrong beyond eight levels.
  \<^item> \<open>Tnt_Proto\<close> (\<^verbatim>\<open>tnt_proto.h\<close>, \<^verbatim>\<open>tnt_proto_internal.h\<close>, the fixed-layout requests): locales \<open>stream_writer\<close> for a
    \<open>writev\<close> and \<open>client\<close> for a stream with a request counter, both interpreted for stream buffers here and for network streams in
    \<open>Tnt_Net_Spec\<close>.  Each request is one frame.
  \<^item> \<open>Tnt_Request\<close> (\<^verbatim>\<open>tnt_request.c\<close>), \<open>Tnt_Update\<close> (\<^verbatim>\<open>tnt_update.c\<close>): request objects and update containers.
  \<^item> \<open>Tnt_Reply\<close> (\<^verbatim>\<open>tnt_reply.c\<close>): parsing of replies, complete, incomplete and malformed.
  \<^item> \<open>Tnt_Iter\<close> (\<^verbatim>\<open>tnt_iter.c\<close>): locale \<open>cursor\<close>, the contract of an iterator, for arrays, maps and replies.
  \<^item> \<open>Tnt_Crypto\<close> (\<^verbatim>\<open>sha1.c\<close>, \<^verbatim>\<open>base64.c\<close>), \<open>Tnt_Auth\<close> (\<^verbatim>\<open>tnt_auth.c\<close>): the scramble, and that the server accepts it.
  \<^item> \<open>Tnt_Io\<close>, \<open>Tnt_Io_Spec\<close> (\<^verbatim>\<open>tnt_iob.c\<close>, \<^verbatim>\<open>tnt_opt.c\<close>, \<^verbatim>\<open>tnt_io.c\<close>): options, connecting, buffered and raw transfer against a
    scripted operating system that may split, interrupt and fail every call.
  \<^item> \<open>Tnt_Schema\<close>, \<open>Tnt_Schema_Spec\<close> (\<^verbatim>\<open>tnt_assoc.h\<close>, \<^verbatim>\<open>tnt_schema.c\<close>): the schema cache on an explicit heap of nodes, over a hash
    table.  The contract of the table is three locales: \<open>assoc_table\<close>, a finite map; \<open>assoc_room\<close>, which also has room for a number of
    insertions; \<open>assoc_stable\<close>, whose deletions leave the other slots alone.  Refinement to a map of names, and memory safety.
  \<^item> \<open>Tnt_Murmur\<close> (\<^verbatim>\<open>PMurHash.c\<close>): the hash function, in pieces and at once, in both of its builds.
  \<^item> \<open>Tnt_Mhash\<close>, \<open>Tnt_Mhash_Spec\<close>, \<open>Tnt_Mhash_Map\<close> (\<^verbatim>\<open>mhash.h\<close> as \<^verbatim>\<open>tnt_assoc.h\<close> instantiates it): the hash table of the cache.  Probe
    sequences and well-formed tables; growing step by step; locale \<open>bounded_allocator\<close>, under which the table is an \<open>assoc_table\<close>, and an
    \<open>assoc_stable\<close> between resizes; locale \<open>granting_allocator\<close>, under which it is also an \<open>assoc_room\<close>.
  \<^item> \<open>Tnt_Schema_Load\<close>: the two put together, the schema cache on the hash table of the library.
  \<^item> \<open>Tnt_Net\<close>, \<open>Tnt_Net_Spec\<close> (\<^verbatim>\<open>tnt_net.c\<close>): the network stream, loading of the schema, and the order of replies.
  \<^item> \<open>Tnt_Tp\<close>, \<open>Tnt_Tp_Spec\<close>, \<open>Tnt_Tp_Run\<close> (\<^verbatim>\<open>tp.h\<close>): the request writer, its frames, sequences of calls, and the calls that break
    the framing.
  \<^item> \<open>Tnt_Tp_Reply\<close>, \<open>Tnt_Tp_Reply_Spec\<close> (\<^verbatim>\<open>tp.h\<close>): the reply reader and its iterators, as cursors.
  \<^item> This theory: a whole session over a network stream.

  \<^bold>\<open>Loops and fuel.\<close>  Loops over counters and lists are structural or have a termination proof.  The loops of \<^verbatim>\<open>tnt_io.c\<close> that wait
  for the operating system recurse over its script, whose end is an error of the connection.  \<open>drain\<close>, the loop of a client over an
  iterator, has fuel; the theorems show that one more than the number of items is enough.  The binary search of \<open>tnt_io_xbufmax\<close> is
  partial and shown to return for every size that is not negative.  So are the probe loops of the hash table; that they return rests
  on a prime number of slots, proved for the sizes up to 1572869, and hence on an allocator that refuses blocks of 16 MiB or more.
  Such a table cannot grow for ever: where blocks below 16 MiB are granted a new table takes 300000 insertions, and hence 150000 spaces
  or indexes, which have two keys each.  The theorems on loading a schema ask for rows within that bound (\<open>rooms_for\<close>).
  \<^bold>\<open>Not modelled.\<close>  msgpuck, a submodule that is not in the tree, and \<^verbatim>\<open>uri.c\<close>, generated code: parameters.  \<^verbatim>\<open>pmatomic.h\<close>: the counters are sequential here.  \<^verbatim>\<open>tntrpl\<close>: not built.
  Error texts of the system, \<open>errno\<close> beyond the saved value, and threads.
\<close>

section \<open>A session\<close>

text \<open>The client's sequence of requests, each of which the stream accepts.\<close>

fun send_all :: "msgpuck \<Rightarrow> 'd writev_fn \<Rightarrow> 'd tnt_stream \<Rightarrow> request list \<Rightarrow> 'd tnt_stream option" where
  "send_all mp wv s [] = Some s"
| "send_all mp wv s (rq # rqs) = (case send mp wv s rq of
     Some (r, s') \<Rightarrow> if r = -1 then None else send_all mp wv s' rqs | None \<Rightarrow> None)"

text \<open>One frame per request, numbered from \<open>sync\<close>.\<close>

fun frames_of :: "u64 \<Rightarrow> request list \<Rightarrow> bytes \<Rightarrow> bool" where
  "frames_of sync [] out \<longleftrightarrow> out = []"
| "frames_of sync (rq # rqs) out \<longleftrightarrow> (\<exists>fr rest. out = fr @ rest \<and> is_frame (req_code rq) sync (req_body rq) fr \<and> frames_of (sync + 1) rqs rest)"

context client
begin

lemma send_all_frames:
  assumes "wf s" and "\<forall>rq \<in> set rqs. args_ok mp rq" and "send_all mp wv s rqs = Some s'"
  shows "wf s' \<and> s_wrcnt s' = s_wrcnt s + of_nat (length rqs) \<and> (\<exists>fs. frames_of (s_reqid s) rqs fs \<and> out s' = out s @ fs)"
  using assms
proof (induction rqs arbitrary: s)
  case (Cons rq rqs)
  then obtain r s1 where r: "send mp wv s rq = Some (r, s1)" "r \<noteq> -1" "send_all mp wv s1 rqs = Some s'"
    by (auto split: option.splits if_splits)
  from send_ok [OF Cons.prems(1), of rq] Cons.prems(2) r obtain fr where
    1: "wf s1" "s_reqid s1 = s_reqid s + 1" "s_wrcnt s1 = s_wrcnt s + 1" "is_frame (req_code rq) (s_reqid s) (req_body rq) fr" "out s1 = out s @ fr"
    by (auto simp: sent_def)
  from Cons.IH [OF 1(1) _ r(3)] Cons.prems(2) obtain fs where
    "wf s'" "s_wrcnt s' = s_wrcnt s1 + of_nat (length rqs)" "frames_of (s_reqid s1) rqs fs" "out s' = out s1 @ fs" by auto
  with 1 show ?case by (auto simp: algebra_simps)
qed simp

end

text \<open>Sending does not touch what the peer will deliver.\<close>

lemma net_writer_input: "stream_writer (\<lambda>s. net_wf s \<and> net_in s = i) net_out tnt_net_writev"
proof
  fix s :: "'a net_stream" and iov :: "bytes list" and r s'
  assume w: "net_wf s \<and> net_in s = i" "concat iov \<noteq> []"
  from net_writev_ok [of s iov] w show "\<exists>r s'. tnt_net_writev s iov = Some (r, s')" by blast
  assume "tnt_net_writev s iov = Some (r, s')" "r \<noteq> -1"
  with net_writev_ok [of s iov] w show "r = int (length (concat iov)) \<and> (net_wf s' \<and> net_in s' = i) \<and> net_out s' = net_out s @ concat iov
      \<and> s_wrcnt s' = s_wrcnt s + 1 \<and> s_reqid s' = s_reqid s" by auto
qed (simp_all add: net_wf_def net_out_def net_in_def)

text \<open>What the peer of a stream has received.\<close>

definition peer_got :: "'h net_stream \<Rightarrow> bytes" where
  "peer_got s = (case s_data s of Some sn \<Rightarrow> w_out (nt_sys sn) | None \<Rightarrow> [])"

text \<open>C5. A whole session: any sequence of requests with verified arguments, sent over a network stream with nothing
  unanswered and flushed, reaches the peer as exactly one well-formed frame per request, in order and numbered
  consecutively, after what was sent before; and when the peer answers each request (with chunks or not), the reply
  iterator delivers all the answers in order and stops, the bytes after them still unread.  Neither the number of bytes the
  system takes or delivers per call nor interruptions matter.\<close>

theorem session_exchange:
  assumes "msgpuck_laws mp" and "allocator ra" and "grants_all ra" and "net_wf s" and "s_wrcnt s = 0"
    and "\<forall>rq \<in> set rqs. args_ok mp rq" and "length rqs < 2 ^ 32" and "send_all mp tnt_net_writev s rqs = Some s1"
    and "list_all2 (\<lambda>x fr. is_reply (fst x) (snd x) fr) xs frs" and "net_in s = concat frs @ rest" and "answers xs (of_nat (length rqs))"
  shows "\<exists>q s2 it js k s3. tnt_flush s1 = Some (q, s2)
     \<and> (q \<noteq> -1 \<longrightarrow> (\<exists>fs. frames_of (s_reqid s) rqs fs \<and> peer_got s2 = net_out s @ fs))
     \<and> tnt_iter_reply ra None s2 = Some (Some it)
     \<and> drain (tnt_next mp ra (tnt_net_reply mp ra)) (Suc (length xs)) it = Some (js, k) \<and> list_all2 rep_at xs js
     \<and> it_status k = TNT_ITER_OK \<and> iter_stream k = Some s3 \<and> s_wrcnt s3 = 0 \<and> net_in s3 = rest"
proof -
  have c: "client mp (\<lambda>s. net_wf s \<and> net_in s = concat frs @ rest) net_out tnt_net_writev"
    using assms(1) net_writer_input by (rule client.intro)
  obtain fs where f: "net_wf s1" "net_in s1 = concat frs @ rest" "s_wrcnt s1 = of_nat (length rqs)"
    "frames_of (s_reqid s) rqs fs" "net_out s1 = net_out s @ fs"
    using client.send_all_frames [OF c _ assms(6,8)] assms(4,5,10) by auto
  obtain sn where "s_data s1 = Some sn" using f(1) by (auto simp: net_wf_def)
  from net_flush_ok [OF f(1) this] f obtain q s2 sn2 where
    2: "tnt_flush s1 = Some (q, s2)" "net_wf s2" "net_in s2 = concat frs @ rest" "s_wrcnt s2 = of_nat (length rqs)" "s_data s2 = Some sn2"
       "q \<noteq> -1 \<longrightarrow> w_out (nt_sys sn2) = net_out s @ fs" by auto
  have a: "answers xs (s_wrcnt s2)" using assms(11) 2(4) by simp
  obtain it where it: "tnt_iter_reply ra None s2 = Some (Some it)" "net_todo rest xs it"
    using reply_start_todo [OF assms(2,3) 2(2) assms(9) 2(3) a] by blast
  from net_drain [OF assms(1-3) it(2)] 2(1,5,6) it(1) f(4) show ?thesis unfolding peer_got_def by fastforce
qed

theorem session_exchange_witness:
  "\<exists>s1 q s2 it js k s3. send_all mp_ref tnt_net_writev (demo_link 256 (demo_reply @ [7]) 0) [RPing] = Some s1 \<and> tnt_flush s1 = Some (q, s2)
     \<and> tnt_iter_reply (custom_realloc os_ok) None s2 = Some (Some it)
     \<and> drain (tnt_next mp_ref (custom_realloc os_ok) (tnt_net_reply mp_ref (custom_realloc os_ok))) 2 it = Some (js, k)
     \<and> list_all2 rep_at [(demo_hs, demo_es)] js \<and> iter_stream k = Some s3 \<and> s_wrcnt s3 = 0 \<and> net_in s3 = [7]"
proof -
  let ?s = "demo_link 256 (demo_reply @ [7]) 0"
  obtain hdr where h: "encode_header mp_ref TNT_OP_PING (s_reqid ?s) = Some hdr" using ref.encode_header_ok by blast
  have hl: "length hdr \<le> 25" using h by (auto simp: encode_header_def dest!: in_array_length)
  obtain v where w: "with_len mp_ref [hdr, mp_encode_map mp_ref 0] = Some v" using ref.with_len_some by blast
  have v: "tnt_ping mp_ref tnt_net_writev ?s = tnt_net_writev (next_reqid ?s) v" using h w by (simp add: tnt_ping_def in_array_def ref.enc_map_one)
  have "length (concat v) \<le> 256"
    using w hl by (auto simp: with_len_def ref.enc_map_one split: Option.bind_splits dest!: in_array_length)
  note v = v this
  have "net_wf (next_reqid ?s)" "send_room (next_reqid ?s) (length (concat v) + 0)"
    using v(2) demo_link_ok(1,5) [of 256 "demo_reply @ [7]" 0] by (auto simp: next_reqid_def net_wf_def send_room_def)
  from net_writev_room [OF this] v(1) obtain s1 where 1: "send_all mp_ref tnt_net_writev ?s [RPing] = Some s1" by auto
  have "final_reply demo_hs demo_es"
    by (simp add: final_reply_def demo_hs_def demo_es_def body_list_def num_val_def last_val_def TNT_CHUNK_def proto_consts)
  then have a: "answers [(demo_hs, demo_es)] (of_nat (length [RPing]))" by (simp add: answers_def finals_def)
  have ok: "\<forall>rq \<in> set [RPing]. args_ok mp_ref rq" "length [RPing] < 2 ^ 32" by (simp_all add: args_ok_def name_ok_def)
  have l: "list_all2 (\<lambda>x fr. is_reply (fst x) (snd x) fr) [(demo_hs, demo_es)] [demo_reply]" "net_in ?s = concat [demo_reply] @ [7]"
    by (simp_all add: demo_is_reply demo_link_ok)
  have n: "Suc (length [(demo_hs, demo_es)]) = 2" by simp
  from session_exchange [OF ref.msgpuck_laws_axioms libc_alloc.allocator_axioms os_ok_grants demo_link_ok(1) demo_link_ok(3) ok 1 l a] 1
  show ?thesis unfolding n by blast
qed

end
